(* ===== verification/LTest_Prelude.thy ===== *)
theory LTest_Prelude
  imports Main
begin

text \<open>
  Shared vocabulary of the development: the outcome of a C++ call as a value (a returned
  value, a raised error, or an exhausted recursion bound), its sequencing operator, and the
  generic facts on lists and finite index sets that the component theories use.
\<close>

section \<open>Outcomes of a call\<close>

text \<open>
  Every way a call of the runtime can fail to return a value: a failed \<open>assert\<close>, an access
  outside a container, an operation whose precondition the language leaves undefined, the
  exceptions of \<open>std::any_cast\<close> and of an empty \<open>std::function\<close>, \<open>std::invalid_argument\<close>, the
  \<open>std::runtime_error\<close> that the checkers raise for a method the specification does not have, the
  exception of \<open>std::get\<close> on a variant, and the other uses of \<open>std::runtime_error\<close>.
\<close>

datatype ltest_error =
    AssertionFailure
  | OutOfRange
  | Undefined
  | BadAnyCast
  | BadFunctionCall
  | InvalidArgument string
  | NoMethod string
  | BadVariantAccess
  | RuntimeError string

datatype 'a res = Ret 'a | Exn ltest_error | OutOfFuel

fun andThen :: "'a res \<Rightarrow> ('a \<Rightarrow> 'b res) \<Rightarrow> 'b res" where
  "andThen (Ret x) f = f x"
| "andThen (Exn e) f = Exn e"
| "andThen OutOfFuel f = OutOfFuel"

definition cpp_assert :: "bool \<Rightarrow> unit res" where
  "cpp_assert b = (if b then Ret () else Exn AssertionFailure)"

definition vector_at :: "'a list \<Rightarrow> nat \<Rightarrow> 'a res" where
  "vector_at xs i = (if i < length xs then Ret (xs ! i) else Exn OutOfRange)"

named_theorems res_simps \<open>evaluation of sequenced outcomes\<close>

lemma andThen_eq_Ret: "andThen m f = Ret y \<longleftrightarrow> (\<exists>x. m = Ret x \<and> f x = Ret y)"
  by (cases m) auto

lemma andThen_cong [fundef_cong]:
  "m = m' \<Longrightarrow> (\<And>x. m' = Ret x \<Longrightarrow> f x = f' x) \<Longrightarrow> andThen m f = andThen m' f'"
  by (cases m') auto

lemma cpp_assert_True [simp]: "cpp_assert True = Ret ()"
  by (simp add: cpp_assert_def)

lemma cpp_assert_eq_Ret [simp]: "cpp_assert b = Ret u \<longleftrightarrow> b"
  by (simp add: cpp_assert_def)

lemma vector_at_in [simp]: "i < length xs \<Longrightarrow> vector_at xs i = Ret (xs ! i)"
  by (simp add: vector_at_def)

lemma vector_at_eq_Ret: "vector_at xs i = Ret y \<longleftrightarrow> i < length xs \<and> y = xs ! i"
  by (auto simp: vector_at_def)

declare andThen_eq_Ret [res_simps] vector_at_eq_Ret [res_simps]

section \<open>Searching an index range\<close>

lemma option_ext: "(\<And>r. a = Some r \<longleftrightarrow> b = Some r) \<Longrightarrow> a = b"
  by (cases b) (metis not_None_eq, simp)

lemma find_append: "find P (xs @ ys) = (case find P xs of None \<Rightarrow> find P ys | Some x \<Rightarrow> Some x)"
  by (induction xs) auto

lemma find_upt_Some: "find P [0..<n] = Some i \<longleftrightarrow> i < n \<and> P i \<and> (\<forall>j<i. \<not> P j)"
  by (auto simp: find_Some_iff)

lemma find_upt_None: "find P [0..<n] = None \<longleftrightarrow> (\<forall>i<n. \<not> P i)"
  by (auto simp: find_None_iff)

section \<open>Bit vectors as index sets\<close>

text \<open>
  The checkers keep the linearized events as a vector of flags. \<open>marked\<close> is the set of
  indices whose flag is up.
\<close>

definition marked :: "bool list \<Rightarrow> nat set" where
  "marked bs = {i. i < length bs \<and> bs ! i}"

lemma finite_marked [simp]: "finite (marked bs)"
  by (simp add: marked_def)

lemma marked_subset: "marked bs \<subseteq> {..<length bs}"
  by (auto simp: marked_def)

lemma marked_replicate_False [simp]: "marked (replicate n False) = {}"
  by (auto simp: marked_def)

lemma marked_update_True: "i < length bs \<Longrightarrow> marked (bs[i := True]) = insert i (marked bs)"
  by (auto simp: marked_def nth_list_update)

lemma marked_update_False: "i < length bs \<Longrightarrow> marked (bs[i := False]) = marked bs - {i}"
  by (auto simp: marked_def nth_list_update)

lemma nth_marked: "i < length bs \<Longrightarrow> bs ! i \<longleftrightarrow> i \<in> marked bs"
  by (simp add: marked_def)

lemma marked_inject: "length bs = length cs \<Longrightarrow> marked bs = marked cs \<longleftrightarrow> bs = cs"
  by (auto simp: list_eq_iff_nth_eq marked_def set_eq_iff)

lemma card_marked_le: "card (marked bs) \<le> length bs"
  using card_mono [OF _ marked_subset [of bs]] by simp

lemma card_marked_full: "card (marked bs) = length bs \<longleftrightarrow> marked bs = {..<length bs}"
proof
  assume "card (marked bs) = length bs"
  then show "marked bs = {..<length bs}"
    by (intro card_subset_eq [OF _ marked_subset]) simp_all
qed simp

end
