(* ===== verification/Value_Wrapper.thy ===== *)
theory Value_Wrapper
  imports LTest_Prelude "HOL-Library.Word"
begin

text \<open>
  \<open>ltest::ValueWrapper\<close> (runtime/include/value_wrapper.h): a type-erased result value with its
  comparison function. Equality is what every checker uses to compare the value the
  specification computes with the value the implementation returned; it can raise.
\<close>

section \<open>Type-erased values\<close>

text \<open>
  \<open>std::any\<close> over the types that the specifications of the repository wrap, one constructor per
  C++ type, and the type tag that \<open>std::any_cast\<close> compares. The enumerators of libcoro's result types
  are kept by name; an \<open>expected\<close> is a value or an error enumerator.
\<close>

datatype any_value =
    AnyInt int
  | AnyBool bool
  | AnySize "64 word"
  | AnyOptInt "int option"
  | AnyTicket int
  | AnyPtrdiff int
  | AnyQueueProduce string
  | AnyQueueExpected "string + int"
  | AnyRingProduce string
  | AnyRingExpected "string + int"
  | AnyRingSnapshot "64 word" bool bool
  | AnyRingInternal "64 word" "64 word" "64 word" bool int
  | AnyAcquireResult string
  | AnyNullopt
  | AnyVoid

datatype any_type =
    TInt | TBool | TSize | TOptInt | TTicket | TPtrdiff | TQueueProduce | TQueueExpected
  | TRingProduce | TRingExpected | TRingSnapshot | TRingInternal | TAcquireResult | TNullopt | TVoid

fun type_of :: "any_value \<Rightarrow> any_type" where
  "type_of (AnyInt _) = TInt"
| "type_of (AnyBool _) = TBool"
| "type_of (AnySize _) = TSize"
| "type_of (AnyOptInt _) = TOptInt"
| "type_of (AnyTicket _) = TTicket"
| "type_of (AnyPtrdiff _) = TPtrdiff"
| "type_of (AnyQueueProduce _) = TQueueProduce"
| "type_of (AnyQueueExpected _) = TQueueExpected"
| "type_of (AnyRingProduce _) = TRingProduce"
| "type_of (AnyRingExpected _) = TRingExpected"
| "type_of (AnyRingSnapshot _ _ _) = TRingSnapshot"
| "type_of (AnyRingInternal _ _ _ _ _) = TRingInternal"
| "type_of (AnyAcquireResult _) = TAcquireResult"
| "type_of AnyNullopt = TNullopt"
| "type_of AnyVoid = TVoid"

text \<open>
  The comparison functions that occur: \<open>GetDefaultCompator<T>()\<close> for a type \<open>T\<close>, and the one of
  \<open>void_v\<close> that accepts everything.
\<close>

datatype comp_func = DefaultComparator any_type | VoidComparator

record value_wrapper =
  vw_value :: "any_value option"
  vw_compare :: "comp_func option"

definition HasValue :: "value_wrapper \<Rightarrow> bool" where
  "HasValue w = (vw_value w \<noteq> None)"

text \<open>\<open>GetValue<T>()\<close> is \<open>std::any_cast<T>\<close>: it raises when the held type is not \<open>T\<close>.\<close>

definition GetValue :: "any_type \<Rightarrow> value_wrapper \<Rightarrow> any_value res" where
  "GetValue T w =
     (case vw_value w of
        None \<Rightarrow> Exn BadAnyCast
      | Some v \<Rightarrow> if type_of v = T then Ret v else Exn BadAnyCast)"

text \<open>
  \<open>GetDefaultCompator<T>()\<close>. The libcoro specifications specialise it for their result types, without
  the test for a missing value; an empty wrapper then raises.
\<close>

definition compare_values :: "any_type \<Rightarrow> value_wrapper \<Rightarrow> value_wrapper \<Rightarrow> bool res" where
  "compare_values T a b = andThen (GetValue T a) (\<lambda>l. andThen (GetValue T b) (\<lambda>r. Ret (l = r)))"

definition has_specialised_compator :: "any_type \<Rightarrow> bool" where
  "has_specialised_compator T \<longleftrightarrow>
     T \<in> {TQueueProduce, TQueueExpected, TRingProduce, TRingExpected, TRingSnapshot, TRingInternal, TAcquireResult}"

definition GetDefaultCompator :: "any_type \<Rightarrow> value_wrapper \<Rightarrow> value_wrapper \<Rightarrow> bool res" where
  "GetDefaultCompator T a b =
     (if T = TNullopt then Ret True
      else if has_specialised_compator T then compare_values T a b
      else if HasValue a \<noteq> HasValue b then Ret False
      else if \<not> HasValue a \<and> \<not> HasValue b then Ret True
      else compare_values T a b)"

text \<open>\<open>operator==\<close> calls the comparison function of its left operand.\<close>

definition vw_eq :: "value_wrapper \<Rightarrow> value_wrapper \<Rightarrow> bool res" where
  "vw_eq a b =
     (case vw_compare a of
        None \<Rightarrow> Exn BadFunctionCall
      | Some VoidComparator \<Rightarrow> Ret True
      | Some (DefaultComparator T) \<Rightarrow> GetDefaultCompator T a b)"

text \<open>The implicit constructor from a value of type \<open>T\<close>, the default constructor, and \<open>void_v\<close>.\<close>

definition wrap :: "any_value \<Rightarrow> value_wrapper" where
  "wrap v = \<lparr>vw_value = Some v, vw_compare = Some (DefaultComparator (type_of v))\<rparr>"

definition empty_wrapper :: value_wrapper where
  "empty_wrapper = \<lparr>vw_value = None, vw_compare = None\<rparr>"

definition void_v :: value_wrapper where
  "void_v = \<lparr>vw_value = Some AnyVoid, vw_compare = Some VoidComparator\<rparr>"

section \<open>Comparison of results\<close>

lemmas vw_defs = vw_eq_def GetDefaultCompator_def compare_values_def GetValue_def HasValue_def wrap_def void_v_def
  empty_wrapper_def

lemma vw_eq_wrap:
  "vw_eq (wrap v) (wrap w) =
     (if type_of v = TNullopt then Ret True
      else if type_of v = type_of w then Ret (v = w) else Exn BadAnyCast)"
  by (auto simp: vw_defs)

lemma vw_eq_void [simp]: "vw_eq void_v w = Ret True"
  by (simp add: vw_defs)

lemma vw_eq_empty [simp]: "vw_eq empty_wrapper w = Exn BadFunctionCall"
  by (simp add: vw_defs)

lemma vw_eq_void_right: "type_of v \<noteq> TNullopt \<Longrightarrow> type_of v \<noteq> TVoid \<Longrightarrow> vw_eq (wrap v) void_v = Exn BadAnyCast"
  by (auto simp: vw_defs)

text \<open>
  Results a method can produce without the comparison ever raising: \<open>void_v\<close> and wrapped
  values of one C++ type.
\<close>

definition result_of_type :: "any_type \<Rightarrow> value_wrapper \<Rightarrow> bool" where
  "result_of_type T w = (if T = TVoid then w = void_v else \<exists>v. w = wrap v \<and> type_of v = T)"

lemma vw_eq_same_type:
  "result_of_type T a \<Longrightarrow> result_of_type T b \<Longrightarrow> \<exists>r. vw_eq a b = Ret r"
  by (auto simp: result_of_type_def vw_eq_wrap split: if_splits)

end
