(* ===== verification/Event_Matching.thy ===== *)
theory Event_Matching
  imports LTest_Prelude
begin

text \<open>
  Invocations and responses of a history, seen through two key functions: \<open>ik e = Some k\<close> when
  the event \<open>e\<close> invokes the operation \<open>k\<close>, \<open>rk e = Some k\<close> when it completes it. The
  reference definition of the response of an invocation, and the facts by which the index maps
  that the checkers build are compared with it.
\<close>

definition distinct_keys :: "('e \<Rightarrow> 'k option) \<Rightarrow> 'e list \<Rightarrow> bool" where
  "distinct_keys f h \<longleftrightarrow> (\<forall>i<length h. \<forall>j<i. f (h ! i) \<noteq> None \<longrightarrow> f (h ! j) \<noteq> f (h ! i))"

definition well_matched :: "('e \<Rightarrow> 'k option) \<Rightarrow> ('e \<Rightarrow> 'k option) \<Rightarrow> 'e list \<Rightarrow> bool" where
  "well_matched ik rk h \<longleftrightarrow>
     (\<forall>i<length h. (ik (h ! i) = None) \<noteq> (rk (h ! i) = None)) \<and>
     distinct_keys ik h \<and> distinct_keys rk h \<and>
     (\<forall>r<length h. rk (h ! r) \<noteq> None \<longrightarrow> (\<exists>i<r. ik (h ! i) = rk (h ! r)))"

definition response_of :: "('e \<Rightarrow> 'k option) \<Rightarrow> ('e \<Rightarrow> 'k option) \<Rightarrow> 'e list \<Rightarrow> nat \<Rightarrow> nat option" where
  "response_of ik rk h i =
     (if i < length h \<and> ik (h ! i) \<noteq> None
      then find (\<lambda>r. rk (h ! r) = ik (h ! i)) [0..<length h] else None)"

text \<open>The index a map of invocations by key holds after the events of \<open>h\<close>.\<close>

definition invoke_index :: "('e \<Rightarrow> 'k option) \<Rightarrow> 'e list \<Rightarrow> 'k \<Rightarrow> nat option" where
  "invoke_index ik h k = find (\<lambda>i. ik (h ! i) = Some k) [0..<length h]"

section \<open>Unique keys\<close>

lemma inv_or_rsp:
  "well_matched ik rk h \<Longrightarrow> i < length h \<Longrightarrow> (ik (h ! i) = None) \<noteq> (rk (h ! i) = None)"
  by (simp add: well_matched_def)

lemma unique_index:
  assumes "distinct_keys f h" "i < length h" "j < length h" "f (h ! i) = Some k" "f (h ! j) = Some k"
  shows "i = j"
proof (rule ccontr)
  assume "i \<noteq> j"
  then consider "i < j" | "j < i" by linarith
  then show False
    using assms unfolding distinct_keys_def by cases (metis option.discI)+
qed

lemma inv_unique:
  "well_matched ik rk h \<Longrightarrow> i < length h \<Longrightarrow> j < length h \<Longrightarrow> ik (h ! i) = Some k \<Longrightarrow> ik (h ! j) = Some k \<Longrightarrow> i = j"
  by (rule unique_index [of ik h]) (simp_all add: well_matched_def)

lemma rsp_unique:
  "well_matched ik rk h \<Longrightarrow> i < length h \<Longrightarrow> j < length h \<Longrightarrow> rk (h ! i) = Some k \<Longrightarrow> rk (h ! j) = Some k \<Longrightarrow> i = j"
  by (rule unique_index [of rk h]) (simp_all add: well_matched_def)

lemma rsp_has_inv:
  assumes "well_matched ik rk h" "r < length h" "rk (h ! r) = Some k"
  shows "\<exists>i<r. ik (h ! i) = Some k"
proof -
  have "\<forall>r<length h. rk (h ! r) \<noteq> None \<longrightarrow> (\<exists>i<r. ik (h ! i) = rk (h ! r))"
    using assms(1) unfolding well_matched_def by blast
  then show ?thesis
    using assms(2,3) by (metis option.discI)
qed

lemma response_of_eq_Some:
  assumes "well_matched ik rk h"
  shows "response_of ik rk h i = Some r \<longleftrightarrow>
    (\<exists>k. i < r \<and> r < length h \<and> ik (h ! i) = Some k \<and> rk (h ! r) = Some k)"
proof
  assume "response_of ik rk h i = Some r"
  then obtain k where k: "i < length h" "ik (h ! i) = Some k" "r < length h" "rk (h ! r) = Some k"
    by (auto simp: response_of_def find_upt_Some split: if_splits)
  obtain i' where "i' < r" "ik (h ! i') = Some k"
    using rsp_has_inv [OF assms k(3,4)] by blast
  moreover have "i' = i"
    using inv_unique [OF assms _ k(1) _ k(2)] calculation k(3) by simp
  ultimately show "\<exists>k. i < r \<and> r < length h \<and> ik (h ! i) = Some k \<and> rk (h ! r) = Some k"
    using k by blast
next
  assume "\<exists>k. i < r \<and> r < length h \<and> ik (h ! i) = Some k \<and> rk (h ! r) = Some k"
  then obtain k where k: "i < r" "r < length h" "ik (h ! i) = Some k" "rk (h ! r) = Some k"
    by blast
  have "\<forall>j<r. rk (h ! j) \<noteq> Some k"
    using rsp_unique [OF assms _ k(2) _ k(4)] k(2) by (metis less_trans nat_neq_iff)
  with k show "response_of ik rk h i = Some r"
    by (simp add: response_of_def find_upt_Some)
qed

lemma invoke_index_eq_Some:
  assumes "well_matched ik rk h"
  shows "invoke_index ik h k = Some i \<longleftrightarrow> i < length h \<and> ik (h ! i) = Some k"
proof
  assume "i < length h \<and> ik (h ! i) = Some k"
  moreover from this have "ik (h ! j) \<noteq> Some k" if "j < i" for j
    using inv_unique [OF assms, of i j k] that by auto
  ultimately show "invoke_index ik h k = Some i"
    by (simp add: invoke_index_def find_upt_Some)
qed (simp add: invoke_index_def find_upt_Some)

section \<open>Extending a history by one event\<close>

lemma distinct_keys_prefix: "distinct_keys f (h @ [e]) \<Longrightarrow> distinct_keys f h"
  by (simp add: distinct_keys_def nth_append less_Suc_eq)

lemma well_matched_prefix:
  assumes "well_matched ik rk (h @ [e])"
  shows "well_matched ik rk h"
proof -
  have nth: "(h @ [e]) ! i = h ! i" if "i < length h" for i
    using that by (simp add: nth_append)
  have "\<exists>i<r. ik (h ! i) = rk (h ! r)" if r: "r < length h" "rk (h ! r) \<noteq> None" for r
  proof -
    obtain k where k: "rk (h ! r) = Some k" using r(2) by auto
    then obtain i where "i < r" "ik ((h @ [e]) ! i) = Some k"
      using rsp_has_inv [OF assms, of r k] r(1) nth by auto
    then show ?thesis using nth [of i] k r(1) by auto
  qed
  moreover have "distinct_keys ik h" "distinct_keys rk h"
    using assms unfolding well_matched_def by (blast intro: distinct_keys_prefix)+
  moreover have "(ik (h ! i) = None) \<noteq> (rk (h ! i) = None)" if "i < length h" for i
    using inv_or_rsp [OF assms, of i] nth [OF that] that by simp
  ultimately show ?thesis
    unfolding well_matched_def by blast
qed

lemma well_matched_snoc_cases:
  assumes "well_matched ik rk (h @ [e])"
  obtains (invoke) k where "ik e = Some k" "rk e = None" "invoke_index ik h k = None"
  | (respond) k i where "ik e = None" "rk e = Some k" "i < length h" "ik (h ! i) = Some k"
      "response_of ik rk h i = None" "invoke_index ik h k = Some i"
proof (cases "ik e")
  case None
  then obtain k where k: "rk e = Some k"
    using inv_or_rsp [OF assms, of "length h"] by (auto simp: nth_append)
  obtain i where i: "i < length h" "ik (h ! i) = Some k"
    using rsp_has_inv [OF assms, of "length h" k] k by (auto simp: nth_append)
  have "response_of ik rk h i = None"
  proof (rule ccontr)
    assume "response_of ik rk h i \<noteq> None"
    then obtain r where r: "r < length h" "rk (h ! r) = Some k"
      using i by (auto simp: response_of_def find_upt_Some split: if_splits)
    then show False
      using rsp_unique [OF assms, of r "length h" k] k by (simp add: nth_append)
  qed
  moreover have "invoke_index ik h k = Some i"
    using i invoke_index_eq_Some [OF well_matched_prefix [OF assms]] by blast
  ultimately show ?thesis
    using None k i by (blast intro: respond)
next
  case (Some k)
  have "rk e = None"
    using inv_or_rsp [OF assms, of "length h"] Some by (auto simp: nth_append)
  moreover have "ik (h ! j) \<noteq> Some k" if "j < length h" for j
    using inv_unique [OF assms, of j "length h" k] Some that by (auto simp: nth_append)
  then have "invoke_index ik h k = None"
    by (simp add: invoke_index_def find_upt_None)
  ultimately show ?thesis
    using Some by (blast intro: invoke)
qed

lemma invoke_index_snoc:
  "invoke_index ik (h @ [e]) k =
     (case invoke_index ik h k of Some i \<Rightarrow> Some i
      | None \<Rightarrow> if ik e = Some k then Some (length h) else None)"
proof -
  have "find (\<lambda>i. ik ((h @ [e]) ! i) = Some k) [0..<length h] = find (\<lambda>i. ik (h ! i) = Some k) [0..<length h]"
    by (intro find_cong) (auto simp: nth_append)
  then show ?thesis
    by (simp add: invoke_index_def find_append split: option.splits)
qed

lemma response_of_snoc:
  assumes wm: "well_matched ik rk (h @ [e])"
  shows "response_of ik rk (h @ [e]) =
    (case rk e of None \<Rightarrow> response_of ik rk h
     | Some k \<Rightarrow> (response_of ik rk h)(the (invoke_index ik h k) \<mapsto> length h))"
proof -
  note wm' = well_matched_prefix [OF wm]
  have app: "response_of ik rk (h @ [e]) i = Some r \<longleftrightarrow>
     response_of ik rk h i = Some r \<or> (r = length h \<and> i < length h \<and> rk e \<noteq> None \<and> ik (h ! i) = rk e)" for i r
  proof (cases "r < length h")
    case True
    then show ?thesis
      by (simp add: response_of_eq_Some [OF wm] response_of_eq_Some [OF wm'] nth_append cong: conj_cong)
  next
    case False
    then show ?thesis
      by (cases "r = length h")
        (auto simp: response_of_eq_Some [OF wm] response_of_eq_Some [OF wm'] nth_append)
  qed
  from wm show ?thesis
  proof (cases rule: well_matched_snoc_cases)
    case (invoke k)
    then have "response_of ik rk (h @ [e]) i = response_of ik rk h i" for i
      by (intro option_ext) (simp add: app)
    with invoke show ?thesis
      by (simp add: fun_eq_iff)
  next
    case (respond k j)
    have *: "response_of ik rk (h @ [e]) i = ((response_of ik rk h)(j \<mapsto> length h)) i" for i
    proof (cases "i = j")
      case True
      then show ?thesis using app [of j "length h"] respond by simp
    next
      case False
      then have "\<not> (i < length h \<and> ik (h ! i) = rk e)"
        using inv_unique [OF wm', of i j k] respond by auto
      with False show ?thesis
        by (intro option_ext) (auto simp: app)
    qed
    show ?thesis
      using respond * by (simp add: fun_eq_iff)
  qed
qed

section \<open>Tables of per-event information\<close>

text \<open>
  The checkers fill a table with one entry per event: \<open>base e\<close> when the event is reached, and
  \<open>upd r\<close> on the entry of its invocation when the response \<open>r\<close> is reached. Entries of events not yet
  reached hold the default \<open>d\<close>. \<open>snapshot\<close> is the table after the events of \<open>h\<close>.
\<close>

fun table_entry :: "('e \<Rightarrow> 'i) \<Rightarrow> (nat \<Rightarrow> 'i \<Rightarrow> 'i) \<Rightarrow> 'e \<Rightarrow> nat option \<Rightarrow> 'i" where
  "table_entry base upd e None = base e"
| "table_entry base upd e (Some r) = upd r (base e)"

definition snapshot :: "('e \<Rightarrow> 'k option) \<Rightarrow> ('e \<Rightarrow> 'k option) \<Rightarrow> ('e \<Rightarrow> 'i) \<Rightarrow> (nat \<Rightarrow> 'i \<Rightarrow> 'i) \<Rightarrow> 'i \<Rightarrow>
    'e list \<Rightarrow> nat \<Rightarrow> 'i list" where
  "snapshot ik rk base upd d h n =
     map (\<lambda>j. if j < length h then table_entry base upd (h ! j) (response_of ik rk h j) else d) [0..<n]"

lemma length_snapshot [simp]: "length (snapshot ik rk base upd d h n) = n"
  by (simp add: snapshot_def)

lemma snapshot_Nil: "snapshot ik rk base upd d [] n = replicate n d"
  by (simp add: snapshot_def map_replicate_const)

lemma snapshot_nth:
  "j < length h \<Longrightarrow> length h = n \<Longrightarrow> snapshot ik rk base upd d h n ! j =
     table_entry base upd (h ! j) (response_of ik rk h j)"
  by (simp add: snapshot_def)

lemma response_of_beyond: "length h \<le> i \<Longrightarrow> response_of ik rk h i = None"
  by (simp add: response_of_def)

lemma snapshot_invoke:
  assumes "well_matched ik rk (h @ [e])" "rk e = None" "length h < n"
  shows "snapshot ik rk base upd d (h @ [e]) n = (snapshot ik rk base upd d h n)[length h := base e]"
proof (rule nth_equalityI)
  fix j assume "j < length (snapshot ik rk base upd d (h @ [e]) n)"
  then show "snapshot ik rk base upd d (h @ [e]) n ! j = (snapshot ik rk base upd d h n)[length h := base e] ! j"
    using assms by (cases "j = length h")
      (auto simp: snapshot_def nth_append response_of_snoc [OF assms(1)] response_of_beyond nth_list_update)
qed simp

lemma snapshot_respond:
  assumes "well_matched ik rk (h @ [e])" "rk e = Some k" "invoke_index ik h k = Some i"
    "response_of ik rk h i = None" "i < length h" "length h < n"
  shows "snapshot ik rk base upd d (h @ [e]) n =
    (let s = (snapshot ik rk base upd d h n)[length h := base e] in s[i := upd (length h) (s ! i)])"
proof (rule nth_equalityI)
  fix j assume j: "j < length (snapshot ik rk base upd d (h @ [e]) n)"
  consider "j = length h" | "j = i" | "j \<noteq> i" "j \<noteq> length h" by blast
  then show "snapshot ik rk base upd d (h @ [e]) n ! j =
    (let s = (snapshot ik rk base upd d h n)[length h := base e] in s[i := upd (length h) (s ! i)]) ! j"
    using assms(2-6) j unfolding Let_def
    by cases (auto simp: snapshot_def nth_append response_of_snoc [OF assms(1)] response_of_beyond nth_list_update)
qed (simp add: Let_def)

end
