(* ===== verification/Linearization_Search.thy ===== *)
theory Linearization_Search
  imports LTest_Prelude "HOL-Library.Word"
begin

text \<open>
  The backtracking search shared by the recursive checkers
  (runtime/include/linearization_search.h), its contract with an adapter, and the proof that it
  decides the existence of a linearization: it always returns, and it returns true exactly when
  the completed events can be ordered consistently with real time and with the specification.
\<close>

unbundle bit_operations_syntax

section \<open>The adapter and the environment of a search\<close>

text \<open>
  The adapter contract: which events invoke and which respond, the index of the response of an
  invocation (\<open>kNoResponseIndex\<close> is \<open>None\<close>), the application of an invocation to a specification
  state (\<open>Ret None\<close> is the answer false), and whether a pending invocation may be dropped (an
  adapter without that member answers false).
\<close>

record 'st adapter =
  IsInvoke :: "nat \<Rightarrow> bool"
  IsResponse :: "nat \<Rightarrow> bool"
  ResponseIndex :: "nat \<Rightarrow> nat option"
  TryApply :: "nat \<Rightarrow> 'st \<Rightarrow> 'st option res"
  CanDropPendingInvoke :: "nat \<Rightarrow> bool"

text \<open>
  The template and value parameters of one search. \<open>cache_traits\<close> is \<open>None\<close> for a state type that
  does not satisfy \<open>SearchCacheableState\<close>; otherwise it holds \<open>Hash\<close> and \<open>Equal\<close>.
\<close>

record 'st search_env =
  history_size :: nat
  adapter_of :: "'st adapter"
  on_complete :: "'st \<Rightarrow> bool"
  cache_traits :: "(('st \<Rightarrow> 64 word) \<times> ('st \<Rightarrow> 'st \<Rightarrow> bool)) option"

definition AcceptAnyCompletedLinearization :: "'st \<Rightarrow> bool" where
  "AcceptAnyCompletedLinearization st = True"

section \<open>The cache of failed positions\<close>

type_synonym 'st cache_key = "bool list \<times> 'st"

definition SearchCacheKeyHash :: "('st \<Rightarrow> 64 word) \<Rightarrow> 'st cache_key \<Rightarrow> 64 word" where
  "SearchCacheKeyHash hash key =
     (let h = foldl (\<lambda>h v. (h XOR (if v then 1 else 0)) * 1099511628211) 1469598103934665603 (fst key)
      in h XOR (hash (snd key) + 0x9e3779b97f4a7c15 + push_bit 6 h + drop_bit 2 h))"

definition SearchCacheKeyEqual :: "('st \<Rightarrow> 'st \<Rightarrow> bool) \<Rightarrow> 'st cache_key \<Rightarrow> 'st cache_key \<Rightarrow> bool" where
  "SearchCacheKeyEqual eq lhs rhs \<longleftrightarrow> fst lhs = fst rhs \<and> eq (snd lhs) (snd rhs)"

text \<open>
  The mutable variables of one search: the flags of linearized events and the hash set of failed
  positions. A lookup in the hash set compares the hash codes first, then calls \<open>Equal\<close>.
\<close>

record 'st search_mem =
  linearized :: "bool list"
  failed :: "'st cache_key list"

definition Contains :: "'st search_env \<Rightarrow> 'st search_mem \<Rightarrow> 'st \<Rightarrow> bool" where
  "Contains E m st =
     (case cache_traits E of
        None \<Rightarrow> False
      | Some (hash, eq) \<Rightarrow>
          list_ex (\<lambda>k. SearchCacheKeyHash hash k = SearchCacheKeyHash hash (linearized m, st) \<and>
                       SearchCacheKeyEqual eq (linearized m, st) k) (failed m))"

definition Insert :: "'st search_env \<Rightarrow> 'st search_mem \<Rightarrow> 'st \<Rightarrow> 'st search_mem" where
  "Insert E m st =
     (case cache_traits E of
        None \<Rightarrow> m
      | Some _ \<Rightarrow> if Contains E m st then m else m\<lparr>failed := (linearized m, st) # failed m\<rparr>)"

section \<open>The search\<close>

definition set_flag :: "nat \<Rightarrow> bool \<Rightarrow> 'st search_mem \<Rightarrow> 'st search_mem" where
  "set_flag i b m = m\<lparr>linearized := (linearized m)[i := b]\<rparr>"

definition set_flags :: "nat \<Rightarrow> nat option \<Rightarrow> bool \<Rightarrow> 'st search_mem \<Rightarrow> 'st search_mem" where
  "set_flags i ri b m =
     (case ri of None \<Rightarrow> set_flag i b m | Some r \<Rightarrow> set_flag r b (set_flag i b m))"

definition response_linearized :: "nat option \<Rightarrow> 'st search_mem \<Rightarrow> bool res" where
  "response_linearized ri m =
     (case ri of None \<Rightarrow> Ret False | Some r \<Rightarrow> vector_at (linearized m) r)"

text \<open>\<open>if (call) return true;\<close> followed by the rest of the loop body.\<close>

fun orElse :: "(bool \<times> 'm) res \<Rightarrow> ('m \<Rightarrow> (bool \<times> 'm) res) \<Rightarrow> (bool \<times> 'm) res" where
  "orElse (Ret (True, m)) k = Ret (True, m)"
| "orElse (Ret (False, m)) k = k m"
| "orElse (Exn e) k = Exn e"
| "orElse OutOfFuel k = OutOfFuel"

text \<open>
  \<open>search_step\<close> is the lambda \<open>step\<close>, \<open>search_scan\<close> its \<open>for\<close> loop over the remaining event
  indices. The recursion depth is bounded by the first argument; both return whether a
  linearization was found together with the mutable variables as the call leaves them.
\<close>

fun search_step :: "'st search_env \<Rightarrow> nat \<Rightarrow> 'st search_mem \<Rightarrow> 'st \<Rightarrow> nat \<Rightarrow> (bool \<times> 'st search_mem) res"
  and search_scan :: "'st search_env \<Rightarrow> nat \<Rightarrow> nat list \<Rightarrow> 'st search_mem \<Rightarrow> 'st \<Rightarrow> nat \<Rightarrow> (bool \<times> 'st search_mem) res"
where
  "search_step E 0 m st count = OutOfFuel"
| "search_step E (Suc fuel) m st count =
     (if count = history_size E then Ret (on_complete E st, m)
      else if Contains E m st then Ret (False, m)
      else orElse (search_scan E fuel [0..<history_size E] m st count)
             (\<lambda>m'. Ret (False, Insert E m' st)))"
| "search_scan E fuel [] m st count = Ret (False, m)"
| "search_scan E fuel (i # is) m st count =
     (if linearized m ! i then search_scan E fuel is m st count
      else if IsResponse (adapter_of E) i then Ret (False, m)
      else if \<not> IsInvoke (adapter_of E) i then search_scan E fuel is m st count
      else
        (let ri = ResponseIndex (adapter_of E) i;
             dropping = (ri = None \<and> CanDropPendingInvoke (adapter_of E) i) in
         andThen (response_linearized ri m) (\<lambda>seen.
           if seen then search_scan E fuel is m st count
           else
             orElse (if dropping then search_step E fuel (set_flags i None True m) st (Suc count)
                     else Ret (False, m)) (\<lambda>m1.
               let m2 = (if dropping then set_flags i None False m1 else m1) in
               andThen (TryApply (adapter_of E) i st) (\<lambda>applied.
                 case applied of
                   None \<Rightarrow> search_scan E fuel is m2 st count
                 | Some next_state \<Rightarrow>
                     orElse (search_step E fuel (set_flags i ri True m2) next_state
                               (if ri = None then Suc count else Suc (Suc count))) (\<lambda>m3.
                       search_scan E fuel is (set_flags i ri False m3) st count))))))"

definition RunRecursiveLinearizationSearchImpl :: "'st search_env \<Rightarrow> 'st \<Rightarrow> bool res" where
  "RunRecursiveLinearizationSearchImpl E initial_state =
     (if history_size E = 0 then Ret True
      else andThen (search_step E (Suc (history_size E))
                     \<lparr>linearized = replicate (history_size E) False, failed = []\<rparr> initial_state 0)
             (\<lambda>(found, _). Ret found))"

section \<open>What a linearization is\<close>

text \<open>
  A sequence of invocations is run from a state by applying them one after the other. It respects
  real time when no operation precedes one that had responded before it was invoked.
\<close>

fun run_ops :: "'st adapter \<Rightarrow> nat list \<Rightarrow> 'st \<Rightarrow> 'st option" where
  "run_ops A [] st = Some st"
| "run_ops A (i # is) st =
     (case TryApply A i st of Ret (Some st') \<Rightarrow> run_ops A is st' | _ \<Rightarrow> None)"

definition real_time_order :: "'st adapter \<Rightarrow> nat list \<Rightarrow> bool" where
  "real_time_order A os = sorted_wrt (\<lambda>a b. \<forall>r. ResponseIndex A b = Some r \<longrightarrow> a \<le> r) os"

definition is_linearization :: "'st search_env \<Rightarrow> nat list \<Rightarrow> 'st \<Rightarrow> bool" where
  "is_linearization E os st \<longleftrightarrow>
     distinct os \<and>
     (\<forall>i\<in>set os. i < history_size E \<and> IsInvoke (adapter_of E) i) \<and>
     (\<forall>i<history_size E. IsInvoke (adapter_of E) i \<and> i \<notin> set os \<longrightarrow>
        ResponseIndex (adapter_of E) i = None \<and> CanDropPendingInvoke (adapter_of E) i) \<and>
     real_time_order (adapter_of E) os \<and>
     (\<exists>st'. run_ops (adapter_of E) os st = Some st' \<and> on_complete E st')"

text \<open>
  The same notion in the small steps the search makes: from a set \<open>L\<close> of linearized events, drop or
  linearize one candidate, an invocation that no outstanding response precedes.
\<close>

definition op_events :: "'st adapter \<Rightarrow> nat \<Rightarrow> nat set" where
  "op_events A i = insert i (set_option (ResponseIndex A i))"

definition candidate :: "'st search_env \<Rightarrow> nat set \<Rightarrow> nat \<Rightarrow> bool" where
  "candidate E L i \<longleftrightarrow>
     i < history_size E \<and> i \<notin> L \<and> IsInvoke (adapter_of E) i \<and>
     (\<forall>j<i. j \<notin> L \<longrightarrow> \<not> IsResponse (adapter_of E) j)"

inductive completes :: "'st search_env \<Rightarrow> nat set \<Rightarrow> 'st \<Rightarrow> bool" for E where
  all_linearized: "on_complete E st \<Longrightarrow> completes E {..<history_size E} st"
| drop_pending: "candidate E L i \<Longrightarrow> ResponseIndex (adapter_of E) i = None \<Longrightarrow>
    CanDropPendingInvoke (adapter_of E) i \<Longrightarrow> completes E (insert i L) st \<Longrightarrow> completes E L st"
| linearize_op: "candidate E L i \<Longrightarrow> TryApply (adapter_of E) i st = Ret (Some st') \<Longrightarrow>
    completes E (L \<union> op_events (adapter_of E) i) st' \<Longrightarrow> completes E L st"

definition viable :: "'st search_env \<Rightarrow> nat set \<Rightarrow> 'st \<Rightarrow> nat \<Rightarrow> bool" where
  "viable E L st i \<longleftrightarrow> candidate E L i \<and>
     (ResponseIndex (adapter_of E) i = None \<and> CanDropPendingInvoke (adapter_of E) i \<and>
        completes E (insert i L) st \<or>
      (\<exists>st'. TryApply (adapter_of E) i st = Ret (Some st') \<and>
        completes E (L \<union> op_events (adapter_of E) i) st'))"

lemma completes_iff:
  "completes E L st \<longleftrightarrow> (L = {..<history_size E} \<and> on_complete E st) \<or> (\<exists>i. viable E L st i)"
proof
  assume "completes E L st"
  then show "(L = {..<history_size E} \<and> on_complete E st) \<or> (\<exists>i. viable E L st i)"
    by cases (auto simp: viable_def)
qed (auto simp: viable_def intro: completes.intros)

lemma not_viable_full: "\<not> viable E {..<history_size E} st i"
  by (simp add: viable_def candidate_def)

text \<open>Linearized events come in pairs: an invocation with its response.\<close>

definition paired :: "'st search_env \<Rightarrow> nat set \<Rightarrow> bool" where
  "paired E L \<longleftrightarrow> (\<forall>i r. i < history_size E \<and> IsInvoke (adapter_of E) i \<and>
     ResponseIndex (adapter_of E) i = Some r \<longrightarrow> (i \<in> L \<longleftrightarrow> r \<in> L))"

text \<open>A linearization of the events that are not yet in \<open>L\<close>.\<close>

definition linearizes_rest :: "'st search_env \<Rightarrow> nat set \<Rightarrow> nat list \<Rightarrow> 'st \<Rightarrow> bool" where
  "linearizes_rest E L os st \<longleftrightarrow>
     distinct os \<and>
     (\<forall>i\<in>set os. i < history_size E \<and> IsInvoke (adapter_of E) i \<and> i \<notin> L) \<and>
     (\<forall>i<history_size E. IsInvoke (adapter_of E) i \<and> i \<notin> set os \<and> i \<notin> L \<longrightarrow>
        ResponseIndex (adapter_of E) i = None \<and> CanDropPendingInvoke (adapter_of E) i) \<and>
     real_time_order (adapter_of E) os \<and>
     (\<exists>st'. run_ops (adapter_of E) os st = Some st' \<and> on_complete E st')"

lemma is_linearization_rest: "is_linearization E os st = linearizes_rest E {} os st"
  by (simp add: is_linearization_def linearizes_rest_def)

text \<open>The invariant of the mutable variables, and what one call promises about its result.\<close>

definition cache_sound :: "'st search_env \<Rightarrow> ('st \<Rightarrow> bool) \<Rightarrow> 'st cache_key list \<Rightarrow> bool" where
  "cache_sound E ok ks \<longleftrightarrow> (\<forall>k\<in>set ks. length (fst k) = history_size E \<and> ok (snd k) \<and>
     \<not> completes E (marked (fst k)) (snd k))"

definition search_inv :: "'st search_env \<Rightarrow> ('st \<Rightarrow> bool) \<Rightarrow> 'st search_mem \<Rightarrow> 'st \<Rightarrow> nat \<Rightarrow> bool" where
  "search_inv E ok m st count \<longleftrightarrow>
     length (linearized m) = history_size E \<and> count = card (marked (linearized m)) \<and>
     paired E (marked (linearized m)) \<and> ok st \<and> cache_sound E ok (failed m)"

definition search_post :: "'st search_env \<Rightarrow> ('st \<Rightarrow> bool) \<Rightarrow> bool \<Rightarrow> 'st search_mem \<Rightarrow> (bool \<times> 'st search_mem) res \<Rightarrow> bool" where
  "search_post E ok P m out \<longleftrightarrow>
     (\<exists>b m'. out = Ret (b, m') \<and> b = P \<and>
        (\<not> b \<longrightarrow> linearized m' = linearized m \<and> cache_sound E ok (failed m')))"

lemma search_post_Ret [simp]:
  "search_post E ok P m (Ret (b, m')) \<longleftrightarrow>
     b = P \<and> (\<not> b \<longrightarrow> linearized m' = linearized m \<and> cache_sound E ok (failed m'))"
  by (auto simp: search_post_def)

lemma failed_set_flags [simp]: "failed (set_flags i ri b m) = failed m"
  by (simp add: set_flags_def set_flag_def split: option.splits)

lemma length_set_flags [simp]: "length (linearized (set_flags i ri b m)) = length (linearized m)"
  by (simp add: set_flags_def set_flag_def split: option.splits)

lemma marked_set_flags_True:
  "i < length (linearized m) \<Longrightarrow> pred_option (\<lambda>r. r < length (linearized m)) ri \<Longrightarrow>
   marked (linearized (set_flags i ri True m)) = marked (linearized m) \<union> insert i (set_option ri)"
  by (auto simp: set_flags_def set_flag_def marked_update_True split: option.splits)

lemma marked_set_flags_False:
  "i < length (linearized m) \<Longrightarrow> pred_option (\<lambda>r. r < length (linearized m)) ri \<Longrightarrow>
   marked (linearized (set_flags i ri False m)) = marked (linearized m) - insert i (set_option ri)"
  by (auto simp: set_flags_def set_flag_def marked_update_False split: option.splits)

lemma undo_flags:
  assumes "i < length (linearized m)" "pred_option (\<lambda>r. r < length (linearized m)) ri"
    "insert i (set_option ri) \<inter> marked (linearized m) = {}"
    "linearized m' = linearized (set_flags i ri True m)"
  shows "linearized (set_flags i ri False m') = linearized m"
proof -
  have len: "length (linearized m') = length (linearized m)"
    using assms(4) by simp
  then have "marked (linearized (set_flags i ri False m')) = marked (linearized m)"
    using assms marked_set_flags_False [of i m' ri] marked_set_flags_True [of i m ri] by auto
  then show ?thesis
    using marked_inject len by (metis length_set_flags)
qed

text \<open>One iteration of the loop at an invocation that can be tried, with its answer \<open>x\<close> known.\<close>

lemma search_scan_candidate:
  assumes "\<not> linearized m ! i" "\<not> IsResponse (adapter_of E) i" "IsInvoke (adapter_of E) i"
    and "ri = ResponseIndex (adapter_of E) i" "response_linearized ri m = Ret False"
    and "TryApply (adapter_of E) i st = Ret x"
    and "dropping \<longleftrightarrow> ri = None \<and> CanDropPendingInvoke (adapter_of E) i"
  shows "search_scan E fuel (i # is) m st count =
    orElse (if dropping then search_step E fuel (set_flags i None True m) st (Suc count) else Ret (False, m))
     (\<lambda>m1. case x of
         None \<Rightarrow> search_scan E fuel is (if dropping then set_flags i None False m1 else m1) st count
       | Some st' \<Rightarrow>
         orElse (search_step E fuel (set_flags i ri True (if dropping then set_flags i None False m1 else m1)) st'
                   (if ri = None then Suc count else Suc (Suc count)))
           (\<lambda>m'. search_scan E fuel is (set_flags i ri False m') st count))"
  using assms(1-3,5,6) unfolding assms(7) assms(4) by (simp add: Let_def)

lemma search_inv_cache:
  "search_inv E ok m st count \<Longrightarrow> linearized m' = linearized m \<Longrightarrow> cache_sound E ok (failed m') \<Longrightarrow>
   search_inv E ok m' st count"
  by (simp add: search_inv_def)

section \<open>Correctness of the search under the adapter contract\<close>

text \<open>
  What an adapter promises for the histories \<open>h\<close> it accepts (\<open>wf h\<close>) and the specification states
  it keeps (\<open>ok h\<close>): events are invocations or responses, responses follow their own invocation,
  applying an operation returns, and \<open>Equal\<close> relates states only when the first can be simulated
  by the second.
\<close>

locale search_adapter =
  fixes env :: "'h \<Rightarrow> 'st search_env"
    and wf :: "'h \<Rightarrow> bool"
    and ok :: "'h \<Rightarrow> 'st \<Rightarrow> bool"
  assumes kinds: "wf h \<Longrightarrow> i < history_size (env h) \<Longrightarrow>
      IsInvoke (adapter_of (env h)) i \<longleftrightarrow> \<not> IsResponse (adapter_of (env h)) i"
    and response_after: "wf h \<Longrightarrow> i < history_size (env h) \<Longrightarrow> IsInvoke (adapter_of (env h)) i \<Longrightarrow>
      ResponseIndex (adapter_of (env h)) i = Some r \<Longrightarrow>
      i < r \<and> r < history_size (env h) \<and> IsResponse (adapter_of (env h)) r"
    and response_inj: "wf h \<Longrightarrow> i < history_size (env h) \<Longrightarrow> j < history_size (env h) \<Longrightarrow>
      IsInvoke (adapter_of (env h)) i \<Longrightarrow> IsInvoke (adapter_of (env h)) j \<Longrightarrow>
      ResponseIndex (adapter_of (env h)) i = Some r \<Longrightarrow>
      ResponseIndex (adapter_of (env h)) j = Some r \<Longrightarrow> i = j"
    and response_has_invoke: "wf h \<Longrightarrow> r < history_size (env h) \<Longrightarrow> IsResponse (adapter_of (env h)) r \<Longrightarrow>
      \<exists>i<r. IsInvoke (adapter_of (env h)) i \<and> ResponseIndex (adapter_of (env h)) i = Some r"
    and apply_returns: "wf h \<Longrightarrow> i < history_size (env h) \<Longrightarrow> IsInvoke (adapter_of (env h)) i \<Longrightarrow> ok h st \<Longrightarrow>
      \<exists>x. TryApply (adapter_of (env h)) i st = Ret x \<and> pred_option (ok h) x"
    and equal_simulates: "wf h \<Longrightarrow> cache_traits (env h) = Some (hash, eq) \<Longrightarrow> eq s t \<Longrightarrow> ok h s \<Longrightarrow> ok h t \<Longrightarrow>
      i < history_size (env h) \<Longrightarrow> IsInvoke (adapter_of (env h)) i \<Longrightarrow>
      TryApply (adapter_of (env h)) i s = Ret (Some s') \<Longrightarrow>
      \<exists>t'. TryApply (adapter_of (env h)) i t = Ret (Some t') \<and> eq s' t'"
    and equal_completes: "wf h \<Longrightarrow> cache_traits (env h) = Some (hash, eq) \<Longrightarrow> eq s t \<Longrightarrow> ok h s \<Longrightarrow> ok h t \<Longrightarrow>
      on_complete (env h) s \<Longrightarrow> on_complete (env h) t"
begin

lemma candidate_event: "candidate (env h) L i \<Longrightarrow> i < history_size (env h) \<and> IsInvoke (adapter_of (env h)) i"
  by (simp add: candidate_def)

lemma ok_apply:
  "wf h \<Longrightarrow> candidate (env h) L i \<Longrightarrow> ok h st \<Longrightarrow> TryApply (adapter_of (env h)) i st = Ret (Some st') \<Longrightarrow> ok h st'"
  using apply_returns [of h i st] by (auto simp: candidate_def)

text \<open>A state that \<open>Equal\<close> relates to another completes only if the other does.\<close>

lemma equal_completes_from:
  assumes "completes (env h) L s" "wf h" "cache_traits (env h) = Some (hash, eq)"
    "eq s t" "ok h s" "ok h t"
  shows "completes (env h) L t"
  using assms(1,4-6)
proof (induction arbitrary: t rule: completes.induct)
  case (all_linearized st)
  then show ?case
    using equal_completes [OF assms(2,3)] by (auto intro: completes.all_linearized)
next
  case (drop_pending L i st)
  then show ?case
    by (auto intro: completes.drop_pending)
next
  case (linearize_op L i st st')
  obtain t' where t': "TryApply (adapter_of (env h)) i t = Ret (Some t')" "eq st' t'"
    using equal_simulates [OF assms(2,3) linearize_op.prems] linearize_op.hyps candidate_event by blast
  moreover have "ok h st'" "ok h t'"
    using ok_apply [OF assms(2) linearize_op.hyps(1)] linearize_op t'(1) by blast+
  ultimately show ?case
    using linearize_op by (blast intro: completes.linearize_op)
qed

lemma Contains_not_completes:
  assumes "wf h" "search_inv (env h) (ok h) m st count" "Contains (env h) m st"
  shows "\<not> completes (env h) (marked (linearized m)) st"
proof
  assume c: "completes (env h) (marked (linearized m)) st"
  obtain hash eq where tr: "cache_traits (env h) = Some (hash, eq)"
    using assms(3) by (auto simp: Contains_def split: option.splits)
  then obtain s where s: "(linearized m, s) \<in> set (failed m)" "eq st s"
    using assms(3) by (auto simp: Contains_def SearchCacheKeyEqual_def list_ex_iff)
  then have "ok h s" "\<not> completes (env h) (marked (linearized m)) s"
    using assms(2) by (auto simp: search_inv_def cache_sound_def)
  then show False
    using equal_completes_from [OF c assms(1) tr s(2)] assms(2) by (simp add: search_inv_def)
qed

lemma Insert_sound:
  "cache_sound (env h) (ok h) (failed m) \<Longrightarrow> length (linearized m) = history_size (env h) \<Longrightarrow> ok h st \<Longrightarrow>
   \<not> completes (env h) (marked (linearized m)) st \<Longrightarrow>
   linearized (Insert (env h) m st) = linearized m \<and> cache_sound (env h) (ok h) (failed (Insert (env h) m st))"
  by (auto simp: Insert_def cache_sound_def split: option.splits)

lemma candidate_response_free:
  assumes "wf h" "paired (env h) L" "candidate (env h) L i"
  shows "pred_option (\<lambda>r. r < history_size (env h)) (ResponseIndex (adapter_of (env h)) i)"
    and "op_events (adapter_of (env h)) i \<inter> L = {}"
    and "card (op_events (adapter_of (env h)) i) =
           (if ResponseIndex (adapter_of (env h)) i = None then 1 else 2)"
proof -
  have i: "i < history_size (env h)" "IsInvoke (adapter_of (env h)) i" "i \<notin> L"
    using assms(3) by (simp_all add: candidate_def)
  have r: "i < r \<and> r < history_size (env h) \<and> r \<notin> L"
    if "ResponseIndex (adapter_of (env h)) i = Some r" for r
    using response_after [OF assms(1) i(1,2) that] assms(2) i that by (simp add: paired_def)
  show "pred_option (\<lambda>r. r < history_size (env h)) (ResponseIndex (adapter_of (env h)) i)"
    using r by (cases "ResponseIndex (adapter_of (env h)) i") simp_all
  show "op_events (adapter_of (env h)) i \<inter> L = {}"
    using r i(3) by (cases "ResponseIndex (adapter_of (env h)) i") (simp_all add: op_events_def)
  show "card (op_events (adapter_of (env h)) i) =
      (if ResponseIndex (adapter_of (env h)) i = None then 1 else 2)"
    using r by (cases "ResponseIndex (adapter_of (env h)) i") (auto simp: op_events_def)
qed

lemma paired_extend:
  assumes "wf h" "paired (env h) L" "candidate (env h) L i"
  shows "paired (env h) (L \<union> op_events (adapter_of (env h)) i)"
  unfolding paired_def
proof (intro allI impI)
  fix j r
  assume j: "j < history_size (env h) \<and> IsInvoke (adapter_of (env h)) j \<and>
    ResponseIndex (adapter_of (env h)) j = Some r"
  note i = candidate_event [OF assms(3)]
  have r: "IsResponse (adapter_of (env h)) r" "r < history_size (env h)"
    using response_after [OF assms(1)] j by blast+
  have "j \<notin> set_option (ResponseIndex (adapter_of (env h)) i)"
    using response_after [OF assms(1), of i j] i j kinds [OF assms(1), of j] by auto
  then have "j \<in> op_events (adapter_of (env h)) i \<longleftrightarrow> j = i"
    by (simp add: op_events_def)
  moreover have "r \<noteq> i"
    using i r kinds [OF assms(1), of r] by auto
  then have "r \<in> op_events (adapter_of (env h)) i \<longleftrightarrow> j = i"
    using response_inj [OF assms(1), of i j r] i j by (auto simp: op_events_def)
  ultimately show "j \<in> L \<union> op_events (adapter_of (env h)) i \<longleftrightarrow> r \<in> L \<union> op_events (adapter_of (env h)) i"
    using assms(2) j by (auto simp: paired_def)
qed

lemma search_inv_extend:
  assumes "wf h" "search_inv (env h) (ok h) m st count"
    and "candidate (env h) (marked (linearized m)) i" "ok h st'"
    and "ri = ResponseIndex (adapter_of (env h)) i"
  shows "search_inv (env h) (ok h) (set_flags i ri True m) st' (if ri = None then Suc count else Suc (Suc count))"
    and "marked (linearized (set_flags i ri True m)) =
           marked (linearized m) \<union> op_events (adapter_of (env h)) i"
proof -
  let ?L = "marked (linearized m)" and ?ops = "op_events (adapter_of (env h)) i"
  have pair: "paired (env h) ?L" and len: "length (linearized m) = history_size (env h)"
    and cnt: "count = card ?L"
    using assms(2) by (simp_all add: search_inv_def)
  note free = candidate_response_free [OF assms(1) pair assms(3)]
  show m: "marked (linearized (set_flags i ri True m)) = ?L \<union> ?ops"
    using marked_set_flags_True [of i m ri] free(1) len candidate_event [OF assms(3)] assms(5)
    by (simp add: op_events_def)
  have "card (?L \<union> ?ops) = card ?L + card ?ops"
    using free(2) by (intro card_Un_disjoint) (auto simp: op_events_def)
  then show "search_inv (env h) (ok h) (set_flags i ri True m) st' (if ri = None then Suc count else Suc (Suc count))"
    using assms(2,4,5) free(3) m cnt paired_extend [OF assms(1) pair assms(3)]
    by (auto simp: search_inv_def)
qed

text \<open>One candidate tried by the loop: the recursive call on it, with its flags set and then undone.\<close>

lemma try_candidate:
  assumes "wf h" "search_inv (env h) (ok h) m st count"
    and cand: "candidate (env h) (marked (linearized m)) i" and "ok h st'"
    and ri: "ri = ResponseIndex (adapter_of (env h)) i"
    and step: "\<And>m st count. search_inv (env h) (ok h) m st count \<Longrightarrow> history_size (env h) - count < fuel \<Longrightarrow>
      search_post (env h) (ok h) (completes (env h) (marked (linearized m)) st) m (search_step (env h) fuel m st count)"
    and "count < history_size (env h)" "history_size (env h) - count \<le> fuel"
  obtains b m' where
    "search_step (env h) fuel (set_flags i ri True m) st' (if ri = None then Suc count else Suc (Suc count)) = Ret (b, m')"
    "b \<longleftrightarrow> completes (env h) (marked (linearized m) \<union> op_events (adapter_of (env h)) i) st'"
    "\<not> b \<Longrightarrow> search_inv (env h) (ok h) (set_flags i ri False m') st count"
    "\<not> b \<Longrightarrow> linearized (set_flags i ri False m') = linearized m"
proof -
  note ext = search_inv_extend [OF assms(1,2) cand assms(4) ri]
  have len: "length (linearized m) = history_size (env h)" and pair: "paired (env h) (marked (linearized m))"
    using assms(2) by (simp_all add: search_inv_def)
  note free = candidate_response_free [OF assms(1) pair cand]
  have "history_size (env h) - (if ri = None then Suc count else Suc (Suc count)) < fuel"
    using assms(7,8) by auto
  from step [OF ext(1) this] obtain b m' where
    out: "search_step (env h) fuel (set_flags i ri True m) st' (if ri = None then Suc count else Suc (Suc count)) = Ret (b, m')"
    and b: "b \<longleftrightarrow> completes (env h) (marked (linearized m) \<union> op_events (adapter_of (env h)) i) st'"
    and nb: "\<not> b \<Longrightarrow> linearized m' = linearized (set_flags i ri True m) \<and> cache_sound (env h) (ok h) (failed m')"
    unfolding search_post_def ext(2) by blast
  have undo: "linearized (set_flags i ri False m') = linearized m" if "\<not> b"
    using nb [OF that] free(1,2) candidate_event [OF cand] len ri
    by (intro undo_flags) (auto simp: op_events_def)
  moreover have "search_inv (env h) (ok h) (set_flags i ri False m') st count" if "\<not> b"
    using undo [OF that] nb [OF that] by (intro search_inv_cache [OF assms(2)]) simp_all
  ultimately show ?thesis
    using out b that by blast
qed

lemma viable_split:
  "(\<exists>i\<ge>k. viable (env h) L st i) \<longleftrightarrow> viable (env h) L st k \<or> (\<exists>i\<ge>Suc k. viable (env h) L st i)"
  by (metis Suc_le_eq le_neq_implies_less le_refl less_imp_le)

lemma search_scan_correct:
  assumes wf: "wf h"
    and step: "\<And>m st count. search_inv (env h) (ok h) m st count \<Longrightarrow> history_size (env h) - count < fuel \<Longrightarrow>
      search_post (env h) (ok h) (completes (env h) (marked (linearized m)) st) m (search_step (env h) fuel m st count)"
    and fuel: "count < history_size (env h)" "history_size (env h) - count \<le> fuel"
    and "search_inv (env h) (ok h) m st count" "linearized m = fs"
    and "\<forall>j<k. j \<notin> marked fs \<longrightarrow> \<not> IsResponse (adapter_of (env h)) j"
  shows "search_post (env h) (ok h) (\<exists>i\<ge>k. viable (env h) (marked fs) st i) m
           (search_scan (env h) fuel [k..<history_size (env h)] m st count)"
  using assms(5-7)
proof (induction "history_size (env h) - k" arbitrary: k m)
  case 0
  then have "\<not> viable (env h) (marked fs) st i" if "k \<le> i" for i
    using that by (auto simp: viable_def candidate_def)
  with 0 show ?case
    by (auto simp: search_post_def search_inv_def)
next
  case (Suc d)
  let ?A = "adapter_of (env h)" and ?n = "history_size (env h)" and ?L = "marked fs"
  have k: "k < ?n" and upt: "[k..<?n] = k # [Suc k..<?n]"
    using Suc.hyps(2) by (auto simp: upt_conv_Cons)
  have len: "length fs = ?n" and pair: "paired (env h) ?L" and okst: "ok h st"
    using Suc.prems by (auto simp: search_inv_def)
  have next_k: "search_post (env h) (ok h) (\<exists>i\<ge>Suc k. viable (env h) ?L st i) m
      (search_scan (env h) fuel [Suc k..<?n] m' st count)"
    if "search_inv (env h) (ok h) m' st count" "linearized m' = fs" "k \<in> ?L \<or> \<not> IsResponse ?A k" for m'
  proof -
    have "\<forall>j<Suc k. j \<notin> ?L \<longrightarrow> \<not> IsResponse ?A j"
      using that(3) Suc.prems(3) by (auto simp: less_Suc_eq)
    then show ?thesis
      using Suc.hyps(1) [of "Suc k" m'] Suc.hyps(2) that(1,2) Suc.prems(2) by (simp add: search_post_def)
  qed
  consider (seen) "k \<in> ?L" | (response) "k \<notin> ?L" "IsResponse ?A k"
    | (invoke) "k \<notin> ?L" "\<not> IsResponse ?A k" "IsInvoke ?A k"
    using kinds [OF wf k] by blast
  then show ?case
  proof cases
    case seen
    then have "\<not> viable (env h) ?L st k"
      by (simp add: viable_def candidate_def)
    then show ?thesis
      using seen next_k [OF Suc.prems(1,2)] Suc.prems(2) k len nth_marked [of k fs]
      unfolding upt viable_split [of k] by simp
  next
    case response
    then have "\<not> viable (env h) ?L st i" if "k \<le> i" for i
      using that kinds [OF wf k] by (auto simp: viable_def candidate_def order.order_iff_strict)
    then show ?thesis
      using response Suc.prems k len nth_marked [of k fs]
      unfolding upt by (auto simp: search_post_def search_inv_def)
  next
    case invoke
    have cand: "candidate (env h) ?L k"
      using invoke k Suc.prems(3) by (simp add: candidate_def)
    have cand': "candidate (env h) (marked (linearized m)) k"
      using cand Suc.prems(2) by simp
    obtain x where x: "TryApply ?A k st = Ret x" "pred_option (ok h) x"
      using apply_returns [OF wf k invoke(3) okst] by blast
    define ri where "ri = ResponseIndex ?A k"
    define dropping where "dropping \<longleftrightarrow> ri = None \<and> CanDropPendingInvoke ?A k"
    have rl: "response_linearized ri m = Ret False"
      using candidate_response_free(1,2) [OF wf pair cand] Suc.prems(2) len
      by (auto simp: ri_def response_linearized_def op_events_def nth_marked split: option.splits)
    have viable_k: "viable (env h) ?L st k \<longleftrightarrow> dropping \<and> completes (env h) (insert k ?L) st \<or>
        (\<exists>st'. x = Some st' \<and> completes (env h) (?L \<union> op_events ?A k) st')"
      using cand x by (auto simp: viable_def dropping_def ri_def)
    have unmarked: "\<not> linearized m ! k"
      using invoke(1) Suc.prems(2) k len by (simp add: nth_marked)
    have rest: "search_post (env h) (ok h) (\<exists>i\<ge>k. viable (env h) ?L st i) m
        (case x of None \<Rightarrow> search_scan (env h) fuel [Suc k..<?n] m1 st count
         | Some st' \<Rightarrow>
           orElse (search_step (env h) fuel (set_flags k ri True m1) st' (if ri = None then Suc count else Suc (Suc count)))
             (\<lambda>m'. search_scan (env h) fuel [Suc k..<?n] (set_flags k ri False m') st count))"
      if m1: "search_inv (env h) (ok h) m1 st count" "linearized m1 = fs"
        and nodrop: "\<not> (dropping \<and> completes (env h) (insert k ?L) st)" for m1
    proof (cases x)
      case None
      then have "\<not> viable (env h) ?L st k"
        using nodrop viable_k by blast
      then show ?thesis
        using next_k [OF m1] invoke(2) None unfolding viable_split [of k] by simp
    next
      case (Some st')
      have c1: "candidate (env h) (marked (linearized m1)) k" and o1: "ok h st'"
        using cand m1(2) x(2) Some by simp_all
      obtain b m' where bm:
        "search_step (env h) fuel (set_flags k ri True m1) st' (if ri = None then Suc count else Suc (Suc count)) = Ret (b, m')"
        "b \<longleftrightarrow> completes (env h) (?L \<union> op_events ?A k) st'"
        "\<not> b \<Longrightarrow> search_inv (env h) (ok h) (set_flags k ri False m') st count"
        "\<not> b \<Longrightarrow> linearized (set_flags k ri False m') = fs"
        using try_candidate [OF wf m1(1) c1 o1 ri_def step fuel] m1(2) by metis
      show ?thesis
      proof (cases b)
        case True
        then show ?thesis
          using bm viable_k Some unfolding viable_split [of k] by simp
      next
        case False
        then have "\<not> viable (env h) ?L st k"
          using nodrop viable_k bm(2) Some by blast
        then show ?thesis
          using next_k [OF bm(3,4)] bm(1) invoke(2) Some False unfolding viable_split [of k] by simp
      qed
    qed
    note scan = search_scan_candidate [OF unmarked invoke(2,3) ri_def rl x(1) dropping_def]
    show ?thesis
    proof (cases dropping)
      case False
      then show ?thesis
        unfolding upt scan using rest [OF Suc.prems(1,2)] by simp
    next
      case True
      then have riN: "None = ResponseIndex ?A k"
        by (simp add: dropping_def ri_def)
      have ops: "?L \<union> op_events ?A k = insert k ?L"
        by (simp add: op_events_def flip: riN)
      obtain b m' where bm:
        "search_step (env h) fuel (set_flags k None True m) st (Suc count) = Ret (b, m')"
        "b \<longleftrightarrow> completes (env h) (insert k ?L) st"
        "\<not> b \<Longrightarrow> search_inv (env h) (ok h) (set_flags k None False m') st count"
        "\<not> b \<Longrightarrow> linearized (set_flags k None False m') = fs"
        using try_candidate [OF wf Suc.prems(1) cand' okst riN step fuel] Suc.prems(2) ops by auto
      show ?thesis
      proof (cases b)
        case True
        then have "viable (env h) ?L st k"
          using viable_k bm(2) \<open>dropping\<close> by blast
        then show ?thesis
          unfolding upt scan viable_split [of k] using bm(1) True \<open>dropping\<close> by simp
      next
        case False
        then show ?thesis
          unfolding upt scan using rest [OF bm(3,4)] bm(1,2) \<open>dropping\<close> by simp
      qed
    qed
  qed
qed

lemma search_step_correct:
  assumes "wf h"
  shows "search_inv (env h) (ok h) m st count \<Longrightarrow> history_size (env h) - count < fuel \<Longrightarrow>
    search_post (env h) (ok h) (completes (env h) (marked (linearized m)) st) m (search_step (env h) fuel m st count)"
proof (induction fuel arbitrary: m st count)
  case (Suc fuel)
  let ?n = "history_size (env h)" and ?L = "marked (linearized m)"
  have len: "length (linearized m) = ?n" and cnt: "count = card ?L"
    and cache: "cache_sound (env h) (ok h) (failed m)" and okst: "ok h st"
    using Suc.prems(1) by (simp_all add: search_inv_def)
  have le: "count \<le> ?n" and full: "count = ?n \<longleftrightarrow> ?L = {..<?n}"
    using cnt len card_marked_le [of "linearized m"] card_marked_full [of "linearized m"] by simp_all
  show ?case
  proof (cases "count = ?n \<or> Contains (env h) m st")
    case True
    then show ?thesis
    proof (cases "count = ?n")
      case True
      then show ?thesis
        using full cache by (simp add: completes_iff [of "env h"] not_viable_full)
    next
      case False
      with \<open>count = ?n \<or> Contains (env h) m st\<close> show ?thesis
        using Contains_not_completes [OF assms Suc.prems(1)] cache by simp
    qed
  next
    case False
    then have "search_post (env h) (ok h) (\<exists>i\<ge>0. viable (env h) ?L st i) m
        (search_scan (env h) fuel [0..<?n] m st count)"
      using le Suc.prems by (intro search_scan_correct [OF assms Suc.IH]) auto
    moreover have "completes (env h) ?L st \<longleftrightarrow> (\<exists>i\<ge>0. viable (env h) ?L st i)"
      using False full by (simp add: completes_iff [of "env h" ?L])
    ultimately obtain b m' where out: "search_scan (env h) fuel [0..<?n] m st count = Ret (b, m')"
      and b: "b \<longleftrightarrow> completes (env h) ?L st"
      and nb: "\<not> b \<Longrightarrow> linearized m' = linearized m \<and> cache_sound (env h) (ok h) (failed m')"
      by (auto simp: search_post_def)
    then show ?thesis
      using False Insert_sound [of h m' st] okst len by (cases b) auto
  qed
qed simp

text \<open>
  The whole search returns, and its answer is whether the history completes from the initial
  state: the depth bound \<open>Suc (history_size E)\<close> is never exhausted.
\<close>

lemma search_correct:
  assumes "wf h" "ok h st" "history_size (env h) = 0 \<Longrightarrow> on_complete (env h) st"
  shows "RunRecursiveLinearizationSearchImpl (env h) st = Ret (completes (env h) {} st)"
proof (cases "history_size (env h) = 0")
  case True
  then have "completes (env h) {} st"
    using completes.all_linearized [of "env h" st] assms(3) by simp
  then show ?thesis
    using True by (simp add: RunRecursiveLinearizationSearchImpl_def)
next
  case False
  have "search_inv (env h) (ok h) \<lparr>linearized = replicate (history_size (env h)) False, failed = []\<rparr> st 0"
    using assms by (simp add: search_inv_def paired_def cache_sound_def)
  from search_step_correct [OF assms(1) this, of "Suc (history_size (env h))"] False show ?thesis
    by (auto simp: RunRecursiveLinearizationSearchImpl_def search_post_def)
qed

text \<open>Completion in small steps is the existence of a linearization.\<close>

lemma completes_imp_linearizes:
  assumes "completes (env h) L st" "wf h" "paired (env h) L"
  shows "\<exists>os. linearizes_rest (env h) L os st"
  using assms(1,3)
proof (induction rule: completes.induct)
  case (all_linearized st)
  then have "linearizes_rest (env h) {..<history_size (env h)} [] st"
    by (simp add: linearizes_rest_def real_time_order_def)
  then show ?case ..
next
  case (drop_pending L i st)
  have "paired (env h) (insert i L)"
    using paired_extend [OF assms(2) drop_pending.prems drop_pending.hyps(1)] drop_pending.hyps(2)
    by (simp add: op_events_def)
  then obtain os where "linearizes_rest (env h) (insert i L) os st"
    using drop_pending.IH by blast
  then have "linearizes_rest (env h) L os st"
    using drop_pending.hyps by (auto simp: linearizes_rest_def)
  then show ?case ..
next
  case (linearize_op L i st st')
  let ?A = "adapter_of (env h)" and ?L = "L \<union> op_events (adapter_of (env h)) i"
  note i = candidate_event [OF linearize_op.hyps(1)]
  have pair: "paired (env h) ?L"
    by (rule paired_extend [OF assms(2) linearize_op.prems linearize_op.hyps(1)])
  then obtain os where os: "linearizes_rest (env h) ?L os st'"
    using linearize_op.IH by blast
  have "i \<le> r" if b: "b \<in> set os" "ResponseIndex ?A b = Some r" for b r
  proof (rule ccontr)
    assume "\<not> i \<le> r"
    have bb: "b < history_size (env h)" "IsInvoke ?A b" "b \<notin> ?L"
      using os b(1) by (auto simp: linearizes_rest_def)
    then have "r \<notin> ?L" "IsResponse ?A r"
      using pair b(2) response_after [OF assms(2) bb(1,2) b(2)] unfolding paired_def by blast+
    then show False
      using linearize_op.hyps(1) \<open>\<not> i \<le> r\<close> by (auto simp: candidate_def)
  qed
  moreover have "j \<notin> set_option (ResponseIndex ?A i)" if "j < history_size (env h)" "IsInvoke ?A j" for j
    using response_after [OF assms(2), of i j] i that kinds [OF assms(2), of j] by auto
  ultimately have "linearizes_rest (env h) L (i # os) st"
    using os linearize_op.hyps i
    by (auto simp: linearizes_rest_def real_time_order_def op_events_def candidate_def)
  then show ?case ..
qed

lemma completes_pending:
  assumes "wf h" "paired (env h) L" "L \<subseteq> {..<history_size (env h)}" "on_complete (env h) st"
    and "\<forall>i<history_size (env h). IsInvoke (adapter_of (env h)) i \<and> i \<notin> L \<longrightarrow>
      ResponseIndex (adapter_of (env h)) i = None \<and> CanDropPendingInvoke (adapter_of (env h)) i"
  shows "completes (env h) L st"
  using assms(2,3,5)
proof (induction "card ({..<history_size (env h)} - L)" arbitrary: L)
  case 0
  then have "L = {..<history_size (env h)}"
    by (intro subset_antisym) simp_all
  then show ?case
    using assms(4) by (simp add: completes.all_linearized)
next
  case (Suc d)
  let ?A = "adapter_of (env h)" and ?rest = "{..<history_size (env h)} - L"
  define i where "i = Min ?rest"
  have ne: "?rest \<noteq> {}"
  proof
    assume "?rest = {}"
    with Suc.hyps(2) have "Suc d = 0" by (simp only: card.empty)
    then show False by simp
  qed
  have "i \<in> ?rest"
    unfolding i_def by (rule Min_in) (use ne in simp_all)
  then have i: "i < history_size (env h)" "i \<notin> L" by simp_all
  have min: "j \<in> L" if "j < i" for j
  proof (rule ccontr)
    assume "j \<notin> L"
    then have "i \<le> j"
      unfolding i_def using that i(1) by (intro Min_le) simp_all
    then show False using that by simp
  qed
  have "\<not> IsResponse ?A i"
  proof
    assume "IsResponse ?A i"
    then obtain j where "j < i" "IsInvoke ?A j" "ResponseIndex ?A j = Some i"
      using response_has_invoke [OF assms(1) i(1)] by blast
    moreover have "j < history_size (env h)" "j \<in> L"
      using \<open>j < i\<close> i(1) min by simp_all
    ultimately show False
      using Suc.prems(1) i(2) unfolding paired_def by blast
  qed
  then have inv: "IsInvoke ?A i"
    using kinds [OF assms(1) i(1)] by blast
  then have pend: "ResponseIndex ?A i = None" "CanDropPendingInvoke ?A i"
    using Suc.prems(3) i by blast+
  have cand: "candidate (env h) L i"
    using i inv by (simp add: candidate_def min)
  have "completes (env h) (insert i L) st"
  proof (rule Suc.hyps(1))
    show "d = card ({..<history_size (env h)} - insert i L)"
      using Suc.hyps(2) card_Diff_singleton [OF \<open>i \<in> ?rest\<close>] arg_cong [OF Diff_insert, of card "{..<history_size (env h)}" i L]
      by linarith
    show "paired (env h) (insert i L)"
      using paired_extend [OF assms(1) Suc.prems(1) cand] pend by (simp add: op_events_def)
    show "insert i L \<subseteq> {..<history_size (env h)}"
      using Suc.prems(2) i(1) by simp
    show "\<forall>i'<history_size (env h). IsInvoke ?A i' \<and> i' \<notin> insert i L \<longrightarrow>
        ResponseIndex ?A i' = None \<and> CanDropPendingInvoke ?A i'"
      using Suc.prems(3) by blast
  qed
  then show ?case
    by (rule completes.drop_pending [OF cand pend])
qed

lemma linearizes_imp_completes:
  assumes "wf h" "linearizes_rest (env h) L os st" "paired (env h) L" "L \<subseteq> {..<history_size (env h)}"
  shows "completes (env h) L st"
  using assms(2-4)
proof (induction os arbitrary: L st)
  case Nil
  then show ?case
    by (intro completes_pending [OF assms(1)]) (simp_all add: linearizes_rest_def)
next
  case (Cons i os)
  let ?A = "adapter_of (env h)"
  have i: "i < history_size (env h)" "IsInvoke ?A i" "i \<notin> L" "i \<notin> set os"
    and rt: "\<forall>b\<in>set os. \<forall>r. ResponseIndex ?A b = Some r \<longrightarrow> i \<le> r"
    using Cons.prems(1) by (auto simp: linearizes_rest_def real_time_order_def)
  obtain st' where st': "TryApply ?A i st = Ret (Some st')"
    using Cons.prems(1) by (auto simp: linearizes_rest_def split: res.splits option.splits)
  have "\<not> IsResponse ?A j" if j: "j < i" "j \<notin> L" for j
  proof
    assume "IsResponse ?A j"
    then obtain k where k: "k < j" "IsInvoke ?A k" "ResponseIndex ?A k = Some j"
      using response_has_invoke [OF assms(1), of j] j i(1) by auto
    then have "k \<notin> L" "k < history_size (env h)" "k \<noteq> i"
      using Cons.prems(2) j i(1) by (auto simp: paired_def)
    then have "k \<in> set os"
      using Cons.prems(1) k by (auto simp: linearizes_rest_def)
    then show False
      using rt k j by fastforce
  qed
  then have cand: "candidate (env h) L i"
    using i by (simp add: candidate_def)
  have "j \<notin> op_events ?A i" if "j \<in> set os" for j
  proof -
    have "j < history_size (env h)" "IsInvoke ?A j"
      using Cons.prems(1) that by (auto simp: linearizes_rest_def)
    then show ?thesis
      using response_after [OF assms(1) i(1,2), of j] kinds [OF assms(1), of j] i(4) that
      by (auto simp: op_events_def)
  qed
  then have "linearizes_rest (env h) (L \<union> op_events ?A i) os st'"
    using Cons.prems(1) st' by (auto simp: linearizes_rest_def real_time_order_def op_events_def)
  moreover have "L \<union> op_events ?A i \<subseteq> {..<history_size (env h)}"
    using Cons.prems(3) i candidate_response_free(1) [OF assms(1) Cons.prems(2) cand]
    by (cases "ResponseIndex ?A i") (auto simp: op_events_def)
  ultimately have "completes (env h) (L \<union> op_events ?A i) st'"
    using Cons.IH paired_extend [OF assms(1) Cons.prems(2) cand] by blast
  then show ?case
    by (rule completes.linearize_op [OF cand st'])
qed

lemma completes_iff_linearization:
  "wf h \<Longrightarrow> completes (env h) {} st \<longleftrightarrow> (\<exists>os. is_linearization (env h) os st)"
  using completes_imp_linearizes [of h "{}" st] linearizes_imp_completes [of h "{}" _ st]
  by (auto simp: is_linearization_rest paired_def)

theorem search_decides:
  "wf h \<Longrightarrow> ok h st \<Longrightarrow> (history_size (env h) = 0 \<Longrightarrow> on_complete (env h) st) \<Longrightarrow>
   RunRecursiveLinearizationSearchImpl (env h) st = Ret (\<exists>os. is_linearization (env h) os st)"
  by (subst search_correct) (blast, blast, blast, simp add: completes_iff_linearization)

end

end
