(* ===== verification/History.thy ===== *)
theory History
  imports Value_Wrapper Event_Matching Linearization_Search
begin

text \<open>
  Histories of invocations and responses (runtime/include/lincheck.h, runtime/lin_check.cpp), the
  specification methods the checkers call, the index map from invocations to responses, and the
  declarative notion of a linearizable history against which every checker is verified.
\<close>

section \<open>Tasks and events\<close>

text \<open>
  A \<open>Task\<close> is a shared pointer to a coroutine. The checkers identify it in two ways: by the address
  of the shared pointer an event refers to (\<open>task_slot\<close>) and by the address of the coroutine
  (\<open>task_get\<close>). The other fields are what the accessors of \<open>CoroBase\<close> read.
\<close>

record 'a task =
  task_slot :: nat
  task_get :: nat
  task_id :: int
  task_name :: string
  task_args :: 'a
  task_returned :: bool
  task_ret :: value_wrapper

definition GetRetVal :: "'a task \<Rightarrow> value_wrapper res" where
  "GetRetVal t = andThen (cpp_assert (task_returned t)) (\<lambda>_. Ret (task_ret t))"

datatype 'a history_event =
    Invoke "'a task" int
  | Response "'a task" value_wrapper int

fun GetTask :: "'a history_event \<Rightarrow> 'a task" where
  "GetTask (Invoke t _) = t"
| "GetTask (Response t _ _) = t"

fun is_invoke_event :: "'a history_event \<Rightarrow> bool" where
  "is_invoke_event (Invoke _ _) = True"
| "is_invoke_event (Response _ _ _) = False"

fun response_value :: "'a history_event \<Rightarrow> value_wrapper option" where
  "response_value (Invoke _ _) = None"
| "response_value (Response _ v _) = Some v"

definition inv_key :: "('a task \<Rightarrow> 'k) \<Rightarrow> 'a history_event \<Rightarrow> 'k option" where
  "inv_key f e = (if is_invoke_event e then Some (f (GetTask e)) else None)"

definition rsp_key :: "('a task \<Rightarrow> 'k) \<Rightarrow> 'a history_event \<Rightarrow> 'k option" where
  "rsp_key f e = (if is_invoke_event e then None else Some (f (GetTask e)))"

lemma key_simps [simp]:
  "inv_key f (Invoke t n) = Some (f t)" "inv_key f (Response t v n) = None"
  "rsp_key f (Invoke t n) = None" "rsp_key f (Response t v n) = Some (f t)"
  by (simp_all add: inv_key_def rsp_key_def)

lemma inv_key_None [simp]: "inv_key f e = None \<longleftrightarrow> \<not> is_invoke_event e"
  by (simp add: inv_key_def)

lemma rsp_key_None [simp]: "rsp_key f e = None \<longleftrightarrow> is_invoke_event e"
  by (simp add: rsp_key_def)

text \<open>
  A history is well formed for an identification of tasks when no operation is invoked or
  completed twice and every response follows its invocation.
\<close>

abbreviation well_formed :: "('a task \<Rightarrow> 'k) \<Rightarrow> 'a history_event list \<Rightarrow> bool" where
  "well_formed f h \<equiv> well_matched (inv_key f) (rsp_key f) h"

abbreviation completed_at :: "('a task \<Rightarrow> 'k) \<Rightarrow> 'a history_event list \<Rightarrow> nat \<Rightarrow> nat option" where
  "completed_at f h \<equiv> response_of (inv_key f) (rsp_key f) h"

section \<open>The map from invocations to responses\<close>

fun inv_res_loop :: "nat \<Rightarrow> 'a history_event list \<Rightarrow> (nat \<rightharpoonup> nat) \<Rightarrow> (nat \<rightharpoonup> nat) \<Rightarrow> (nat \<rightharpoonup> nat) res" where
  "inv_res_loop i [] uids inv_res = Ret inv_res"
| "inv_res_loop i (Invoke t _ # es) uids inv_res =
     inv_res_loop (Suc i) es (uids(task_slot t \<mapsto> i)) inv_res"
| "inv_res_loop i (Response t _ _ # es) uids inv_res =
     (case uids (task_slot t) of
        None \<Rightarrow> Exn AssertionFailure
      | Some inv_id \<Rightarrow> inv_res_loop (Suc i) es uids (inv_res(inv_id \<mapsto> i)))"

definition get_inv_res_mapping :: "'a history_event list \<Rightarrow> (nat \<rightharpoonup> nat) res" where
  "get_inv_res_mapping history = inv_res_loop 0 history Map.empty Map.empty"

lemma well_matched_append: "well_matched ik rk (h @ es) \<Longrightarrow> well_matched ik rk h"
proof (induction es rule: rev_induct)
  case (snoc e es)
  then show ?case
    using well_matched_prefix [of ik rk "h @ es" e] by simp
qed simp

lemma invoke_index_invoke:
  assumes "invoke_index ik h k = None" "ik e = Some k"
  shows "invoke_index ik (h @ [e]) = (invoke_index ik h)(k \<mapsto> length h)"
  using assms by (auto simp: fun_eq_iff invoke_index_snoc split: option.splits)

lemma invoke_index_respond: "ik e = None \<Longrightarrow> invoke_index ik (h @ [e]) = invoke_index ik h"
  by (auto simp: fun_eq_iff invoke_index_snoc split: option.splits)

lemma index_maps_Nil [simp]: "invoke_index ik [] = Map.empty" "response_of ik rk [] = Map.empty"
  by (auto simp: fun_eq_iff invoke_index_def response_of_def)

lemma inv_res_loop_correct:
  "well_formed task_slot (h @ es) \<Longrightarrow>
   inv_res_loop (length h) es (invoke_index (inv_key task_slot) h) (completed_at task_slot h) =
     Ret (completed_at task_slot (h @ es))"
proof (induction es arbitrary: h)
  case (Cons e es)
  have wf: "well_formed task_slot (h @ [e])"
    using well_matched_append [of _ _ "h @ [e]" es] Cons.prems by simp
  have IH: "inv_res_loop (Suc (length h)) es (invoke_index (inv_key task_slot) (h @ [e]))
      (completed_at task_slot (h @ [e])) = Ret (completed_at task_slot (h @ e # es))"
    using Cons.IH [of "h @ [e]"] Cons.prems by simp
  from wf show ?case
  proof (cases rule: well_matched_snoc_cases)
    case (invoke k)
    then obtain t n where e: "e = Invoke t n" by (cases e) auto
    show ?thesis
      using IH invoke e by (simp add: invoke_index_invoke response_of_snoc [OF wf, unfolded e])
  next
    case (respond k i)
    then obtain t v n where e: "e = Response t v n" by (cases e) auto
    show ?thesis
      using IH respond e by (simp add: invoke_index_respond response_of_snoc [OF wf, unfolded e])
  qed
qed simp

lemma get_inv_res_mapping_correct:
  "well_formed task_slot h \<Longrightarrow> get_inv_res_mapping h = Ret (completed_at task_slot h)"
  using inv_res_loop_correct [of "[]" h] by (simp add: get_inv_res_mapping_def)

text \<open>A response that no invocation precedes fails the assertion.\<close>

lemma inv_res_loop_unmatched:
  "inv_res_loop i es uids m \<noteq> Exn AssertionFailure \<Longrightarrow> uids k = None \<Longrightarrow>
   j < length es \<Longrightarrow> rsp_key task_slot (es ! j) = Some k \<Longrightarrow> \<exists>l<j. inv_key task_slot (es ! l) = Some k"
proof (induction i es uids m arbitrary: j rule: inv_res_loop.induct)
  case (2 i t n es uids m)
  show ?case
  proof (cases "task_slot t = k")
    case True
    then show ?thesis using 2 by (cases j) auto
  next
    case False
    then obtain j' where j: "j = Suc j'" using 2 by (cases j) auto
    have "\<exists>l<j'. inv_key task_slot (es ! l) = Some k"
      using "2.prems" j False by (intro "2.IH") (simp_all add: fun_upd_def)
    then obtain l where "l < j'" "inv_key task_slot (es ! l) = Some k" by blast
    then show ?thesis using j by (intro exI [of _ "Suc l"]) simp
  qed
next
  case (3 i t v n es uids m)
  show ?case
  proof (cases j)
    case 0
    then show ?thesis using 3 by (auto split: option.splits)
  next
    case (Suc j')
    obtain inv_id where "uids (task_slot t) = Some inv_id"
      using 3 by (cases "uids (task_slot t)") auto
    then have "\<exists>l<j'. inv_key task_slot (es ! l) = Some k"
      using "3.prems" Suc by (intro "3.IH") (simp_all add: fun_upd_def)
    then obtain l where "l < j'" "inv_key task_slot (es ! l) = Some k" by blast
    then show ?thesis using Suc by (intro exI [of _ "Suc l"]) simp
  qed
qed simp

section \<open>Specifications and linearizable histories\<close>

text \<open>
  A specification method changes the state it is called on and returns a wrapped result. A checker
  holds the method map, the initial state, and the hash and equality of its template parameters
  when the state type has them.
\<close>

type_synonym ('st, 'a) spec_method = "'st \<Rightarrow> 'a \<Rightarrow> (value_wrapper \<times> 'st) res"

type_synonym ('st, 'a) method_map = "string \<rightharpoonup> ('st, 'a) spec_method"

record ('st, 'a) checker =
  specification_methods :: "('st, 'a) method_map"
  first_state :: 'st
  state_traits :: "(('st \<Rightarrow> 64 word) \<times> ('st \<Rightarrow> 'st \<Rightarrow> bool)) option"

text \<open>
  The effect of one operation on a specification state, given the value it is recorded to have
  returned (\<open>None\<close> for a pending operation): the new state when the specification agrees.
\<close>

definition apply_op :: "('st, 'a) method_map \<Rightarrow> 'a task \<Rightarrow> value_wrapper option \<Rightarrow> 'st \<Rightarrow> 'st option res" where
  "apply_op ms t recorded st =
     (case ms (task_name t) of
        None \<Rightarrow> Exn (NoMethod (task_name t))
      | Some m \<Rightarrow> andThen (m st (task_args t)) (\<lambda>(v, st').
          case recorded of
            None \<Rightarrow> Ret (Some st')
          | Some w \<Rightarrow> andThen (vw_eq v w) (\<lambda>b. Ret (if b then Some st' else None))))"

fun legal_from :: "('st, 'a) method_map \<Rightarrow> ('a task \<times> value_wrapper option) list \<Rightarrow> 'st \<Rightarrow> bool" where
  "legal_from ms [] st = True"
| "legal_from ms ((t, w) # ops) st =
     (case apply_op ms t w st of Ret (Some st') \<Rightarrow> legal_from ms ops st' | _ \<Rightarrow> False)"

text \<open>
  A history is linearizable, for an identification \<open>f\<close> of tasks and the recorded values
  \<open>val\<close>, when its completed operations and some of its pending ones can be put into a sequence in
  which no operation comes after one that was invoked only after it had responded, and in which
  the specification returns the recorded values.
\<close>

definition linearizes :: "('a task \<Rightarrow> 'k) \<Rightarrow> (nat \<Rightarrow> value_wrapper option) \<Rightarrow> ('st, 'a) method_map \<Rightarrow> 'st \<Rightarrow>
    'a history_event list \<Rightarrow> nat list \<Rightarrow> bool" where
  "linearizes f val ms st h os \<longleftrightarrow>
     distinct os \<and>
     (\<forall>i\<in>set os. i < length h \<and> is_invoke_event (h ! i)) \<and>
     (\<forall>i<length h. completed_at f h i \<noteq> None \<longrightarrow> i \<in> set os) \<and>
     sorted_wrt (\<lambda>a b. \<forall>r. completed_at f h b = Some r \<longrightarrow> a \<le> r) os \<and>
     legal_from ms (map (\<lambda>i. (GetTask (h ! i), val i)) os) st"

definition linearizable :: "('a task \<Rightarrow> 'k) \<Rightarrow> (nat \<Rightarrow> value_wrapper option) \<Rightarrow> ('st, 'a) method_map \<Rightarrow> 'st \<Rightarrow>
    'a history_event list \<Rightarrow> bool" where
  "linearizable f val ms st h \<longleftrightarrow> (\<exists>os. linearizes f val ms st h os)"

text \<open>The value recorded in the response event, and the one the task itself holds.\<close>

definition response_result :: "('a task \<Rightarrow> 'k) \<Rightarrow> 'a history_event list \<Rightarrow> nat \<Rightarrow> value_wrapper option" where
  "response_result f h i =
     (case completed_at f h i of None \<Rightarrow> None | Some r \<Rightarrow> response_value (h ! r))"

definition task_result :: "('a task \<Rightarrow> 'k) \<Rightarrow> 'a history_event list \<Rightarrow> nat \<Rightarrow> value_wrapper option" where
  "task_result f h i =
     (case completed_at f h i of None \<Rightarrow> None | Some r \<Rightarrow> Some (task_ret (GetTask (h ! i))))"

section \<open>What the checkers rely on in a specification\<close>

text \<open>
  For the operations of a history: the methods exist, return on every state of the invariant
  \<open>I\<close> a value that can be compared with the recorded one, and keep the invariant; states that the
  cache takes to be equal give equal results and equal states.
\<close>

definition methods_total :: "('st \<Rightarrow> bool) \<Rightarrow> (nat \<Rightarrow> value_wrapper option) \<Rightarrow> ('st, 'a) method_map \<Rightarrow>
    'a history_event list \<Rightarrow> bool" where
  "methods_total I val ms h \<longleftrightarrow>
     (\<forall>i<length h. is_invoke_event (h ! i) \<longrightarrow> ms (task_name (GetTask (h ! i))) \<noteq> None \<and>
       (\<forall>st. I st \<longrightarrow> (\<exists>x. apply_op ms (GetTask (h ! i)) (val i) st = Ret x) \<and>
                       (\<exists>st'. apply_op ms (GetTask (h ! i)) None st = Ret (Some st') \<and> I st')))"

definition equality_respected :: "('st \<Rightarrow> bool) \<Rightarrow> ('st, 'a) method_map \<Rightarrow> ('st \<Rightarrow> 'st \<Rightarrow> bool) \<Rightarrow> bool" where
  "equality_respected I ms eq \<longleftrightarrow>
     (\<forall>n m s t a v s'. ms n = Some m \<longrightarrow> I s \<longrightarrow> I t \<longrightarrow> eq s t \<longrightarrow> m s a = Ret (v, s') \<longrightarrow>
       (\<exists>t'. m t a = Ret (v, t') \<and> eq s' t'))"

lemma apply_op_Some:
  "apply_op ms t w st = Ret (Some st') \<longleftrightarrow>
     (\<exists>m v. ms (task_name t) = Some m \<and> m st (task_args t) = Ret (v, st') \<and>
        (\<forall>u. w = Some u \<longrightarrow> vw_eq v u = Ret True))"
  by (cases w) (auto simp: apply_op_def andThen_eq_Ret split: option.splits)

lemma apply_op_pending: "apply_op ms t w st = Ret (Some st') \<Longrightarrow> apply_op ms t None st = Ret (Some st')"
  by (auto simp: apply_op_Some)

lemma methods_total_apply:
  assumes "methods_total I val ms h" "i < length h" "is_invoke_event (h ! i)" "I st"
  shows "\<exists>x. apply_op ms (GetTask (h ! i)) (val i) st = Ret x \<and> pred_option I x"
proof -
  from assms obtain x st' where x: "apply_op ms (GetTask (h ! i)) (val i) st = Ret x"
    and st': "apply_op ms (GetTask (h ! i)) None st = Ret (Some st')" "I st'"
    unfolding methods_total_def by blast
  have "pred_option I x"
    using x st' apply_op_pending by (cases x) fastforce+
  with x show ?thesis by blast
qed

lemma methods_total_pending:
  "methods_total I val ms h \<Longrightarrow> i < length h \<Longrightarrow> is_invoke_event (h ! i) \<Longrightarrow> I st \<Longrightarrow>
   \<exists>st'. apply_op ms (GetTask (h ! i)) None st = Ret (Some st') \<and> I st'"
  by (simp add: methods_total_def)

lemma equality_respected_apply:
  assumes "equality_respected I ms eq" "I s" "I t" "eq s t" "apply_op ms tk w s = Ret (Some s')"
  shows "\<exists>t'. apply_op ms tk w t = Ret (Some t') \<and> eq s' t'"
proof -
  obtain m v where m: "ms (task_name tk) = Some m" "m s (task_args tk) = Ret (v, s')"
    and w: "\<forall>u. w = Some u \<longrightarrow> vw_eq v u = Ret True"
    using assms(5) unfolding apply_op_Some by blast
  obtain t' where "m t (task_args tk) = Ret (v, t')" "eq s' t'"
    using assms(1-4) m unfolding equality_respected_def by blast
  then show ?thesis
    using m w unfolding apply_op_Some by blast
qed

section \<open>Checkers over histories\<close>

text \<open>
  The environment a checker hands to the search shows the history as it is: the adapter reports the
  kinds of the events, the index of each response, and applies operations to the specification.
\<close>

definition shows_history :: "('a task \<Rightarrow> 'k) \<Rightarrow> (nat \<Rightarrow> value_wrapper option) \<Rightarrow> ('st, 'a) method_map \<Rightarrow>
    'a history_event list \<Rightarrow> 'st search_env \<Rightarrow> bool" where
  "shows_history f val ms h E \<longleftrightarrow>
     history_size E = length h \<and>
     (\<forall>i<length h. IsInvoke (adapter_of E) i = is_invoke_event (h ! i)) \<and>
     (\<forall>i<length h. IsResponse (adapter_of E) i = (\<not> is_invoke_event (h ! i))) \<and>
     (\<forall>i<length h. is_invoke_event (h ! i) \<longrightarrow> ResponseIndex (adapter_of E) i = completed_at f h i) \<and>
     (\<forall>i<length h. is_invoke_event (h ! i) \<longrightarrow>
        TryApply (adapter_of E) i = apply_op ms (GetTask (h ! i)) (val i)) \<and>
     (\<forall>i. \<not> CanDropPendingInvoke (adapter_of E) i) \<and>
     (\<forall>st. on_complete E st)"

definition usable :: "('a task \<Rightarrow> 'k) \<Rightarrow> ('a history_event list \<Rightarrow> nat \<Rightarrow> value_wrapper option) \<Rightarrow>
    ('st, 'a) checker \<times> ('st \<Rightarrow> bool) \<times> 'a history_event list \<Rightarrow> bool" where
  "usable f val = (\<lambda>(c, I, h). well_formed f h \<and> methods_total I (val h) (specification_methods c) h \<and>
     (\<forall>hash eq. state_traits c = Some (hash, eq) \<longrightarrow> equality_respected I (specification_methods c) eq))"

lemma sorted_wrt_all: "(\<And>a b. b \<in> set xs \<Longrightarrow> P a b) \<Longrightarrow> sorted_wrt P xs"
  by (induction xs) auto

lemma run_ops_append:
  "run_ops A (xs @ ys) st = (case run_ops A xs st of None \<Rightarrow> None | Some st' \<Rightarrow> run_ops A ys st')"
  by (induction xs arbitrary: st) (auto split: res.splits option.splits)

lemma run_ops_legal:
  assumes "\<forall>i\<in>set os. TryApply A i = apply_op ms (tk i) (val i)"
  shows "(\<exists>st'. run_ops A os st = Some st') \<longleftrightarrow> legal_from ms (map (\<lambda>i. (tk i, val i)) os) st"
  using assms by (induction os arbitrary: st) (auto split: res.splits option.splits)

lemma completed_invoke:
  assumes "well_formed f h" "completed_at f h i = Some r"
  shows "i < r" "r < length h" "is_invoke_event (h ! i)" "\<not> is_invoke_event (h ! r)"
    "f (GetTask (h ! i)) = f (GetTask (h ! r))"
  using assms(2) unfolding response_of_eq_Some [OF assms(1)]
  by (auto simp: inv_key_def rsp_key_def split: if_splits)

locale history_checker =
  fixes env :: "('st, 'a) checker \<Rightarrow> 'a history_event list \<Rightarrow> 'st search_env"
    and key :: "'a task \<Rightarrow> 'k"
    and val :: "'a history_event list \<Rightarrow> nat \<Rightarrow> value_wrapper option"
  assumes faithful: "usable key val (c, I, h) \<Longrightarrow>
      shows_history key (val h) (specification_methods c) h (env c h)"
    and traits: "cache_traits (env c h) = state_traits c"
    and val_pending: "completed_at key h i = None \<Longrightarrow> val h i = None"

sublocale history_checker \<subseteq>
  search_adapter "\<lambda>(c, I, h). env c h" "usable key val" "\<lambda>(c, I, h). I"
proof
  fix x :: "('st, 'a) checker \<times> ('st \<Rightarrow> bool) \<times> 'a history_event list"
  obtain c I h where x: "x = (c, I, h)" by (cases x) auto
  let ?E = "(\<lambda>(c, I, h). env c h) x"
  let ?A = "adapter_of ?E"
  assume ux: "usable key val x"
  then have wf: "well_formed key h" and tot: "methods_total I (val h) (specification_methods c) h"
    and eq: "\<And>hash eq. state_traits c = Some (hash, eq) \<Longrightarrow> equality_respected I (specification_methods c) eq"
    by (auto simp: usable_def x)
  have sh: "shows_history key (val h) (specification_methods c) h (env c h)"
    using faithful ux x by simp
  note sh' = sh [unfolded shows_history_def]
  show "IsInvoke ?A i \<longleftrightarrow> \<not> IsResponse ?A i" if "i < history_size ?E" for i
    using sh' that x by simp
  show "i < r \<and> r < history_size ?E \<and> IsResponse ?A r"
    if "i < history_size ?E" "IsInvoke ?A i" "ResponseIndex ?A i = Some r" for i r
    using sh' that x completed_invoke [OF wf, of i r] by auto
  show "i = j"
    if "i < history_size ?E" "j < history_size ?E" "IsInvoke ?A i" "IsInvoke ?A j"
      "ResponseIndex ?A i = Some r" "ResponseIndex ?A j = Some r" for i j r
  proof -
    have "completed_at key h i = Some r" "completed_at key h j = Some r"
      using sh' that x by auto
    then show ?thesis
      using inv_unique [OF wf, of i j] that sh' x unfolding response_of_eq_Some [OF wf] by auto
  qed
  show "\<exists>i<r. IsInvoke ?A i \<and> ResponseIndex ?A i = Some r"
    if "r < history_size ?E" "IsResponse ?A r" for r
  proof -
    have r: "r < length h" "rsp_key key (h ! r) = Some (key (GetTask (h ! r)))"
      using sh' that x by (auto simp: rsp_key_def)
    then obtain i where i: "i < r" "inv_key key (h ! i) = Some (key (GetTask (h ! r)))"
      using rsp_has_inv [OF wf] by blast
    then have "completed_at key h i = Some r"
      using r unfolding response_of_eq_Some [OF wf] by blast
    then show ?thesis
      using sh' x i r completed_invoke [OF wf, of i r] by (intro exI [of _ i]) auto
  qed
  show "\<exists>y. TryApply ?A i st = Ret y \<and> pred_option ((\<lambda>(c, I, h). I) x) y"
    if "i < history_size ?E" "IsInvoke ?A i" "(\<lambda>(c, I, h). I) x st" for i st
    using methods_total_apply [OF tot, of i st] sh' that unfolding x by simp
  show "\<exists>t'. TryApply ?A i t = Ret (Some t') \<and> eq s' t'"
    if "cache_traits ?E = Some (hash, eq)" "eq s t" "(\<lambda>(c, I, h). I) x s" "(\<lambda>(c, I, h). I) x t"
      "i < history_size ?E" "IsInvoke ?A i" "TryApply ?A i s = Ret (Some s')" for hash eq s t i s'
    using equality_respected_apply [OF eq] sh' that x traits by auto
  show "on_complete ?E t"
    if "cache_traits ?E = Some (hash, eq)" "eq s t" "(\<lambda>(c, I, h). I) x s" "(\<lambda>(c, I, h). I) x t"
      "on_complete ?E s" for hash eq s t
    using sh' x by simp
qed

context history_checker
begin

lemma runs_keep:
  assumes "usable key val (c, I, h)" "I st" "\<forall>i\<in>set os. i < length h \<and> is_invoke_event (h ! i)"
    "run_ops (adapter_of (env c h)) os st = Some st'"
  shows "I st'"
  using assms(2-4)
proof (induction os arbitrary: st)
  case (Cons i os)
  have "\<exists>y. TryApply (adapter_of (env c h)) i st = Ret y \<and> pred_option I y"
    using apply_returns [OF assms(1), of i st] Cons.prems faithful [OF assms(1)]
    by (simp add: shows_history_def)
  then show ?case
    using Cons by (auto split: option.splits)
qed simp

lemma pending_runs:
  assumes "usable key val (c, I, h)" "I st"
    "\<forall>i\<in>set os. i < length h \<and> is_invoke_event (h ! i) \<and> completed_at key h i = None"
  shows "\<exists>st'. run_ops (adapter_of (env c h)) os st = Some st'"
  using assms(2,3)
proof (induction os arbitrary: st)
  case (Cons i os)
  obtain st' where "apply_op (specification_methods c) (GetTask (h ! i)) None st = Ret (Some st')" "I st'"
    using methods_total_pending [of I "val h" "specification_methods c" h i st] assms(1) Cons.prems
    by (auto simp: usable_def)
  then show ?case
    using Cons faithful [OF assms(1)] by (simp add: shows_history_def val_pending)
qed simp

text \<open>Once only invocations are left, they are pending and the history completes.\<close>

lemma pending_completes:
  assumes "usable key val (c, I, h)" "I st" "paired (env c h) L" "L \<subseteq> {..<length h}"
    "\<forall>i<length h. i \<notin> L \<longrightarrow> is_invoke_event (h ! i)"
  shows "completes (env c h) L st"
proof -
  note sh = faithful [OF assms(1), unfolded shows_history_def]
  define os where "os = filter (\<lambda>i. i \<notin> L) [0..<length h]"
  have wf: "well_formed key h" using assms(1) by (simp add: usable_def)
  have "completed_at key h i = None" if i: "i < length h" "i \<notin> L" for i
  proof (cases "completed_at key h i")
    case (Some r)
    note r = completed_invoke [OF wf Some]
    have "history_size (env c h) = length h" "IsInvoke (adapter_of (env c h)) i"
      "ResponseIndex (adapter_of (env c h)) i = Some r"
      using sh i r Some by simp_all
    then have "r \<notin> L"
      using assms(3) i unfolding paired_def by metis
    then show ?thesis using assms(5) r by blast
  qed
  then have pend: "\<forall>i\<in>set os. i < length h \<and> is_invoke_event (h ! i) \<and> completed_at key h i = None"
    using assms(5) by (simp add: os_def)
  obtain st' where run: "run_ops (adapter_of (env c h)) os st = Some st'"
    using pending_runs [OF assms(1,2) pend] by blast
  have "real_time_order (adapter_of (env c h)) os"
    unfolding real_time_order_def using pend sh by (intro sorted_wrt_all) simp
  moreover have "\<forall>i\<in>set os. i < history_size (env c h) \<and> IsInvoke (adapter_of (env c h)) i \<and> i \<notin> L"
    using pend sh by (auto simp: os_def)
  moreover have "\<forall>i<history_size (env c h). IsInvoke (adapter_of (env c h)) i \<and> i \<notin> set os \<and> i \<notin> L \<longrightarrow>
      ResponseIndex (adapter_of (env c h)) i = None \<and> CanDropPendingInvoke (adapter_of (env c h)) i"
    using sh by (simp add: os_def)
  moreover have "distinct os" "on_complete (env c h) st'"
    using sh by (simp_all add: os_def)
  ultimately have "linearizes_rest (env c h) L os st"
    unfolding linearizes_rest_def using run by blast
  then show ?thesis
    using linearizes_imp_completes [of "(c, I, h)" L os st] assms sh by simp
qed

lemma is_linearization_linearizes:
  assumes "usable key val (c, I, h)" "is_linearization (env c h) os st"
  shows "linearizes key (val h) (specification_methods c) st h os"
proof -
  note sh = faithful [OF assms(1), unfolded shows_history_def]
  have wf: "well_formed key h" using assms(1) by (simp add: usable_def)
  have mem: "\<forall>i\<in>set os. i < length h \<and> is_invoke_event (h ! i)"
    using assms(2) sh by (auto simp: is_linearization_def)
  have all: "\<forall>i<length h. is_invoke_event (h ! i) \<longrightarrow> i \<in> set os"
    using assms(2) sh by (auto simp: is_linearization_def)
  have rt: "sorted_wrt (\<lambda>a b. \<forall>r. completed_at key h b = Some r \<longrightarrow> a \<le> r) os"
  proof (rule sorted_wrt_mono_rel)
    show "sorted_wrt (\<lambda>a b. \<forall>r. ResponseIndex (adapter_of (env c h)) b = Some r \<longrightarrow> a \<le> r) os"
      using assms(2) by (simp add: is_linearization_def real_time_order_def)
  qed (use mem sh in auto)
  have "\<exists>st'. run_ops (adapter_of (env c h)) os st = Some st'"
    using assms(2) by (auto simp: is_linearization_def)
  then have "legal_from (specification_methods c) (map (\<lambda>i. (GetTask (h ! i), val h i)) os) st"
    using run_ops_legal [of os "adapter_of (env c h)" "specification_methods c" "\<lambda>i. GetTask (h ! i)" "val h" st]
      mem sh by simp
  then show ?thesis
    using assms(2) mem all rt completed_invoke(3) [OF wf]
    by (auto simp: linearizes_def is_linearization_def)
qed

lemma linearizes_is_linearization:
  assumes "usable key val (c, I, h)" "I st" "linearizes key (val h) (specification_methods c) st h os"
  defines "rest \<equiv> filter (\<lambda>i. is_invoke_event (h ! i) \<and> i \<notin> set os) [0..<length h]"
  shows "is_linearization (env c h) (os @ rest) st"
proof -
  note sh = faithful [OF assms(1), unfolded shows_history_def]
  have mem: "\<forall>i\<in>set os. i < length h \<and> is_invoke_event (h ! i)"
    and fin: "\<forall>i<length h. completed_at key h i \<noteq> None \<longrightarrow> i \<in> set os"
    using assms(3) unfolding linearizes_def by blast+
  have rest: "\<forall>i\<in>set rest. i < length h \<and> is_invoke_event (h ! i) \<and> completed_at key h i = None \<and> i \<notin> set os"
    using fin by (auto simp: rest_def)
  obtain st1 where st1: "run_ops (adapter_of (env c h)) os st = Some st1"
    using run_ops_legal [of os "adapter_of (env c h)" "specification_methods c" "\<lambda>i. GetTask (h ! i)" "val h" st]
      mem sh assms(3) by (auto simp: linearizes_def)
  obtain st2 where st2: "run_ops (adapter_of (env c h)) rest st1 = Some st2"
    using pending_runs [OF assms(1) runs_keep [OF assms(1,2) mem st1]] rest by blast
  have rt: "real_time_order (adapter_of (env c h)) (os @ rest)"
    unfolding real_time_order_def
  proof (rule sorted_wrt_mono_rel)
    show "sorted_wrt (\<lambda>a b. \<forall>r. completed_at key h b = Some r \<longrightarrow> a \<le> r) (os @ rest)"
      using assms(3) rest unfolding linearizes_def sorted_wrt_append
      by (simp add: sorted_wrt_all)
  qed (use mem rest sh in auto)
  have "distinct (os @ rest)"
    using assms(3) by (auto simp: linearizes_def rest_def)
  moreover have "\<forall>i\<in>set (os @ rest). i < length h \<and> is_invoke_event (h ! i)"
    using mem rest by auto
  moreover have "\<forall>i<length h. is_invoke_event (h ! i) \<longrightarrow> i \<in> set (os @ rest)"
    by (simp add: rest_def)
  moreover have "run_ops (adapter_of (env c h)) (os @ rest) st = Some st2"
    using st1 st2 by (simp add: run_ops_append)
  ultimately show ?thesis
    unfolding is_linearization_def using sh rt by metis
qed

lemma linearization_iff:
  "usable key val (c, I, h) \<Longrightarrow> I st \<Longrightarrow>
   (\<exists>os. is_linearization (env c h) os st) \<longleftrightarrow> linearizable key (val h) (specification_methods c) st h"
  unfolding linearizable_def
  using is_linearization_linearizes linearizes_is_linearization by blast

lemma completes_iff_linearizable:
  "usable key val (c, I, h) \<Longrightarrow> I st \<Longrightarrow>
   completes (env c h) {} st \<longleftrightarrow> linearizable key (val h) (specification_methods c) st h"
  using completes_iff_linearization [of "(c, I, h)" st] linearization_iff by simp

lemma search_decides_linearizable:
  assumes "usable key val (c, I, h)" "I st"
  shows "RunRecursiveLinearizationSearchImpl (env c h) st =
    Ret (linearizable key (val h) (specification_methods c) st h)"
proof -
  have "RunRecursiveLinearizationSearchImpl ((\<lambda>(c, I, h). env c h) (c, I, h)) st =
      Ret (completes ((\<lambda>(c, I, h). env c h) (c, I, h)) {} st)"
    using assms faithful [OF assms(1)] by (intro search_correct) (simp_all add: shows_history_def)
  then show ?thesis
    by (simp add: completes_iff_linearizable [OF assms])
qed

end

end
