(* ===== verification/Lincheck_Recursive.thy ===== *)
theory Lincheck_Recursive
  imports History
begin

text \<open>
  \<open>LinearizabilityCheckerRecursive\<close> (runtime/include/lincheck_recursive.h): the table of events it
  builds, the resolution of specification methods, its adapter over the shared search, and the
  proof that \<open>Check\<close> answers whether the history is linearizable.
\<close>

section \<open>The table of events\<close>

record 'a recursive_event_info =
  is_invoke :: bool
  is_response :: bool
  ev_name :: string
  ev_args :: "'a option"
  response_index :: "nat option"
  ev_result :: "value_wrapper option"

definition RecursiveHistoryEventInfo :: "'a recursive_event_info" where
  "RecursiveHistoryEventInfo =
     \<lparr>is_invoke = False, is_response = False, ev_name = [], ev_args = None,
      response_index = None, ev_result = None\<rparr>"

fun fill_event_info :: "'a history_event \<Rightarrow> 'a recursive_event_info" where
  "fill_event_info (Invoke t _) =
     RecursiveHistoryEventInfo\<lparr>is_invoke := True, ev_name := task_name t, ev_args := Some (task_args t)\<rparr>"
| "fill_event_info (Response t v _) =
     RecursiveHistoryEventInfo\<lparr>is_response := True, ev_name := task_name t, ev_args := Some (task_args t),
       ev_result := Some v\<rparr>"

definition set_response_index :: "nat \<Rightarrow> 'a recursive_event_info \<Rightarrow> 'a recursive_event_info" where
  "set_response_index i ev = ev\<lparr>response_index := Some i\<rparr>"

fun build_info_loop :: "nat \<Rightarrow> 'a history_event list \<Rightarrow> 'a recursive_event_info list \<Rightarrow>
    (nat \<rightharpoonup> nat) \<Rightarrow> (int \<rightharpoonup> nat) \<Rightarrow> 'a recursive_event_info list" where
  "build_info_loop i [] info invoke_by_task invoke_by_op_id = info"
| "build_info_loop i (Invoke t n # es) info invoke_by_task invoke_by_op_id =
     build_info_loop (Suc i) es (info[i := fill_event_info (Invoke t n)])
       (invoke_by_task(task_get t \<mapsto> i)) (invoke_by_op_id(task_id t \<mapsto> i))"
| "build_info_loop i (Response t v n # es) info invoke_by_task invoke_by_op_id =
     (let info' = info[i := fill_event_info (Response t v n)];
          found = (case invoke_by_task (task_get t) of
                     Some j \<Rightarrow> Some j
                   | None \<Rightarrow> invoke_by_op_id (task_id t)) in
      build_info_loop (Suc i) es
        (case found of None \<Rightarrow> info' | Some j \<Rightarrow> info'[j := set_response_index i (info' ! j)])
        invoke_by_task invoke_by_op_id)"

definition BuildRecursiveHistoryEventInfo :: "'a history_event list \<Rightarrow> 'a recursive_event_info list" where
  "BuildRecursiveHistoryEventInfo history =
     build_info_loop 0 history (replicate (length history) RecursiveHistoryEventInfo) Map.empty Map.empty"

section \<open>The checker\<close>

fun resolve_methods :: "('st, 'a) method_map \<Rightarrow> 'a recursive_event_info list \<Rightarrow>
    ('st, 'a) spec_method option list res" where
  "resolve_methods ms [] = Ret []"
| "resolve_methods ms (ev # evs) =
     (if \<not> is_invoke ev then andThen (resolve_methods ms evs) (\<lambda>rest. Ret (None # rest))
      else (case ms (ev_name ev) of
              None \<Rightarrow> Exn (NoMethod (ev_name ev))
            | Some m \<Rightarrow> andThen (resolve_methods ms evs) (\<lambda>rest. Ret (Some m # rest))))"

definition recursive_try_apply :: "'a recursive_event_info list \<Rightarrow> ('st, 'a) spec_method option list \<Rightarrow>
    nat \<Rightarrow> 'st \<Rightarrow> 'st option res" where
  "recursive_try_apply events methods index state =
     (let event = events ! index in
      case (methods ! index, ev_args event) of
        (Some m, Some args) \<Rightarrow>
          andThen (m state args) (\<lambda>(expected, state').
            case response_index event of
              None \<Rightarrow> Ret (Some state')
            | Some r \<Rightarrow>
                (case ev_result (events ! r) of
                   None \<Rightarrow> Exn Undefined
                 | Some result \<Rightarrow> andThen (vw_eq expected result) (\<lambda>b. Ret (if b then Some state' else None))))
      | _ \<Rightarrow> Exn Undefined)"

definition recursive_adapter :: "'a recursive_event_info list \<Rightarrow> ('st, 'a) spec_method option list \<Rightarrow> 'st adapter" where
  "recursive_adapter events methods =
     \<lparr>IsInvoke = (\<lambda>index. is_invoke (events ! index)),
      IsResponse = (\<lambda>index. is_response (events ! index)),
      ResponseIndex = (\<lambda>index. response_index (events ! index)),
      TryApply = recursive_try_apply events methods,
      CanDropPendingInvoke = (\<lambda>_. False)\<rparr>"

definition recursive_env :: "('st, 'a) checker \<Rightarrow> 'a history_event list \<Rightarrow>
    ('st, 'a) spec_method option list \<Rightarrow> 'st search_env" where
  "recursive_env c history methods =
     \<lparr>history_size = length history,
      adapter_of = recursive_adapter (BuildRecursiveHistoryEventInfo history) methods,
      on_complete = AcceptAnyCompletedLinearization,
      cache_traits = state_traits c\<rparr>"

definition RecursiveCheck :: "('st, 'a) checker \<Rightarrow> 'a history_event list \<Rightarrow> bool res" where
  "RecursiveCheck c history =
     andThen (resolve_methods (specification_methods c) (BuildRecursiveHistoryEventInfo history))
       (\<lambda>method_by_event.
          RunRecursiveLinearizationSearchImpl (recursive_env c history method_by_event) (first_state c))"

section \<open>Correctness\<close>

text \<open>The table holds, for every invocation, the index of its response.\<close>

lemma build_info_loop_correct:
  "well_formed task_get (h @ es) \<Longrightarrow> n = length (h @ es) \<Longrightarrow>
   build_info_loop (length h) es
     (snapshot (inv_key task_get) (rsp_key task_get) fill_event_info set_response_index RecursiveHistoryEventInfo h n)
     (invoke_index (inv_key task_get) h) ids =
   snapshot (inv_key task_get) (rsp_key task_get) fill_event_info set_response_index RecursiveHistoryEventInfo (h @ es) n"
proof (induction es arbitrary: h ids)
  case (Cons e es)
  have wf: "well_formed task_get (h @ [e])"
    using well_matched_append [of _ _ "h @ [e]" es] Cons.prems by simp
  have n: "length h < n" using Cons.prems(2) by simp
  let ?S = "\<lambda>h. snapshot (inv_key task_get) (rsp_key task_get) fill_event_info set_response_index
    RecursiveHistoryEventInfo h n"
  have IH: "build_info_loop (Suc (length h)) es (?S (h @ [e])) (invoke_index (inv_key task_get) (h @ [e])) ids' =
      ?S (h @ e # es)" for ids'
    using Cons.IH [of "h @ [e]" ids'] Cons.prems by simp
  from wf show ?case
  proof (cases rule: well_matched_snoc_cases)
    case (invoke k)
    then obtain t m where e: "e = Invoke t m" by (cases e) auto
    show ?thesis
      using IH [of "ids(task_id t \<mapsto> length h)"] invoke(1) unfolding snapshot_invoke [OF wf invoke(2) n] invoke_index_invoke [of "inv_key task_get" h, OF invoke(3,1)]
      by (simp add: e)
  next
    case (respond k i)
    then obtain t v m where e: "e = Response t v m" by (cases e) auto
    show ?thesis
      using IH [of ids] respond(2,6) unfolding snapshot_respond [OF wf respond(2,6,5,3) n] invoke_index_respond [of "inv_key task_get" e h, OF respond(1)]
      by (simp add: e Let_def)
  qed
qed simp

lemma BuildRecursiveHistoryEventInfo_correct:
  "well_formed task_get h \<Longrightarrow> BuildRecursiveHistoryEventInfo h =
   snapshot (inv_key task_get) (rsp_key task_get) fill_event_info set_response_index RecursiveHistoryEventInfo h (length h)"
  using build_info_loop_correct [of "[]" h "length h"]
  by (simp add: BuildRecursiveHistoryEventInfo_def snapshot_Nil)

lemma fill_event_info_simps [simp]:
  "is_invoke (fill_event_info e) = is_invoke_event e"
  "is_response (fill_event_info e) = (\<not> is_invoke_event e)"
  "ev_name (fill_event_info e) = task_name (GetTask e)"
  "ev_args (fill_event_info e) = Some (task_args (GetTask e))"
  "response_index (fill_event_info e) = None"
  "ev_result (fill_event_info e) = response_value e"
  by (cases e; simp add: RecursiveHistoryEventInfo_def)+

lemma event_info_fields:
  assumes "well_formed task_get h" "i < length h"
  defines "ev \<equiv> BuildRecursiveHistoryEventInfo h ! i"
  shows "is_invoke ev = is_invoke_event (h ! i)" "is_response ev = (\<not> is_invoke_event (h ! i))"
    "ev_name ev = task_name (GetTask (h ! i))" "ev_args ev = Some (task_args (GetTask (h ! i)))"
    "response_index ev = completed_at task_get h i" "ev_result ev = response_value (h ! i)"
  using assms(2) unfolding ev_def BuildRecursiveHistoryEventInfo_correct [OF assms(1)]
  by (cases "completed_at task_get h i"; simp add: snapshot_nth set_response_index_def)+

lemma length_event_info [simp]:
  "well_formed task_get h \<Longrightarrow> length (BuildRecursiveHistoryEventInfo h) = length h"
  by (simp add: BuildRecursiveHistoryEventInfo_correct)

lemma resolve_methods_Ret:
  assumes "\<forall>ev\<in>set evs. is_invoke ev \<longrightarrow> ms (ev_name ev) \<noteq> None"
  shows "resolve_methods ms evs = Ret (map (\<lambda>ev. if is_invoke ev then ms (ev_name ev) else None) evs)"
  using assms by (induction evs) auto

lemma resolve_methods_missing:
  "ev \<in> set evs \<Longrightarrow> is_invoke ev \<Longrightarrow> ms (ev_name ev) = None \<Longrightarrow>
   \<exists>ev'\<in>set evs. is_invoke ev' \<and> ms (ev_name ev') = None \<and> resolve_methods ms evs = Exn (NoMethod (ev_name ev'))"
proof (induction evs)
  case (Cons a evs)
  show ?case
  proof (cases "is_invoke a \<and> ms (ev_name a) = None")
    case True
    then show ?thesis by auto
  next
    case False
    with Cons.prems have "ev \<in> set evs" by auto
    then obtain ev' where "ev' \<in> set evs" "is_invoke ev'" "ms (ev_name ev') = None"
      "resolve_methods ms evs = Exn (NoMethod (ev_name ev'))"
      using Cons.IH Cons.prems by blast
    with False show ?thesis
      by (intro bexI [of _ ev']) (auto split: option.splits)
  qed
qed simp

definition resolved :: "('st, 'a) method_map \<Rightarrow> 'a history_event list \<Rightarrow> ('st, 'a) spec_method option list" where
  "resolved ms h = map (\<lambda>e. if is_invoke_event e then ms (task_name (GetTask e)) else None) h"

lemma resolve_methods_resolved:
  assumes "well_formed task_get h"
    "\<forall>i<length h. is_invoke_event (h ! i) \<longrightarrow> ms (task_name (GetTask (h ! i))) \<noteq> None"
  shows "resolve_methods ms (BuildRecursiveHistoryEventInfo h) = Ret (resolved ms h)"
proof -
  have "\<forall>ev\<in>set (BuildRecursiveHistoryEventInfo h). is_invoke ev \<longrightarrow> ms (ev_name ev) \<noteq> None"
    using assms by (auto simp: in_set_conv_nth event_info_fields)
  moreover have "map (\<lambda>ev. if is_invoke ev then ms (ev_name ev) else None) (BuildRecursiveHistoryEventInfo h) =
      resolved ms h"
    using assms(1) by (intro nth_equalityI) (simp_all add: resolved_def event_info_fields)
  ultimately show ?thesis
    by (simp add: resolve_methods_Ret)
qed

lemma recursive_try_apply_eq:
  assumes "well_formed task_get h" "i < length h" "is_invoke_event (h ! i)"
    "ms (task_name (GetTask (h ! i))) = Some m"
  shows "recursive_try_apply (BuildRecursiveHistoryEventInfo h) (resolved ms h) i =
    apply_op ms (GetTask (h ! i)) (response_result task_get h i)"
proof
  fix st
  show "recursive_try_apply (BuildRecursiveHistoryEventInfo h) (resolved ms h) i st =
    apply_op ms (GetTask (h ! i)) (response_result task_get h i) st"
  proof (cases "completed_at task_get h i")
    case None
    then show ?thesis
      using assms by (simp add: recursive_try_apply_def event_info_fields resolved_def apply_op_def
          response_result_def)
  next
    case (Some r)
    note r = completed_invoke [OF assms(1) Some]
    then obtain t v n where "h ! r = Response t v n" by (cases "h ! r") auto
    then show ?thesis
      using assms Some r by (simp add: recursive_try_apply_def event_info_fields resolved_def apply_op_def
          response_result_def)
  qed
qed

text \<open>The adapter shows the history, so the search decides linearizability.\<close>

definition recursive_search :: "('st, 'a) checker \<Rightarrow> 'a history_event list \<Rightarrow> 'st search_env" where
  "recursive_search c h = recursive_env c h (resolved (specification_methods c) h)"

lemma response_result_pending: "completed_at f h i = None \<Longrightarrow> response_result f h i = None"
  by (simp add: response_result_def)

interpretation recursive: history_checker
  "recursive_search :: ('st, 'a) checker \<Rightarrow> 'a history_event list \<Rightarrow> 'st search_env" task_get
  "response_result task_get"
proof
  fix c :: "('st, 'a) checker" and I and h :: "'a history_event list"
  assume "usable task_get (response_result task_get) (c, I, h)"
  then have wf: "well_formed task_get h"
    and named: "\<And>i. i < length h \<Longrightarrow> is_invoke_event (h ! i) \<Longrightarrow>
      \<exists>m. specification_methods c (task_name (GetTask (h ! i))) = Some m"
    by (auto simp: usable_def methods_total_def)
  have "recursive_try_apply (BuildRecursiveHistoryEventInfo h) (resolved (specification_methods c) h) i =
      apply_op (specification_methods c) (GetTask (h ! i)) (response_result task_get h i)"
    if "i < length h" "is_invoke_event (h ! i)" for i
    using recursive_try_apply_eq [OF wf that] named [OF that] by blast
  then show "shows_history task_get (response_result task_get h) (specification_methods c) h (recursive_search c h)"
    using wf by (simp add: shows_history_def recursive_search_def recursive_env_def recursive_adapter_def
        event_info_fields AcceptAnyCompletedLinearization_def)
qed (simp_all add: recursive_search_def recursive_env_def response_result_pending)

lemma RecursiveCheck_search:
  assumes "usable task_get (response_result task_get) (c, I, h)"
  shows "RecursiveCheck c h = RunRecursiveLinearizationSearchImpl (recursive_search c h) (first_state c)"
proof -
  have "resolve_methods (specification_methods c) (BuildRecursiveHistoryEventInfo h) =
      Ret (resolved (specification_methods c) h)"
    using assms by (intro resolve_methods_resolved) (auto simp: usable_def methods_total_def)
  then show ?thesis
    by (simp add: RecursiveCheck_def recursive_search_def)
qed

end
