(* ===== verification/Lincheck_Wgl.thy ===== *)
theory Lincheck_Wgl
  imports History
begin

text \<open>
  \<open>LinearizabilityChecker\<close> (runtime/include/lincheck.h): the iterative checker with an explicit stack
  of open sections, an explicit stack of earlier states, and a cache of visited positions. The
  proof follows the loop through the search tree: the loop ends, it never reads outside the
  history, and it answers whether the history is linearizable.
\<close>

unbundle bit_operations_syntax

section \<open>The checker\<close>

text \<open>
  The hash of a position combines the hash of the flags (\<open>std::hash<std::vector<bool>>\<close>, the
  argument \<open>vector_hash\<close>) with the hash of the state.
\<close>

definition PairHash :: "(bool list \<Rightarrow> 64 word) \<Rightarrow> ('st \<Rightarrow> 64 word) \<Rightarrow> bool list \<times> 'st \<Rightarrow> 64 word" where
  "PairHash vector_hash object_hash p = vector_hash (fst p) XOR object_hash (snd p)"

definition PairEqual :: "('st \<Rightarrow> 'st \<Rightarrow> bool) \<Rightarrow> bool list \<times> 'st \<Rightarrow> bool list \<times> 'st \<Rightarrow> bool" where
  "PairEqual object_equal lhs rhs \<longleftrightarrow> fst lhs = fst rhs \<and> object_equal (snd lhs) (snd rhs)"

text \<open>The hash functions and the equality that the set of visited positions is instantiated with.\<close>

record 'st wgl_traits =
  vector_hash :: "bool list \<Rightarrow> 64 word"
  object_hash :: "'st \<Rightarrow> 64 word"
  object_equal :: "'st \<Rightarrow> 'st \<Rightarrow> bool"

definition cache_find :: "'st wgl_traits \<Rightarrow> (bool list \<times> 'st) list \<Rightarrow> bool list \<times> 'st \<Rightarrow> bool" where
  "cache_find T cache key =
     list_ex (\<lambda>k. PairHash (vector_hash T) (object_hash T) k = PairHash (vector_hash T) (object_hash T) key \<and>
                  PairEqual (object_equal T) key k) cache"

text \<open>The local variables of \<open>Check\<close>. The tops of both stacks are the heads of the lists.\<close>

record 'st wgl_vars =
  current_section_start :: nat
  data_structure_state :: 'st
  open_sections_stack :: "nat list"
  states_stack :: "'st list"
  wgl_linearized :: "bool list"
  linearized_entries_count :: nat
  states_cache :: "(bool list \<times> 'st) list"

definition mark_events :: "nat \<Rightarrow> nat option \<Rightarrow> bool \<Rightarrow> bool list \<Rightarrow> bool list" where
  "mark_events i ri b flags = (case ri of None \<Rightarrow> flags[i := b] | Some r \<Rightarrow> flags[i := b, r := b])"

definition entries :: "nat option \<Rightarrow> nat" where
  "entries ri = (case ri of None \<Rightarrow> 1 | Some _ \<Rightarrow> 2)"

text \<open>The invoke branch of the loop body, with the method already found and called.\<close>

definition wgl_invoke :: "'st wgl_traits \<Rightarrow> nat option \<Rightarrow> 'st wgl_vars \<Rightarrow> 'st \<Rightarrow> bool \<Rightarrow> 'st wgl_vars" where
  "wgl_invoke T response s data_structure_state_copy accepted =
     (let cur = current_section_start s;
          flags = mark_events cur response True (wgl_linearized s);
          key = (flags, data_structure_state_copy) in
      if \<not> accepted then s\<lparr>current_section_start := Suc cur\<rparr>
      else if cache_find T (states_cache s) key then
        s\<lparr>wgl_linearized := mark_events cur response False flags,
          linearized_entries_count := linearized_entries_count s + entries response - entries response,
          current_section_start := Suc cur\<rparr>
      else
        s\<lparr>wgl_linearized := flags,
          linearized_entries_count := linearized_entries_count s + entries response,
          states_cache := key # states_cache s,
          open_sections_stack := cur # open_sections_stack s,
          states_stack := data_structure_state s # states_stack s,
          data_structure_state := data_structure_state_copy,
          current_section_start := 0\<rparr>)"

text \<open>The response branch: \<open>Inr False\<close> is the early return, otherwise the last section is closed.\<close>

definition wgl_response :: "(nat \<rightharpoonup> nat) \<Rightarrow> 'st wgl_vars \<Rightarrow> ('st wgl_vars + bool) res" where
  "wgl_response inv_res s =
     (case (open_sections_stack s, states_stack s) of
        ([], _) \<Rightarrow> Ret (Inr False)
      | (_, []) \<Rightarrow> Exn Undefined
      | (last_inv # open', st # states') \<Rightarrow>
          Ret (Inl (s\<lparr>data_structure_state := st,
                      states_stack := states',
                      open_sections_stack := open',
                      wgl_linearized := mark_events last_inv (inv_res last_inv) False (wgl_linearized s),
                      linearized_entries_count := linearized_entries_count s - entries (inv_res last_inv),
                      current_section_start := Suc last_inv\<rparr>)))"

definition wgl_step :: "'st wgl_traits \<Rightarrow> ('st, 'a) method_map \<Rightarrow> 'a history_event list \<Rightarrow> (nat \<rightharpoonup> nat) \<Rightarrow>
    'st wgl_vars \<Rightarrow> ('st wgl_vars + bool) res" where
  "wgl_step T ms history inv_res s =
     (let cur = current_section_start s in
      andThen (vector_at (wgl_linearized s) cur) (\<lambda>seen.
        if seen then Ret (Inl (s\<lparr>current_section_start := Suc cur\<rparr>))
        else (case history ! cur of
                Invoke t _ \<Rightarrow>
                  (case ms (task_name t) of
                     None \<Rightarrow> Exn AssertionFailure
                   | Some m \<Rightarrow>
                       andThen (m (data_structure_state s) (task_args t)) (\<lambda>(res, copy).
                         andThen (case inv_res cur of
                                    None \<Rightarrow> Ret True
                                  | Some _ \<Rightarrow> andThen (GetRetVal t) (vw_eq res)) (\<lambda>accepted.
                           Ret (Inl (wgl_invoke T (inv_res cur) s copy accepted)))))
              | Response _ _ _ \<Rightarrow> wgl_response inv_res s)))"

partial_function (option) wgl_loop :: "'st wgl_traits \<Rightarrow> ('st, 'a) method_map \<Rightarrow> 'a history_event list \<Rightarrow>
    (nat \<rightharpoonup> nat) \<Rightarrow> 'st wgl_vars \<Rightarrow> bool res option" where
  "wgl_loop T ms history inv_res s =
     (if linearized_entries_count s = length history then Some (Ret True)
      else (case wgl_step T ms history inv_res s of
              Ret (Inl s') \<Rightarrow> wgl_loop T ms history inv_res s'
            | Ret (Inr b) \<Rightarrow> Some (Ret b)
            | Exn e \<Rightarrow> Some (Exn e)
            | OutOfFuel \<Rightarrow> Some OutOfFuel))"

definition wgl_init :: "'st \<Rightarrow> nat \<Rightarrow> 'st wgl_vars" where
  "wgl_init st n =
     \<lparr>current_section_start = 0, data_structure_state = st, open_sections_stack = [], states_stack = [],
      wgl_linearized = replicate n False, linearized_entries_count = 0, states_cache = []\<rparr>"

definition WglCheck :: "'st wgl_traits \<Rightarrow> ('st, 'a) checker \<Rightarrow> 'a history_event list \<Rightarrow> bool res option" where
  "WglCheck T c history =
     (case get_inv_res_mapping history of
        Ret inv_res \<Rightarrow> wgl_loop T (specification_methods c) history inv_res
                         (wgl_init (first_state c) (length history))
      | Exn e \<Rightarrow> Some (Exn e)
      | OutOfFuel \<Rightarrow> Some OutOfFuel)"

declare wgl_loop.simps [code]

section \<open>Flags\<close>

lemma length_mark_events [simp]: "length (mark_events i ri b flags) = length flags"
  by (simp add: mark_events_def split: option.splits)

lemma marked_mark_True:
  "i < length flags \<Longrightarrow> pred_option (\<lambda>r. r < length flags) ri \<Longrightarrow>
   marked (mark_events i ri True flags) = marked flags \<union> insert i (set_option ri)"
  by (auto simp: mark_events_def marked_update_True split: option.splits)

lemma marked_mark_False:
  "i < length flags \<Longrightarrow> pred_option (\<lambda>r. r < length flags) ri \<Longrightarrow>
   marked (mark_events i ri False flags) = marked flags - insert i (set_option ri)"
  by (auto simp: mark_events_def marked_update_False split: option.splits)

lemma unmark_events:
  assumes "i < length flags" "pred_option (\<lambda>r. r < length flags) ri"
    "insert i (set_option ri) \<inter> marked flags = {}"
  shows "mark_events i ri False (mark_events i ri True flags) = flags"
proof -
  have "marked (mark_events i ri False (mark_events i ri True flags)) = marked flags"
    using assms by (auto simp: marked_mark_True marked_mark_False)
  then show ?thesis
    using marked_inject by (metis length_mark_events)
qed

section \<open>Runs of the loop\<close>

definition wgl_next :: "'st wgl_traits \<Rightarrow> ('st, 'a) method_map \<Rightarrow> 'a history_event list \<Rightarrow> (nat \<rightharpoonup> nat) \<Rightarrow>
    'st wgl_vars \<Rightarrow> 'st wgl_vars \<Rightarrow> bool" where
  "wgl_next T ms h inv_res s s' \<longleftrightarrow>
     linearized_entries_count s \<noteq> length h \<and> wgl_step T ms h inv_res s = Ret (Inl s')"

lemma wgl_loop_steps:
  "(wgl_next T ms h inv_res)\<^sup>*\<^sup>* s s' \<Longrightarrow> wgl_loop T ms h inv_res s = wgl_loop T ms h inv_res s'"
proof (induction rule: rtranclp_induct)
  case (step y z)
  then have "wgl_loop T ms h inv_res y = wgl_loop T ms h inv_res z"
    by (subst wgl_loop.simps) (simp add: wgl_next_def)
  with step show ?case by simp
qed simp

section \<open>The search tree the loop walks\<close>

definition wgl_search :: "('st, 'a) checker \<Rightarrow> 'a history_event list \<Rightarrow> 'st search_env" where
  "wgl_search c h =
     \<lparr>history_size = length h,
      adapter_of =
        \<lparr>IsInvoke = (\<lambda>i. is_invoke_event (h ! i)),
         IsResponse = (\<lambda>i. \<not> is_invoke_event (h ! i)),
         ResponseIndex = completed_at task_slot h,
         TryApply = (\<lambda>i. apply_op (specification_methods c) (GetTask (h ! i)) (task_result task_slot h i)),
         CanDropPendingInvoke = (\<lambda>_. False)\<rparr>,
      on_complete = (\<lambda>_. True),
      cache_traits = state_traits c\<rparr>"

interpretation wgl: history_checker
  "wgl_search :: ('st, 'a) checker \<Rightarrow> 'a history_event list \<Rightarrow> 'st search_env" task_slot
  "task_result task_slot"
  by unfold_locales (simp_all add: shows_history_def wgl_search_def task_result_def)

text \<open>
  What \<open>Check\<close> needs: a usable specification, the hash and equality it is instantiated with, and tasks
  that have returned when their response is recorded.
\<close>

definition wgl_ready :: "'st wgl_traits \<Rightarrow> ('st, 'a) checker \<Rightarrow> ('st \<Rightarrow> bool) \<Rightarrow> 'a history_event list \<Rightarrow> bool" where
  "wgl_ready T c I h \<longleftrightarrow>
     usable task_slot (task_result task_slot) (c, I, h) \<and>
     state_traits c = Some (object_hash T, object_equal T) \<and>
     (\<forall>i. completed_at task_slot h i \<noteq> None \<longrightarrow> task_returned (GetTask (h ! i)))"

abbreviation wgl_steps :: "'st wgl_traits \<Rightarrow> ('st, 'a) checker \<Rightarrow> 'a history_event list \<Rightarrow> 'st wgl_vars \<Rightarrow> 'st wgl_vars \<Rightarrow> bool" where
  "wgl_steps T c h \<equiv> (wgl_next T (specification_methods c) h (completed_at task_slot h))\<^sup>*\<^sup>*"

abbreviation wgl_done :: "'st wgl_vars \<Rightarrow> nat set" where
  "wgl_done s \<equiv> marked (wgl_linearized s)"

abbreviation wgl_viable :: "('st, 'a) checker \<Rightarrow> 'a history_event list \<Rightarrow> 'st wgl_vars \<Rightarrow> nat \<Rightarrow> bool" where
  "wgl_viable c h s \<equiv> viable (wgl_search c h) (wgl_done s) (data_structure_state s)"

definition failed_key :: "('st, 'a) checker \<Rightarrow> ('st \<Rightarrow> bool) \<Rightarrow> 'a history_event list \<Rightarrow> bool list \<times> 'st \<Rightarrow> bool" where
  "failed_key c I h k \<longleftrightarrow> length (fst k) = length h \<and> I (snd k) \<and>
     \<not> completes (wgl_search c h) (marked (fst k)) (snd k)"

text \<open>
  The cache holds visited positions. The ones with more linearized events than the current position
  have been explored without success; the others may still be open.
\<close>

definition wgl_inv :: "('st, 'a) checker \<Rightarrow> ('st \<Rightarrow> bool) \<Rightarrow> 'a history_event list \<Rightarrow> 'st wgl_vars \<Rightarrow> bool" where
  "wgl_inv c I h s \<longleftrightarrow>
     length (wgl_linearized s) = length h \<and>
     linearized_entries_count s = card (wgl_done s) \<and>
     paired (wgl_search c h) (wgl_done s) \<and>
     I (data_structure_state s) \<and>
     (\<forall>k\<in>set (states_cache s). length (fst k) = length h \<and> I (snd k) \<and>
        (card (wgl_done s) < card (marked (fst k)) \<longrightarrow> failed_key c I h k))"

definition wgl_explored :: "'st wgl_traits \<Rightarrow> ('st, 'a) checker \<Rightarrow> ('st \<Rightarrow> bool) \<Rightarrow> 'a history_event list \<Rightarrow> 'st wgl_vars \<Rightarrow> bool" where
  "wgl_explored T c I h s \<longleftrightarrow>
     (if \<exists>i. wgl_viable c h s i
      then \<exists>s'. wgl_steps T c h s s' \<and> linearized_entries_count s' = length h
      else \<exists>r C. wgl_steps T c h s (s\<lparr>current_section_start := r, states_cache := C\<rparr>) \<and>
             r < length h \<and> r \<notin> wgl_done s \<and> \<not> is_invoke_event (h ! r) \<and>
             (\<forall>k\<in>set C. k \<in> set (states_cache s) \<or> failed_key c I h k))"

lemma wgl_explored_success:
  "wgl_explored T c I h s \<Longrightarrow> wgl_viable c h s i \<Longrightarrow>
   \<exists>s'. wgl_steps T c h s s' \<and> linearized_entries_count s' = length h"
  unfolding wgl_explored_def by metis

lemma wgl_explored_failure:
  "wgl_explored T c I h s \<Longrightarrow> (\<And>i. \<not> wgl_viable c h s i) \<Longrightarrow>
   \<exists>r C. wgl_steps T c h s (s\<lparr>current_section_start := r, states_cache := C\<rparr>) \<and>
     r < length h \<and> r \<notin> wgl_done s \<and> \<not> is_invoke_event (h ! r) \<and>
     (\<forall>k\<in>set C. k \<in> set (states_cache s) \<or> failed_key c I h k)"
  unfolding wgl_explored_def by metis

lemma wgl_viable_iff:
  "wgl_viable c h s i \<longleftrightarrow> candidate (wgl_search c h) (wgl_done s) i \<and>
     (\<exists>st'. TryApply (adapter_of (wgl_search c h)) i (data_structure_state s) = Ret (Some st') \<and>
        completes (wgl_search c h) (wgl_done s \<union> op_events (adapter_of (wgl_search c h)) i) st')"
  by (simp add: viable_def wgl_search_def)

lemma wgl_inv_cache:
  "wgl_inv c I h s \<Longrightarrow> \<forall>k\<in>set C. k \<in> set (states_cache s) \<or> failed_key c I h k \<Longrightarrow>
   wgl_inv c I h (s\<lparr>current_section_start := j, states_cache := C\<rparr>)"
  unfolding wgl_inv_def by (auto simp: failed_key_def)

lemma wgl_explored_later:
  assumes "wgl_steps T c h s (s\<lparr>current_section_start := j, states_cache := C\<rparr>)"
    "\<forall>k\<in>set C. k \<in> set (states_cache s) \<or> failed_key c I h k"
    "wgl_explored T c I h (s\<lparr>current_section_start := j, states_cache := C\<rparr>)"
  shows "wgl_explored T c I h s"
proof (cases "\<exists>i. wgl_viable c h s i")
  case True
  then obtain s' where "wgl_steps T c h (s\<lparr>current_section_start := j, states_cache := C\<rparr>) s'"
    "linearized_entries_count s' = length h"
    using assms(3) by (auto simp: wgl_explored_def)
  then have "\<exists>s'. wgl_steps T c h s s' \<and> linearized_entries_count s' = length h"
    using rtranclp_trans [OF assms(1)] by blast
  with True show ?thesis
    unfolding wgl_explored_def by simp
next
  case False
  then obtain r C' where r: "wgl_steps T c h (s\<lparr>current_section_start := j, states_cache := C\<rparr>)
      (s\<lparr>current_section_start := r, states_cache := C'\<rparr>)"
    "r < length h" "r \<notin> wgl_done s" "\<not> is_invoke_event (h ! r)"
    "\<forall>k\<in>set C'. k \<in> set C \<or> failed_key c I h k"
    using assms(3) by (auto simp: wgl_explored_def)
  have "\<forall>k\<in>set C'. k \<in> set (states_cache s) \<or> failed_key c I h k"
    using r(5) assms(2) by blast
  with False r(2-4) rtranclp_trans [OF assms(1) r(1)] show ?thesis
    unfolding wgl_explored_def by auto
qed

lemma wgl_explored_next:
  assumes "wgl_next T (specification_methods c) h (completed_at task_slot h) s (s\<lparr>current_section_start := j\<rparr>)"
    "wgl_explored T c I h (s\<lparr>current_section_start := j\<rparr>)"
  shows "wgl_explored T c I h s"
proof -
  have eq: "s\<lparr>current_section_start := j, states_cache := states_cache s\<rparr> = s\<lparr>current_section_start := j\<rparr>"
    by (cases s) simp
  show ?thesis
    by (rule wgl_explored_later [where j = j and C = "states_cache s"], unfold eq)
      (use assms in \<open>simp_all add: r_into_rtranclp\<close>)
qed

subsection \<open>One iteration\<close>

lemma wgl_step_seen:
  "current_section_start s < length (wgl_linearized s) \<Longrightarrow> current_section_start s \<in> wgl_done s \<Longrightarrow>
   wgl_step T ms h inv_res s = Ret (Inl (s\<lparr>current_section_start := Suc (current_section_start s)\<rparr>))"
  by (simp add: wgl_step_def nth_marked)

lemma wgl_step_response:
  "current_section_start s < length (wgl_linearized s) \<Longrightarrow> current_section_start s \<notin> wgl_done s \<Longrightarrow>
   \<not> is_invoke_event (h ! current_section_start s) \<Longrightarrow> wgl_step T ms h inv_res s = wgl_response inv_res s"
  by (cases "h ! current_section_start s") (simp_all add: wgl_step_def nth_marked)

lemma wgl_step_invoke:
  assumes "current_section_start s < length (wgl_linearized s)" "current_section_start s \<notin> wgl_done s"
    "is_invoke_event (h ! current_section_start s)"
    "completed_at task_slot h (current_section_start s) \<noteq> None \<longrightarrow> task_returned (GetTask (h ! current_section_start s))"
    "apply_op ms (GetTask (h ! current_section_start s)) (task_result task_slot h (current_section_start s))
       (data_structure_state s) = Ret x"
  obtains copy accepted where
    "wgl_step T ms h (completed_at task_slot h) s =
       Ret (Inl (wgl_invoke T (completed_at task_slot h (current_section_start s)) s copy accepted))"
    "x = (if accepted then Some copy else None)"
proof -
  let ?cur = "current_section_start s"
  obtain t n where t: "h ! ?cur = Invoke t n"
    using assms(3) by (cases "h ! ?cur") auto
  obtain m v copy where m: "ms (task_name t) = Some m" "m (data_structure_state s) (task_args t) = Ret (v, copy)"
    using assms(5) t by (auto simp: apply_op_def andThen_eq_Ret split: option.splits)
  show ?thesis
  proof (cases "completed_at task_slot h ?cur")
    case None
    then show ?thesis
      using assms m t that [of copy True] by (simp add: wgl_step_def nth_marked apply_op_def task_result_def)
  next
    case (Some r)
    then obtain b where b: "vw_eq v (task_ret t) = Ret b" "x = (if b then Some copy else None)"
      using assms(5) m t by (auto simp: apply_op_def task_result_def andThen_eq_Ret)
    then show ?thesis
      using assms Some m t that [of copy b] by (simp add: wgl_step_def nth_marked GetRetVal_def)
  qed
qed

subsection \<open>Descending into a candidate\<close>

lemma wgl_candidate:
  assumes "current_section_start s < length h" "current_section_start s \<notin> wgl_done s"
    "is_invoke_event (h ! current_section_start s)"
    "\<forall>i<current_section_start s. i \<notin> wgl_done s \<longrightarrow> is_invoke_event (h ! i)"
  shows "candidate (wgl_search c h) (wgl_done s) (current_section_start s)"
  using assms by (simp add: candidate_def wgl_search_def)

text \<open>A position found in the cache has already failed.\<close>

lemma cache_find_failed:
  assumes "wgl_ready T c I h" "wgl_inv c I h s" "I st" "length flags = length h"
    "card (wgl_done s) < card (marked flags)" "cache_find T (states_cache s) (flags, st)"
  shows "\<not> completes (wgl_search c h) (marked flags) st"
proof
  assume comp: "completes (wgl_search c h) (marked flags) st"
  obtain st' where k: "(flags, st') \<in> set (states_cache s)" "object_equal T st st'"
    using assms(6) by (auto simp: cache_find_def PairEqual_def list_ex_iff)
  then have k': "I st'" "\<not> completes (wgl_search c h) (marked flags) st'"
    using assms(2,5) by (auto simp: wgl_inv_def failed_key_def)
  have "usable task_slot (task_result task_slot) (c, I, h)"
    and "cache_traits (wgl_search c h) = Some (object_hash T, object_equal T)"
    using assms(1) by (simp_all add: wgl_ready_def wgl_search_def)
  then have "completes (wgl_search c h) (marked flags) st'"
    using wgl.equal_completes_from [of "(c, I, h)" "marked flags" st "object_hash T" "object_equal T" st']
      comp k(2) k'(1) assms(3) by simp
  then show False using k'(2) by simp
qed

text \<open>Opening a section and closing it again leaves everything but the cache and the cursor.\<close>

lemma wgl_close_section:
  assumes "current_section_start s < length (wgl_linearized s)"
    "pred_option (\<lambda>r. r < length (wgl_linearized s)) (inv_res (current_section_start s))"
    "insert (current_section_start s) (set_option (inv_res (current_section_start s))) \<inter> wgl_done s = {}"
    "\<not> cache_find T (states_cache s) (mark_events (current_section_start s) (inv_res (current_section_start s)) True (wgl_linearized s), copy)"
    "s1 = wgl_invoke T (inv_res (current_section_start s)) s copy True"
  shows "wgl_response inv_res (s1\<lparr>current_section_start := r, states_cache := C\<rparr>) =
    Ret (Inl (s\<lparr>current_section_start := Suc (current_section_start s), states_cache := C\<rparr>))"
  using assms unmark_events [OF assms(1-3)] by (simp add: wgl_invoke_def wgl_response_def Let_def)

lemma wgl_skip_seen:
  assumes "current_section_start s < length (wgl_linearized s)"
    "pred_option (\<lambda>r. r < length (wgl_linearized s)) ri"
    "insert (current_section_start s) (set_option ri) \<inter> wgl_done s = {}"
    "cache_find T (states_cache s) (mark_events (current_section_start s) ri True (wgl_linearized s), copy)"
  shows "wgl_invoke T ri s copy True = s\<lparr>current_section_start := Suc (current_section_start s)\<rparr>"
  using assms unmark_events [OF assms(1-3)] by (simp add: wgl_invoke_def Let_def)

lemma wgl_inv_child:
  assumes "wgl_ready T c I h" "wgl_inv c I h s"
    and cand: "candidate (wgl_search c h) (wgl_done s) (current_section_start s)"
    and "I copy"
    and nc: "\<not> cache_find T (states_cache s)
      (mark_events (current_section_start s) (completed_at task_slot h (current_section_start s)) True (wgl_linearized s), copy)"
    and s1: "s1 = wgl_invoke T (completed_at task_slot h (current_section_start s)) s copy True"
  shows "wgl_done s1 = wgl_done s \<union> op_events (adapter_of (wgl_search c h)) (current_section_start s)"
    and "wgl_inv c I h s1" and "linearized_entries_count s < linearized_entries_count s1"
    and "linearized_entries_count s1 \<le> length h"
proof -
  let ?cur = "current_section_start s" and ?ri = "completed_at task_slot h (current_section_start s)"
  let ?ops = "op_events (adapter_of (wgl_search c h)) ?cur"
  have us: "usable task_slot (task_result task_slot) (c, I, h)"
    using assms(1) by (simp add: wgl_ready_def)
  have inv: "length (wgl_linearized s) = length h" "linearized_entries_count s = card (wgl_done s)"
    "paired (wgl_search c h) (wgl_done s)"
    using assms(2) by (simp_all add: wgl_inv_def)
  note free = wgl.candidate_response_free [of "(c, I, h)", unfolded prod.case, OF us inv(3) cand]
  have ri: "ResponseIndex (adapter_of (wgl_search c h)) ?cur = ?ri" "history_size (wgl_search c h) = length h"
    by (simp_all add: wgl_search_def)
  have cur: "?cur < length h"
    using cand by (simp add: candidate_def wgl_search_def)
  have lin: "wgl_linearized s1 = mark_events ?cur ?ri True (wgl_linearized s)"
    and cnt: "linearized_entries_count s1 = linearized_entries_count s + entries ?ri"
    and st: "data_structure_state s1 = copy"
    and cache: "states_cache s1 = (mark_events ?cur ?ri True (wgl_linearized s), copy) # states_cache s"
    using nc s1 by (simp_all add: wgl_invoke_def Let_def)
  show marks: "wgl_done s1 = wgl_done s \<union> ?ops"
    using marked_mark_True [of ?cur "wgl_linearized s" ?ri] free(1) inv(1) cur unfolding lin ri
    by (simp add: op_events_def ri)
  have "card (wgl_done s \<union> ?ops) = card (wgl_done s) + card ?ops"
    using free(2) by (intro card_Un_disjoint) (auto simp: op_events_def)
  moreover have "card ?ops = entries ?ri"
    using free(3) unfolding ri by (simp add: entries_def split: option.splits)
  ultimately have card: "card (wgl_done s1) = card (wgl_done s) + entries ?ri"
    using marks by simp
  have pos: "0 < entries ?ri" by (simp add: entries_def split: option.splits)
  then show "linearized_entries_count s < linearized_entries_count s1"
    using cnt by simp
  have len: "length (wgl_linearized s1) = length h" using lin inv(1) by simp
  show "linearized_entries_count s1 \<le> length h"
    using card_marked_le [of "wgl_linearized s1"] card cnt inv(2) len by simp
  have "paired (wgl_search c h) (wgl_done s1)"
    unfolding marks by (rule wgl.paired_extend [of "(c, I, h)", unfolded prod.case, OF us inv(3) cand])
  moreover have "\<forall>k\<in>set (states_cache s1). length (fst k) = length h \<and> I (snd k) \<and>
      (card (wgl_done s1) < card (marked (fst k)) \<longrightarrow> failed_key c I h k)"
    using assms(2,4) card len unfolding cache wgl_inv_def lin [symmetric] by auto
  ultimately show "wgl_inv c I h s1"
    unfolding wgl_inv_def using len cnt inv(2) card st assms(4) by simp
qed

subsection \<open>Exploring a position\<close>

lemma wgl_explore_response:
  assumes "current_section_start s < length h" "current_section_start s \<notin> wgl_done s"
    "\<not> is_invoke_event (h ! current_section_start s)"
    "\<forall>i<current_section_start s. i \<notin> wgl_done s \<longrightarrow> is_invoke_event (h ! i) \<and> \<not> wgl_viable c h s i"
  shows "wgl_explored T c I h s"
proof -
  have "\<not> wgl_viable c h s i" for i
  proof
    assume v: "wgl_viable c h s i"
    then have "i \<notin> wgl_done s" "is_invoke_event (h ! i)"
      "\<forall>j<i. j \<notin> wgl_done s \<longrightarrow> is_invoke_event (h ! j)"
      by (auto simp: viable_def candidate_def wgl_search_def)
    then show False
      using assms v by (metis nat_neq_iff)
  qed
  moreover have "s\<lparr>current_section_start := current_section_start s, states_cache := states_cache s\<rparr> = s"
    by (cases s) simp
  ultimately show ?thesis
    unfolding wgl_explored_def using assms(1-3) by (metis rtranclp.rtrancl_refl)
qed

text \<open>
  After the section of a candidate has been opened, either the history completes or the loop comes
  back to the same position with the cursor behind the candidate.
\<close>

lemma wgl_explore_child:
  assumes ready: "wgl_ready T c I h" and inv: "wgl_inv c I h s"
    and cand: "candidate (wgl_search c h) (wgl_done s) (current_section_start s)"
    and app: "TryApply (adapter_of (wgl_search c h)) (current_section_start s) (data_structure_state s) = Ret (Some copy)"
    and "I copy"
    and nc: "\<not> cache_find T (states_cache s)
      (mark_events (current_section_start s) (completed_at task_slot h (current_section_start s)) True (wgl_linearized s), copy)"
    and s1: "s1 = wgl_invoke T (completed_at task_slot h (current_section_start s)) s copy True"
    and step: "wgl_next T (specification_methods c) h (completed_at task_slot h) s s1"
    and sub: "linearized_entries_count s1 \<noteq> length h \<Longrightarrow> wgl_explored T c I h s1"
  shows "wgl_explored T c I h s \<or>
    \<not> wgl_viable c h s (current_section_start s) \<and>
    (\<exists>C. wgl_steps T c h s (s\<lparr>current_section_start := Suc (current_section_start s), states_cache := C\<rparr>) \<and>
       (\<forall>k\<in>set C. k \<in> set (states_cache s) \<or> failed_key c I h k))"
proof -
  let ?E = "wgl_search c h" and ?cur = "current_section_start s"
  note child = wgl_inv_child [OF ready inv cand assms(5) nc s1]
  have steps: "wgl_steps T c h s s1"
    using step by (rule r_into_rtranclp)
  have len: "length (wgl_linearized s1) = length h" and cnt: "linearized_entries_count s1 = card (wgl_done s1)"
    using child(2) by (simp_all add: wgl_inv_def)
  have st1: "data_structure_state s1 = copy" and cache1: "states_cache s1 = (wgl_linearized s1, copy) # states_cache s"
    using nc s1 by (simp_all add: wgl_invoke_def Let_def)
  have full: "linearized_entries_count s1 = length h \<longleftrightarrow> wgl_done s1 = {..<history_size ?E}"
    using card_marked_full [of "wgl_linearized s1"] len cnt by (simp add: wgl_search_def)
  have viable: "wgl_viable c h s ?cur \<longleftrightarrow> completes ?E (wgl_done s1) copy"
    using cand app child(1) by (auto simp: viable_def wgl_search_def)
  have comp: "completes ?E (wgl_done s1) copy \<longleftrightarrow>
      linearized_entries_count s1 = length h \<or> (\<exists>i. wgl_viable c h s1 i)"
    using completes_iff [of ?E "wgl_done s1" copy] full st1 by (simp add: wgl_search_def)
  show ?thesis
  proof (cases "completes ?E (wgl_done s1) copy")
    case True
    then have "\<exists>s'. wgl_steps T c h s1 s' \<and> linearized_entries_count s' = length h"
      using comp sub unfolding wgl_explored_def by (metis rtranclp.rtrancl_refl)
    then have "\<exists>s'. wgl_steps T c h s s' \<and> linearized_entries_count s' = length h"
      using rtranclp_trans [OF steps] by blast
    then show ?thesis
      using viable True unfolding wgl_explored_def by metis
  next
    case False
    then obtain r C where rC: "wgl_steps T c h s1 (s1\<lparr>current_section_start := r, states_cache := C\<rparr>)"
      "r < length h" "r \<notin> wgl_done s1" "\<not> is_invoke_event (h ! r)"
      "\<forall>k\<in>set C. k \<in> set (states_cache s1) \<or> failed_key c I h k"
      using comp sub unfolding wgl_explored_def by metis
    let ?s2 = "s1\<lparr>current_section_start := r, states_cache := C\<rparr>"
    have us: "usable task_slot (task_result task_slot) (c, I, h)" and pair: "paired ?E (wgl_done s)"
      and lens: "length (wgl_linearized s) = length h"
      using ready inv by (simp_all add: wgl_ready_def wgl_inv_def)
    note free = wgl.candidate_response_free(1,2) [of "(c, I, h)", unfolded prod.case, OF us pair cand]
    have "wgl_step T (specification_methods c) h (completed_at task_slot h) ?s2 =
        wgl_response (completed_at task_slot h) ?s2"
      using rC len by (intro wgl_step_response) simp_all
    moreover have "wgl_response (completed_at task_slot h) ?s2 =
        Ret (Inl (s\<lparr>current_section_start := Suc ?cur, states_cache := C\<rparr>))"
      using free cand lens nc s1 by (intro wgl_close_section [where T = T and copy = copy])
        (simp_all add: candidate_def wgl_search_def op_events_def)
    moreover have "linearized_entries_count ?s2 \<noteq> length h"
      using comp False by simp
    ultimately have "wgl_next T (specification_methods c) h (completed_at task_slot h) ?s2
        (s\<lparr>current_section_start := Suc ?cur, states_cache := C\<rparr>)"
      by (simp add: wgl_next_def)
    then have "wgl_steps T c h s (s\<lparr>current_section_start := Suc ?cur, states_cache := C\<rparr>)"
      by (rule rtranclp.rtrancl_into_rtrancl [OF rtranclp_trans [OF steps rC(1)]])
    moreover have "failed_key c I h (wgl_linearized s1, copy)"
      using False len assms(5) by (simp add: failed_key_def)
    then have "\<forall>k\<in>set C. k \<in> set (states_cache s) \<or> failed_key c I h k"
      using rC(5) cache1 by auto
    ultimately show ?thesis
      using viable False by blast
  qed
qed

text \<open>
  The loop explores every position it enters. The measure counts the events still to linearize
  first and the distance of the cursor from the end second.
\<close>

definition wgl_measure :: "nat \<Rightarrow> 'st wgl_vars \<Rightarrow> nat" where
  "wgl_measure n s = (n - linearized_entries_count s) * (n + 2) + (n - current_section_start s)"

lemma wgl_measure_child:
  assumes "linearized_entries_count s < linearized_entries_count s1" "linearized_entries_count s1 \<le> n"
  shows "wgl_measure n s1 < wgl_measure n s"
proof -
  have "Suc (n - linearized_entries_count s1) \<le> n - linearized_entries_count s"
    using assms by linarith
  then have "Suc (n - linearized_entries_count s1) * (n + 2) \<le> (n - linearized_entries_count s) * (n + 2)"
    by (rule mult_le_mono1)
  then show ?thesis
    unfolding wgl_measure_def mult_Suc by linarith
qed

lemma wgl_no_dead_end:
  assumes "wgl_ready T c I h" "wgl_inv c I h s" "linearized_entries_count s \<noteq> length h"
    "\<forall>i<length h. i \<notin> wgl_done s \<longrightarrow> is_invoke_event (h ! i) \<and> \<not> wgl_viable c h s i"
  shows False
proof -
  have us: "usable task_slot (task_result task_slot) (c, I, h)"
    using assms(1) by (simp add: wgl_ready_def)
  have inv: "length (wgl_linearized s) = length h" "linearized_entries_count s = card (wgl_done s)"
    "paired (wgl_search c h) (wgl_done s)" "I (data_structure_state s)"
    using assms(2) by (simp_all add: wgl_inv_def)
  have sub: "wgl_done s \<subseteq> {..<length h}"
    using marked_subset [of "wgl_linearized s"] inv(1) by simp
  have "completes (wgl_search c h) (wgl_done s) (data_structure_state s)"
  proof (rule wgl.pending_completes [OF us inv(4,3) sub])
    show "\<forall>i<length h. i \<notin> wgl_done s \<longrightarrow> is_invoke_event (h ! i)"
      using assms(4) by simp
  qed
  moreover have "wgl_done s \<noteq> {..<history_size (wgl_search c h)}"
    using card_marked_full [of "wgl_linearized s"] inv assms(3) by (simp add: wgl_search_def)
  ultimately obtain i where v: "wgl_viable c h s i"
    unfolding completes_iff [of "wgl_search c h" "wgl_done s"] by blast
  then have "i < length h" "i \<notin> wgl_done s"
    unfolding viable_def candidate_def by (simp_all add: wgl_search_def)
  then show False using assms(4) v by simp
qed

lemma wgl_explore_invoke:
  assumes ready: "wgl_ready T c I h" and inv: "wgl_inv c I h s"
    and "linearized_entries_count s \<noteq> length h" "current_section_start s < length h"
    and cur: "current_section_start s \<notin> wgl_done s" "is_invoke_event (h ! current_section_start s)"
    and "\<forall>i<current_section_start s. i \<notin> wgl_done s \<longrightarrow> is_invoke_event (h ! i) \<and> \<not> wgl_viable c h s i"
  obtains (skipped) "wgl_step T (specification_methods c) h (completed_at task_slot h) s =
      Ret (Inl (s\<lparr>current_section_start := Suc (current_section_start s)\<rparr>))"
      "\<not> wgl_viable c h s (current_section_start s)"
  | (opened) s1 where "wgl_inv c I h s1" "linearized_entries_count s < linearized_entries_count s1"
      "linearized_entries_count s1 \<le> length h" "current_section_start s1 = 0"
      "(linearized_entries_count s1 \<noteq> length h \<Longrightarrow> wgl_explored T c I h s1) \<Longrightarrow>
       wgl_explored T c I h s \<or> \<not> wgl_viable c h s (current_section_start s) \<and>
       (\<exists>C. wgl_steps T c h s (s\<lparr>current_section_start := Suc (current_section_start s), states_cache := C\<rparr>) \<and>
          (\<forall>k\<in>set C. k \<in> set (states_cache s) \<or> failed_key c I h k))"
proof -
  let ?cur = "current_section_start s" and ?E = "wgl_search c h" and ?ri = "completed_at task_slot h (current_section_start s)"
  have cand: "candidate ?E (wgl_done s) ?cur"
    using assms by (intro wgl_candidate) simp_all
  have us: "usable task_slot (task_result task_slot) (c, I, h)" and pair: "paired ?E (wgl_done s)"
    and lin: "length (wgl_linearized s) = length h" and I: "I (data_structure_state s)"
    using ready inv by (simp_all add: wgl_ready_def wgl_inv_def)
  note free = wgl.candidate_response_free(1,2) [of "(c, I, h)", unfolded prod.case, OF us pair cand]
  obtain x where x: "TryApply (adapter_of ?E) ?cur (data_structure_state s) = Ret x" "pred_option I x"
    using wgl.apply_returns [of "(c, I, h)" ?cur "data_structure_state s"] us I assms(4) cur
    by (auto simp: wgl_search_def)
  have cur': "?cur < length (wgl_linearized s)" using lin assms(4) by simp
  have returned: "completed_at task_slot h ?cur \<noteq> None \<longrightarrow> task_returned (GetTask (h ! ?cur))"
    using ready unfolding wgl_ready_def by blast
  have "apply_op (specification_methods c) (GetTask (h ! ?cur)) (task_result task_slot h ?cur)
      (data_structure_state s) = Ret x"
    using x(1) by (simp add: wgl_search_def)
  then obtain copy accepted where step: "wgl_step T (specification_methods c) h (completed_at task_slot h) s =
      Ret (Inl (wgl_invoke T ?ri s copy accepted))" and acc: "x = (if accepted then Some copy else None)"
    by (rule wgl_step_invoke [OF cur' cur returned])
  show thesis
  proof (cases accepted)
    case False
    then show ?thesis
      using step acc x(1) by (intro skipped) (simp_all add: wgl_invoke_def wgl_viable_iff)
  next
    case True
    let ?flags = "mark_events ?cur ?ri True (wgl_linearized s)" and ?s1 = "wgl_invoke T ?ri s copy True"
    have app: "TryApply (adapter_of ?E) ?cur (data_structure_state s) = Ret (Some copy)" and Ic: "I copy"
      using x acc True by simp_all
    have op: "op_events (adapter_of ?E) ?cur = insert ?cur (set_option ?ri)" "pred_option (\<lambda>r. r < length h) ?ri"
      using free(1) by (simp_all add: op_events_def wgl_search_def)
    have marks: "marked ?flags = wgl_done s \<union> op_events (adapter_of ?E) ?cur"
      using marked_mark_True [of ?cur "wgl_linearized s" ?ri] op lin assms(4) by simp
    show ?thesis
    proof (cases "cache_find T (states_cache s) (?flags, copy)")
      case cached: True
      have "card (wgl_done s) < card (marked ?flags)"
        using marks cur(1) op(1) by (intro psubset_card_mono) auto
      then have "\<not> completes ?E (marked ?flags) copy"
        using cache_find_failed [OF ready inv Ic] cached lin by simp
      then have "\<not> wgl_viable c h s ?cur"
        using app marks by (simp add: wgl_viable_iff)
      moreover have "?s1 = s\<lparr>current_section_start := Suc ?cur\<rparr>"
        using wgl_skip_seen [of s ?ri T copy] free(2) op cached lin assms(4) by simp
      ultimately show ?thesis
        using step True by (intro skipped) simp_all
    next
      case fresh: False
      note child = wgl_inv_child [OF ready inv cand Ic fresh refl]
      have next_s1: "wgl_next T (specification_methods c) h (completed_at task_slot h) s ?s1"
        using step True assms(3) by (simp add: wgl_next_def)
      have "current_section_start ?s1 = 0"
        using fresh by (simp add: wgl_invoke_def Let_def)
      then show ?thesis
        by (rule opened [OF child(2-4) _ wgl_explore_child [OF ready inv cand app Ic fresh refl next_s1]])
    qed
  qed
qed

lemma wgl_explore:
  assumes ready: "wgl_ready T c I h"
  shows "wgl_inv c I h s \<Longrightarrow> linearized_entries_count s \<noteq> length h \<Longrightarrow> current_section_start s \<le> length h \<Longrightarrow>
    \<forall>i<current_section_start s. i \<notin> wgl_done s \<longrightarrow> is_invoke_event (h ! i) \<and> \<not> wgl_viable c h s i \<Longrightarrow>
    wgl_explored T c I h s"
proof (induction s rule: measure_induct_rule [where f = "wgl_measure (length h)"])
  case (less s)
  let ?cur = "current_section_start s" and ?ms = "specification_methods c" and ?R = "completed_at task_slot h"
  let ?later = "\<lambda>C. s\<lparr>current_section_start := Suc (current_section_start s), states_cache := C\<rparr>"
  have lin: "length (wgl_linearized s) = length h"
    using less.prems(1) by (simp add: wgl_inv_def)
  have cur: "?cur < length h"
    using wgl_no_dead_end [OF ready less.prems(1,2)] less.prems(3,4) by (cases "?cur = length h") auto
  have later: "wgl_explored T c I h s"
    if "\<forall>k\<in>set C. k \<in> set (states_cache s) \<or> failed_key c I h k" "wgl_steps T c h s (?later C)"
      "?cur \<in> wgl_done s \<or> is_invoke_event (h ! ?cur) \<and> \<not> wgl_viable c h s ?cur" for C
  proof (rule wgl_explored_later [OF that(2,1)], rule less.IH)
    show "wgl_measure (length h) (?later C) < wgl_measure (length h) s"
      using cur by (simp add: wgl_measure_def)
    show "wgl_inv c I h (?later C)"
      by (rule wgl_inv_cache [OF less.prems(1) that(1)])
    show "\<forall>i<current_section_start (?later C). i \<notin> wgl_done (?later C) \<longrightarrow>
        is_invoke_event (h ! i) \<and> \<not> wgl_viable c h (?later C) i"
      using less.prems(4) that(3) by (auto simp: less_Suc_eq)
  qed (use less.prems cur in simp_all)
  have same: "?later (states_cache s) = s\<lparr>current_section_start := Suc ?cur\<rparr>"
    by (cases s) simp
  have skip: "wgl_explored T c I h s"
    if "wgl_step T ?ms h ?R s = Ret (Inl (s\<lparr>current_section_start := Suc ?cur\<rparr>))"
      "?cur \<in> wgl_done s \<or> is_invoke_event (h ! ?cur) \<and> \<not> wgl_viable c h s ?cur"
    using that less.prems(2) by (intro later [of "states_cache s"])
      (simp_all add: same r_into_rtranclp wgl_next_def)
  consider "?cur \<in> wgl_done s" | "?cur \<notin> wgl_done s" "\<not> is_invoke_event (h ! ?cur)"
    | "?cur \<notin> wgl_done s" "is_invoke_event (h ! ?cur)" by blast
  then show ?case
  proof cases
    case 1
    then show ?thesis using skip wgl_step_seen [of s T ?ms h ?R] cur lin by simp
  next
    case 2
    then show ?thesis using wgl_explore_response [OF cur] less.prems(4) by blast
  next
    case 3
    from ready less.prems(1,2) cur 3 less.prems(4) show ?thesis
    proof (cases rule: wgl_explore_invoke)
      case skipped
      then show ?thesis using skip 3 by blast
    next
      case (opened s1)
      have "wgl_explored T c I h s1" if "linearized_entries_count s1 \<noteq> length h"
        using opened(1-4) that by (intro less.IH wgl_measure_child) simp_all
      then show ?thesis using opened(5) later 3(2) by blast
    qed
  qed
qed

section \<open>Correctness of the checker\<close>

lemma wgl_loop_decides:
  assumes ready: "wgl_ready T c I h" and "I st"
  shows "wgl_loop T (specification_methods c) h (completed_at task_slot h) (wgl_init st (length h)) =
    Some (Ret (completes (wgl_search c h) {} st))"
proof (cases "h = []")
  case True
  have "completes (wgl_search c []) {} st"
    using completes.all_linearized [of "wgl_search c []" st] by (simp add: wgl_search_def)
  with True show ?thesis
    by (subst wgl_loop.simps) (simp add: wgl_init_def)
next
  case False
  let ?s = "wgl_init st (length h)" and ?ms = "specification_methods c" and ?R = "completed_at task_slot h"
  have init: "wgl_done ?s = {}" "data_structure_state ?s = st" "open_sections_stack ?s = []"
    "length (wgl_linearized ?s) = length h" "linearized_entries_count ?s \<noteq> length h" "current_section_start ?s = 0"
    using False by (simp_all add: wgl_init_def)
  have "wgl_inv c I h ?s"
    using assms(2) by (simp add: wgl_inv_def wgl_init_def paired_def)
  then have ex: "wgl_explored T c I h ?s"
    using wgl_explore [OF ready] init by simp
  have comp: "completes (wgl_search c h) {} st \<longleftrightarrow> (\<exists>i. wgl_viable c h ?s i)"
  proof -
    have "{..<history_size (wgl_search c h)} \<noteq> {}"
      using False by (simp add: wgl_search_def lessThan_empty_iff)
    then show ?thesis
      unfolding completes_iff [of "wgl_search c h" "{}" st] using init by auto
  qed
  show ?thesis
  proof (cases "completes (wgl_search c h) {} st")
    case True
    then obtain s' where s': "wgl_steps T c h ?s s'" "linearized_entries_count s' = length h"
      using wgl_explored_success [OF ex] comp by blast
    have "wgl_loop T ?ms h ?R s' = Some (Ret True)"
      using s'(2) by (subst wgl_loop.simps) simp
    then show ?thesis
      using wgl_loop_steps [OF s'(1)] True by simp
  next
    case False
    then obtain r C where r: "wgl_steps T c h ?s (?s\<lparr>current_section_start := r, states_cache := C\<rparr>)"
      "r < length h" "r \<notin> wgl_done ?s" "\<not> is_invoke_event (h ! r)"
      using wgl_explored_failure [OF ex] comp by blast
    let ?s' = "?s\<lparr>current_section_start := r, states_cache := C\<rparr>"
    have "wgl_step T ?ms h ?R ?s' = wgl_response ?R ?s'"
      using r init by (intro wgl_step_response) simp_all
    also have "\<dots> = Ret (Inr False)"
      using init by (simp add: wgl_response_def)
    finally have "wgl_loop T ?ms h ?R ?s' = Some (Ret False)"
      using init by (subst wgl_loop.simps) simp
    then show ?thesis
      using wgl_loop_steps [OF r(1)] False by simp
  qed
qed

lemma wgl_check_decides:
  assumes "wgl_ready T c I h" "I (first_state c)"
  shows "WglCheck T c h =
    Some (Ret (linearizable task_slot (task_result task_slot h) (specification_methods c) (first_state c) h))"
proof -
  have us: "usable task_slot (task_result task_slot) (c, I, h)"
    using assms(1) by (simp add: wgl_ready_def)
  then have "get_inv_res_mapping h = Ret (completed_at task_slot h)"
    by (intro get_inv_res_mapping_correct) (simp add: usable_def)
  then show ?thesis
    using wgl_loop_decides [OF assms] wgl.completes_iff_linearizable [OF us assms(2)]
    by (simp add: WglCheck_def)
qed

end
