(* ===== verification/Sequential_Specs.thy ===== *)
theory Sequential_Specs
  imports Lincheck_Recursive Lincheck_Wgl
begin

text \<open>
  The sequential specifications under verifying/specs (register, queue, stack, set, mutex, shared
  mutex, buffered channel, bank, unique arguments): state, methods with their argument decoding, hash
  and equality. The contract the checkers need is a locale, interpreted on each of them.
\<close>

unbundle bit_operations_syntax

section \<open>Arguments and results\<close>

text \<open>
  \<open>void *args\<close> points to a tuple; a method reads it back with a cast. A cast to another tuple type
  is undefined.
\<close>

datatype spec_arg = ArgInt int | ArgLong "64 word" | ArgSize "64 word" | ArgTicket int

type_synonym spec_args = "spec_arg list"

fun arg_int :: "spec_args \<Rightarrow> int res" where
  "arg_int [ArgInt v] = Ret v"
| "arg_int _ = Exn Undefined"

text \<open>An \<open>int\<close> kept at its width, read back as a value, and widened by sign extension to \<open>size_t\<close>.\<close>

definition int_value :: "32 word \<Rightarrow> value_wrapper" where
  "int_value w = wrap (AnyInt (sint w))"

definition size_of_int :: "32 word \<Rightarrow> 64 word" where
  "size_of_int w = signed w"

definition int_sum_hash :: "int list \<Rightarrow> 64 word" where
  "int_sum_hash xs = size_of_int (foldl (\<lambda>res elem. res + word_of_int elem) 0 xs)"

section \<open>Register\<close>

definition register_add :: "32 word \<Rightarrow> 32 word" where
  "register_add x = x + 1"

definition register_methods :: "(32 word, spec_args) method_map" where
  "register_methods =
     [''add'' \<mapsto> (\<lambda>x _. Ret (void_v, register_add x)),
      ''get'' \<mapsto> (\<lambda>x _. Ret (int_value x, x))]"

definition LinearRegisterHash :: "32 word \<Rightarrow> 64 word" where
  "LinearRegisterHash x = size_of_int x"

definition LinearRegisterEquals :: "32 word \<Rightarrow> 32 word \<Rightarrow> bool" where
  "LinearRegisterEquals l r \<longleftrightarrow> l = r"

section \<open>Queue and stack\<close>

definition queue_Push :: "int \<Rightarrow> int list \<Rightarrow> int list" where
  "queue_Push v deq = deq @ [v]"

definition queue_Pop :: "int list \<Rightarrow> int \<times> int list" where
  "queue_Pop deq = (case deq of [] \<Rightarrow> (0, []) | res # rest \<Rightarrow> (res, rest))"

definition queue_methods :: "(int list, spec_args) method_map" where
  "queue_methods =
     [''Push'' \<mapsto> (\<lambda>q args. andThen (arg_int args) (\<lambda>v. Ret (void_v, queue_Push v q))),
      ''Pop'' \<mapsto> (\<lambda>q _. case queue_Pop q of (v, q') \<Rightarrow> Ret (wrap (AnyInt v), q'))]"

definition QueueHash :: "int list \<Rightarrow> 64 word" where
  "QueueHash deq = int_sum_hash deq"

text \<open>
  \<open>deq.back()\<close> is the end of the list. \<open>QueueEquals\<close>, \<open>StackEquals\<close> and \<open>SetEquals\<close> declare a call operator
  whose template parameters cannot be deduced, so these states have no usable equality and the
  recursive checker runs without a cache on them.
\<close>

definition stack_Push :: "int \<Rightarrow> int list \<Rightarrow> int list" where
  "stack_Push v deq = deq @ [v]"

definition stack_Pop :: "int list \<Rightarrow> int \<times> int list" where
  "stack_Pop deq = (if deq = [] then (0, []) else (last deq, butlast deq))"

definition stack_methods :: "(int list, spec_args) method_map" where
  "stack_methods =
     [''Push'' \<mapsto> (\<lambda>s args. andThen (arg_int args) (\<lambda>v. Ret (void_v, stack_Push v s))),
      ''Pop'' \<mapsto> (\<lambda>s _. case stack_Pop s of (v, s') \<Rightarrow> Ret (wrap (AnyInt v), s'))]"

definition StackHash :: "int list \<Rightarrow> 64 word" where
  "StackHash deq = int_sum_hash deq"

section \<open>Set\<close>

definition set_Insert :: "int \<Rightarrow> int set \<Rightarrow> int \<times> int set" where
  "set_Insert v st = (if v \<in> st then 0 else 1, insert v st)"

definition set_Erase :: "int \<Rightarrow> int set \<Rightarrow> int \<times> int set" where
  "set_Erase v st = (if v \<in> st then 1 else 0, st - {v})"

definition set_methods :: "(int set, spec_args) method_map" where
  "set_methods =
     [''Insert'' \<mapsto> (\<lambda>s args. andThen (arg_int args) (\<lambda>v.
          case set_Insert v s of (r, s') \<Rightarrow> Ret (wrap (AnyInt r), s'))),
      ''Erase'' \<mapsto> (\<lambda>s args. andThen (arg_int args) (\<lambda>v.
          case set_Erase v s of (r, s') \<Rightarrow> Ret (wrap (AnyInt r), s')))]"

definition SetHash :: "int set \<Rightarrow> 64 word" where
  "SetHash st = int_sum_hash (sorted_list_of_set st)"

section \<open>Mutex and shared mutex\<close>

text \<open>Both equalities answer false for every pair of states.\<close>

definition mutex_Lock :: "bool \<Rightarrow> int \<times> bool" where
  "mutex_Lock isLocked = (if isLocked then (1, True) else (0, True))"

definition mutex_Unlock :: "bool \<Rightarrow> int \<times> bool" where
  "mutex_Unlock isLocked = (0, False)"

definition mutex_methods :: "(bool, spec_args) method_map" where
  "mutex_methods =
     [''Lock'' \<mapsto> (\<lambda>s _. case mutex_Lock s of (r, s') \<Rightarrow> Ret (wrap (AnyInt r), s')),
      ''Unlock'' \<mapsto> (\<lambda>s _. case mutex_Unlock s of (r, s') \<Rightarrow> Ret (wrap (AnyInt r), s'))]"

definition LinearMutexHash :: "bool \<Rightarrow> 64 word" where
  "LinearMutexHash r = 0"

definition LinearMutexEquals :: "bool \<Rightarrow> bool \<Rightarrow> bool" where
  "LinearMutexEquals lhs rhs = False"

definition shared_lock :: "32 word \<Rightarrow> int \<times> 32 word" where
  "shared_lock locked_state = (if locked_state \<noteq> 0 then (1, locked_state) else (0, -1))"

definition shared_unlock :: "32 word \<Rightarrow> int \<times> 32 word" where
  "shared_unlock locked_state = (0, 0)"

definition shared_lock_shared :: "32 word \<Rightarrow> int \<times> 32 word" where
  "shared_lock_shared locked_state = (if locked_state = -1 then (1, locked_state) else (0, locked_state + 1))"

definition shared_unlock_shared :: "32 word \<Rightarrow> int \<times> 32 word" where
  "shared_unlock_shared locked_state = (0, locked_state - 1)"

definition shared_mutex_methods :: "(32 word, spec_args) method_map" where
  "shared_mutex_methods =
     [''lock'' \<mapsto> (\<lambda>s _. case shared_lock s of (r, s') \<Rightarrow> Ret (wrap (AnyInt r), s')),
      ''unlock'' \<mapsto> (\<lambda>s _. case shared_unlock s of (r, s') \<Rightarrow> Ret (wrap (AnyInt r), s')),
      ''lock_shared'' \<mapsto> (\<lambda>s _. case shared_lock_shared s of (r, s') \<Rightarrow> Ret (wrap (AnyInt r), s')),
      ''unlock_shared'' \<mapsto> (\<lambda>s _. case shared_unlock_shared s of (r, s') \<Rightarrow> Ret (wrap (AnyInt r), s'))]"

definition SharedLinearMutexHash :: "32 word \<Rightarrow> 64 word" where
  "SharedLinearMutexHash r = 0"

definition SharedLinearMutexEquals :: "32 word \<Rightarrow> 32 word \<Rightarrow> bool" where
  "SharedLinearMutexEquals lhs rhs = False"

section \<open>Buffered channel\<close>

definition channel_Send :: "int \<Rightarrow> int list \<Rightarrow> int list" where
  "channel_Send v deq = deq @ [v]"

definition channel_Recv :: "int list \<Rightarrow> int \<times> int list" where
  "channel_Recv deq = (case deq of [] \<Rightarrow> (-1, []) | v # rest \<Rightarrow> (v, rest))"

definition channel_methods :: "(int list, spec_args) method_map" where
  "channel_methods =
     [''Send'' \<mapsto> (\<lambda>q args. andThen (arg_int args) (\<lambda>v. Ret (void_v, channel_Send v q))),
      ''Recv'' \<mapsto> (\<lambda>q _. case channel_Recv q of (v, q') \<Rightarrow> Ret (wrap (AnyInt v), q'))]"

definition BufferedChannelHash :: "int list \<Rightarrow> 64 word" where
  "BufferedChannelHash deq = int_sum_hash deq"

definition BufferedChannelEquals :: "int list \<Rightarrow> int list \<Rightarrow> bool" where
  "BufferedChannelEquals lhs rhs \<longleftrightarrow> lhs = rhs"

section \<open>Bank\<close>

text \<open>
  The cells are \<open>int\<close>s and the amounts \<open>size_t\<close>s, so a cell is widened by sign extension before it is
  compared with an amount, and the sum is truncated when it is stored back.
\<close>

definition bank_init :: "32 word list" where
  "bank_init = [50, 50]"

definition bank_at :: "32 word list \<Rightarrow> int \<Rightarrow> 32 word res" where
  "bank_at cells i = (if i < 0 then Exn OutOfRange else vector_at cells (nat i))"

definition bank_Add :: "int \<Rightarrow> 64 word \<Rightarrow> 32 word list \<Rightarrow> 32 word list res" where
  "bank_Add i count cells =
     andThen (bank_at cells i) (\<lambda>c. Ret (cells[nat i := ucast (size_of_int c + count)]))"

definition bank_Transfer :: "int \<Rightarrow> int \<Rightarrow> 64 word \<Rightarrow> 32 word list \<Rightarrow> (int \<times> 32 word list) res" where
  "bank_Transfer i j count cells =
     andThen (bank_at cells i) (\<lambda>ci.
       if size_of_int ci < count then Ret (0, cells)
       else
         let cells' = cells[nat i := ucast (size_of_int ci - count)] in
         andThen (bank_at cells' j) (\<lambda>cj. Ret (1, cells'[nat j := ucast (size_of_int cj + count)])))"

definition bank_ReadBoth :: "int \<Rightarrow> int \<Rightarrow> 32 word list \<Rightarrow> 32 word res" where
  "bank_ReadBoth i j cells = andThen (bank_at cells i) (\<lambda>a. andThen (bank_at cells j) (\<lambda>b. Ret (a + b)))"

definition bank_methods :: "(32 word list, spec_args) method_map" where
  "bank_methods =
     [''Add'' \<mapsto> (\<lambda>s args. case args of
          [ArgInt i, ArgSize n] \<Rightarrow> andThen (bank_Add i n s) (\<lambda>s'. Ret (void_v, s')) | _ \<Rightarrow> Exn Undefined),
      ''Read'' \<mapsto> (\<lambda>s args. case args of
          [ArgInt i] \<Rightarrow> andThen (bank_at s i) (\<lambda>c. Ret (int_value c, s)) | _ \<Rightarrow> Exn Undefined),
      ''Transfer'' \<mapsto> (\<lambda>s args. case args of
          [ArgInt i, ArgInt j, ArgSize n] \<Rightarrow>
            andThen (bank_Transfer i j n s) (\<lambda>(r, s'). Ret (wrap (AnyInt r), s')) | _ \<Rightarrow> Exn Undefined),
      ''ReadBoth'' \<mapsto> (\<lambda>s args. case args of
          [ArgInt i, ArgInt j] \<Rightarrow> andThen (bank_ReadBoth i j s) (\<lambda>c. Ret (int_value c, s)) | _ \<Rightarrow> Exn Undefined)]"

definition LinearBankHash :: "32 word list \<Rightarrow> 64 word" where
  "LinearBankHash cells = foldl (\<lambda>hash cell. hash + size_of_int cell) 0 cells"

definition LinearBankEquals :: "32 word list \<Rightarrow> 32 word list \<Rightarrow> bool" where
  "LinearBankEquals lhs rhs \<longleftrightarrow> lhs = rhs"

section \<open>Unique arguments\<close>

definition unique_Get :: "64 word \<Rightarrow> int option \<times> 64 word" where
  "unique_Get called = (let called' = called + 1 in
     if called' = 3 then (Some (uint called'), 0) else (None, called'))"

definition unique_methods :: "(64 word, spec_args) method_map" where
  "unique_methods =
     [''Get'' \<mapsto> (\<lambda>s args. case args of
          [ArgSize _] \<Rightarrow> (case unique_Get s of (v, s') \<Rightarrow> Ret (wrap (AnyOptInt v), s')) | _ \<Rightarrow> Exn Undefined)]"

definition UniqueArgsHash :: "64 word \<Rightarrow> 64 word" where
  "UniqueArgsHash called = called"

definition UniqueArgsEquals :: "64 word \<Rightarrow> 64 word \<Rightarrow> bool" where
  "UniqueArgsEquals lhs rhs \<longleftrightarrow> lhs = rhs"

section \<open>The contract of a sequential specification\<close>

text \<open>
  A history conforms to a specification when every invocation names a method, passes arguments the
  method accepts, and the recorded result has the type the method returns.
\<close>

definition conforms :: "('a task \<Rightarrow> nat) \<Rightarrow> (nat \<Rightarrow> value_wrapper option) \<Rightarrow> ('st, 'a) method_map \<Rightarrow>
    (string \<Rightarrow> 'a \<Rightarrow> bool) \<Rightarrow> (string \<Rightarrow> any_type) \<Rightarrow> 'a history_event list \<Rightarrow> bool" where
  "conforms key val ms arg_ok rtype h \<longleftrightarrow>
     well_formed key h \<and>
     (\<forall>i<length h. is_invoke_event (h ! i) \<longrightarrow>
        ms (task_name (GetTask (h ! i))) \<noteq> None \<and>
        arg_ok (task_name (GetTask (h ! i))) (task_args (GetTask (h ! i))) \<and>
        pred_option (result_of_type (rtype (task_name (GetTask (h ! i))))) (val i))"

locale sequential_spec =
  fixes methods :: "('st, 'a) method_map"
    and inv :: "'st \<Rightarrow> bool"
    and eq :: "'st \<Rightarrow> 'st \<Rightarrow> bool"
    and arg_ok :: "string \<Rightarrow> 'a \<Rightarrow> bool"
    and rtype :: "string \<Rightarrow> any_type"
  assumes returns: "methods n = Some m \<Longrightarrow> inv st \<Longrightarrow> arg_ok n a \<Longrightarrow>
      \<exists>v st'. m st a = Ret (v, st') \<and> inv st' \<and> result_of_type (rtype n) v"
    and respects: "methods n = Some m \<Longrightarrow> inv s \<Longrightarrow> inv t \<Longrightarrow> eq s t \<Longrightarrow> m s a = Ret (v, s') \<Longrightarrow>
      \<exists>t'. m t a = Ret (v, t') \<and> eq s' t'"
begin

lemma total:
  assumes "conforms key val methods arg_ok rtype h"
  shows "methods_total inv val methods h"
  unfolding methods_total_def
proof (intro allI impI conjI)
  fix i assume i: "i < length h" "is_invoke_event (h ! i)"
  let ?t = "GetTask (h ! i)"
  have c: "methods (task_name ?t) \<noteq> None" "arg_ok (task_name ?t) (task_args ?t)"
    "pred_option (result_of_type (rtype (task_name ?t))) (val i)"
    using assms i by (simp_all add: conforms_def)
  then show "methods (task_name ?t) \<noteq> None" by simp
  obtain m where m: "methods (task_name ?t) = Some m" using c(1) by blast
  fix st assume "inv st"
  then obtain v st' where v: "m st (task_args ?t) = Ret (v, st')" "inv st'" "result_of_type (rtype (task_name ?t)) v"
    using returns [OF m _ c(2)] by blast
  then show "\<exists>st'. apply_op methods ?t None st = Ret (Some st') \<and> inv st'"
    using m by (simp add: apply_op_def)
  show "\<exists>x. apply_op methods ?t (val i) st = Ret x"
  proof (cases "val i")
    case None
    then show ?thesis using m v by (simp add: apply_op_def)
  next
    case (Some w)
    then obtain b where "vw_eq v w = Ret b"
      using vw_eq_same_type v(3) c(3) by fastforce
    then show ?thesis using m v Some by (simp add: apply_op_def)
  qed
qed

lemma spec_usable:
  assumes "specification_methods c = methods" "state_traits c = None \<or> (\<exists>hash. state_traits c = Some (hash, eq))"
    "conforms key (val h) methods arg_ok rtype h"
  shows "usable key val (c, inv, h)"
proof -
  have "equality_respected inv methods eq"
    unfolding equality_respected_def using respects by blast
  then show ?thesis
    using total [OF assms(3)] assms by (auto simp: usable_def conforms_def)
qed

end

abbreviation int_args :: "string list \<Rightarrow> string \<Rightarrow> spec_args \<Rightarrow> bool" where
  "int_args ns n a \<equiv> n \<in> set ns \<longrightarrow> (\<exists>v. a = [ArgInt v])"

lemmas spec_method_defs = register_methods_def queue_methods_def stack_methods_def set_methods_def
  mutex_methods_def shared_mutex_methods_def channel_methods_def bank_methods_def unique_methods_def

lemma result_of_type_wrap [simp]: "T \<noteq> TVoid \<Longrightarrow> result_of_type T (wrap v) \<longleftrightarrow> type_of v = T"
  by (auto simp: result_of_type_def wrap_def)

lemma result_of_type_void [simp]: "result_of_type TVoid void_v"
  by (simp add: result_of_type_def)

lemma result_of_type_int_value [simp]: "result_of_type TInt (int_value w)"
  by (simp add: int_value_def)

interpretation register: sequential_spec register_methods "\<lambda>_. True" LinearRegisterEquals "\<lambda>_ _. True"
  "\<lambda>n. if n = ''get'' then TInt else TVoid"
  by unfold_locales (auto simp: register_methods_def LinearRegisterEquals_def split: if_splits)

interpretation queue: sequential_spec queue_methods "\<lambda>_. True" "(=)" "int_args [''Push'']"
  "\<lambda>n. if n = ''Pop'' then TInt else TVoid"
  by unfold_locales (auto simp: queue_methods_def split: if_splits prod.splits)

interpretation stack: sequential_spec stack_methods "\<lambda>_. True" "(=)" "int_args [''Push'']"
  "\<lambda>n. if n = ''Pop'' then TInt else TVoid"
  by unfold_locales (auto simp: stack_methods_def split: if_splits prod.splits)

interpretation int_set: sequential_spec set_methods finite "(=)" "int_args [''Insert'', ''Erase'']" "\<lambda>_. TInt"
  by unfold_locales
    (auto simp: set_methods_def set_Insert_def set_Erase_def split: if_splits prod.splits)

interpretation mutex: sequential_spec mutex_methods "\<lambda>_. True" LinearMutexEquals "\<lambda>_ _. True" "\<lambda>_. TInt"
  by unfold_locales (auto simp: mutex_methods_def LinearMutexEquals_def split: if_splits prod.splits)

interpretation shared_mutex: sequential_spec shared_mutex_methods "\<lambda>_. True" SharedLinearMutexEquals
  "\<lambda>_ _. True" "\<lambda>_. TInt"
  by unfold_locales (auto simp: shared_mutex_methods_def SharedLinearMutexEquals_def split: if_splits prod.splits)

interpretation channel: sequential_spec channel_methods "\<lambda>_. True" BufferedChannelEquals "int_args [''Send'']"
  "\<lambda>n. if n = ''Recv'' then TInt else TVoid"
  by unfold_locales (auto simp: channel_methods_def BufferedChannelEquals_def split: if_splits prod.splits)

interpretation unique: sequential_spec unique_methods "\<lambda>_. True" UniqueArgsEquals "\<lambda>_ a. \<exists>i. a = [ArgSize i]"
  "\<lambda>_. TOptInt"
  by unfold_locales (auto simp: unique_methods_def UniqueArgsEquals_def split: if_splits prod.splits list.splits spec_arg.splits)

definition bank_args :: "string \<Rightarrow> spec_args \<Rightarrow> bool" where
  "bank_args n a \<longleftrightarrow>
     (\<exists>i j k. i \<in> {0, 1} \<and> j \<in> {0, 1} \<and>
        a = (if n = ''Add'' then [ArgInt i, ArgSize k] else if n = ''Read'' then [ArgInt i]
             else if n = ''Transfer'' then [ArgInt i, ArgInt j, ArgSize k] else [ArgInt i, ArgInt j]))"

lemma bank_at_cell: "length cells = 2 \<Longrightarrow> i \<in> {0, 1} \<Longrightarrow> bank_at cells i = Ret (cells ! nat i)"
  by (auto simp: bank_at_def)

interpretation bank: sequential_spec bank_methods "\<lambda>cells. length cells = 2" LinearBankEquals bank_args
  "\<lambda>n. if n = ''Add'' then TVoid else TInt"
proof
  fix n m a and st :: "32 word list"
  assume "bank_methods n = Some m" "length st = 2" "bank_args n a"
  then show "\<exists>v st'. m st a = Ret (v, st') \<and> length st' = 2 \<and>
      result_of_type (if n = ''Add'' then TVoid else TInt) v"
    unfolding bank_args_def
    by (elim exE conjE) (auto simp: bank_methods_def bank_Add_def bank_Transfer_def bank_ReadBoth_def
        bank_at_cell Let_def split: if_splits)
qed (simp add: LinearBankEquals_def)

end
