(* ===== verification/Lincheck_Dual.thy ===== *)
theory Lincheck_Dual
  imports History
begin

text \<open>
  \<open>LinearizabilityDualCheckerRecursive\<close> (runtime/include/lincheck_dual.h): histories that mix ordinary
  operations with blocking ones split into a request and a follow-up, the table of events, the
  adapter, and the proof that \<open>Check\<close> answers whether the history is dual linearizable.
\<close>

section \<open>Dual histories\<close>

datatype 'a dual_event =
    OrdInvoke "'a task" int
  | OrdResponse "'a task" value_wrapper int
  | RequestInvoke "'a task" int
  | RequestResponse "'a task" int
  | FollowUpInvoke "'a task" int
  | FollowUpResponse "'a task" value_wrapper int

fun GetTaskOfEvent :: "'a dual_event \<Rightarrow> 'a task" where
  "GetTaskOfEvent (OrdInvoke t _) = t"
| "GetTaskOfEvent (OrdResponse t _ _) = t"
| "GetTaskOfEvent (RequestInvoke t _) = t"
| "GetTaskOfEvent (RequestResponse t _) = t"
| "GetTaskOfEvent (FollowUpInvoke t _) = t"
| "GetTaskOfEvent (FollowUpResponse t _ _) = t"

fun IsDualResponseEvent :: "'a dual_event \<Rightarrow> bool" where
  "IsDualResponseEvent (OrdResponse _ _ _) = True"
| "IsDualResponseEvent (RequestResponse _ _) = True"
| "IsDualResponseEvent (FollowUpResponse _ _ _) = True"
| "IsDualResponseEvent _ = False"

fun IsDualInvokeEvent :: "'a dual_event \<Rightarrow> bool" where
  "IsDualInvokeEvent (OrdInvoke _ _) = True"
| "IsDualInvokeEvent (RequestInvoke _ _) = True"
| "IsDualInvokeEvent (FollowUpInvoke _ _) = True"
| "IsDualInvokeEvent _ = False"

definition GetNameOfEvent :: "'a dual_event \<Rightarrow> string" where
  "GetNameOfEvent e = task_name (GetTaskOfEvent e)"

definition GetArgsOfEvent :: "'a dual_event \<Rightarrow> 'a" where
  "GetArgsOfEvent e = task_args (GetTaskOfEvent e)"

definition GetOpIdOfEvent :: "'a dual_event \<Rightarrow> int" where
  "GetOpIdOfEvent e = task_id (GetTaskOfEvent e)"

text \<open>The three kinds of methods: ordinary, ordinary with a result predicate, and blocking.\<close>

datatype ('st, 'a) dual_method =
    NonBlocking "'st \<Rightarrow> 'a \<Rightarrow> (value_wrapper \<times> 'st) res"
  | NonBlockingPredicate "'st \<Rightarrow> 'a \<Rightarrow> value_wrapper option \<Rightarrow> (bool \<times> 'st) res"
  | Blocking "'st \<Rightarrow> 'a \<Rightarrow> int \<Rightarrow> 'st res" "'st \<Rightarrow> 'a \<Rightarrow> int \<Rightarrow> (value_wrapper option \<times> 'st) res"

type_synonym ('st, 'a) dual_method_map = "string \<rightharpoonup> ('st, 'a) dual_method"

fun is_blocking :: "('st, 'a) dual_method \<Rightarrow> bool" where
  "is_blocking (Blocking _ _) = True"
| "is_blocking _ = False"

section \<open>The table of events\<close>

datatype dual_kind =
  KOrdinaryInvoke | KOrdinaryResponse | KRequestInvoke | KRequestResponse | KFollowUpInvoke | KFollowUpResponse

record 'a dual_event_info =
  kind :: dual_kind
  info_name :: string
  info_task :: "nat option"
  info_args :: "'a option"
  info_op_id :: int
  dual_response_index :: "nat option"
  info_result :: "value_wrapper option"

definition DualHistoryEventInfo :: "'a dual_event_info" where
  "DualHistoryEventInfo =
     \<lparr>kind = KOrdinaryInvoke, info_name = [], info_task = None, info_args = None, info_op_id = 0,
      dual_response_index = None, info_result = None\<rparr>"

definition info_IsInvoke :: "'a dual_event_info \<Rightarrow> bool" where
  "info_IsInvoke ev \<longleftrightarrow> kind ev = KOrdinaryInvoke \<or> kind ev = KRequestInvoke \<or> kind ev = KFollowUpInvoke"

definition info_IsResponse :: "'a dual_event_info \<Rightarrow> bool" where
  "info_IsResponse ev \<longleftrightarrow> kind ev = KOrdinaryResponse \<or> kind ev = KRequestResponse \<or> kind ev = KFollowUpResponse"

definition fill_task_info :: "'a task \<Rightarrow> 'a dual_event_info \<Rightarrow> 'a dual_event_info" where
  "fill_task_info t dst =
     dst\<lparr>info_name := task_name t, info_task := Some (task_get t), info_args := Some (task_args t),
         info_op_id := task_id t\<rparr>"

fun dual_fill :: "'a dual_event \<Rightarrow> 'a dual_event_info" where
  "dual_fill (OrdInvoke t _) = fill_task_info t (DualHistoryEventInfo\<lparr>kind := KOrdinaryInvoke\<rparr>)"
| "dual_fill (OrdResponse t v _) =
     fill_task_info t (DualHistoryEventInfo\<lparr>kind := KOrdinaryResponse, info_result := Some v\<rparr>)"
| "dual_fill (RequestInvoke t _) = fill_task_info t (DualHistoryEventInfo\<lparr>kind := KRequestInvoke\<rparr>)"
| "dual_fill (RequestResponse t _) = fill_task_info t (DualHistoryEventInfo\<lparr>kind := KRequestResponse\<rparr>)"
| "dual_fill (FollowUpInvoke t _) = fill_task_info t (DualHistoryEventInfo\<lparr>kind := KFollowUpInvoke\<rparr>)"
| "dual_fill (FollowUpResponse t v _) =
     fill_task_info t (DualHistoryEventInfo\<lparr>kind := KFollowUpResponse, info_result := Some v\<rparr>)"

definition set_dual_response :: "nat \<Rightarrow> 'a dual_event_info \<Rightarrow> 'a dual_event_info" where
  "set_dual_response i ev = ev\<lparr>dual_response_index := Some i\<rparr>"

text \<open>The two maps of one phase: invocations by task and by operation id.\<close>

type_synonym phase_maps = "(nat \<rightharpoonup> nat) \<times> (int \<rightharpoonup> nat)"

definition remember :: "'a task \<Rightarrow> nat \<Rightarrow> phase_maps \<Rightarrow> phase_maps" where
  "remember t i m = ((fst m)(task_get t \<mapsto> i), (snd m)(task_id t \<mapsto> i))"

definition set_response :: "phase_maps \<Rightarrow> 'a task \<Rightarrow> nat \<Rightarrow> 'a dual_event_info list \<Rightarrow> 'a dual_event_info list" where
  "set_response m t i info =
     (case fst m (task_get t) of
        Some j \<Rightarrow> info[j := set_dual_response i (info ! j)]
      | None \<Rightarrow>
          (case snd m (task_id t) of
             Some j \<Rightarrow> info[j := set_dual_response i (info ! j)]
           | None \<Rightarrow> info))"

fun build_dual_loop :: "nat \<Rightarrow> 'a dual_event list \<Rightarrow> 'a dual_event_info list \<Rightarrow>
    phase_maps \<Rightarrow> phase_maps \<Rightarrow> phase_maps \<Rightarrow> 'a dual_event_info list" where
  "build_dual_loop i [] info mi mr mf = info"
| "build_dual_loop i (e # es) info mi mr mf =
     (let info' = info[i := dual_fill e] in
      case e of
        OrdInvoke t _ \<Rightarrow> build_dual_loop (Suc i) es info' (remember t i mi) mr mf
      | OrdResponse t _ _ \<Rightarrow> build_dual_loop (Suc i) es (set_response mi t i info') mi mr mf
      | RequestInvoke t _ \<Rightarrow> build_dual_loop (Suc i) es info' mi (remember t i mr) mf
      | RequestResponse t _ \<Rightarrow> build_dual_loop (Suc i) es (set_response mr t i info') mi mr mf
      | FollowUpInvoke t _ \<Rightarrow> build_dual_loop (Suc i) es info' mi mr (remember t i mf)
      | FollowUpResponse t _ _ \<Rightarrow> build_dual_loop (Suc i) es (set_response mf t i info') mi mr mf)"

definition BuildDualHistoryEventInfo :: "'a dual_event list \<Rightarrow> 'a dual_event_info list" where
  "BuildDualHistoryEventInfo history =
     build_dual_loop 0 history (replicate (length history) DualHistoryEventInfo)
       (Map.empty, Map.empty) (Map.empty, Map.empty) (Map.empty, Map.empty)"

definition get_dual_inv_res_mapping :: "'a dual_event list \<Rightarrow> nat \<rightharpoonup> nat" where
  "get_dual_inv_res_mapping history =
     (let info = BuildDualHistoryEventInfo history in
      (\<lambda>i. if i < length info \<and> info_IsInvoke (info ! i) then dual_response_index (info ! i) else None))"

section \<open>The checker\<close>

record ('st, 'a) dual_checker =
  dual_methods :: "('st, 'a) dual_method_map"
  init_state :: 'st
  dual_traits :: "(('st \<Rightarrow> 64 word) \<times> ('st \<Rightarrow> 'st \<Rightarrow> bool)) option"

fun resolve_dual :: "('st, 'a) dual_method_map \<Rightarrow> 'a dual_event_info list \<Rightarrow> ('st, 'a) dual_method option list res" where
  "resolve_dual ms [] = Ret []"
| "resolve_dual ms (ev # evs) =
     (if \<not> info_IsInvoke ev then andThen (resolve_dual ms evs) (\<lambda>rest. Ret (None # rest))
      else (case ms (info_name ev) of
              None \<Rightarrow> Exn (NoMethod (info_name ev))
            | Some m \<Rightarrow> andThen (resolve_dual ms evs) (\<lambda>rest. Ret (Some m # rest))))"

text \<open>\<open>!has_response || expected == *result\<close>, where the result pointer of a response may be null.\<close>

definition result_matches :: "'a dual_event_info list \<Rightarrow> nat option \<Rightarrow> value_wrapper \<Rightarrow> bool res" where
  "result_matches events ri expected =
     (case ri of
        None \<Rightarrow> Ret True
      | Some r \<Rightarrow> (case info_result (events ! r) of None \<Rightarrow> Exn Undefined | Some w \<Rightarrow> vw_eq expected w))"

definition keep_if :: "bool res \<Rightarrow> 'st \<Rightarrow> 'st option res" where
  "keep_if b st = andThen b (\<lambda>x. Ret (if x then Some st else None))"

definition dual_try_apply :: "'a dual_event_info list \<Rightarrow> ('st, 'a) dual_method option list \<Rightarrow> nat \<Rightarrow> 'st \<Rightarrow> 'st option res" where
  "dual_try_apply events methods index state =
     (let event = events ! index; ri = dual_response_index event in
      case (methods ! index, info_args event) of
        (Some method, Some args) \<Rightarrow>
          (case kind event of
             KOrdinaryInvoke \<Rightarrow>
               (case method of
                  NonBlocking ordinary \<Rightarrow>
                    andThen (ordinary state args) (\<lambda>(expected, state').
                      keep_if (result_matches events ri expected) state')
                | NonBlockingPredicate ordinary \<Rightarrow>
                    andThen (ordinary state args (case ri of None \<Rightarrow> None | Some r \<Rightarrow> info_result (events ! r)))
                      (\<lambda>(ok, state'). keep_if (Ret ok) state')
                | Blocking _ _ \<Rightarrow> Ret None)
           | KRequestInvoke \<Rightarrow>
               (case method of
                  Blocking request _ \<Rightarrow> andThen (request state args (info_op_id event)) (\<lambda>state'. Ret (Some state'))
                | _ \<Rightarrow> Ret None)
           | KFollowUpInvoke \<Rightarrow>
               (case method of
                  Blocking _ followup \<Rightarrow>
                    andThen (followup state args (info_op_id event)) (\<lambda>(expected, state').
                      case expected of
                        None \<Rightarrow> Ret None
                      | Some v \<Rightarrow> keep_if (result_matches events ri v) state')
                | _ \<Rightarrow> Ret None)
           | _ \<Rightarrow> Ret None)
      | _ \<Rightarrow> Exn Undefined)"

definition dual_can_drop :: "'a dual_event_info list \<Rightarrow> nat \<Rightarrow> bool" where
  "dual_can_drop events index \<longleftrightarrow>
     dual_response_index (events ! index) = None \<and>
     (kind (events ! index) = KOrdinaryInvoke \<or> kind (events ! index) = KRequestInvoke \<or>
      kind (events ! index) = KFollowUpInvoke)"

definition dual_adapter :: "'a dual_event_info list \<Rightarrow> ('st, 'a) dual_method option list \<Rightarrow> 'st adapter" where
  "dual_adapter events methods =
     \<lparr>IsInvoke = (\<lambda>index. info_IsInvoke (events ! index)),
      IsResponse = (\<lambda>index. info_IsResponse (events ! index)),
      ResponseIndex = (\<lambda>index. dual_response_index (events ! index)),
      TryApply = dual_try_apply events methods,
      CanDropPendingInvoke = dual_can_drop events\<rparr>"

text \<open>
  The requests that responded and have no follow-up response, by method name, and the validation of
  a completed linearization, which looks at these names only.
\<close>

definition completed_followups :: "'a dual_event_info list \<Rightarrow> nat option list" where
  "completed_followups events = map info_task (filter (\<lambda>ev. kind ev = KFollowUpResponse) events)"

definition incomplete_followups :: "'a dual_event_info list \<Rightarrow> string list" where
  "incomplete_followups events =
     map info_name (filter (\<lambda>ev. \<not> (kind ev \<noteq> KRequestInvoke \<or> dual_response_index ev = None \<or>
       info_task ev \<in> set (completed_followups events))) events)"

definition validate_completed_linearization :: "('st, 'a) dual_method_map \<Rightarrow> string list \<Rightarrow> 'st \<Rightarrow> bool" where
  "validate_completed_linearization ms pending state =
     list_all (\<lambda>name. case ms name of None \<Rightarrow> False | Some m \<Rightarrow> is_blocking m) pending"

definition dual_env :: "('st, 'a) dual_checker \<Rightarrow> 'a dual_event list \<Rightarrow> ('st, 'a) dual_method option list \<Rightarrow> 'st search_env" where
  "dual_env c history methods =
     (let event_info = BuildDualHistoryEventInfo history in
      \<lparr>history_size = length history,
       adapter_of = dual_adapter event_info methods,
       on_complete = validate_completed_linearization (dual_methods c) (incomplete_followups event_info),
       cache_traits = dual_traits c\<rparr>)"

definition DualCheck :: "('st, 'a) dual_checker \<Rightarrow> 'a dual_event list \<Rightarrow> bool res" where
  "DualCheck c history =
     (if history = [] then Ret True
      else andThen (resolve_dual (dual_methods c) (BuildDualHistoryEventInfo history)) (\<lambda>method_by_event.
             RunRecursiveLinearizationSearchImpl (dual_env c history method_by_event) (init_state c)))"

section \<open>Dual linearizability\<close>

text \<open>
  The phases of an operation are operations of their own: a request or a follow-up is identified by
  its phase and its task.
\<close>

datatype phase = Ordinary | Request | FollowUp

fun dual_inv_key :: "'a dual_event \<Rightarrow> (phase \<times> nat) option" where
  "dual_inv_key (OrdInvoke t _) = Some (Ordinary, task_get t)"
| "dual_inv_key (RequestInvoke t _) = Some (Request, task_get t)"
| "dual_inv_key (FollowUpInvoke t _) = Some (FollowUp, task_get t)"
| "dual_inv_key _ = None"

fun dual_rsp_key :: "'a dual_event \<Rightarrow> (phase \<times> nat) option" where
  "dual_rsp_key (OrdResponse t _ _) = Some (Ordinary, task_get t)"
| "dual_rsp_key (RequestResponse t _) = Some (Request, task_get t)"
| "dual_rsp_key (FollowUpResponse t _ _) = Some (FollowUp, task_get t)"
| "dual_rsp_key _ = None"

fun dual_event_value :: "'a dual_event \<Rightarrow> value_wrapper option" where
  "dual_event_value (OrdResponse _ v _) = Some v"
| "dual_event_value (FollowUpResponse _ v _) = Some v"
| "dual_event_value _ = None"

abbreviation dual_well_formed :: "'a dual_event list \<Rightarrow> bool" where
  "dual_well_formed h \<equiv> well_matched dual_inv_key dual_rsp_key h"

abbreviation dual_completed_at :: "'a dual_event list \<Rightarrow> nat \<Rightarrow> nat option" where
  "dual_completed_at h \<equiv> response_of dual_inv_key dual_rsp_key h"

definition dual_result :: "'a dual_event list \<Rightarrow> nat \<Rightarrow> value_wrapper option" where
  "dual_result h i = (case dual_completed_at h i of None \<Rightarrow> None | Some r \<Rightarrow> dual_event_value (h ! r))"

text \<open>The effect of one phase on a specification state, given the recorded value of its response.\<close>

definition value_accepted :: "value_wrapper option \<Rightarrow> value_wrapper \<Rightarrow> bool res" where
  "value_accepted w v = (case w of None \<Rightarrow> Ret True | Some u \<Rightarrow> vw_eq v u)"

fun dual_apply :: "('st, 'a) dual_method_map \<Rightarrow> 'a dual_event \<Rightarrow> value_wrapper option \<Rightarrow> 'st \<Rightarrow> 'st option res" where
  "dual_apply ms (OrdInvoke t _) w st =
     (case ms (task_name t) of
        Some (NonBlocking f) \<Rightarrow> andThen (f st (task_args t)) (\<lambda>(v, st'). keep_if (value_accepted w v) st')
      | Some (NonBlockingPredicate f) \<Rightarrow> andThen (f st (task_args t) w) (\<lambda>(ok, st'). keep_if (Ret ok) st')
      | _ \<Rightarrow> Ret None)"
| "dual_apply ms (RequestInvoke t _) w st =
     (case ms (task_name t) of
        Some (Blocking request _) \<Rightarrow> andThen (request st (task_args t) (task_id t)) (\<lambda>st'. Ret (Some st'))
      | _ \<Rightarrow> Ret None)"
| "dual_apply ms (FollowUpInvoke t _) w st =
     (case ms (task_name t) of
        Some (Blocking _ followup) \<Rightarrow>
          andThen (followup st (task_args t) (task_id t)) (\<lambda>(v, st').
            case v of None \<Rightarrow> Ret None | Some x \<Rightarrow> keep_if (value_accepted w x) st')
      | _ \<Rightarrow> Ret None)"
| "dual_apply ms _ w st = Ret None"

fun dual_legal :: "('st, 'a) dual_method_map \<Rightarrow> ('a dual_event \<times> value_wrapper option) list \<Rightarrow> 'st \<Rightarrow> bool" where
  "dual_legal ms [] st = True"
| "dual_legal ms ((e, w) # ops) st =
     (case dual_apply ms e w st of Ret (Some st') \<Rightarrow> dual_legal ms ops st' | _ \<Rightarrow> False)"

definition dual_linearizes :: "('st, 'a) dual_method_map \<Rightarrow> 'st \<Rightarrow> 'a dual_event list \<Rightarrow> nat list \<Rightarrow> bool" where
  "dual_linearizes ms st h os \<longleftrightarrow>
     distinct os \<and>
     (\<forall>i\<in>set os. i < length h \<and> IsDualInvokeEvent (h ! i)) \<and>
     (\<forall>i<length h. dual_completed_at h i \<noteq> None \<longrightarrow> i \<in> set os) \<and>
     sorted_wrt (\<lambda>a b. \<forall>r. dual_completed_at h b = Some r \<longrightarrow> a \<le> r) os \<and>
     dual_legal ms (map (\<lambda>i. (h ! i, dual_result h i)) os) st"

definition dual_linearizable :: "('st, 'a) dual_method_map \<Rightarrow> 'st \<Rightarrow> 'a dual_event list \<Rightarrow> bool" where
  "dual_linearizable ms st h \<longleftrightarrow> (\<exists>os. dual_linearizes ms st h os)"

section \<open>The table is right\<close>

lemma dual_keys [simp]:
  "dual_inv_key e = None \<longleftrightarrow> \<not> IsDualInvokeEvent e" "dual_rsp_key e = None \<longleftrightarrow> \<not> IsDualResponseEvent e"
  "IsDualResponseEvent e \<longleftrightarrow> \<not> IsDualInvokeEvent e"
  by (cases e; simp)+

abbreviation dual_table :: "'a dual_event list \<Rightarrow> nat \<Rightarrow> 'a dual_event_info list" where
  "dual_table h n \<equiv> snapshot dual_inv_key dual_rsp_key dual_fill set_dual_response DualHistoryEventInfo h n"

definition phase_index :: "'a dual_event list \<Rightarrow> phase \<Rightarrow> nat \<rightharpoonup> nat" where
  "phase_index h p k = invoke_index dual_inv_key h (p, k)"

lemma phase_index_invoke:
  assumes "invoke_index dual_inv_key h (p, k) = None" "dual_inv_key e = Some (p, k)"
  shows "phase_index (h @ [e]) q = (if q = p then (phase_index h p)(k \<mapsto> length h) else phase_index h q)"
  using assms by (auto simp: fun_eq_iff phase_index_def invoke_index_snoc split: option.splits)

lemma phase_index_respond: "dual_inv_key e = None \<Longrightarrow> phase_index (h @ [e]) q = phase_index h q"
  by (simp add: fun_eq_iff phase_index_def invoke_index_respond)

lemma build_dual_loop_correct:
  "dual_well_formed (h @ es) \<Longrightarrow> n = length (h @ es) \<Longrightarrow>
   build_dual_loop (length h) es (dual_table h n)
     (phase_index h Ordinary, ids1) (phase_index h Request, ids2) (phase_index h FollowUp, ids3) =
   dual_table (h @ es) n"
proof (induction es arbitrary: h ids1 ids2 ids3)
  case (Cons e es)
  have wf: "dual_well_formed (h @ [e])"
    using well_matched_append [of _ _ "h @ [e]" es] Cons.prems by simp
  have n: "length h < n" using Cons.prems(2) by simp
  have IH: "build_dual_loop (Suc (length h)) es (dual_table (h @ [e]) n)
      (phase_index (h @ [e]) Ordinary, ids1) (phase_index (h @ [e]) Request, ids2)
      (phase_index (h @ [e]) FollowUp, ids3) = dual_table (h @ e # es) n" for ids1 ids2 ids3
    using Cons.IH [of "h @ [e]" ids1 ids2 ids3] Cons.prems by simp
  from wf show ?case
  proof (cases rule: well_matched_snoc_cases)
    case (invoke k)
    obtain p a where k: "k = (p, a)" by (cases k)
    note idx = phase_index_invoke [OF invoke(3,1) [unfolded k]]
    show ?thesis
      using invoke(1) k IH unfolding snapshot_invoke [OF wf invoke(2) n] idx
      by (cases e) (auto simp: remember_def)
  next
    case (respond k i)
    obtain p a where k: "k = (p, a)" by (cases k)
    have "phase_index h p a = Some i"
      using respond(6) k by (simp add: phase_index_def)
    then show ?thesis
      using respond(2) k IH unfolding snapshot_respond [OF wf respond(2,6,5,3) n] phase_index_respond [OF respond(1)]
      by (cases e) (auto simp: set_response_def Let_def)
  qed
qed simp

lemma phase_index_Nil [simp]: "phase_index [] p = Map.empty"
  by (simp add: fun_eq_iff phase_index_def)

lemma BuildDualHistoryEventInfo_correct:
  "dual_well_formed h \<Longrightarrow> BuildDualHistoryEventInfo h = dual_table h (length h)"
  using build_dual_loop_correct [of "[]" h "length h" Map.empty Map.empty Map.empty]
  by (simp add: BuildDualHistoryEventInfo_def snapshot_Nil)

lemma dual_fill_fields [simp]:
  "info_IsInvoke (dual_fill e) = IsDualInvokeEvent e"
  "info_IsResponse (dual_fill e) = IsDualResponseEvent e"
  "info_name (dual_fill e) = task_name (GetTaskOfEvent e)"
  "info_task (dual_fill e) = Some (task_get (GetTaskOfEvent e))"
  "info_args (dual_fill e) = Some (task_args (GetTaskOfEvent e))"
  "info_op_id (dual_fill e) = task_id (GetTaskOfEvent e)"
  "dual_response_index (dual_fill e) = None"
  "info_result (dual_fill e) = dual_event_value e"
  by (cases e; simp add: info_IsInvoke_def info_IsResponse_def fill_task_info_def DualHistoryEventInfo_def)+

lemma dual_info_fields:
  assumes "dual_well_formed h" "i < length h"
  defines "ev \<equiv> BuildDualHistoryEventInfo h ! i"
  shows "kind ev = kind (dual_fill (h ! i))" "info_IsInvoke ev = IsDualInvokeEvent (h ! i)"
    "info_IsResponse ev = (\<not> IsDualInvokeEvent (h ! i))"
    "info_name ev = task_name (GetTaskOfEvent (h ! i))"
    "info_task ev = Some (task_get (GetTaskOfEvent (h ! i)))"
    "info_args ev = Some (task_args (GetTaskOfEvent (h ! i)))"
    "info_op_id ev = task_id (GetTaskOfEvent (h ! i))"
    "dual_response_index ev = dual_completed_at h i"
    "info_result ev = dual_event_value (h ! i)"
  using assms(2) dual_fill_fields [of "h ! i"]
  unfolding ev_def BuildDualHistoryEventInfo_correct [OF assms(1)]
  by (cases "dual_completed_at h i";
      simp add: snapshot_nth set_dual_response_def info_IsInvoke_def info_IsResponse_def)+

lemma length_dual_info [simp]: "dual_well_formed h \<Longrightarrow> length (BuildDualHistoryEventInfo h) = length h"
  by (simp add: BuildDualHistoryEventInfo_correct)

lemma get_dual_inv_res_mapping_correct:
  assumes "dual_well_formed h"
  shows "get_dual_inv_res_mapping h = dual_completed_at h"
proof
  fix i
  show "get_dual_inv_res_mapping h i = dual_completed_at h i"
    using assms by (cases "i < length h")
      (auto simp: get_dual_inv_res_mapping_def dual_info_fields response_of_def Let_def)
qed

section \<open>The adapter shows the history\<close>

definition dual_resolved :: "('st, 'a) dual_method_map \<Rightarrow> 'a dual_event list \<Rightarrow> ('st, 'a) dual_method option list" where
  "dual_resolved ms h = map (\<lambda>e. if IsDualInvokeEvent e then ms (task_name (GetTaskOfEvent e)) else None) h"

lemma resolve_dual_Ret:
  assumes "\<forall>ev\<in>set evs. info_IsInvoke ev \<longrightarrow> ms (info_name ev) \<noteq> None"
  shows "resolve_dual ms evs = Ret (map (\<lambda>ev. if info_IsInvoke ev then ms (info_name ev) else None) evs)"
  using assms by (induction evs) auto

lemma resolve_dual_resolved:
  assumes "dual_well_formed h"
    "\<forall>i<length h. IsDualInvokeEvent (h ! i) \<longrightarrow> ms (task_name (GetTaskOfEvent (h ! i))) \<noteq> None"
  shows "resolve_dual ms (BuildDualHistoryEventInfo h) = Ret (dual_resolved ms h)"
proof -
  have "\<forall>ev\<in>set (BuildDualHistoryEventInfo h). info_IsInvoke ev \<longrightarrow> ms (info_name ev) \<noteq> None"
    using assms by (auto simp: in_set_conv_nth dual_info_fields)
  moreover have "map (\<lambda>ev. if info_IsInvoke ev then ms (info_name ev) else None) (BuildDualHistoryEventInfo h) =
      dual_resolved ms h"
    using assms(1) by (intro nth_equalityI) (simp_all add: dual_resolved_def dual_info_fields)
  ultimately show ?thesis
    by (simp add: resolve_dual_Ret)
qed

lemma dual_completed:
  assumes "dual_well_formed h" "dual_completed_at h i = Some r"
  shows "i < r" "r < length h" "IsDualInvokeEvent (h ! i)" "\<not> IsDualInvokeEvent (h ! r)"
    "dual_inv_key (h ! i) = dual_rsp_key (h ! r)"
  using assms(2) unfolding response_of_eq_Some [OF assms(1)]
  by (metis dual_keys option.distinct(1))+

text \<open>A completed ordinary operation and a completed follow-up have a recorded value.\<close>

lemma result_matches_eq:
  assumes "dual_well_formed h" "\<And>t n. h ! i \<noteq> RequestInvoke t n"
  shows "result_matches (BuildDualHistoryEventInfo h) (dual_completed_at h i) = value_accepted (dual_result h i)"
proof (cases "dual_completed_at h i")
  case None
  then show ?thesis
    by (auto simp: fun_eq_iff result_matches_def value_accepted_def dual_result_def)
next
  case (Some r)
  note r = dual_completed [OF assms(1) Some]
  obtain v where "dual_event_value (h ! r) = Some v"
    using r(3-5) assms(2) by (cases "h ! i"; cases "h ! r") auto
  then show ?thesis
    using r assms(1) Some
    by (auto simp: fun_eq_iff result_matches_def value_accepted_def dual_result_def dual_info_fields)
qed

lemma dual_try_apply_eq:
  assumes "dual_well_formed h" "i < length h" "IsDualInvokeEvent (h ! i)"
    "ms (task_name (GetTaskOfEvent (h ! i))) = Some m"
  shows "dual_try_apply (BuildDualHistoryEventInfo h) (dual_resolved ms h) i = dual_apply ms (h ! i) (dual_result h i)"
proof
  fix st
  have pred: "(case dual_completed_at h i of None \<Rightarrow> None | Some r \<Rightarrow> info_result (BuildDualHistoryEventInfo h ! r)) =
      dual_result h i"
    using dual_completed(2) [OF assms(1)] assms(1)
    by (auto simp: dual_result_def dual_info_fields split: option.splits)
  have meth: "dual_resolved ms h ! i = Some m"
    using assms by (simp add: dual_resolved_def)
  note match = result_matches_eq [OF assms(1), of i]
  note info = dual_info_fields [OF assms(1,2)]
  show "dual_try_apply (BuildDualHistoryEventInfo h) (dual_resolved ms h) i st = dual_apply ms (h ! i) (dual_result h i) st"
    unfolding dual_try_apply_def Let_def info meth pred using assms(3,4) match
    by (cases "h ! i") (simp_all add: fill_task_info_def DualHistoryEventInfo_def split: dual_method.split cong: option.case_cong)
qed

section \<open>Correctness of the checker\<close>

text \<open>
  What the checker needs of a history and a specification: matched events, methods for all
  invocations that return on the states of an invariant and keep it, and an equality that the
  methods respect.
\<close>

definition dual_usable :: "('st, 'a) dual_checker \<times> ('st \<Rightarrow> bool) \<times> 'a dual_event list \<Rightarrow> bool" where
  "dual_usable = (\<lambda>(c, I, h).
     dual_well_formed h \<and>
     (\<forall>i<length h. IsDualInvokeEvent (h ! i) \<longrightarrow> dual_methods c (task_name (GetTaskOfEvent (h ! i))) \<noteq> None) \<and>
     (\<forall>i<length h. IsDualInvokeEvent (h ! i) \<longrightarrow> (\<forall>st. I st \<longrightarrow>
        (\<exists>x. dual_apply (dual_methods c) (h ! i) (dual_result h i) st = Ret x \<and> pred_option I x))) \<and>
     (\<forall>hash eq i s t s'. dual_traits c = Some (hash, eq) \<longrightarrow> i < length h \<longrightarrow> IsDualInvokeEvent (h ! i) \<longrightarrow>
        eq s t \<longrightarrow> I s \<longrightarrow> I t \<longrightarrow> dual_apply (dual_methods c) (h ! i) (dual_result h i) s = Ret (Some s') \<longrightarrow>
        (\<exists>t'. dual_apply (dual_methods c) (h ! i) (dual_result h i) t = Ret (Some t') \<and> eq s' t')))"

definition dual_search :: "('st, 'a) dual_checker \<times> ('st \<Rightarrow> bool) \<times> 'a dual_event list \<Rightarrow> 'st search_env" where
  "dual_search = (\<lambda>(c, I, h). dual_env c h (dual_resolved (dual_methods c) h))"

lemma dual_search_fields:
  assumes "dual_usable (c, I, h)"
  defines "E \<equiv> dual_search (c, I, h)"
  shows "history_size E = length h"
    "i < length h \<Longrightarrow> IsInvoke (adapter_of E) i = IsDualInvokeEvent (h ! i)"
    "i < length h \<Longrightarrow> IsResponse (adapter_of E) i = (\<not> IsDualInvokeEvent (h ! i))"
    "i < length h \<Longrightarrow> ResponseIndex (adapter_of E) i = dual_completed_at h i"
    "i < length h \<Longrightarrow> IsDualInvokeEvent (h ! i) \<Longrightarrow>
       TryApply (adapter_of E) i = dual_apply (dual_methods c) (h ! i) (dual_result h i)"
    "i < length h \<Longrightarrow> IsDualInvokeEvent (h ! i) \<Longrightarrow>
       CanDropPendingInvoke (adapter_of E) i \<longleftrightarrow> dual_completed_at h i = None"
    "on_complete E st = on_complete E st'"
    "cache_traits E = dual_traits c"
proof -
  have wf: "dual_well_formed h" and named: "i < length h \<Longrightarrow> IsDualInvokeEvent (h ! i) \<Longrightarrow>
      \<exists>m. dual_methods c (task_name (GetTaskOfEvent (h ! i))) = Some m"
    using assms(1) by (auto simp: dual_usable_def)
  note E = E_def dual_search_def dual_env_def dual_adapter_def Let_def
  show "history_size E = length h" "cache_traits E = dual_traits c" by (simp_all add: E)
  show "on_complete E st = on_complete E st'"
    by (simp add: E validate_completed_linearization_def)
  show "i < length h \<Longrightarrow> IsInvoke (adapter_of E) i = IsDualInvokeEvent (h ! i)"
    "i < length h \<Longrightarrow> IsResponse (adapter_of E) i = (\<not> IsDualInvokeEvent (h ! i))"
    "i < length h \<Longrightarrow> ResponseIndex (adapter_of E) i = dual_completed_at h i"
    using wf by (simp_all add: E dual_info_fields)
  show "TryApply (adapter_of E) i = dual_apply (dual_methods c) (h ! i) (dual_result h i)"
    if "i < length h" "IsDualInvokeEvent (h ! i)"
    using dual_try_apply_eq [OF wf that] named [OF that] by (auto simp: E)
  show "CanDropPendingInvoke (adapter_of E) i \<longleftrightarrow> dual_completed_at h i = None"
    if "i < length h" "IsDualInvokeEvent (h ! i)"
    using dual_info_fields [OF wf that(1)] that(2) by (auto simp: E dual_can_drop_def info_IsInvoke_def)
qed

interpretation dual: search_adapter
  "dual_search :: ('st, 'a) dual_checker \<times> ('st \<Rightarrow> bool) \<times> 'a dual_event list \<Rightarrow> 'st search_env"
  dual_usable "\<lambda>(c, I, h). I"
proof
  fix x :: "('st, 'a) dual_checker \<times> ('st \<Rightarrow> bool) \<times> 'a dual_event list"
  obtain c I h where x: "x = (c, I, h)" by (cases x) auto
  let ?E = "dual_search x"
  let ?A = "adapter_of ?E"
  assume ux: "dual_usable x"
  note fields = dual_search_fields [OF ux [unfolded x], folded x]
  have wf: "dual_well_formed h" using ux x by (simp add: dual_usable_def)
  show "IsInvoke ?A i \<longleftrightarrow> \<not> IsResponse ?A i" if "i < history_size ?E" for i
    using that by (simp add: fields)
  show "i < r \<and> r < history_size ?E \<and> IsResponse ?A r"
    if "i < history_size ?E" "IsInvoke ?A i" "ResponseIndex ?A i = Some r" for i r
    using that dual_completed [OF wf, of i r] by (simp add: fields)
  show "i = j"
    if "i < history_size ?E" "j < history_size ?E" "IsInvoke ?A i" "IsInvoke ?A j"
      "ResponseIndex ?A i = Some r" "ResponseIndex ?A j = Some r" for i j r
  proof -
    have ij: "i < length h" "j < length h" "dual_completed_at h i = Some r" "dual_completed_at h j = Some r"
      using that by (simp_all add: fields)
    then obtain k where "dual_inv_key (h ! i) = Some k" "dual_inv_key (h ! j) = Some k"
      unfolding response_of_eq_Some [OF wf] by auto
    then show ?thesis using inv_unique [OF wf ij(1,2)] by blast
  qed
  show "\<exists>i<r. IsInvoke ?A i \<and> ResponseIndex ?A i = Some r"
    if "r < history_size ?E" "IsResponse ?A r" for r
  proof -
    have r': "r < length h" "dual_rsp_key (h ! r) \<noteq> None"
      using that by (simp_all add: fields)
    then obtain k where r: "r < length h" "dual_rsp_key (h ! r) = Some k" by blast
    then obtain i where i: "i < r" "dual_inv_key (h ! i) = Some k"
      using rsp_has_inv [OF wf] by blast
    then have "dual_completed_at h i = Some r"
      using r unfolding response_of_eq_Some [OF wf] by blast
    moreover from this have "IsDualInvokeEvent (h ! i)" by (rule dual_completed(3) [OF wf])
    ultimately show ?thesis
      using i(1) r(1) by (intro exI [of _ i]) (simp add: fields)
  qed
  show "\<exists>y. TryApply ?A i st = Ret y \<and> pred_option ((\<lambda>(c, I, h). I) x) y"
    if "i < history_size ?E" "IsInvoke ?A i" "(\<lambda>(c, I, h). I) x st" for i st
    using ux that unfolding x by (simp add: fields [unfolded x] dual_usable_def)
  show "\<exists>t'. TryApply ?A i t = Ret (Some t') \<and> eq s' t'"
    if "cache_traits ?E = Some (hash, eq)" "eq s t" "(\<lambda>(c, I, h). I) x s" "(\<lambda>(c, I, h). I) x t"
      "i < history_size ?E" "IsInvoke ?A i" "TryApply ?A i s = Ret (Some s')" for hash eq s t i s'
  proof -
    have i: "i < length h" "IsDualInvokeEvent (h ! i)" "dual_traits c = Some (hash, eq)"
      using that by (simp_all add: fields)
    have I: "I s" "I t" "eq s t" using that x by simp_all
    have "dual_apply (dual_methods c) (h ! i) (dual_result h i) s = Ret (Some s')"
      using that(7) i by (simp add: fields)
    then obtain t' where "dual_apply (dual_methods c) (h ! i) (dual_result h i) t = Ret (Some t')" "eq s' t'"
      using ux i I unfolding x dual_usable_def prod.case by blast
    then show ?thesis using i by (simp add: fields)
  qed
  show "on_complete ?E t"
    if "cache_traits ?E = Some (hash, eq)" "eq s t" "(\<lambda>(c, I, h). I) x s" "(\<lambda>(c, I, h). I) x t"
      "on_complete ?E s" for hash eq s t
    using that(5) fields(7) [of s t] by simp
qed

lemma run_ops_applied:
  "run_ops A os st = Some st' \<Longrightarrow> i \<in> set os \<Longrightarrow> \<exists>s s'. TryApply A i s = Ret (Some s')"
  by (induction os arbitrary: st) (auto split: res.splits option.splits)

lemma run_ops_dual_legal:
  assumes "\<forall>i\<in>set os. TryApply A i = dual_apply ms (h ! i) (val i)"
  shows "(\<exists>st'. run_ops A os st = Some st') \<longleftrightarrow> dual_legal ms (map (\<lambda>i. (h ! i, val i)) os) st"
  using assms by (induction os arbitrary: st) (auto split: res.splits option.splits)

text \<open>
  The validation of a completed linearization accepts whenever the completed operations have been
  applied: a request that was applied has a blocking method.
\<close>

lemma validate_accepts:
  assumes "dual_usable (c, I, h)"
    "\<forall>i<length h. dual_completed_at h i \<noteq> None \<longrightarrow>
      (\<exists>s s'. dual_apply (dual_methods c) (h ! i) (dual_result h i) s = Ret (Some s'))"
  shows "on_complete (dual_search (c, I, h)) st"
proof -
  have wf: "dual_well_formed h" using assms(1) by (simp add: dual_usable_def)
  have "case dual_methods c (info_name ev) of None \<Rightarrow> False | Some m \<Rightarrow> is_blocking m"
    if ev: "ev \<in> set (BuildDualHistoryEventInfo h)" "kind ev = KRequestInvoke" "dual_response_index ev \<noteq> None" for ev
  proof -
    obtain i where i: "i < length h" "ev = BuildDualHistoryEventInfo h ! i"
      using ev(1) wf by (auto simp: in_set_conv_nth)
    note info = dual_info_fields [OF wf i(1), folded i(2)]
    obtain t n where t: "h ! i = RequestInvoke t n"
      using info(1) ev(2) by (cases "h ! i") (auto simp: fill_task_info_def)
    obtain s s' where "dual_apply (dual_methods c) (h ! i) (dual_result h i) s = Ret (Some s')"
      using assms(2) i(1) ev(3) info(8) by auto
    then show ?thesis
      using t info(4) by (auto split: option.splits dual_method.splits)
  qed
  then show ?thesis
    by (auto simp: dual_search_def dual_env_def Let_def validate_completed_linearization_def
        incomplete_followups_def list_all_iff)
qed

lemma dual_linearization_iff:
  assumes u: "dual_usable (c, I, h)"
  shows "is_linearization (dual_search (c, I, h)) os st \<longleftrightarrow> dual_linearizes (dual_methods c) st h os"
proof -
  note fields = dual_search_fields [OF u]
  let ?E = "dual_search (c, I, h)" and ?ms = "dual_methods c"
  have wf: "dual_well_formed h" using u by (simp add: dual_usable_def)
  show ?thesis
  proof (cases "\<forall>i\<in>set os. i < length h \<and> IsDualInvokeEvent (h ! i)")
    case False
    then show ?thesis
      by (auto simp: is_linearization_def dual_linearizes_def fields)
  next
    case True
    have order: "real_time_order (adapter_of ?E) os \<longleftrightarrow>
        sorted_wrt (\<lambda>a b. \<forall>r. dual_completed_at h b = Some r \<longrightarrow> a \<le> r) os"
      unfolding real_time_order_def using True fields(4)
      by (intro iffI; elim sorted_wrt_mono_rel [rotated]) auto
    have all: "(\<forall>i<history_size ?E. IsInvoke (adapter_of ?E) i \<and> i \<notin> set os \<longrightarrow>
        ResponseIndex (adapter_of ?E) i = None \<and> CanDropPendingInvoke (adapter_of ?E) i) \<longleftrightarrow>
        (\<forall>i<length h. dual_completed_at h i \<noteq> None \<longrightarrow> i \<in> set os)"
      using dual_completed(3) [OF wf] by (auto simp: fields)
    have run: "(\<exists>st'. run_ops (adapter_of ?E) os st = Some st') \<longleftrightarrow>
        dual_legal ?ms (map (\<lambda>i. (h ! i, dual_result h i)) os) st"
      using True fields(5) by (intro run_ops_dual_legal) auto
    have valid: "on_complete ?E st'"
      if "run_ops (adapter_of ?E) os st = Some st'" "\<forall>i<length h. dual_completed_at h i \<noteq> None \<longrightarrow> i \<in> set os" for st'
    proof (rule validate_accepts [OF u], intro allI impI)
      fix i assume "i < length h" "dual_completed_at h i \<noteq> None"
      then have "i \<in> set os" using that(2) by blast
      then show "\<exists>s s'. dual_apply ?ms (h ! i) (dual_result h i) s = Ret (Some s')"
        using run_ops_applied [OF that(1)] True fields(5) by fastforce
    qed
    have mem: "(\<forall>i\<in>set os. i < history_size ?E \<and> IsInvoke (adapter_of ?E) i)"
      using True by (simp add: fields)
    show ?thesis
      unfolding is_linearization_def dual_linearizes_def order all run [symmetric]
      using True mem valid by blast
  qed
qed

lemma DualCheck_decides:
  assumes u: "dual_usable (c, I, h)" and "I (init_state c)"
  shows "DualCheck c h = Ret (dual_linearizable (dual_methods c) (init_state c) h)"
proof (cases "h = []")
  case True
  have "dual_linearizes (dual_methods c) (init_state c) [] []"
    by (simp add: dual_linearizes_def)
  with True show ?thesis
    by (auto simp: DualCheck_def dual_linearizable_def)
next
  case False
  have "resolve_dual (dual_methods c) (BuildDualHistoryEventInfo h) = Ret (dual_resolved (dual_methods c) h)"
    using u by (intro resolve_dual_resolved) (auto simp: dual_usable_def)
  then have "DualCheck c h = RunRecursiveLinearizationSearchImpl (dual_search (c, I, h)) (init_state c)"
    using False by (simp add: DualCheck_def dual_search_def)
  also have "\<dots> = Ret (\<exists>os. is_linearization (dual_search (c, I, h)) os (init_state c))"
    using False assms by (intro dual.search_decides) (simp_all add: dual_search_fields [OF u])
  finally show ?thesis
    by (simp add: dual_linearization_iff [OF u] dual_linearizable_def)
qed

end
