(* ===== verification/Workload_Policy.thy ===== *)
theory Workload_Policy
  imports LTest_Prelude "HOL-Library.Word"
begin

text \<open>
  The rules a specification can give to the scheduler about which operations may start
  (runtime/include/workload_policy.h), and the context in which a start is decided.
\<close>

type_synonym size_t = "64 word"

record reserve_rule =
  wait_method :: string
  progress_methods :: "string list"
  reserve_threads :: size_t

record prefix_budget_rule =
  pb_wait_method :: string
  pb_progress_methods :: "string list"
  pb_reserve_threads :: size_t
  initial_credit :: size_t

record rollback_rule =
  rb_wait_method :: string
  rb_progress_methods :: "string list"

record max_active_rule =
  ma_method :: string
  max_active_count :: size_t

record max_blocked_rule =
  mb_method :: string
  max_blocked_count :: size_t

record workload_policy =
  reserve :: "reserve_rule list"
  prefix_budget :: "prefix_budget_rule list"
  rollback :: "rollback_rule list"
  max_active :: "max_active_rule list"
  max_blocked :: "max_blocked_rule list"

definition WorkloadPolicy :: workload_policy where
  "WorkloadPolicy = \<lparr>reserve = [], prefix_budget = [], rollback = [], max_active = [], max_blocked = []\<rparr>"

definition reserve_one :: "string \<Rightarrow> string list \<Rightarrow> reserve_rule" where
  "reserve_one w ps = \<lparr>wait_method = w, progress_methods = ps, reserve_threads = 1\<rparr>"

definition budget_one :: "string \<Rightarrow> string list \<Rightarrow> size_t \<Rightarrow> prefix_budget_rule" where
  "budget_one w ps credit =
     \<lparr>pb_wait_method = w, pb_progress_methods = ps, pb_reserve_threads = 1, initial_credit = credit\<rparr>"

text \<open>
  \<open>StartContext\<close>: the number of threads, the number of threads free to start a task, and the active and
  blocked tasks by method name. A method with no entry counts as zero.
\<close>

record start_context =
  ctx_threads :: size_t
  free_threads :: size_t
  active_by_method :: "string \<rightharpoonup> int"
  blocked_by_method :: "string \<rightharpoonup> int"

end
