(* ===== verification/Dual_Specs.thy ===== *)
theory Dual_Specs
  imports Lincheck_Dual Sequential_Specs Workload_Policy "HOL-Library.AList_Mapping"
begin

text \<open>
  The contract of a dual specification, as the dual checker needs it, and the dual specifications
  verifying/specs/coroutine_queue.h and verifying/specs/coro_async_stack.h, whose invariants show
  that requests and values never wait for each other.
\<close>

section \<open>The contract of a dual specification\<close>

text \<open>
  A dual history conforms to a specification when every invocation names a method, passes arguments
  the method accepts, and every recorded result has the type the method returns.
\<close>

definition dual_conforms :: "('st, 'a) dual_method_map \<Rightarrow> (string \<Rightarrow> 'a \<Rightarrow> bool) \<Rightarrow> (string \<Rightarrow> any_type) \<Rightarrow>
    'a dual_event list \<Rightarrow> bool" where
  "dual_conforms ms arg_ok rtype h \<longleftrightarrow>
     dual_well_formed h \<and>
     (\<forall>i<length h. IsDualInvokeEvent (h ! i) \<longrightarrow>
        ms (GetNameOfEvent (h ! i)) \<noteq> None \<and>
        arg_ok (GetNameOfEvent (h ! i)) (GetArgsOfEvent (h ! i)) \<and>
        pred_option (result_of_type (rtype (GetNameOfEvent (h ! i)))) (dual_result h i))"

text \<open>
  The states a specification can be in: whatever its methods make of the initial state, called in any
  order, by any operation, with arguments they accept and recorded results of the right type.
\<close>

inductive spec_reaches :: "('st, 'a) dual_method_map \<Rightarrow> (string \<Rightarrow> 'a \<Rightarrow> bool) \<Rightarrow> (string \<Rightarrow> any_type) \<Rightarrow> 'st \<Rightarrow> 'st \<Rightarrow> bool"
  for ms :: "('st, 'a) dual_method_map" and arg_ok :: "string \<Rightarrow> 'a \<Rightarrow> bool" and rtype :: "string \<Rightarrow> any_type"
    and s0 :: 'st where
  initial: "spec_reaches ms arg_ok rtype s0 s0"
| ordinary_call: "spec_reaches ms arg_ok rtype s0 s \<Longrightarrow> ms n = Some (NonBlocking f) \<Longrightarrow> arg_ok n a \<Longrightarrow>
    f s a = Ret (v, s') \<Longrightarrow> spec_reaches ms arg_ok rtype s0 s'"
| predicate_call: "spec_reaches ms arg_ok rtype s0 s \<Longrightarrow> ms n = Some (NonBlockingPredicate p) \<Longrightarrow> arg_ok n a \<Longrightarrow>
    pred_option (result_of_type (rtype n)) w \<Longrightarrow> p s a w = Ret (b, s') \<Longrightarrow> spec_reaches ms arg_ok rtype s0 s'"
| request_call: "spec_reaches ms arg_ok rtype s0 s \<Longrightarrow> ms n = Some (Blocking r g) \<Longrightarrow> arg_ok n a \<Longrightarrow>
    r s a op_id = Ret s' \<Longrightarrow> spec_reaches ms arg_ok rtype s0 s'"
| followup_call: "spec_reaches ms arg_ok rtype s0 s \<Longrightarrow> ms n = Some (Blocking r g) \<Longrightarrow> arg_ok n a \<Longrightarrow>
    g s a op_id = Ret (v, s') \<Longrightarrow> spec_reaches ms arg_ok rtype s0 s'"

locale dual_spec =
  fixes methods :: "('st, 'a) dual_method_map"
    and inv :: "'st \<Rightarrow> bool"
    and arg_ok :: "string \<Rightarrow> 'a \<Rightarrow> bool"
    and rtype :: "string \<Rightarrow> any_type"
  assumes ordinary: "methods n = Some (NonBlocking f) \<Longrightarrow> inv st \<Longrightarrow> arg_ok n a \<Longrightarrow>
      \<exists>v st'. f st a = Ret (v, st') \<and> inv st' \<and> result_of_type (rtype n) v"
    and predicate: "methods n = Some (NonBlockingPredicate p) \<Longrightarrow> inv st \<Longrightarrow> arg_ok n a \<Longrightarrow>
      pred_option (result_of_type (rtype n)) w \<Longrightarrow> \<exists>b st'. p st a w = Ret (b, st') \<and> inv st'"
    and request: "methods n = Some (Blocking r g) \<Longrightarrow> inv st \<Longrightarrow> arg_ok n a \<Longrightarrow>
      \<exists>st'. r st a op_id = Ret st' \<and> inv st'"
    and followup: "methods n = Some (Blocking r g) \<Longrightarrow> inv st \<Longrightarrow> arg_ok n a \<Longrightarrow>
      \<exists>v st'. g st a op_id = Ret (v, st') \<and> inv st' \<and> pred_option (result_of_type (rtype n)) v"
begin

lemma reaches_inv:
  assumes "spec_reaches methods arg_ok rtype s0 s" "inv s0"
  shows "inv s"
  using assms(1)
proof (induction rule: spec_reaches.induct)
  case (ordinary_call s n f a v s')
  then show ?case using ordinary [of n f s a] by force
next
  case (predicate_call s n p a w b s')
  then show ?case using predicate [of n p s a w] by force
next
  case (request_call s n r g a op_id s')
  then show ?case using request [of n r g s a op_id] by force
next
  case (followup_call s n r g a op_id v s')
  then show ?case using followup [of n r g s a op_id] by force
qed (rule assms(2))

lemma accepted_returns:
  "result_of_type T v \<Longrightarrow> pred_option (result_of_type T) w \<Longrightarrow> \<exists>b. value_accepted w v = Ret b"
  using vw_eq_same_type [of T v] by (cases w) (auto simp: value_accepted_def)

lemma apply_total:
  assumes "dual_conforms methods arg_ok rtype h" "i < length h" "IsDualInvokeEvent (h ! i)" "inv st"
  shows "\<exists>x. dual_apply methods (h ! i) (dual_result h i) st = Ret x \<and> pred_option inv x"
proof -
  let ?t = "GetTaskOfEvent (h ! i)"
  obtain m where m: "methods (task_name ?t) = Some m"
    and a: "arg_ok (task_name ?t) (task_args ?t)"
    and w: "pred_option (result_of_type (rtype (task_name ?t))) (dual_result h i)"
    using assms(1-3) by (auto simp: dual_conforms_def GetNameOfEvent_def GetArgsOfEvent_def)
  show ?thesis
  proof (cases m)
    case (NonBlocking f)
    obtain v st' where v: "f st (task_args ?t) = Ret (v, st')" "inv st'" "result_of_type (rtype (task_name ?t)) v"
      using ordinary [OF m [unfolded NonBlocking] assms(4) a] by blast
    then obtain b where "value_accepted (dual_result h i) v = Ret b"
      using accepted_returns w by blast
    then show ?thesis
      using m v NonBlocking assms(3) by (cases "h ! i") (auto simp: keep_if_def)
  next
    case (NonBlockingPredicate p)
    obtain b st' where "p st (task_args ?t) (dual_result h i) = Ret (b, st')" "inv st'"
      using predicate [OF m [unfolded NonBlockingPredicate] assms(4) a w] by blast
    then show ?thesis
      using m NonBlockingPredicate assms(3) by (cases "h ! i") (auto simp: keep_if_def)
  next
    case (Blocking r g)
    obtain st1 where r: "r st (task_args ?t) (task_id ?t) = Ret st1" "inv st1"
      using request [OF m [unfolded Blocking] assms(4) a] by blast
    obtain v st2 where g: "g st (task_args ?t) (task_id ?t) = Ret (v, st2)" "inv st2"
      "pred_option (result_of_type (rtype (task_name ?t))) v"
      using followup [OF m [unfolded Blocking] assms(4) a] by blast
    have "\<exists>b. value_accepted (dual_result h i) x = Ret b" if "v = Some x" for x
      using accepted_returns w g(3) that by auto
    then show ?thesis
      using m r g Blocking assms(3) by (cases "h ! i") (auto simp: keep_if_def split: option.splits)
  qed
qed

lemma spec_usable:
  assumes "dual_methods c = methods" "dual_traits c = None \<or> (\<exists>hash. dual_traits c = Some (hash, (=)))"
    "dual_conforms methods arg_ok rtype h"
  shows "dual_usable (c, inv, h)"
  using apply_total [OF assms(3)] assms
  by (auto simp: dual_usable_def dual_conforms_def GetNameOfEvent_def)

end

text \<open>
  Building blocks of method tables: ordinary methods that ignore or decode their arguments, and
  blocking methods given by their handlers.
\<close>

definition ordinary_method :: "('st \<Rightarrow> value_wrapper \<times> 'st) \<Rightarrow> ('st, spec_args) dual_method" where
  "ordinary_method f = NonBlocking (\<lambda>s _. Ret (f s))"

definition ordinary_int_method :: "(int \<Rightarrow> 'st \<Rightarrow> value_wrapper \<times> 'st) \<Rightarrow> ('st, spec_args) dual_method" where
  "ordinary_int_method f = NonBlocking (\<lambda>s args. andThen (arg_int args) (\<lambda>v. Ret (f v s)))"

definition blocking_method :: "(int \<Rightarrow> 'st \<Rightarrow> 'st) \<Rightarrow> (int \<Rightarrow> 'st \<Rightarrow> value_wrapper option \<times> 'st) \<Rightarrow> ('st, spec_args) dual_method" where
  "blocking_method r g = Blocking (\<lambda>s _ op_id. Ret (r op_id s)) (\<lambda>s _ op_id. Ret (g op_id s))"

definition blocking_int_method :: "(int \<Rightarrow> int \<Rightarrow> 'st \<Rightarrow> 'st) \<Rightarrow> (int \<Rightarrow> 'st \<Rightarrow> value_wrapper option \<times> 'st) \<Rightarrow>
    ('st, spec_args) dual_method" where
  "blocking_int_method r g =
     Blocking (\<lambda>s args op_id. andThen (arg_int args) (\<lambda>v. Ret (r op_id v s))) (\<lambda>s _ op_id. Ret (g op_id s))"

lemmas method_kinds = ordinary_method_def ordinary_int_method_def blocking_method_def blocking_int_method_def

text \<open>
  Follow-ups of the same shape: an operation that is in the set of ready ones returns void and leaves
  it, and one with a ready value returns the value and leaves the map.
\<close>

definition ready_followup :: "int \<Rightarrow> int set \<Rightarrow> value_wrapper option \<times> int set" where
  "ready_followup op_id ready = (if op_id \<notin> ready then (None, ready) else (Some void_v, ready - {op_id}))"

definition value_followup :: "int \<Rightarrow> (int, int) mapping \<Rightarrow> (int \<Rightarrow> value_wrapper) \<Rightarrow> value_wrapper option \<times> (int, int) mapping" where
  "value_followup op_id ready mk =
     (case Mapping.lookup ready op_id of
        None \<Rightarrow> (None, ready)
      | Some v \<Rightarrow> (Some (mk v), Mapping.delete op_id ready))"

text \<open>
  Pieces of the hash functions: a cast to \<open>size_t\<close>, the mixing step, and the exclusive or over an unordered
  container, whose order does not matter.
\<close>

definition size_cast :: "int \<Rightarrow> 64 word" where
  "size_cast i = word_of_int i"

definition bool_cast :: "bool \<Rightarrow> 64 word" where
  "bool_cast b = (if b then 1 else 0)"

definition mix_step :: "64 word \<Rightarrow> 64 word" where
  "mix_step h = push_bit 6 h XOR drop_bit 2 h XOR 0x9e3779b97f4a7c15"

definition xor_list :: "('a \<Rightarrow> 64 word) \<Rightarrow> 'a list \<Rightarrow> 64 word \<Rightarrow> 64 word" where
  "xor_list f xs h = foldl (\<lambda>h x. h XOR f x) h xs"

definition xor_ids :: "(int \<Rightarrow> 64 word) \<Rightarrow> int set \<Rightarrow> 64 word \<Rightarrow> 64 word" where
  "xor_ids f S h = xor_list f (sorted_list_of_set S) h"

definition xor_map :: "(int \<Rightarrow> int \<Rightarrow> 64 word) \<Rightarrow> (int, int) mapping \<Rightarrow> 64 word \<Rightarrow> 64 word" where
  "xor_map f m h = xor_list (\<lambda>k. case Mapping.lookup m k of None \<Rightarrow> 0 | Some v \<Rightarrow> f k v)
     (sorted_list_of_set (Mapping.keys m)) h"

section \<open>Unbuffered channel\<close>

record coroutine_queue =
  waiting_receives :: "int list"
  waiting_sends :: "(int \<times> int) list"
  ready_receive_value :: "(int, int) mapping"
  ready_send :: "int set"

definition CoroutineQueue :: coroutine_queue where
  "CoroutineQueue = \<lparr>waiting_receives = [], waiting_sends = [], ready_receive_value = Mapping.empty, ready_send = {}\<rparr>"

definition coroutine_queue_policy :: workload_policy where
  "coroutine_queue_policy = WorkloadPolicy\<lparr>reserve :=
     [reserve_one ''receive'' [''send''], reserve_one ''send'' [''receive'']]\<rparr>"

definition cq_RequestSend :: "int \<Rightarrow> int \<Rightarrow> coroutine_queue \<Rightarrow> coroutine_queue" where
  "cq_RequestSend op_id v s =
     (case waiting_receives s of
        recv_id # rest \<Rightarrow>
          s\<lparr>waiting_receives := rest,
            ready_receive_value := Mapping.update recv_id v (ready_receive_value s),
            ready_send := insert op_id (ready_send s)\<rparr>
      | [] \<Rightarrow> s\<lparr>waiting_sends := waiting_sends s @ [(op_id, v)]\<rparr>)"

definition cq_RequestReceive :: "int \<Rightarrow> coroutine_queue \<Rightarrow> coroutine_queue" where
  "cq_RequestReceive op_id s =
     (case waiting_sends s of
        (send_id, v) # rest \<Rightarrow>
          s\<lparr>waiting_sends := rest,
            ready_receive_value := Mapping.update op_id v (ready_receive_value s),
            ready_send := insert send_id (ready_send s)\<rparr>
      | [] \<Rightarrow> s\<lparr>waiting_receives := waiting_receives s @ [op_id]\<rparr>)"

definition cq_FollowUpSend :: "int \<Rightarrow> coroutine_queue \<Rightarrow> value_wrapper option \<times> coroutine_queue" where
  "cq_FollowUpSend op_id s = (case ready_followup op_id (ready_send s) of (v, r) \<Rightarrow> (v, s\<lparr>ready_send := r\<rparr>))"

definition cq_FollowUpReceive :: "int \<Rightarrow> coroutine_queue \<Rightarrow> value_wrapper option \<times> coroutine_queue" where
  "cq_FollowUpReceive op_id s =
     (case value_followup op_id (ready_receive_value s) (\<lambda>v. wrap (AnyInt v)) of
        (v, r) \<Rightarrow> (v, s\<lparr>ready_receive_value := r\<rparr>))"

definition coroutine_queue_methods :: "(coroutine_queue, spec_args) dual_method_map" where
  "coroutine_queue_methods =
     [''send'' \<mapsto> blocking_int_method cq_RequestSend cq_FollowUpSend,
      ''receive'' \<mapsto> blocking_method cq_RequestReceive cq_FollowUpReceive]"

definition CoroutineQueueHash :: "coroutine_queue \<Rightarrow> 64 word" where
  "CoroutineQueueHash s =
     (of_nat (length (waiting_receives s)) * 1315423911) XOR (of_nat (length (waiting_sends s)) * 2654435761) XOR
     (of_nat (Mapping.size (ready_receive_value s)) * 97531) XOR (of_nat (card (ready_send s)) * 424242)"

definition CoroutineQueueEquals :: "coroutine_queue \<Rightarrow> coroutine_queue \<Rightarrow> bool" where
  "CoroutineQueueEquals a b \<longleftrightarrow>
     waiting_receives a = waiting_receives b \<and> waiting_sends a = waiting_sends b \<and>
     ready_receive_value a = ready_receive_value b \<and> ready_send a = ready_send b"

text \<open>A sender and a receiver never wait at the same time.\<close>

definition coroutine_queue_inv :: "coroutine_queue \<Rightarrow> bool" where
  "coroutine_queue_inv s \<longleftrightarrow> waiting_receives s = [] \<or> waiting_sends s = []"

section \<open>Asynchronous stack\<close>

record coro_async_stack =
  stack_values :: "int list"
  waiting_pops :: "int list"
  ready_pop_value :: "(int, int) mapping"

definition CoroAsyncStack :: coro_async_stack where
  "CoroAsyncStack = \<lparr>stack_values = [], waiting_pops = [], ready_pop_value = Mapping.empty\<rparr>"

definition async_Push :: "int \<Rightarrow> coro_async_stack \<Rightarrow> value_wrapper \<times> coro_async_stack" where
  "async_Push v s =
     (void_v,
      if waiting_pops s \<noteq> [] then
        s\<lparr>waiting_pops := butlast (waiting_pops s),
          ready_pop_value := Mapping.update (last (waiting_pops s)) v (ready_pop_value s)\<rparr>
      else s\<lparr>stack_values := stack_values s @ [v]\<rparr>)"

definition async_stack_policy :: workload_policy where
  "async_stack_policy = WorkloadPolicy\<lparr>reserve := [reserve_one ''pop'' [''push'']],
     prefix_budget := [budget_one ''pop'' [''push''] 0]\<rparr>"

definition async_RequestPop :: "int \<Rightarrow> coro_async_stack \<Rightarrow> coro_async_stack" where
  "async_RequestPop op_id s =
     (if stack_values s \<noteq> [] then
        s\<lparr>stack_values := butlast (stack_values s),
          ready_pop_value := Mapping.update op_id (last (stack_values s)) (ready_pop_value s)\<rparr>
      else s\<lparr>waiting_pops := waiting_pops s @ [op_id]\<rparr>)"

definition async_FollowUpPop :: "int \<Rightarrow> coro_async_stack \<Rightarrow> value_wrapper option \<times> coro_async_stack" where
  "async_FollowUpPop op_id s =
     (case value_followup op_id (ready_pop_value s) (\<lambda>v. wrap (AnyInt v)) of
        (v, r) \<Rightarrow> (v, s\<lparr>ready_pop_value := r\<rparr>))"

definition async_stack_methods :: "(coro_async_stack, spec_args) dual_method_map" where
  "async_stack_methods =
     [''push'' \<mapsto> ordinary_int_method async_Push,
      ''pop'' \<mapsto> blocking_method async_RequestPop async_FollowUpPop]"

definition CoroAsyncStackHash :: "coro_async_stack \<Rightarrow> 64 word" where
  "CoroAsyncStackHash s =
     (of_nat (length (stack_values s)) * 1315423911) XOR (of_nat (length (waiting_pops s)) * 2654435761) XOR
     (of_nat (Mapping.size (ready_pop_value s)) * 97531)"

definition CoroAsyncStackEquals :: "coro_async_stack \<Rightarrow> coro_async_stack \<Rightarrow> bool" where
  "CoroAsyncStackEquals a b \<longleftrightarrow>
     stack_values a = stack_values b \<and> waiting_pops a = waiting_pops b \<and> ready_pop_value a = ready_pop_value b"

definition async_stack_inv :: "coro_async_stack \<Rightarrow> bool" where
  "async_stack_inv s \<longleftrightarrow> stack_values s = [] \<or> waiting_pops s = []"

section \<open>The contract holds\<close>

text \<open>One call at a time, for the method shapes above.\<close>

lemma reaches_ordinary:
  assumes "spec_reaches ms ok rt s0 s" "ms n = Some (ordinary_method f)" "ok n []"
  shows "spec_reaches ms ok rt s0 (snd (f s))"
  by (rule spec_reaches.ordinary_call [OF assms [unfolded ordinary_method_def], where v = "fst (f s)"]) simp

lemma reaches_ordinary_int:
  assumes "spec_reaches ms ok rt s0 s" "ms n = Some (ordinary_int_method f)" "ok n [ArgInt v]"
  shows "spec_reaches ms ok rt s0 (snd (f v s))"
  by (rule spec_reaches.ordinary_call [OF assms [unfolded ordinary_int_method_def], where v = "fst (f v s)"]) simp

lemma reaches_request:
  assumes "spec_reaches ms ok rt s0 s" "ms n = Some (blocking_method r g)" "ok n []"
  shows "spec_reaches ms ok rt s0 (r op_id s)"
  by (rule spec_reaches.request_call [OF assms [unfolded blocking_method_def], where op_id = op_id]) simp

lemma reaches_followup:
  assumes "spec_reaches ms ok rt s0 s" "ms n = Some (blocking_method r g)" "ok n []"
  shows "spec_reaches ms ok rt s0 (snd (g op_id s))"
  by (rule spec_reaches.followup_call [OF assms [unfolded blocking_method_def], where op_id = op_id and v = "fst (g op_id s)"]) simp

lemma reaches_request_int:
  assumes "spec_reaches ms ok rt s0 s" "ms n = Some (blocking_int_method r g)" "ok n [ArgInt v]"
  shows "spec_reaches ms ok rt s0 (r op_id v s)"
  by (rule spec_reaches.request_call [OF assms [unfolded blocking_int_method_def], where op_id = op_id]) simp

named_theorems spec_defs \<open>definitions of specification methods\<close>

lemma ready_followup_type [simp]: "pred_option (result_of_type TVoid) (fst (ready_followup i r))"
  by (simp add: ready_followup_def)

lemma value_followup_type:
  "T \<noteq> TVoid \<Longrightarrow> (\<And>v. type_of (mk v) = T) \<Longrightarrow>
   pred_option (result_of_type T) (fst (value_followup i r (\<lambda>v. wrap (mk v))))"
  by (simp add: value_followup_def split: option.splits)

declare ready_followup_def [spec_defs] value_followup_def [spec_defs]
  cq_RequestSend_def [spec_defs] cq_RequestReceive_def [spec_defs] cq_FollowUpSend_def [spec_defs]
  cq_FollowUpReceive_def [spec_defs] async_Push_def [spec_defs] async_RequestPop_def [spec_defs]
  async_FollowUpPop_def [spec_defs]

interpretation coroutine_queue_spec: dual_spec coroutine_queue_methods coroutine_queue_inv "int_args [''send'']"
  "\<lambda>n. if n = ''receive'' then TInt else TVoid"
  by unfold_locales (auto simp: coroutine_queue_methods_def method_kinds coroutine_queue_inv_def spec_defs
      split: if_splits list.splits option.splits)

interpretation async_stack_spec: dual_spec async_stack_methods async_stack_inv "int_args [''push'']"
  "\<lambda>n. if n = ''pop'' then TInt else TVoid"
  by unfold_locales (auto simp: async_stack_methods_def method_kinds async_stack_inv_def spec_defs
      split: if_splits list.splits option.splits)

lemma CoroutineQueueEquals_eq: "CoroutineQueueEquals = (=)"
  by (auto simp: fun_eq_iff CoroutineQueueEquals_def)

lemma CoroAsyncStackEquals_eq: "CoroAsyncStackEquals = (=)"
  by (auto simp: fun_eq_iff CoroAsyncStackEquals_def)

end
