(* ===== verification/Folly_Specs.thy ===== *)
theory Folly_Specs
  imports Dual_Specs
begin

text \<open>
  The dual specifications under verifying/specs/folly: baton, mutex, shared mutex, shared promise,
  unbounded queue and bounded queue, each with its invariant.
\<close>

section \<open>Baton\<close>

record folly_baton =
  posted :: bool
  baton_waiting :: "int list"
  ready_waits :: "int set"

definition FollyCoroBaton :: folly_baton where
  "FollyCoroBaton = \<lparr>posted = False, baton_waiting = [], ready_waits = {}\<rparr>"

definition baton_policy :: workload_policy where
  "baton_policy = WorkloadPolicy\<lparr>reserve := [reserve_one ''wait'' [''post'']]\<rparr>"

definition baton_Post :: "folly_baton \<Rightarrow> value_wrapper \<times> folly_baton" where
  "baton_Post s =
     (void_v, s\<lparr>posted := True, ready_waits := foldl (\<lambda>r i. insert i r) (ready_waits s) (baton_waiting s),
               baton_waiting := []\<rparr>)"

definition baton_Reset :: "folly_baton \<Rightarrow> value_wrapper \<times> folly_baton" where
  "baton_Reset s = (void_v, s\<lparr>posted := False\<rparr>)"

definition baton_Ready :: "folly_baton \<Rightarrow> value_wrapper \<times> folly_baton" where
  "baton_Ready s = (wrap (AnyBool (posted s)), s)"

definition baton_RequestWait :: "int \<Rightarrow> folly_baton \<Rightarrow> folly_baton" where
  "baton_RequestWait op_id s =
     (if posted s then s\<lparr>ready_waits := insert op_id (ready_waits s)\<rparr>
      else s\<lparr>baton_waiting := baton_waiting s @ [op_id]\<rparr>)"

definition baton_FollowUpWait :: "int \<Rightarrow> folly_baton \<Rightarrow> value_wrapper option \<times> folly_baton" where
  "baton_FollowUpWait op_id s = (case ready_followup op_id (ready_waits s) of (v, r) \<Rightarrow> (v, s\<lparr>ready_waits := r\<rparr>))"

definition baton_methods :: "(folly_baton, spec_args) dual_method_map" where
  "baton_methods =
     [''post'' \<mapsto> ordinary_method baton_Post,
      ''reset'' \<mapsto> ordinary_method baton_Reset,
      ''ready'' \<mapsto> ordinary_method baton_Ready,
      ''wait'' \<mapsto> blocking_method baton_RequestWait baton_FollowUpWait]"

definition FollyCoroBatonHash :: "folly_baton \<Rightarrow> 64 word" where
  "FollyCoroBatonHash s =
     xor_ids (\<lambda>op_id. size_cast (op_id + 1) * 97531) (ready_waits s)
       (foldl (\<lambda>h op_id. mix_step (h XOR (size_cast (op_id + 1) * 2654435761)))
          (bool_cast (posted s) * 1315423911) (baton_waiting s))"

definition FollyCoroBatonEquals :: "folly_baton \<Rightarrow> folly_baton \<Rightarrow> bool" where
  "FollyCoroBatonEquals a b \<longleftrightarrow>
     posted a = posted b \<and> baton_waiting a = baton_waiting b \<and> ready_waits a = ready_waits b"

text \<open>Nobody waits on a posted baton.\<close>

definition baton_inv :: "folly_baton \<Rightarrow> bool" where
  "baton_inv s \<longleftrightarrow> (posted s \<longrightarrow> baton_waiting s = [])"

section \<open>Mutex\<close>

record coro_mutex =
  mutex_locked :: bool
  waiting_locks :: "int list"
  ready_locks :: "int set"

definition FollyCoroMutex :: coro_mutex where
  "FollyCoroMutex = \<lparr>mutex_locked = False, waiting_locks = [], ready_locks = {}\<rparr>"

definition folly_mutex_policy :: workload_policy where
  "folly_mutex_policy = WorkloadPolicy\<lparr>reserve := [reserve_one ''lock'' [''unlock'']]\<rparr>"

definition folly_mutex_TryLock :: "coro_mutex \<Rightarrow> value_wrapper \<times> coro_mutex" where
  "folly_mutex_TryLock s =
     (if \<not> mutex_locked s then (wrap (AnyBool True), s\<lparr>mutex_locked := True\<rparr>) else (wrap (AnyBool False), s))"

definition folly_mutex_Unlock :: "coro_mutex \<Rightarrow> value_wrapper \<times> coro_mutex" where
  "folly_mutex_Unlock s =
     (void_v,
      case waiting_locks s of
        op_id # rest \<Rightarrow>
          s\<lparr>waiting_locks := rest, ready_locks := insert op_id (ready_locks s), mutex_locked := True\<rparr>
      | [] \<Rightarrow> s\<lparr>mutex_locked := False\<rparr>)"

definition folly_mutex_RequestLock :: "int \<Rightarrow> coro_mutex \<Rightarrow> coro_mutex" where
  "folly_mutex_RequestLock op_id s =
     (if \<not> mutex_locked s then s\<lparr>mutex_locked := True, ready_locks := insert op_id (ready_locks s)\<rparr>
      else s\<lparr>waiting_locks := waiting_locks s @ [op_id]\<rparr>)"

definition folly_mutex_FollowUpLock :: "int \<Rightarrow> coro_mutex \<Rightarrow> value_wrapper option \<times> coro_mutex" where
  "folly_mutex_FollowUpLock op_id s =
     (case ready_followup op_id (ready_locks s) of (v, r) \<Rightarrow> (v, s\<lparr>ready_locks := r\<rparr>))"

definition folly_mutex_methods :: "(coro_mutex, spec_args) dual_method_map" where
  "folly_mutex_methods =
     [''try_lock'' \<mapsto> ordinary_method folly_mutex_TryLock,
      ''unlock'' \<mapsto> ordinary_method folly_mutex_Unlock,
      ''lock'' \<mapsto> blocking_method folly_mutex_RequestLock folly_mutex_FollowUpLock]"

definition FollyCoroMutexHash :: "coro_mutex \<Rightarrow> 64 word" where
  "FollyCoroMutexHash s =
     (bool_cast (mutex_locked s) * 1315423911) XOR (of_nat (length (waiting_locks s)) * 2654435761) XOR
     (of_nat (card (ready_locks s)) * 97531)"

definition FollyCoroMutexEquals :: "coro_mutex \<Rightarrow> coro_mutex \<Rightarrow> bool" where
  "FollyCoroMutexEquals a b \<longleftrightarrow>
     mutex_locked a = mutex_locked b \<and> waiting_locks a = waiting_locks b \<and> ready_locks a = ready_locks b"

text \<open>A free mutex has no waiters.\<close>

definition coro_mutex_inv :: "coro_mutex \<Rightarrow> bool" where
  "coro_mutex_inv s \<longleftrightarrow> (waiting_locks s \<noteq> [] \<longrightarrow> mutex_locked s)"

section \<open>Shared mutex\<close>

record shared_waiter =
  waiter_op_id :: int
  exclusive :: bool

record shared_mutex_state =
  active_readers :: int
  writer_active :: bool
  waiters :: "shared_waiter list"
  sm_ready_locks :: "int set"
  ready_shared_locks :: "int set"

definition FollyCoroSharedMutex :: shared_mutex_state where
  "FollyCoroSharedMutex =
     \<lparr>active_readers = 0, writer_active = False, waiters = [], sm_ready_locks = {}, ready_shared_locks = {}\<rparr>"

definition folly_shared_policy :: workload_policy where
  "folly_shared_policy = WorkloadPolicy\<lparr>reserve :=
     [reserve_one ''lock'' [''unlock'', ''unlock_shared''],
      reserve_one ''lock_shared'' [''unlock'', ''unlock_shared'']]\<rparr>"

definition CanTryLock :: "shared_mutex_state \<Rightarrow> bool" where
  "CanTryLock s \<longleftrightarrow> \<not> writer_active s \<and> active_readers s = 0 \<and> waiters s = [] \<and>
     sm_ready_locks s = {} \<and> ready_shared_locks s = {}"

definition CanTryLockShared :: "shared_mutex_state \<Rightarrow> bool" where
  "CanTryLockShared s \<longleftrightarrow> \<not> writer_active s \<and> sm_ready_locks s = {}"

definition folly_TryLock :: "shared_mutex_state \<Rightarrow> value_wrapper \<times> shared_mutex_state" where
  "folly_TryLock s =
     (if CanTryLock s then (wrap (AnyBool True), s\<lparr>writer_active := True\<rparr>) else (wrap (AnyBool False), s))"

definition folly_TryLockShared :: "shared_mutex_state \<Rightarrow> value_wrapper \<times> shared_mutex_state" where
  "folly_TryLockShared s =
     (if CanTryLockShared s then (wrap (AnyBool True), s\<lparr>active_readers := active_readers s + 1\<rparr>)
      else (wrap (AnyBool False), s))"

text \<open>
  \<open>CheckTryLock\<close> and \<open>CheckTryLockShared\<close>: a recorded failure is always allowed, otherwise the lock must be
  taken. Reading the recorded value as a Boolean raises when it holds another type.
\<close>

definition check_try :: "(shared_mutex_state \<Rightarrow> value_wrapper \<times> shared_mutex_state) \<Rightarrow> value_wrapper option \<Rightarrow>
    shared_mutex_state \<Rightarrow> (bool \<times> shared_mutex_state) res" where
  "check_try try result s =
     (let run = (case try s of (w, s') \<Rightarrow> andThen (GetValue TBool w) (\<lambda>v. Ret (v = AnyBool True, s'))) in
      case result of
        None \<Rightarrow> run
      | Some w \<Rightarrow> andThen (GetValue TBool w) (\<lambda>v. if v = AnyBool False then Ret (True, s) else run))"

definition CheckTryLock :: "value_wrapper option \<Rightarrow> shared_mutex_state \<Rightarrow> (bool \<times> shared_mutex_state) res" where
  "CheckTryLock result s = check_try folly_TryLock result s"

definition CheckTryLockShared :: "value_wrapper option \<Rightarrow> shared_mutex_state \<Rightarrow> (bool \<times> shared_mutex_state) res" where
  "CheckTryLockShared result s = check_try folly_TryLockShared result s"

definition folly_WakeNextWaiters :: "shared_mutex_state \<Rightarrow> shared_mutex_state" where
  "folly_WakeNextWaiters s =
     (if writer_active s \<or> active_readers s \<noteq> 0 \<or> sm_ready_locks s \<noteq> {} \<or> ready_shared_locks s \<noteq> {} \<or> waiters s = [] then s
      else if exclusive (hd (waiters s)) then
        s\<lparr>waiters := tl (waiters s), sm_ready_locks := insert (waiter_op_id (hd (waiters s))) (sm_ready_locks s)\<rparr>
      else
        let woken = takeWhile (\<lambda>w. \<not> exclusive w) (waiters s) in
        s\<lparr>waiters := dropWhile (\<lambda>w. \<not> exclusive w) (waiters s),
          ready_shared_locks := foldl (\<lambda>r w. insert (waiter_op_id w) r) (ready_shared_locks s) woken\<rparr>)"

definition folly_shared_Unlock :: "shared_mutex_state \<Rightarrow> value_wrapper \<times> shared_mutex_state" where
  "folly_shared_Unlock s = (void_v, folly_WakeNextWaiters (s\<lparr>writer_active := False\<rparr>))"

definition folly_UnlockShared :: "shared_mutex_state \<Rightarrow> value_wrapper \<times> shared_mutex_state" where
  "folly_UnlockShared s =
     (let s' = (if active_readers s > 0 then s\<lparr>active_readers := active_readers s - 1\<rparr> else s) in
      (void_v, if active_readers s' = 0 then folly_WakeNextWaiters s' else s'))"

definition folly_shared_RequestLock :: "int \<Rightarrow> shared_mutex_state \<Rightarrow> shared_mutex_state" where
  "folly_shared_RequestLock op_id s =
     (if \<not> writer_active s \<and> active_readers s = 0 \<and> waiters s = [] \<and> sm_ready_locks s = {} \<and> ready_shared_locks s = {}
      then s\<lparr>sm_ready_locks := insert op_id (sm_ready_locks s)\<rparr>
      else s\<lparr>waiters := waiters s @ [\<lparr>waiter_op_id = op_id, exclusive = True\<rparr>]\<rparr>)"

definition folly_shared_FollowUpLock :: "int \<Rightarrow> shared_mutex_state \<Rightarrow> value_wrapper option \<times> shared_mutex_state" where
  "folly_shared_FollowUpLock op_id s =
     (if op_id \<notin> sm_ready_locks s \<or> writer_active s \<or> active_readers s \<noteq> 0 then (None, s)
      else (Some void_v, s\<lparr>sm_ready_locks := sm_ready_locks s - {op_id}, writer_active := True\<rparr>))"

definition folly_RequestLockShared :: "int \<Rightarrow> shared_mutex_state \<Rightarrow> shared_mutex_state" where
  "folly_RequestLockShared op_id s =
     (if \<not> writer_active s then s\<lparr>ready_shared_locks := insert op_id (ready_shared_locks s)\<rparr>
      else s\<lparr>waiters := waiters s @ [\<lparr>waiter_op_id = op_id, exclusive = False\<rparr>]\<rparr>)"

definition folly_FollowUpLockShared :: "int \<Rightarrow> shared_mutex_state \<Rightarrow> value_wrapper option \<times> shared_mutex_state" where
  "folly_FollowUpLockShared op_id s =
     (if op_id \<notin> ready_shared_locks s \<or> writer_active s then (None, s)
      else (Some void_v, s\<lparr>ready_shared_locks := ready_shared_locks s - {op_id}, active_readers := active_readers s + 1\<rparr>))"

definition folly_shared_methods :: "(shared_mutex_state, spec_args) dual_method_map" where
  "folly_shared_methods =
     [''try_lock'' \<mapsto> NonBlockingPredicate (\<lambda>s _ result. CheckTryLock result s),
      ''try_lock_shared'' \<mapsto> NonBlockingPredicate (\<lambda>s _ result. CheckTryLockShared result s),
      ''unlock'' \<mapsto> ordinary_method folly_shared_Unlock,
      ''unlock_shared'' \<mapsto> ordinary_method folly_UnlockShared,
      ''lock'' \<mapsto> blocking_method folly_shared_RequestLock folly_shared_FollowUpLock,
      ''lock_shared'' \<mapsto> blocking_method folly_RequestLockShared folly_FollowUpLockShared]"

definition FollyCoroSharedMutexHash :: "shared_mutex_state \<Rightarrow> 64 word" where
  "FollyCoroSharedMutexHash s =
     xor_ids (\<lambda>op_id. size_cast (op_id + 1) * 2166136261) (ready_shared_locks s)
       (xor_ids (\<lambda>op_id. size_cast (op_id + 1) * 65537) (sm_ready_locks s)
         (foldl (\<lambda>h w. mix_step (h XOR (size_cast (waiter_op_id w + 1) * 97531) XOR (bool_cast (exclusive w) * 424242)))
           ((size_cast (active_readers s) * 1315423911) XOR (bool_cast (writer_active s) * 2654435761)) (waiters s)))"

definition FollyCoroSharedMutexEquals :: "shared_mutex_state \<Rightarrow> shared_mutex_state \<Rightarrow> bool" where
  "FollyCoroSharedMutexEquals a b \<longleftrightarrow>
     active_readers a = active_readers b \<and> writer_active a = writer_active b \<and> waiters a = waiters b \<and>
     sm_ready_locks a = sm_ready_locks b \<and> ready_shared_locks a = ready_shared_locks b"

text \<open>The number of readers is never negative, and a writer excludes readers.\<close>

definition shared_mutex_inv :: "shared_mutex_state \<Rightarrow> bool" where
  "shared_mutex_inv s \<longleftrightarrow> 0 \<le> active_readers s \<and> (writer_active s \<longrightarrow> active_readers s = 0)"

section \<open>Shared promise\<close>

record folly_promise =
  promise_value :: "int option"
  waiting_gets :: "int list"
  ready_gets :: "(int, int) mapping"

definition FollyCoroSharedPromise :: folly_promise where
  "FollyCoroSharedPromise = \<lparr>promise_value = None, waiting_gets = [], ready_gets = Mapping.empty\<rparr>"

definition promise_policy :: workload_policy where
  "promise_policy = WorkloadPolicy\<lparr>reserve := [reserve_one ''get'' [''set_value'']]\<rparr>"

definition promise_SetValue :: "int \<Rightarrow> folly_promise \<Rightarrow> value_wrapper \<times> folly_promise" where
  "promise_SetValue v s =
     (if promise_value s \<noteq> None then (wrap (AnyBool False), s)
      else (wrap (AnyBool True),
            s\<lparr>promise_value := Some v,
              ready_gets := foldl (\<lambda>m op_id. Mapping.update op_id v m) (ready_gets s) (waiting_gets s),
              waiting_gets := []\<rparr>))"

definition promise_IsFulfilled :: "folly_promise \<Rightarrow> value_wrapper \<times> folly_promise" where
  "promise_IsFulfilled s = (wrap (AnyBool (promise_value s \<noteq> None)), s)"

definition promise_RequestGet :: "int \<Rightarrow> folly_promise \<Rightarrow> folly_promise" where
  "promise_RequestGet op_id s =
     (case promise_value s of
        Some v \<Rightarrow> s\<lparr>ready_gets := Mapping.update op_id v (ready_gets s)\<rparr>
      | None \<Rightarrow> s\<lparr>waiting_gets := waiting_gets s @ [op_id]\<rparr>)"

definition promise_FollowUpGet :: "int \<Rightarrow> folly_promise \<Rightarrow> value_wrapper option \<times> folly_promise" where
  "promise_FollowUpGet op_id s =
     (case value_followup op_id (ready_gets s) (\<lambda>v. wrap (AnyInt v)) of (v, r) \<Rightarrow> (v, s\<lparr>ready_gets := r\<rparr>))"

definition promise_methods :: "(folly_promise, spec_args) dual_method_map" where
  "promise_methods =
     [''set_value'' \<mapsto> ordinary_int_method promise_SetValue,
      ''is_fulfilled'' \<mapsto> ordinary_method promise_IsFulfilled,
      ''get'' \<mapsto> blocking_method promise_RequestGet promise_FollowUpGet]"

definition FollyCoroSharedPromiseHash :: "folly_promise \<Rightarrow> 64 word" where
  "FollyCoroSharedPromiseHash s =
     xor_map (\<lambda>op_id v. (size_cast (op_id + 1) * 1315423911) XOR (size_cast (v + 17) * 424242)) (ready_gets s)
       (xor_list (\<lambda>op_id. size_cast (op_id + 1) * 97531) (waiting_gets s)
          (case promise_value s of Some v \<Rightarrow> size_cast (v + 17) | None \<Rightarrow> 0))"

definition FollyCoroSharedPromiseEquals :: "folly_promise \<Rightarrow> folly_promise \<Rightarrow> bool" where
  "FollyCoroSharedPromiseEquals a b \<longleftrightarrow>
     promise_value a = promise_value b \<and> waiting_gets a = waiting_gets b \<and> ready_gets a = ready_gets b"

text \<open>Nobody waits for a fulfilled promise.\<close>

definition promise_inv :: "folly_promise \<Rightarrow> bool" where
  "promise_inv s \<longleftrightarrow> (promise_value s \<noteq> None \<longrightarrow> waiting_gets s = [])"

section \<open>Unbounded queue\<close>

record folly_unbounded =
  uq_elems :: "int list"
  uq_waiting_dequeues :: "int list"
  uq_ready_dequeues :: "(int, int) mapping"

definition FollyCoroUnboundedQueue :: folly_unbounded where
  "FollyCoroUnboundedQueue = \<lparr>uq_elems = [], uq_waiting_dequeues = [], uq_ready_dequeues = Mapping.empty\<rparr>"

definition kEmptyTryDequeue :: int where
  "kEmptyTryDequeue = 0"

definition unbounded_policy :: workload_policy where
  "unbounded_policy = WorkloadPolicy\<lparr>reserve := [reserve_one ''dequeue'' [''enqueue'']]\<rparr>"

definition unbounded_Enqueue :: "int \<Rightarrow> folly_unbounded \<Rightarrow> value_wrapper \<times> folly_unbounded" where
  "unbounded_Enqueue v s =
     (void_v,
      case uq_waiting_dequeues s of
        op_id # rest \<Rightarrow>
          s\<lparr>uq_waiting_dequeues := rest, uq_ready_dequeues := Mapping.update op_id v (uq_ready_dequeues s)\<rparr>
      | [] \<Rightarrow> s\<lparr>uq_elems := uq_elems s @ [v]\<rparr>)"

definition unbounded_TryDequeue :: "folly_unbounded \<Rightarrow> value_wrapper \<times> folly_unbounded" where
  "unbounded_TryDequeue s =
     (case uq_elems s of
        [] \<Rightarrow> (wrap (AnyInt kEmptyTryDequeue), s)
      | v # rest \<Rightarrow> (wrap (AnyInt v), s\<lparr>uq_elems := rest\<rparr>))"

definition unbounded_RequestDequeue :: "int \<Rightarrow> folly_unbounded \<Rightarrow> folly_unbounded" where
  "unbounded_RequestDequeue op_id s =
     (case uq_elems s of
        v # rest \<Rightarrow> s\<lparr>uq_elems := rest, uq_ready_dequeues := Mapping.update op_id v (uq_ready_dequeues s)\<rparr>
      | [] \<Rightarrow> s\<lparr>uq_waiting_dequeues := uq_waiting_dequeues s @ [op_id]\<rparr>)"

definition unbounded_FollowUpDequeue :: "int \<Rightarrow> folly_unbounded \<Rightarrow> value_wrapper option \<times> folly_unbounded" where
  "unbounded_FollowUpDequeue op_id s =
     (case value_followup op_id (uq_ready_dequeues s) (\<lambda>v. wrap (AnyInt v)) of (v, r) \<Rightarrow> (v, s\<lparr>uq_ready_dequeues := r\<rparr>))"

definition unbounded_methods :: "(folly_unbounded, spec_args) dual_method_map" where
  "unbounded_methods =
     [''enqueue'' \<mapsto> ordinary_int_method unbounded_Enqueue,
      ''try_dequeue'' \<mapsto> ordinary_method unbounded_TryDequeue,
      ''dequeue'' \<mapsto> blocking_method unbounded_RequestDequeue unbounded_FollowUpDequeue]"

definition FollyCoroUnboundedQueueHash :: "folly_unbounded \<Rightarrow> 64 word" where
  "FollyCoroUnboundedQueueHash s =
     xor_map (\<lambda>op_id v. (size_cast (op_id + 1) * 1315423911) XOR (size_cast (v + 17) * 424242)) (uq_ready_dequeues s)
       (xor_list (\<lambda>op_id. size_cast (op_id + 1) * 97531) (uq_waiting_dequeues s)
         (foldl (\<lambda>h v. mix_step (h XOR (size_cast (v + 17) * 2654435761))) 0 (uq_elems s)))"

definition FollyCoroUnboundedQueueEquals :: "folly_unbounded \<Rightarrow> folly_unbounded \<Rightarrow> bool" where
  "FollyCoroUnboundedQueueEquals a b \<longleftrightarrow>
     uq_elems a = uq_elems b \<and> uq_waiting_dequeues a = uq_waiting_dequeues b \<and> uq_ready_dequeues a = uq_ready_dequeues b"

text \<open>Values and waiting dequeues never coexist.\<close>

definition unbounded_inv :: "folly_unbounded \<Rightarrow> bool" where
  "unbounded_inv s \<longleftrightarrow> uq_elems s = [] \<or> uq_waiting_dequeues s = []"

section \<open>Bounded queue\<close>

record waiting_enqueue =
  enq_op_id :: int
  enq_value :: int

record folly_bounded =
  bq_elems :: "int list"
  waiting_enqueues :: "waiting_enqueue list"
  bq_waiting_dequeues :: "int list"
  completed_enqueues :: "int set"
  bq_ready_dequeues :: "(int, int) mapping"
  available_capacity :: "64 word"

definition kCapacity :: "64 word" where
  "kCapacity = 2"

definition FollyCoroBoundedQueue :: folly_bounded where
  "FollyCoroBoundedQueue = \<lparr>bq_elems = [], waiting_enqueues = [], bq_waiting_dequeues = [],
     completed_enqueues = {}, bq_ready_dequeues = Mapping.empty, available_capacity = kCapacity\<rparr>"

definition bounded_policy :: workload_policy where
  "bounded_policy = WorkloadPolicy\<lparr>reserve :=
     [reserve_one ''dequeue'' [''enqueue'', ''try_enqueue''], reserve_one ''enqueue'' [''dequeue'', ''try_dequeue'']]\<rparr>"

definition MakeValueVisible :: "int \<Rightarrow> folly_bounded \<Rightarrow> folly_bounded" where
  "MakeValueVisible v s =
     (case bq_waiting_dequeues s of
        op_id # rest \<Rightarrow>
          s\<lparr>bq_waiting_dequeues := rest, bq_ready_dequeues := Mapping.update op_id v (bq_ready_dequeues s)\<rparr>
      | [] \<Rightarrow> s\<lparr>bq_elems := bq_elems s @ [v]\<rparr>)"

text \<open>The loop of \<open>PromoteWaitingEnqueues\<close>, over the waiting enqueues that are left.\<close>

fun promote_loop :: "waiting_enqueue list \<Rightarrow> folly_bounded \<Rightarrow> folly_bounded" where
  "promote_loop [] s = s\<lparr>waiting_enqueues := []\<rparr>"
| "promote_loop (w # ws) s =
     (if available_capacity s > 0 then
        promote_loop ws (MakeValueVisible (enq_value w)
          (s\<lparr>available_capacity := available_capacity s - 1,
             completed_enqueues := insert (enq_op_id w) (completed_enqueues s)\<rparr>))
      else s\<lparr>waiting_enqueues := w # ws\<rparr>)"

definition PromoteWaitingEnqueues :: "folly_bounded \<Rightarrow> folly_bounded" where
  "PromoteWaitingEnqueues s = promote_loop (waiting_enqueues s) s"

definition bounded_TryEnqueue :: "int \<Rightarrow> folly_bounded \<Rightarrow> value_wrapper \<times> folly_bounded" where
  "bounded_TryEnqueue v s =
     (if available_capacity s = 0 then (wrap (AnyBool False), s)
      else (wrap (AnyBool True),
            PromoteWaitingEnqueues (MakeValueVisible v (s\<lparr>available_capacity := available_capacity s - 1\<rparr>))))"

definition bounded_TryDequeue :: "folly_bounded \<Rightarrow> value_wrapper \<times> folly_bounded" where
  "bounded_TryDequeue s =
     (case bq_elems s of
        [] \<Rightarrow> (wrap (AnyInt kEmptyTryDequeue), s)
      | v # rest \<Rightarrow> (wrap (AnyInt v),
          PromoteWaitingEnqueues (s\<lparr>bq_elems := rest, available_capacity := available_capacity s + 1\<rparr>)))"

definition bounded_RequestEnqueue :: "int \<Rightarrow> int \<Rightarrow> folly_bounded \<Rightarrow> folly_bounded" where
  "bounded_RequestEnqueue op_id v s =
     (if available_capacity s = 0 then
        s\<lparr>waiting_enqueues := waiting_enqueues s @ [\<lparr>enq_op_id = op_id, enq_value = v\<rparr>]\<rparr>
      else PromoteWaitingEnqueues (MakeValueVisible v
             (s\<lparr>available_capacity := available_capacity s - 1,
                completed_enqueues := insert op_id (completed_enqueues s)\<rparr>)))"

definition bounded_FollowUpEnqueue :: "int \<Rightarrow> folly_bounded \<Rightarrow> value_wrapper option \<times> folly_bounded" where
  "bounded_FollowUpEnqueue op_id s =
     (case ready_followup op_id (completed_enqueues s) of (v, r) \<Rightarrow> (v, s\<lparr>completed_enqueues := r\<rparr>))"

definition bounded_RequestDequeue :: "int \<Rightarrow> folly_bounded \<Rightarrow> folly_bounded" where
  "bounded_RequestDequeue op_id s =
     (case bq_elems s of
        v # rest \<Rightarrow> PromoteWaitingEnqueues
          (s\<lparr>bq_elems := rest, bq_ready_dequeues := Mapping.update op_id v (bq_ready_dequeues s),
             available_capacity := available_capacity s + 1\<rparr>)
      | [] \<Rightarrow> s\<lparr>bq_waiting_dequeues := bq_waiting_dequeues s @ [op_id]\<rparr>)"

definition bounded_FollowUpDequeue :: "int \<Rightarrow> folly_bounded \<Rightarrow> value_wrapper option \<times> folly_bounded" where
  "bounded_FollowUpDequeue op_id s =
     (case value_followup op_id (bq_ready_dequeues s) (\<lambda>v. wrap (AnyInt v)) of (v, r) \<Rightarrow> (v, s\<lparr>bq_ready_dequeues := r\<rparr>))"

definition bounded_methods :: "(folly_bounded, spec_args) dual_method_map" where
  "bounded_methods =
     [''try_enqueue'' \<mapsto> ordinary_int_method bounded_TryEnqueue,
      ''try_dequeue'' \<mapsto> ordinary_method bounded_TryDequeue,
      ''enqueue'' \<mapsto> blocking_int_method bounded_RequestEnqueue bounded_FollowUpEnqueue,
      ''dequeue'' \<mapsto> blocking_method bounded_RequestDequeue bounded_FollowUpDequeue]"

definition FollyCoroBoundedQueueHash :: "folly_bounded \<Rightarrow> 64 word" where
  "FollyCoroBoundedQueueHash s =
     xor_map (\<lambda>op_id v. (size_cast (op_id + 1) * 2166136261) XOR (size_cast (v + 17) * 16777619)) (bq_ready_dequeues s)
       (xor_list (\<lambda>op_id. size_cast (op_id + 1) * 1315423911) (bq_waiting_dequeues s)
         (xor_ids (\<lambda>op_id. size_cast (op_id + 1) * 65537) (completed_enqueues s)
           (xor_list (\<lambda>w. (size_cast (enq_op_id w + 1) * 97531) XOR (size_cast (enq_value w + 17) * 424242)) (waiting_enqueues s)
             (foldl (\<lambda>h v. mix_step (h XOR (size_cast (v + 17) * 2654435761))) 0 (bq_elems s)))))
     XOR (available_capacity s * 1099511628211)"

definition FollyCoroBoundedQueueEquals :: "folly_bounded \<Rightarrow> folly_bounded \<Rightarrow> bool" where
  "FollyCoroBoundedQueueEquals a b \<longleftrightarrow>
     bq_elems a = bq_elems b \<and> waiting_enqueues a = waiting_enqueues b \<and> completed_enqueues a = completed_enqueues b \<and>
     bq_waiting_dequeues a = bq_waiting_dequeues b \<and> bq_ready_dequeues a = bq_ready_dequeues b \<and>
     available_capacity a = available_capacity b"

text \<open>
  The queue never holds more than its capacity, an enqueue waits only when no capacity is left, and
  values and waiting dequeues never coexist.
\<close>

definition bounded_room :: "folly_bounded \<Rightarrow> bool" where
  "bounded_room s \<longleftrightarrow>
     unat (available_capacity s) + length (bq_elems s) \<le> unat kCapacity \<and>
     (bq_elems s = [] \<or> bq_waiting_dequeues s = [])"

definition bounded_inv :: "folly_bounded \<Rightarrow> bool" where
  "bounded_inv s \<longleftrightarrow> bounded_room s \<and> (waiting_enqueues s = [] \<or> available_capacity s = 0)"

section \<open>The contract holds\<close>

declare baton_Post_def [spec_defs] baton_Reset_def [spec_defs] baton_Ready_def [spec_defs]
  baton_RequestWait_def [spec_defs] baton_FollowUpWait_def [spec_defs]
  folly_mutex_TryLock_def [spec_defs] folly_mutex_Unlock_def [spec_defs] folly_mutex_RequestLock_def [spec_defs]
  folly_mutex_FollowUpLock_def [spec_defs]
  folly_TryLock_def [spec_defs] folly_TryLockShared_def [spec_defs]
  CanTryLock_def [spec_defs] CanTryLockShared_def [spec_defs] folly_WakeNextWaiters_def [spec_defs]
  folly_shared_Unlock_def [spec_defs] folly_UnlockShared_def [spec_defs] folly_shared_RequestLock_def [spec_defs]
  folly_shared_FollowUpLock_def [spec_defs] folly_RequestLockShared_def [spec_defs]
  folly_FollowUpLockShared_def [spec_defs]
  promise_SetValue_def [spec_defs] promise_IsFulfilled_def [spec_defs] promise_RequestGet_def [spec_defs]
  promise_FollowUpGet_def [spec_defs]
  unbounded_Enqueue_def [spec_defs] unbounded_TryDequeue_def [spec_defs] unbounded_RequestDequeue_def [spec_defs]
  unbounded_FollowUpDequeue_def [spec_defs]

interpretation baton_spec: dual_spec baton_methods baton_inv "int_args []"
  "\<lambda>n. if n = ''ready'' then TBool else TVoid"
  by unfold_locales (auto simp: baton_methods_def method_kinds baton_inv_def spec_defs
      split: if_splits)

interpretation folly_mutex_spec: dual_spec folly_mutex_methods coro_mutex_inv "int_args []"
  "\<lambda>n. if n = ''try_lock'' then TBool else TVoid"
  by unfold_locales (auto simp: folly_mutex_methods_def method_kinds coro_mutex_inv_def spec_defs
      split: if_splits list.splits)

interpretation promise_spec: dual_spec promise_methods promise_inv "int_args [''set_value'']"
  "\<lambda>n. if n = ''get'' then TInt else TBool"
  by unfold_locales (auto simp: promise_methods_def method_kinds promise_inv_def spec_defs
      split: if_splits option.splits)

interpretation unbounded_spec: dual_spec unbounded_methods unbounded_inv "int_args [''enqueue'']"
  "\<lambda>n. if n = ''enqueue'' then TVoid else TInt"
  by unfold_locales (auto simp: unbounded_methods_def method_kinds unbounded_inv_def spec_defs
      split: if_splits list.splits option.splits)

lemma check_try_returns:
  assumes "pred_option (result_of_type TBool) w" "result_of_type TBool (fst (try s))"
  shows "\<exists>b. check_try try w s = Ret (b, s) \<or> check_try try w s = Ret (b, snd (try s))"
  using assms by (cases w; cases "try s") (auto simp: check_try_def GetValue_def wrap_def result_of_type_def)

lemma try_returns [simp]:
  "result_of_type TBool (fst (folly_TryLock s))" "result_of_type TBool (fst (folly_TryLockShared s))"
  by (simp_all add: folly_TryLock_def folly_TryLockShared_def)

lemma try_keeps_inv:
  "shared_mutex_inv s \<Longrightarrow> shared_mutex_inv (snd (folly_TryLock s))"
  "shared_mutex_inv s \<Longrightarrow> shared_mutex_inv (snd (folly_TryLockShared s))"
  by (auto simp: shared_mutex_inv_def spec_defs)

lemma check_try_lock_inv:
  assumes "pred_option (result_of_type TBool) w" "shared_mutex_inv s"
  shows "\<exists>b s'. CheckTryLock w s = Ret (b, s') \<and> shared_mutex_inv s'"
    and "\<exists>b s'. CheckTryLockShared w s = Ret (b, s') \<and> shared_mutex_inv s'"
  using check_try_returns [OF assms(1), of folly_TryLock s] check_try_returns [OF assms(1), of folly_TryLockShared s]
    try_keeps_inv [OF assms(2)] assms(2)
  by (auto simp: CheckTryLock_def CheckTryLockShared_def)

lemma wake_keeps_inv: "shared_mutex_inv s \<Longrightarrow> shared_mutex_inv (folly_WakeNextWaiters s)"
  by (simp add: folly_WakeNextWaiters_def shared_mutex_inv_def Let_def)

interpretation folly_shared_spec: dual_spec folly_shared_methods shared_mutex_inv "int_args []"
  "\<lambda>n. if n = ''try_lock'' \<or> n = ''try_lock_shared'' then TBool else TVoid"
proof unfold_locales
  fix n p st w and a :: spec_args
  assume "folly_shared_methods n = Some (NonBlockingPredicate p)" "shared_mutex_inv st"
    "pred_option (result_of_type (if n = ''try_lock'' \<or> n = ''try_lock_shared'' then TBool else TVoid)) w"
  then show "\<exists>b st'. p st a w = Ret (b, st') \<and> shared_mutex_inv st'"
    using check_try_lock_inv [of w st] by (auto simp: folly_shared_methods_def method_kinds split: if_splits)
qed (auto simp: folly_shared_methods_def method_kinds folly_shared_Unlock_def folly_UnlockShared_def
    folly_shared_RequestLock_def folly_shared_FollowUpLock_def folly_RequestLockShared_def folly_FollowUpLockShared_def
    Let_def shared_mutex_inv_def intro!: wake_keeps_inv [unfolded shared_mutex_inv_def] split: if_splits)

subsection \<open>The bounded queue\<close>

lemma unat_minus_one_pos: "(a :: 64 word) > 0 \<Longrightarrow> unat (a - 1) = unat a - 1"
  by (metis unat_minus_one word_gt_0)

lemma visible_room:
  "bounded_room s \<Longrightarrow> available_capacity s > 0 \<Longrightarrow>
   bounded_room (MakeValueVisible v (s\<lparr>available_capacity := available_capacity s - 1, completed_enqueues := c\<rparr>))"
  using unat_gt_0 [of "available_capacity s"]
  by (auto simp: bounded_room_def MakeValueVisible_def unat_minus_one_pos word_gt_0 split: list.splits)

lemma promote_room: "bounded_room s \<Longrightarrow> bounded_room (promote_loop ws s)"
proof (induction ws arbitrary: s)
  case Nil
  then show ?case by (simp add: bounded_room_def)
next
  case (Cons w ws)
  then show ?case
    using visible_room [OF Cons.prems] by (auto simp: bounded_room_def)
qed

lemma promote_stops: "waiting_enqueues (promote_loop ws s) = [] \<or> available_capacity (promote_loop ws s) = 0"
  by (induction ws arbitrary: s) (auto simp: word_gt_0)

lemma promote_inv: "bounded_room s \<Longrightarrow> bounded_inv (PromoteWaitingEnqueues s)"
  using promote_room [of s] promote_stops [of "waiting_enqueues s" s]
  by (simp add: bounded_inv_def PromoteWaitingEnqueues_def)

lemma visible_keeps [simp]:
  "waiting_enqueues (MakeValueVisible v s) = waiting_enqueues s"
  "available_capacity (MakeValueVisible v s) = available_capacity s"
  by (simp_all add: MakeValueVisible_def split: list.splits)

lemma TryEnqueue_inv:
  assumes "bounded_inv s"
  shows "bounded_inv (snd (bounded_TryEnqueue v s))"
  using assms visible_room [of s v "completed_enqueues s"] promote_inv
  by (auto simp: bounded_TryEnqueue_def bounded_inv_def word_gt_0)

lemma RequestEnqueue_inv:
  assumes "bounded_inv s"
  shows "bounded_inv (bounded_RequestEnqueue op_id v s)"
  using assms visible_room [of s v "insert op_id (completed_enqueues s)"] promote_inv
  by (auto simp: bounded_RequestEnqueue_def bounded_inv_def bounded_room_def word_gt_0)

lemma take_room:
  assumes "bounded_room s" "bq_elems s = v # rest"
  shows "bounded_room (s\<lparr>bq_elems := rest, bq_ready_dequeues := m, available_capacity := available_capacity s + 1\<rparr>)"
proof -
  have "unat (available_capacity s) + 1 \<le> 2"
    using assms by (simp add: bounded_room_def kCapacity_def)
  then have "unat (available_capacity s + 1) = unat (available_capacity s) + 1"
    by (simp add: unat_word_ariths)
  then show ?thesis
    using assms by (simp add: bounded_room_def)
qed

lemma TryDequeue_inv:
  assumes "bounded_inv s"
  shows "bounded_inv (snd (bounded_TryDequeue s))"
  using assms take_room [of s _ _ "bq_ready_dequeues s"] promote_inv
  by (auto simp: bounded_TryDequeue_def bounded_inv_def split: list.splits)

lemma RequestDequeue_inv:
  assumes "bounded_inv s"
  shows "bounded_inv (bounded_RequestDequeue op_id s)"
proof (cases "bq_elems s")
  case Nil
  then show ?thesis
    using assms by (simp add: bounded_RequestDequeue_def bounded_inv_def bounded_room_def)
next
  case (Cons v rest)
  then show ?thesis
    using assms take_room [of s v rest "Mapping.update op_id v (bq_ready_dequeues s)"] promote_inv
    by (simp add: bounded_RequestDequeue_def bounded_inv_def)
qed

lemma bounded_followup_inv:
  "bounded_inv s \<Longrightarrow> bounded_inv (snd (bounded_FollowUpEnqueue op_id s))"
  "bounded_inv s \<Longrightarrow> bounded_inv (snd (bounded_FollowUpDequeue op_id s))"
  by (simp_all add: bounded_FollowUpEnqueue_def bounded_FollowUpDequeue_def bounded_inv_def bounded_room_def
      split: prod.splits)

lemma bounded_types [simp]:
  "result_of_type TBool (fst (bounded_TryEnqueue v s))"
  "result_of_type TInt (fst (bounded_TryDequeue s))"
  "pred_option (result_of_type TVoid) (fst (bounded_FollowUpEnqueue op_id s))"
  "pred_option (result_of_type TInt) (fst (bounded_FollowUpDequeue op_id s))"
  by (simp_all add: bounded_TryEnqueue_def bounded_TryDequeue_def bounded_FollowUpEnqueue_def
      bounded_FollowUpDequeue_def ready_followup_def value_followup_def split: list.splits option.splits)

interpretation bounded_spec: dual_spec bounded_methods bounded_inv "int_args [''try_enqueue'', ''enqueue'']"
  "\<lambda>n. if n = ''try_enqueue'' then TBool else if n = ''enqueue'' then TVoid else TInt"
  using TryEnqueue_inv TryDequeue_inv RequestEnqueue_inv RequestDequeue_inv bounded_followup_inv
  by unfold_locales (auto simp: bounded_methods_def method_kinds prod_eq_iff split: if_splits)

text \<open>
  A run of the bounded queue with the number of values that it has handed to a dequeue that waited: every such
  hand-over takes an operation off the waiting dequeues.
\<close>

inductive bounded_run :: "folly_bounded \<Rightarrow> nat \<Rightarrow> bool" where
  initial: "bounded_run FollyCoroBoundedQueue 0"
| call: "bounded_run s n \<Longrightarrow>
    s' \<in> {snd (bounded_TryEnqueue v s), snd (bounded_TryDequeue s), bounded_RequestEnqueue op_id v s,
      snd (bounded_FollowUpEnqueue op_id s), bounded_RequestDequeue op_id s, snd (bounded_FollowUpDequeue op_id s)} \<Longrightarrow>
    bounded_run s' (n + (length (bq_waiting_dequeues s) - length (bq_waiting_dequeues s')))"

text \<open>What an enqueue and the promotion after it leave: capacity and values less the waiting dequeues.\<close>

definition handed_ok :: "folly_bounded \<Rightarrow> folly_bounded \<Rightarrow> bool" where
  "handed_ok s s' \<longleftrightarrow>
     length (bq_waiting_dequeues s') \<le> length (bq_waiting_dequeues s) \<and>
     unat (available_capacity s') + length (bq_elems s') + length (bq_waiting_dequeues s) =
     unat (available_capacity s) + length (bq_elems s) + length (bq_waiting_dequeues s')"

lemma visible_handed:
  "available_capacity s > 0 \<Longrightarrow>
   handed_ok s (MakeValueVisible v (s\<lparr>available_capacity := available_capacity s - 1, completed_enqueues := c\<rparr>))"
  using unat_gt_0 [of "available_capacity s"]
  by (auto simp: handed_ok_def MakeValueVisible_def unat_minus_one_pos word_gt_0 split: list.splits)

lemma handed_trans: "handed_ok s t \<Longrightarrow> handed_ok t u \<Longrightarrow> handed_ok s u"
  by (auto simp: handed_ok_def)

lemma promote_handed: "handed_ok s (promote_loop ws s)"
proof (induction ws arbitrary: s)
  case Nil
  then show ?case by (simp add: handed_ok_def)
next
  case (Cons w ws)
  then show ?case using handed_trans [OF visible_handed Cons.IH] by (simp add: handed_ok_def)
qed

lemma enqueue_handed:
  "handed_ok s (snd (bounded_TryEnqueue v s))" "handed_ok s (bounded_RequestEnqueue op_id v s)"
proof -
  have p: "handed_ok s (PromoteWaitingEnqueues (MakeValueVisible v (s\<lparr>available_capacity := available_capacity s - 1, completed_enqueues := c\<rparr>)))"
    if "available_capacity s \<noteq> 0" for c
    using that handed_trans [OF visible_handed promote_handed] by (simp add: PromoteWaitingEnqueues_def word_gt_0)
  show "handed_ok s (snd (bounded_TryEnqueue v s))"
    using p [of "completed_enqueues s"] by (simp add: bounded_TryEnqueue_def handed_ok_def)
  show "handed_ok s (bounded_RequestEnqueue op_id v s)"
    using p by (simp add: bounded_RequestEnqueue_def handed_ok_def)
qed

lemma take_handed:
  assumes "bounded_room s" "bq_elems s = v # rest"
  shows "handed_ok s (PromoteWaitingEnqueues (s\<lparr>bq_elems := rest, bq_ready_dequeues := m, available_capacity := available_capacity s + 1\<rparr>))"
proof -
  let ?t = "s\<lparr>bq_elems := rest, bq_ready_dequeues := m, available_capacity := available_capacity s + 1\<rparr>"
  have "unat (available_capacity s) + 1 \<le> 2" using assms by (simp add: bounded_room_def kCapacity_def)
  then have "unat (available_capacity s + 1) = unat (available_capacity s) + 1" by (simp add: unat_word_ariths)
  then have "handed_ok s ?t" using assms(2) by (simp add: handed_ok_def)
  then show ?thesis unfolding PromoteWaitingEnqueues_def by (rule handed_trans [OF _ promote_handed])
qed

lemma dequeue_handed:
  assumes "bounded_room s"
  shows "handed_ok s (snd (bounded_TryDequeue s))" "bq_elems s \<noteq> [] \<Longrightarrow> handed_ok s (bounded_RequestDequeue op_id s)"
  using take_handed [OF assms] take_handed [OF assms, where m = "bq_ready_dequeues s"]
  by (auto simp: bounded_TryDequeue_def bounded_RequestDequeue_def handed_ok_def split: list.splits)

lemma followup_handed: "handed_ok s (snd (bounded_FollowUpEnqueue op_id s))" "handed_ok s (snd (bounded_FollowUpDequeue op_id s))"
  by (simp_all add: bounded_FollowUpEnqueue_def bounded_FollowUpDequeue_def handed_ok_def split: prod.splits)

lemma handed_sum: "handed_ok s s' \<Longrightarrow> unat (available_capacity s') + length (bq_elems s') +
    (length (bq_waiting_dequeues s) - length (bq_waiting_dequeues s')) = unat (available_capacity s) + length (bq_elems s)"
  by (simp add: handed_ok_def)

lemma call_handed:
  assumes "bounded_inv s" and "s' \<in> {snd (bounded_TryEnqueue v s), snd (bounded_TryDequeue s), bounded_RequestEnqueue op_id v s,
      snd (bounded_FollowUpEnqueue op_id s), bounded_RequestDequeue op_id s, snd (bounded_FollowUpDequeue op_id s)}"
  shows "bounded_inv s'" and "unat (available_capacity s') + length (bq_elems s') +
      (length (bq_waiting_dequeues s) - length (bq_waiting_dequeues s')) = unat (available_capacity s) + length (bq_elems s)"
proof -
  show "bounded_inv s'"
    using assms(2) by (elim insertE emptyE)
      (simp_all add: TryEnqueue_inv TryDequeue_inv RequestEnqueue_inv RequestDequeue_inv bounded_followup_inv assms(1))
  have room: "bounded_room s" using assms(1) by (simp add: bounded_inv_def)
  show "unat (available_capacity s') + length (bq_elems s') +
      (length (bq_waiting_dequeues s) - length (bq_waiting_dequeues s')) = unat (available_capacity s) + length (bq_elems s)"
  proof (cases "s' = bounded_RequestDequeue op_id s \<and> bq_elems s = []")
    case True
    then show ?thesis by (simp add: bounded_RequestDequeue_def)
  next
    case False
    then have "handed_ok s s'"
      using assms(2) by (elim insertE emptyE) (simp_all add: enqueue_handed dequeue_handed [OF room] followup_handed)
    then show ?thesis by (rule handed_sum)
  qed
qed

lemma bounded_run_capacity:
  "bounded_run s n \<Longrightarrow> bounded_inv s \<and> unat (available_capacity s) + length (bq_elems s) + n = unat kCapacity"
proof (induction rule: bounded_run.induct)
  case initial
  then show ?case by (simp add: FollyCoroBoundedQueue_def bounded_inv_def bounded_room_def)
next
  case (call s n s' v op_id)
  then show ?case using call_handed [of s s' v op_id] by auto
qed

text \<open>Every reachable state of the specification is one of a run.\<close>

lemma bounded_step:
  assumes "bounded_run s n" "s' \<in> {snd (bounded_TryEnqueue v s), snd (bounded_TryDequeue s), bounded_RequestEnqueue op_id v s,
      snd (bounded_FollowUpEnqueue op_id s), bounded_RequestDequeue op_id s, snd (bounded_FollowUpDequeue op_id s)}"
  shows "\<exists>n. bounded_run s' n"
  using bounded_run.call [OF assms] by blast

abbreviation bounded_results :: "string \<Rightarrow> any_type" where
  "bounded_results \<equiv> \<lambda>n. if n = ''try_enqueue'' then TBool else if n = ''enqueue'' then TVoid else TInt"

text \<open>
  C23. Whatever calls are made, the bounded queue holds at most as many values as its capacity leaves
  room for, an enqueue waits only while no capacity is left, and a dequeue waits only on an empty
  queue.
\<close>

theorem bounded_queue_capacity:
  assumes "spec_reaches bounded_methods (int_args [''try_enqueue'', ''enqueue'']) bounded_results FollyCoroBoundedQueue s"
  shows "unat (available_capacity s) + length (bq_elems s) \<le> unat kCapacity \<and>
    (waiting_enqueues s = [] \<or> available_capacity s = 0) \<and> (bq_waiting_dequeues s = [] \<or> bq_elems s = [])"
proof -
  have "bounded_inv s"
    by (rule bounded_spec.reaches_inv [OF assms]) (simp add: bounded_inv_def bounded_room_def FollyCoroBoundedQueue_def)
  then show ?thesis
    by (auto simp: bounded_inv_def bounded_room_def)
qed

lemma enqueued_reaches:
  "spec_reaches bounded_methods (int_args [''try_enqueue'', ''enqueue'']) bounded_results FollyCoroBoundedQueue
     (bounded_RequestEnqueue 1 5 FollyCoroBoundedQueue)"
  by (rule reaches_request_int [OF spec_reaches.initial, where n = "''enqueue''"]) (simp_all add: bounded_methods_def)

theorem bounded_queue_capacity_witness:
  "unat (available_capacity (bounded_RequestEnqueue 1 5 FollyCoroBoundedQueue)) +
     length (bq_elems (bounded_RequestEnqueue 1 5 FollyCoroBoundedQueue)) \<le> unat kCapacity"
  using bounded_queue_capacity [OF enqueued_reaches] by simp

lemma reaches_run:
  assumes "spec_reaches bounded_methods (int_args [''try_enqueue'', ''enqueue'']) bounded_results FollyCoroBoundedQueue s"
  shows "\<exists>n. bounded_run s n"
  using assms
proof (induction rule: spec_reaches.induct)
  case initial
  then show ?case using bounded_run.initial by blast
next
  case (ordinary_call s name f a v s')
  then obtain n where n: "bounded_run s n" by blast
  have "\<exists>w. s' \<in> {snd (bounded_TryEnqueue w s), snd (bounded_TryDequeue s)}"
    using ordinary_call.hyps(2,4) by (auto simp: bounded_methods_def method_kinds andThen_eq_Ret split: if_splits) (metis snd_conv)+
  then obtain w where "s' \<in> {snd (bounded_TryEnqueue w s), snd (bounded_TryDequeue s)}" by blast
  then show ?case by (intro bounded_step [OF n, of s' w 0]) blast
next
  case (request_call s name r g a op_id s')
  then obtain n where n: "bounded_run s n" by blast
  have "\<exists>w. s' \<in> {bounded_RequestEnqueue op_id w s, bounded_RequestDequeue op_id s}"
    using request_call.hyps(2,4) by (auto simp: bounded_methods_def method_kinds andThen_eq_Ret split: if_splits)
  then obtain w where "s' \<in> {bounded_RequestEnqueue op_id w s, bounded_RequestDequeue op_id s}" by blast
  then show ?case by (intro bounded_step [OF n, of s' w op_id]) blast
next
  case (followup_call s name r g a op_id v s')
  then obtain n where n: "bounded_run s n" by blast
  have "s' \<in> {snd (bounded_FollowUpEnqueue op_id s), snd (bounded_FollowUpDequeue op_id s)}"
    using followup_call.hyps(2,4) by (auto simp: bounded_methods_def method_kinds split: if_splits)
  then show ?case by (intro bounded_step [OF n, of s' 0 op_id]) blast
qed (simp add: bounded_methods_def method_kinds split: if_splits)

text \<open>
  C24. The capacity taken by a value that is handed to a waiting dequeue is never given back: in every run of the
  bounded queue (\<open>bounded_run\<close>, which has every reachable state by \<open>reaches_run\<close>) the free capacity, the stored values
  and the hand-overs so far add up to the capacity. After as many hand-overs as the capacity the queue is empty,
  \<open>try_enqueue\<close> refuses every value and an enqueue only waits.
\<close>

theorem bounded_queue_capacity_leak:
  assumes "bounded_run s n"
  shows "unat (available_capacity s) + length (bq_elems s) + n = unat kCapacity \<and>
    (n = unat kCapacity \<longrightarrow> bq_elems s = [] \<and> bounded_TryEnqueue v s = (wrap (AnyBool False), s) \<and>
       bounded_RequestEnqueue op_id v s = s\<lparr>waiting_enqueues := waiting_enqueues s @ [\<lparr>enq_op_id = op_id, enq_value = v\<rparr>]\<rparr>)"
  using bounded_run_capacity [OF assms] by (auto simp: bounded_TryEnqueue_def bounded_RequestEnqueue_def unat_eq_0)

definition leaked_queue :: folly_bounded where
  "leaked_queue =
     snd (bounded_TryEnqueue 6 (bounded_RequestDequeue 2
       (snd (bounded_TryEnqueue 5 (bounded_RequestDequeue 1 FollyCoroBoundedQueue)))))"

lemma leaked_run: "bounded_run leaked_queue 2"
proof -
  note eval = bounded_TryEnqueue_def bounded_RequestDequeue_def FollyCoroBoundedQueue_def kCapacity_def MakeValueVisible_def
    PromoteWaitingEnqueues_def
  let ?s1 = "bounded_RequestDequeue 1 FollyCoroBoundedQueue" and ?s2 = "snd (bounded_TryEnqueue 5 (bounded_RequestDequeue 1 FollyCoroBoundedQueue))"
  let ?s3 = "bounded_RequestDequeue 2 ?s2"
  have 1: "bounded_run ?s1 0"
    using bounded_run.call [OF bounded_run.initial, of ?s1 0 1] by (simp add: eval)
  have 2: "bounded_run ?s2 1" using bounded_run.call [OF 1, of ?s2 5 0] by (simp add: eval)
  have 3: "bounded_run ?s3 1" using bounded_run.call [OF 2, of ?s3 0 2] by (simp add: eval)
  show ?thesis using bounded_run.call [OF 3, of leaked_queue 6 0] by (simp add: eval leaked_queue_def numeral_2_eq_2)
qed

theorem bounded_queue_capacity_leak_witness:
  "bq_elems leaked_queue = [] \<and> bq_waiting_dequeues leaked_queue = [] \<and> waiting_enqueues leaked_queue = [] \<and>
   bounded_TryEnqueue 7 leaked_queue = (wrap (AnyBool False), leaked_queue)"
proof -
  have "bq_waiting_dequeues leaked_queue = []" "waiting_enqueues leaked_queue = []" by code_simp+
  then show ?thesis using bounded_queue_capacity_leak [OF leaked_run, of 7 0] by (simp add: kCapacity_def)
qed

text \<open>
  C25. Whatever calls are made, the shared mutex never has a writer and a reader at the same time, and
  its number of readers is never negative.
\<close>

theorem folly_shared_mutex_exclusion:
  assumes "spec_reaches folly_shared_methods (int_args [])
    (\<lambda>n. if n = ''try_lock'' \<or> n = ''try_lock_shared'' then TBool else TVoid) FollyCoroSharedMutex s"
  shows "0 \<le> active_readers s \<and> (writer_active s \<longrightarrow> active_readers s = 0)"
proof -
  have "shared_mutex_inv s"
    by (rule folly_shared_spec.reaches_inv [OF assms]) (simp add: shared_mutex_inv_def FollyCoroSharedMutex_def)
  then show ?thesis by (simp add: shared_mutex_inv_def)
qed

lemma locked_reaches:
  "spec_reaches folly_shared_methods (int_args [])
    (\<lambda>n. if n = ''try_lock'' \<or> n = ''try_lock_shared'' then TBool else TVoid) FollyCoroSharedMutex
    (snd (folly_shared_FollowUpLock 1 (folly_shared_RequestLock 1 FollyCoroSharedMutex)))"
  by (rule reaches_followup [OF reaches_request [OF spec_reaches.initial, where n = "''lock''"], where n = "''lock''"])
    (simp_all add: folly_shared_methods_def)

theorem folly_shared_mutex_exclusion_witness:
  "writer_active (snd (folly_shared_FollowUpLock 1 (folly_shared_RequestLock 1 FollyCoroSharedMutex))) \<and>
   active_readers (snd (folly_shared_FollowUpLock 1 (folly_shared_RequestLock 1 FollyCoroSharedMutex))) = 0"
  using folly_shared_mutex_exclusion [OF locked_reaches]
  by (simp add: folly_shared_FollowUpLock_def folly_shared_RequestLock_def FollyCoroSharedMutex_def)

end
