(* ===== verification/Libcoro_Specs.thy ===== *)
theory Libcoro_Specs
  imports Folly_Specs
begin

text \<open>
  The dual specifications under verifying/specs/libcoro: event, latch, mutex, shared mutex, queue, ring
  buffer and semaphore, each with its invariant. \<open>std::hash\<close> of an integer type is the
  implementation's choice and a parameter of the hash functions that call it.
\<close>

section \<open>Event\<close>

record libcoro_event =
  is_set :: bool
  event_waiting :: "int set"
  event_ready :: "int set"

definition LibcoroEvent :: libcoro_event where
  "LibcoroEvent = \<lparr>is_set = False, event_waiting = {}, event_ready = {}\<rparr>"

definition event_policy :: workload_policy where
  "event_policy = WorkloadPolicy\<lparr>prefix_budget := [budget_one ''wait'' [''set''] 0]\<rparr>"

definition event_Set :: "libcoro_event \<Rightarrow> value_wrapper \<times> libcoro_event" where
  "event_Set s =
     (void_v, s\<lparr>is_set := True, event_ready := event_ready s \<union> event_waiting s, event_waiting := {}\<rparr>)"

definition event_Reset :: "libcoro_event \<Rightarrow> value_wrapper \<times> libcoro_event" where
  "event_Reset s = (void_v, s\<lparr>is_set := False\<rparr>)"

definition event_IsSet :: "libcoro_event \<Rightarrow> value_wrapper \<times> libcoro_event" where
  "event_IsSet s = (wrap (AnyBool (is_set s)), s)"

definition event_RequestWait :: "int \<Rightarrow> libcoro_event \<Rightarrow> libcoro_event" where
  "event_RequestWait op_id s =
     (if is_set s then s\<lparr>event_ready := insert op_id (event_ready s)\<rparr>
      else s\<lparr>event_waiting := insert op_id (event_waiting s)\<rparr>)"

definition event_FollowUpWait :: "int \<Rightarrow> libcoro_event \<Rightarrow> value_wrapper option \<times> libcoro_event" where
  "event_FollowUpWait op_id s = (case ready_followup op_id (event_ready s) of (v, r) \<Rightarrow> (v, s\<lparr>event_ready := r\<rparr>))"

definition event_methods :: "(libcoro_event, spec_args) dual_method_map" where
  "event_methods =
     [''set'' \<mapsto> ordinary_method event_Set,
      ''reset'' \<mapsto> ordinary_method event_Reset,
      ''is_set'' \<mapsto> ordinary_method event_IsSet,
      ''wait'' \<mapsto> blocking_method event_RequestWait event_FollowUpWait]"

definition LibcoroEventHash :: "(bool \<Rightarrow> 64 word) \<Rightarrow> libcoro_event \<Rightarrow> 64 word" where
  "LibcoroEventHash hash_bool s =
     hash_bool (is_set s) XOR (of_nat (card (event_waiting s)) * 2654435761) XOR (of_nat (card (event_ready s)) * 97531)"

definition LibcoroEventEquals :: "libcoro_event \<Rightarrow> libcoro_event \<Rightarrow> bool" where
  "LibcoroEventEquals a b \<longleftrightarrow>
     is_set a = is_set b \<and> event_waiting a = event_waiting b \<and> event_ready a = event_ready b"

definition event_inv :: "libcoro_event \<Rightarrow> bool" where
  "event_inv s \<longleftrightarrow> (is_set s \<longrightarrow> event_waiting s = {})"

section \<open>Latch\<close>

text \<open>\<open>remaining\<close> is an \<open>std::int64_t\<close>, kept at its width; its sign is read with \<open>sint\<close>.\<close>

record libcoro_latch =
  remaining :: "64 word"
  latch_waiting :: "int set"
  latch_ready :: "int set"

definition LibcoroLatch :: libcoro_latch where
  "LibcoroLatch = \<lparr>remaining = 2, latch_waiting = {}, latch_ready = {}\<rparr>"

definition latch_policy :: workload_policy where
  "latch_policy = WorkloadPolicy\<lparr>reserve := [reserve_one ''wait'' [''count_down'']]\<rparr>"

fun arg_long :: "spec_args \<Rightarrow> 64 word res" where
  "arg_long [ArgLong v] = Ret v"
| "arg_long _ = Exn Undefined"

definition latch_CountDown :: "64 word \<Rightarrow> libcoro_latch \<Rightarrow> value_wrapper \<times> libcoro_latch" where
  "latch_CountDown n s =
     (let s' = s\<lparr>remaining := remaining s - n\<rparr> in
      (void_v,
       if sint (remaining s') \<le> 0 then s'\<lparr>latch_ready := latch_ready s' \<union> latch_waiting s', latch_waiting := {}\<rparr>
       else s'))"

definition latch_Remaining :: "libcoro_latch \<Rightarrow> value_wrapper \<times> libcoro_latch" where
  "latch_Remaining s = (wrap (AnySize (remaining s)), s)"

definition latch_IsReady :: "libcoro_latch \<Rightarrow> value_wrapper \<times> libcoro_latch" where
  "latch_IsReady s = (wrap (AnyBool (sint (remaining s) \<le> 0)), s)"

definition latch_RequestWait :: "int \<Rightarrow> libcoro_latch \<Rightarrow> libcoro_latch" where
  "latch_RequestWait op_id s =
     (if sint (remaining s) \<le> 0 then s\<lparr>latch_ready := insert op_id (latch_ready s)\<rparr>
      else s\<lparr>latch_waiting := insert op_id (latch_waiting s)\<rparr>)"

definition latch_FollowUpWait :: "int \<Rightarrow> libcoro_latch \<Rightarrow> value_wrapper option \<times> libcoro_latch" where
  "latch_FollowUpWait op_id s = (case ready_followup op_id (latch_ready s) of (v, r) \<Rightarrow> (v, s\<lparr>latch_ready := r\<rparr>))"

definition latch_methods :: "(libcoro_latch, spec_args) dual_method_map" where
  "latch_methods =
     [''count_down'' \<mapsto> NonBlocking (\<lambda>s args. andThen (arg_long args) (\<lambda>n. Ret (latch_CountDown n s))),
      ''remaining'' \<mapsto> ordinary_method latch_Remaining,
      ''is_ready'' \<mapsto> ordinary_method latch_IsReady,
      ''wait'' \<mapsto> blocking_method latch_RequestWait latch_FollowUpWait]"

definition LibcoroLatchHash :: "(64 word \<Rightarrow> 64 word) \<Rightarrow> libcoro_latch \<Rightarrow> 64 word" where
  "LibcoroLatchHash hash_long s =
     hash_long (remaining s) XOR (of_nat (card (latch_waiting s)) * 2654435761) XOR (of_nat (card (latch_ready s)) * 97531)"

definition LibcoroLatchEquals :: "libcoro_latch \<Rightarrow> libcoro_latch \<Rightarrow> bool" where
  "LibcoroLatchEquals a b \<longleftrightarrow>
     remaining a = remaining b \<and> latch_waiting a = latch_waiting b \<and> latch_ready a = latch_ready b"

definition latch_inv :: "libcoro_latch \<Rightarrow> bool" where
  "latch_inv s \<longleftrightarrow> (sint (remaining s) \<le> 0 \<longrightarrow> latch_waiting s = {})"

section \<open>Mutex\<close>

definition LibcoroMutex :: coro_mutex where
  "LibcoroMutex = \<lparr>mutex_locked = False, waiting_locks = [], ready_locks = {}\<rparr>"

definition libcoro_mutex_policy :: workload_policy where
  "libcoro_mutex_policy = WorkloadPolicy\<lparr>reserve := [reserve_one ''lock'' [''unlock'']]\<rparr>"

definition libcoro_mutex_TryLock :: "coro_mutex \<Rightarrow> value_wrapper \<times> coro_mutex" where
  "libcoro_mutex_TryLock s =
     (if \<not> mutex_locked s then (wrap (AnyBool True), s\<lparr>mutex_locked := True\<rparr>) else (wrap (AnyBool False), s))"

definition libcoro_mutex_Unlock :: "coro_mutex \<Rightarrow> value_wrapper \<times> coro_mutex" where
  "libcoro_mutex_Unlock s =
     (void_v,
      if waiting_locks s \<noteq> [] then
        s\<lparr>waiting_locks := butlast (waiting_locks s),
          ready_locks := insert (last (waiting_locks s)) (ready_locks s), mutex_locked := True\<rparr>
      else s\<lparr>mutex_locked := False\<rparr>)"

definition libcoro_mutex_RequestLock :: "int \<Rightarrow> coro_mutex \<Rightarrow> coro_mutex" where
  "libcoro_mutex_RequestLock op_id s =
     (if \<not> mutex_locked s then s\<lparr>mutex_locked := True, ready_locks := insert op_id (ready_locks s)\<rparr>
      else s\<lparr>waiting_locks := waiting_locks s @ [op_id]\<rparr>)"

definition libcoro_mutex_FollowUpLock :: "int \<Rightarrow> coro_mutex \<Rightarrow> value_wrapper option \<times> coro_mutex" where
  "libcoro_mutex_FollowUpLock op_id s =
     (case ready_followup op_id (ready_locks s) of (v, r) \<Rightarrow> (v, s\<lparr>ready_locks := r\<rparr>))"

definition libcoro_mutex_methods :: "(coro_mutex, spec_args) dual_method_map" where
  "libcoro_mutex_methods =
     [''try_lock'' \<mapsto> ordinary_method libcoro_mutex_TryLock,
      ''unlock'' \<mapsto> ordinary_method libcoro_mutex_Unlock,
      ''lock'' \<mapsto> blocking_method libcoro_mutex_RequestLock libcoro_mutex_FollowUpLock]"

definition LibcoroMutexHash :: "coro_mutex \<Rightarrow> 64 word" where
  "LibcoroMutexHash s =
     (bool_cast (mutex_locked s) * 1315423911) XOR (of_nat (length (waiting_locks s)) * 2654435761) XOR
     (of_nat (card (ready_locks s)) * 97531)"

definition LibcoroMutexEquals :: "coro_mutex \<Rightarrow> coro_mutex \<Rightarrow> bool" where
  "LibcoroMutexEquals a b \<longleftrightarrow>
     mutex_locked a = mutex_locked b \<and> waiting_locks a = waiting_locks b \<and> ready_locks a = ready_locks b"

section \<open>Shared mutex\<close>

definition LibcoroSharedMutex :: shared_mutex_state where
  "LibcoroSharedMutex =
     \<lparr>active_readers = 0, writer_active = False, waiters = [], sm_ready_locks = {}, ready_shared_locks = {}\<rparr>"

definition HasExclusiveWaiter :: "shared_mutex_state \<Rightarrow> bool" where
  "HasExclusiveWaiter s \<longleftrightarrow> list_ex exclusive (waiters s)"

text \<open>The loop of \<open>WakeNextWaiters\<close> that admits the readers in front of the queue.\<close>

fun admit_readers :: "shared_waiter list \<Rightarrow> shared_mutex_state \<Rightarrow> shared_mutex_state" where
  "admit_readers [] s = s\<lparr>waiters := []\<rparr>"
| "admit_readers (w # ws) s =
     (if \<not> exclusive w then
        admit_readers ws (s\<lparr>active_readers := active_readers s + 1,
          ready_shared_locks := insert (waiter_op_id w) (ready_shared_locks s)\<rparr>)
      else s\<lparr>waiters := w # ws\<rparr>)"

definition libcoro_WakeNextWaiters :: "shared_mutex_state \<Rightarrow> shared_mutex_state" where
  "libcoro_WakeNextWaiters s =
     (if writer_active s \<or> active_readers s \<noteq> 0 \<or> waiters s = [] then s
      else if exclusive (hd (waiters s)) then
        s\<lparr>waiters := tl (waiters s), writer_active := True,
          sm_ready_locks := insert (waiter_op_id (hd (waiters s))) (sm_ready_locks s)\<rparr>
      else admit_readers (waiters s) s)"

definition libcoro_shared_RequestLock :: "int \<Rightarrow> shared_mutex_state \<Rightarrow> shared_mutex_state" where
  "libcoro_shared_RequestLock op_id s =
     (if \<not> writer_active s \<and> active_readers s = 0 then
        s\<lparr>writer_active := True, sm_ready_locks := insert op_id (sm_ready_locks s)\<rparr>
      else s\<lparr>waiters := waiters s @ [\<lparr>waiter_op_id = op_id, exclusive = True\<rparr>]\<rparr>)"

definition libcoro_shared_FollowUpLock :: "int \<Rightarrow> shared_mutex_state \<Rightarrow> value_wrapper option \<times> shared_mutex_state" where
  "libcoro_shared_FollowUpLock op_id s =
     (case ready_followup op_id (sm_ready_locks s) of (v, r) \<Rightarrow> (v, s\<lparr>sm_ready_locks := r\<rparr>))"

definition libcoro_RequestLockShared :: "int \<Rightarrow> shared_mutex_state \<Rightarrow> shared_mutex_state" where
  "libcoro_RequestLockShared op_id s =
     (if \<not> writer_active s \<and> \<not> HasExclusiveWaiter s then
        s\<lparr>active_readers := active_readers s + 1, ready_shared_locks := insert op_id (ready_shared_locks s)\<rparr>
      else s\<lparr>waiters := waiters s @ [\<lparr>waiter_op_id = op_id, exclusive = False\<rparr>]\<rparr>)"

definition libcoro_FollowUpLockShared :: "int \<Rightarrow> shared_mutex_state \<Rightarrow> value_wrapper option \<times> shared_mutex_state" where
  "libcoro_FollowUpLockShared op_id s =
     (case ready_followup op_id (ready_shared_locks s) of (v, r) \<Rightarrow> (v, s\<lparr>ready_shared_locks := r\<rparr>))"

definition libcoro_shared_Unlock :: "shared_mutex_state \<Rightarrow> value_wrapper \<times> shared_mutex_state" where
  "libcoro_shared_Unlock s = (void_v, libcoro_WakeNextWaiters (s\<lparr>writer_active := False\<rparr>))"

definition libcoro_UnlockShared :: "shared_mutex_state \<Rightarrow> value_wrapper \<times> shared_mutex_state" where
  "libcoro_UnlockShared s =
     (let s' = (if active_readers s > 0 then s\<lparr>active_readers := active_readers s - 1\<rparr> else s) in
      (void_v, if active_readers s' = 0 then libcoro_WakeNextWaiters s' else s'))"

definition libcoro_shared_methods :: "(shared_mutex_state, spec_args) dual_method_map" where
  "libcoro_shared_methods =
     [''lock'' \<mapsto> blocking_method libcoro_shared_RequestLock libcoro_shared_FollowUpLock,
      ''lock_shared'' \<mapsto> blocking_method libcoro_RequestLockShared libcoro_FollowUpLockShared,
      ''unlock'' \<mapsto> ordinary_method libcoro_shared_Unlock,
      ''unlock_shared'' \<mapsto> ordinary_method libcoro_UnlockShared]"

definition LibcoroSharedMutexHash :: "shared_mutex_state \<Rightarrow> 64 word" where
  "LibcoroSharedMutexHash s =
     xor_ids (\<lambda>op_id. size_cast (op_id + 1) * 2166136261) (ready_shared_locks s)
       (xor_ids (\<lambda>op_id. size_cast (op_id + 1) * 65537) (sm_ready_locks s)
         (foldl (\<lambda>h w. mix_step (h XOR (size_cast (waiter_op_id w + 1) * 97531) XOR (bool_cast (exclusive w) * 424242)))
           ((size_cast (active_readers s) * 1315423911) XOR (bool_cast (writer_active s) * 2654435761)) (waiters s)))"

definition LibcoroSharedMutexEquals :: "shared_mutex_state \<Rightarrow> shared_mutex_state \<Rightarrow> bool" where
  "LibcoroSharedMutexEquals a b \<longleftrightarrow>
     active_readers a = active_readers b \<and> writer_active a = writer_active b \<and> waiters a = waiters b \<and>
     sm_ready_locks a = sm_ready_locks b \<and> ready_shared_locks a = ready_shared_locks b"

section \<open>Queue\<close>

record libcoro_queue =
  lq_elems :: "int list"
  lq_waiting_pops :: "int list"
  ready_pop :: "(int, int) mapping"
  push_done :: "int set"

definition LibcoroQueue :: libcoro_queue where
  "LibcoroQueue = \<lparr>lq_elems = [], lq_waiting_pops = [], ready_pop = Mapping.empty, push_done = {}\<rparr>"

definition libcoro_queue_policy :: workload_policy where
  "libcoro_queue_policy = WorkloadPolicy\<lparr>reserve := [reserve_one ''pop'' [''push'']]\<rparr>"

definition lq_RequestPush :: "int \<Rightarrow> int \<Rightarrow> libcoro_queue \<Rightarrow> libcoro_queue" where
  "lq_RequestPush op_id v s =
     (let s' = s\<lparr>push_done := insert op_id (push_done s)\<rparr> in
      if lq_waiting_pops s' \<noteq> [] then
        s'\<lparr>lq_waiting_pops := butlast (lq_waiting_pops s'),
           ready_pop := Mapping.update (last (lq_waiting_pops s')) v (ready_pop s')\<rparr>
      else s'\<lparr>lq_elems := lq_elems s' @ [v]\<rparr>)"

definition lq_RequestPop :: "int \<Rightarrow> libcoro_queue \<Rightarrow> libcoro_queue" where
  "lq_RequestPop op_id s =
     (case lq_elems s of
        v # rest \<Rightarrow> s\<lparr>lq_elems := rest, ready_pop := Mapping.update op_id v (ready_pop s)\<rparr>
      | [] \<Rightarrow> s\<lparr>lq_waiting_pops := lq_waiting_pops s @ [op_id]\<rparr>)"

definition lq_FollowUpPush :: "int \<Rightarrow> libcoro_queue \<Rightarrow> value_wrapper option \<times> libcoro_queue" where
  "lq_FollowUpPush op_id s =
     (if op_id \<notin> push_done s then (None, s)
      else (Some (wrap (AnyQueueProduce ''produced'')), s\<lparr>push_done := push_done s - {op_id}\<rparr>))"

definition lq_FollowUpPop :: "int \<Rightarrow> libcoro_queue \<Rightarrow> value_wrapper option \<times> libcoro_queue" where
  "lq_FollowUpPop op_id s =
     (case value_followup op_id (ready_pop s) (\<lambda>v. wrap (AnyQueueExpected (Inr v))) of (v, r) \<Rightarrow> (v, s\<lparr>ready_pop := r\<rparr>))"

definition libcoro_queue_methods :: "(libcoro_queue, spec_args) dual_method_map" where
  "libcoro_queue_methods =
     [''push'' \<mapsto> blocking_int_method lq_RequestPush lq_FollowUpPush,
      ''pop'' \<mapsto> blocking_method lq_RequestPop lq_FollowUpPop]"

text \<open>The \<open>mix\<close> lambda of the hash functions.\<close>

definition mix :: "64 word \<Rightarrow> 64 word \<Rightarrow> 64 word" where
  "mix h v = h XOR (v + 0x9e3779b97f4a7c15 + push_bit 6 h + drop_bit 2 h)"

definition libcoro_queue_hash :: "(int \<Rightarrow> 64 word) \<Rightarrow> libcoro_queue \<Rightarrow> 64 word" where
  "libcoro_queue_hash hash_int s =
     (let h = mix (foldl (\<lambda>h v. mix h (hash_int v)) 0 (lq_elems s)) 0x10001;
          h = mix (foldl (\<lambda>h i. mix h (hash_int i)) h (lq_waiting_pops s)) 0x10002;
          h = mix h (xor_map (\<lambda>i v. hash_int i XOR (hash_int v + 0x9e3779b9)) (ready_pop s) 0)
      in mix h (xor_ids (\<lambda>i. hash_int i + 0x85ebca6b) (push_done s) 0))"

definition libcoro_queue_inv :: "libcoro_queue \<Rightarrow> bool" where
  "libcoro_queue_inv s \<longleftrightarrow> lq_elems s = [] \<or> lq_waiting_pops s = []"

section \<open>Ring buffer\<close>

record libcoro_ring =
  rb_elems :: "int list"
  front_cursor :: "64 word"
  back_cursor :: "64 word"
  waiting_producers :: "(int \<times> int) list"
  waiting_consumers :: "int list"
  ready_produce :: "int set"
  ready_consume :: "(int, int) mapping"

definition kCap :: nat where
  "kCap = 1"

definition LibcoroRingBuffer :: libcoro_ring where
  "LibcoroRingBuffer = \<lparr>rb_elems = [], front_cursor = 0, back_cursor = 0, waiting_producers = [],
     waiting_consumers = [], ready_produce = {}, ready_consume = Mapping.empty\<rparr>"

definition ring_policy :: workload_policy where
  "ring_policy = WorkloadPolicy\<lparr>reserve :=
     [reserve_one ''consume'' [''produce''], reserve_one ''produce'' [''consume'']]\<rparr>"

definition TryWakeConsumerFromBuffer :: "libcoro_ring \<Rightarrow> libcoro_ring" where
  "TryWakeConsumerFromBuffer s =
     (if rb_elems s = [] then s
      else if waiting_consumers s = [] then s
      else s\<lparr>waiting_consumers := butlast (waiting_consumers s), rb_elems := tl (rb_elems s),
             back_cursor := back_cursor s + 1,
             ready_consume := Mapping.update (last (waiting_consumers s)) (hd (rb_elems s)) (ready_consume s)\<rparr>)"

definition TryAdmitProducerToBuffer :: "libcoro_ring \<Rightarrow> libcoro_ring" where
  "TryAdmitProducerToBuffer s =
     (if length (rb_elems s) \<ge> kCap then s
      else if waiting_producers s = [] then s
      else (case last (waiting_producers s) of (pid, v) \<Rightarrow>
        TryWakeConsumerFromBuffer
          (s\<lparr>waiting_producers := butlast (waiting_producers s), rb_elems := rb_elems s @ [v],
             front_cursor := front_cursor s + 1, ready_produce := insert pid (ready_produce s)\<rparr>)))"

definition RequestProduce :: "int \<Rightarrow> int \<Rightarrow> libcoro_ring \<Rightarrow> libcoro_ring" where
  "RequestProduce op_id v s =
     (if length (rb_elems s) < kCap then
        TryWakeConsumerFromBuffer
          (s\<lparr>rb_elems := rb_elems s @ [v], front_cursor := front_cursor s + 1,
             ready_produce := insert op_id (ready_produce s)\<rparr>)
      else s\<lparr>waiting_producers := waiting_producers s @ [(op_id, v)]\<rparr>)"

definition RequestConsume :: "int \<Rightarrow> libcoro_ring \<Rightarrow> libcoro_ring" where
  "RequestConsume op_id s =
     (case rb_elems s of
        v # rest \<Rightarrow> TryAdmitProducerToBuffer
          (s\<lparr>rb_elems := rest, back_cursor := back_cursor s + 1,
             ready_consume := Mapping.update op_id v (ready_consume s)\<rparr>)
      | [] \<Rightarrow> s\<lparr>waiting_consumers := waiting_consumers s @ [op_id]\<rparr>)"

definition FollowUpProduce :: "int \<Rightarrow> libcoro_ring \<Rightarrow> value_wrapper option \<times> libcoro_ring" where
  "FollowUpProduce op_id s =
     (if op_id \<notin> ready_produce s then (None, s)
      else (Some (wrap (AnyRingProduce ''produced'')), s\<lparr>ready_produce := ready_produce s - {op_id}\<rparr>))"

definition FollowUpConsume :: "int \<Rightarrow> libcoro_ring \<Rightarrow> value_wrapper option \<times> libcoro_ring" where
  "FollowUpConsume op_id s =
     (case value_followup op_id (ready_consume s) (\<lambda>v. wrap (AnyRingExpected (Inr v))) of
        (v, r) \<Rightarrow> (v, s\<lparr>ready_consume := r\<rparr>))"

definition ring_Size :: "libcoro_ring \<Rightarrow> value_wrapper \<times> libcoro_ring" where
  "ring_Size s = (wrap (AnySize (of_nat (length (rb_elems s)))), s)"

definition ring_Empty :: "libcoro_ring \<Rightarrow> value_wrapper \<times> libcoro_ring" where
  "ring_Empty s = (wrap (AnyBool (rb_elems s = [])), s)"

definition ring_Full :: "libcoro_ring \<Rightarrow> value_wrapper \<times> libcoro_ring" where
  "ring_Full s = (wrap (AnyBool (length (rb_elems s) = kCap)), s)"

definition ring_Snapshot :: "libcoro_ring \<Rightarrow> value_wrapper \<times> libcoro_ring" where
  "ring_Snapshot s =
     (wrap (AnyRingSnapshot (of_nat (length (rb_elems s))) (rb_elems s = []) (length (rb_elems s) = kCap)), s)"

definition ring_InternalSnapshot :: "libcoro_ring \<Rightarrow> value_wrapper \<times> libcoro_ring" where
  "ring_InternalSnapshot s =
     (let slot_full = rb_elems s \<noteq> [] in
      (wrap (AnyRingInternal (front_cursor s) (back_cursor s) (of_nat (length (rb_elems s))) slot_full
         (if slot_full then hd (rb_elems s) else 0)), s))"

definition ring_methods :: "(libcoro_ring, spec_args) dual_method_map" where
  "ring_methods =
     [''produce'' \<mapsto> blocking_int_method RequestProduce FollowUpProduce,
      ''consume'' \<mapsto> blocking_method RequestConsume FollowUpConsume,
      ''size'' \<mapsto> ordinary_method ring_Size,
      ''empty'' \<mapsto> ordinary_method ring_Empty,
      ''full'' \<mapsto> ordinary_method ring_Full,
      ''snapshot'' \<mapsto> ordinary_method ring_Snapshot,
      ''internal_snapshot'' \<mapsto> ordinary_method ring_InternalSnapshot]"

definition ring_hash :: "(64 word \<Rightarrow> 64 word) \<Rightarrow> (int \<Rightarrow> 64 word) \<Rightarrow> libcoro_ring \<Rightarrow> 64 word" where
  "ring_hash hash_size hash_int s =
     (let h = mix (mix 0 (hash_size (front_cursor s))) (hash_size (back_cursor s));
          h = mix (foldl (\<lambda>h v. mix h (hash_int v)) h (rb_elems s)) 0x20001;
          h = mix (foldl (\<lambda>h (i, v). mix (mix h (hash_int i)) (hash_int v)) h (waiting_producers s)) 0x20002;
          h = mix (foldl (\<lambda>h i. mix h (hash_int i)) h (waiting_consumers s)) 0x20003;
          h = mix h (xor_ids (\<lambda>i. hash_int i + 0x85ebca6b) (ready_produce s) 0)
      in mix h (xor_map (\<lambda>i v. hash_int i XOR (hash_int v + 0xc2b2ae35)) (ready_consume s) 0))"

text \<open>
  The buffer holds at most one element, the cursors differ by the number of elements, a consumer waits
  only on an empty buffer and a producer only on a full one.
\<close>

definition ring_inv :: "libcoro_ring \<Rightarrow> bool" where
  "ring_inv s \<longleftrightarrow>
     length (rb_elems s) \<le> kCap \<and> front_cursor s - back_cursor s = of_nat (length (rb_elems s)) \<and>
     (rb_elems s = [] \<or> waiting_consumers s = []) \<and> (waiting_producers s = [] \<or> length (rb_elems s) = kCap)"

section \<open>Semaphore\<close>

record libcoro_semaphore =
  available :: int
  shutdown :: bool
  sem_waiting :: "int list"
  ready_acquired :: "int set"
  ready_shutdown :: "int set"

definition kMax :: int where
  "kMax = 2"

definition kInitial :: int where
  "kInitial = 1"

definition LibcoroSemaphore :: libcoro_semaphore where
  "LibcoroSemaphore = \<lparr>available = kInitial, shutdown = False, sem_waiting = [], ready_acquired = {}, ready_shutdown = {}\<rparr>"

definition semaphore_policy :: workload_policy where
  "semaphore_policy = WorkloadPolicy\<lparr>reserve := [reserve_one ''acquire'' [''release'', ''shutdown'']],
     prefix_budget := [budget_one ''acquire'' [''release'', ''shutdown''] (word_of_int kInitial)]\<rparr>"

definition sem_TryAcquire :: "libcoro_semaphore \<Rightarrow> value_wrapper \<times> libcoro_semaphore" where
  "sem_TryAcquire s =
     (if available s \<le> 0 then (wrap (AnyBool False), s)
      else (wrap (AnyBool True), s\<lparr>available := available s - 1\<rparr>))"

definition sem_Release :: "libcoro_semaphore \<Rightarrow> value_wrapper \<times> libcoro_semaphore" where
  "sem_Release s =
     (void_v,
      if available s \<ge> kMax then s
      else if sem_waiting s \<noteq> [] then
        s\<lparr>sem_waiting := butlast (sem_waiting s), ready_acquired := insert (last (sem_waiting s)) (ready_acquired s)\<rparr>
      else s\<lparr>available := available s + 1\<rparr>)"

definition sem_Shutdown :: "libcoro_semaphore \<Rightarrow> value_wrapper \<times> libcoro_semaphore" where
  "sem_Shutdown s =
     (void_v,
      if shutdown s then s
      else s\<lparr>shutdown := True, ready_shutdown := ready_shutdown s \<union> set (sem_waiting s), sem_waiting := []\<rparr>)"

definition sem_IsShutdown :: "libcoro_semaphore \<Rightarrow> value_wrapper \<times> libcoro_semaphore" where
  "sem_IsShutdown s = (wrap (AnyBool (shutdown s)), s)"

definition sem_Value :: "libcoro_semaphore \<Rightarrow> value_wrapper \<times> libcoro_semaphore" where
  "sem_Value s = (wrap (AnyPtrdiff (available s)), s)"

definition sem_Max :: "libcoro_semaphore \<Rightarrow> value_wrapper \<times> libcoro_semaphore" where
  "sem_Max s = (wrap (AnyPtrdiff kMax), s)"

definition sem_RequestAcquire :: "int \<Rightarrow> libcoro_semaphore \<Rightarrow> libcoro_semaphore" where
  "sem_RequestAcquire op_id s =
     (if shutdown s then s\<lparr>ready_shutdown := insert op_id (ready_shutdown s)\<rparr>
      else if available s > 0 then s\<lparr>available := available s - 1, ready_acquired := insert op_id (ready_acquired s)\<rparr>
      else s\<lparr>sem_waiting := sem_waiting s @ [op_id]\<rparr>)"

definition sem_FollowUpAcquire :: "int \<Rightarrow> libcoro_semaphore \<Rightarrow> value_wrapper option \<times> libcoro_semaphore" where
  "sem_FollowUpAcquire op_id s =
     (if op_id \<in> ready_acquired s then
        (Some (wrap (AnyAcquireResult ''acquired'')), s\<lparr>ready_acquired := ready_acquired s - {op_id}\<rparr>)
      else if op_id \<in> ready_shutdown s then
        (Some (wrap (AnyAcquireResult ''shutdown'')), s\<lparr>ready_shutdown := ready_shutdown s - {op_id}\<rparr>)
      else (None, s))"

definition semaphore_methods :: "(libcoro_semaphore, spec_args) dual_method_map" where
  "semaphore_methods =
     [''try_acquire'' \<mapsto> ordinary_method sem_TryAcquire,
      ''release'' \<mapsto> ordinary_method sem_Release,
      ''shutdown'' \<mapsto> ordinary_method sem_Shutdown,
      ''is_shutdown'' \<mapsto> ordinary_method sem_IsShutdown,
      ''value'' \<mapsto> ordinary_method sem_Value,
      ''max'' \<mapsto> ordinary_method sem_Max,
      ''acquire'' \<mapsto> blocking_method sem_RequestAcquire sem_FollowUpAcquire]"

definition LibcoroSemaphoreHash :: "(int \<Rightarrow> 64 word) \<Rightarrow> (bool \<Rightarrow> 64 word) \<Rightarrow> libcoro_semaphore \<Rightarrow> 64 word" where
  "LibcoroSemaphoreHash hash_ptrdiff hash_bool s =
     hash_ptrdiff (available s) XOR (hash_bool (shutdown s) * 1315423911) XOR
     (of_nat (length (sem_waiting s)) * 2654435761) XOR (of_nat (card (ready_acquired s)) * 97531) XOR
     (of_nat (card (ready_shutdown s)) * 433494437)"

definition LibcoroSemaphoreEquals :: "libcoro_semaphore \<Rightarrow> libcoro_semaphore \<Rightarrow> bool" where
  "LibcoroSemaphoreEquals a b \<longleftrightarrow>
     available a = available b \<and> shutdown a = shutdown b \<and> sem_waiting a = sem_waiting b \<and>
     ready_acquired a = ready_acquired b \<and> ready_shutdown a = ready_shutdown b"

text \<open>Between zero and \<open>kMax\<close> units are free, and an acquire waits only when none is and before a shutdown.\<close>

definition semaphore_inv :: "libcoro_semaphore \<Rightarrow> bool" where
  "semaphore_inv s \<longleftrightarrow>
     0 \<le> available s \<and> available s \<le> kMax \<and> (sem_waiting s = [] \<or> available s = 0 \<and> \<not> shutdown s)"

section \<open>The contract holds\<close>

declare event_Set_def [spec_defs] event_Reset_def [spec_defs] event_IsSet_def [spec_defs]
  event_RequestWait_def [spec_defs] event_FollowUpWait_def [spec_defs]
  latch_CountDown_def [spec_defs] latch_Remaining_def [spec_defs] latch_IsReady_def [spec_defs]
  latch_RequestWait_def [spec_defs] latch_FollowUpWait_def [spec_defs]
  libcoro_mutex_TryLock_def [spec_defs] libcoro_mutex_Unlock_def [spec_defs] libcoro_mutex_RequestLock_def [spec_defs]
  libcoro_mutex_FollowUpLock_def [spec_defs]
  lq_RequestPush_def [spec_defs] lq_RequestPop_def [spec_defs] lq_FollowUpPush_def [spec_defs]
  lq_FollowUpPop_def [spec_defs]
  TryWakeConsumerFromBuffer_def [spec_defs] TryAdmitProducerToBuffer_def [spec_defs] RequestProduce_def [spec_defs]
  RequestConsume_def [spec_defs] FollowUpProduce_def [spec_defs] FollowUpConsume_def [spec_defs]
  ring_Size_def [spec_defs] ring_Empty_def [spec_defs] ring_Full_def [spec_defs] ring_Snapshot_def [spec_defs]
  ring_InternalSnapshot_def [spec_defs]
  sem_TryAcquire_def [spec_defs] sem_Release_def [spec_defs] sem_Shutdown_def [spec_defs] sem_IsShutdown_def [spec_defs]
  sem_Value_def [spec_defs] sem_Max_def [spec_defs] sem_RequestAcquire_def [spec_defs] sem_FollowUpAcquire_def [spec_defs]

interpretation event_spec: dual_spec event_methods event_inv "int_args []"
  "\<lambda>n. if n = ''is_set'' then TBool else TVoid"
  by unfold_locales (auto simp: event_methods_def method_kinds event_inv_def spec_defs split: if_splits)

interpretation latch_spec: dual_spec latch_methods latch_inv "\<lambda>n a. n = ''count_down'' \<longrightarrow> (\<exists>v. a = [ArgLong v])"
  "\<lambda>n. if n = ''remaining'' then TSize else if n = ''is_ready'' then TBool else TVoid"
  by unfold_locales (auto simp: latch_methods_def method_kinds latch_inv_def spec_defs Let_def split: if_splits)

interpretation libcoro_mutex_spec: dual_spec libcoro_mutex_methods coro_mutex_inv "int_args []"
  "\<lambda>n. if n = ''try_lock'' then TBool else TVoid"
  by unfold_locales (auto simp: libcoro_mutex_methods_def method_kinds coro_mutex_inv_def spec_defs split: if_splits)

lemma admit_readers_inv:
  "shared_mutex_inv s \<Longrightarrow> \<not> writer_active s \<Longrightarrow> shared_mutex_inv (admit_readers ws s)"
  by (induction ws arbitrary: s) (auto simp: shared_mutex_inv_def)

lemma libcoro_wake_inv: "shared_mutex_inv s \<Longrightarrow> shared_mutex_inv (libcoro_WakeNextWaiters s)"
  using admit_readers_inv [of s "waiters s"]
  by (simp add: libcoro_WakeNextWaiters_def) (simp add: shared_mutex_inv_def)

interpretation libcoro_shared_spec: dual_spec libcoro_shared_methods shared_mutex_inv "int_args []" "\<lambda>_. TVoid"
  by unfold_locales (auto simp: libcoro_shared_methods_def method_kinds libcoro_shared_Unlock_def libcoro_UnlockShared_def
    libcoro_shared_RequestLock_def libcoro_shared_FollowUpLock_def libcoro_RequestLockShared_def
    libcoro_FollowUpLockShared_def ready_followup_def
    Let_def shared_mutex_inv_def intro!: libcoro_wake_inv [unfolded shared_mutex_inv_def] split: if_splits)

interpretation libcoro_queue_spec: dual_spec libcoro_queue_methods libcoro_queue_inv "int_args [''push'']"
  "\<lambda>n. if n = ''push'' then TQueueProduce else TQueueExpected"
  by unfold_locales (auto simp: libcoro_queue_methods_def method_kinds libcoro_queue_inv_def spec_defs Let_def
      split: if_splits list.splits option.splits)

interpretation semaphore_spec: dual_spec semaphore_methods semaphore_inv "int_args []"
  "\<lambda>n. if n \<in> {''try_acquire'', ''is_shutdown''} then TBool else if n \<in> {''value'', ''max''} then TPtrdiff
     else if n = ''acquire'' then TAcquireResult else TVoid"
  by unfold_locales (auto simp: semaphore_methods_def method_kinds semaphore_inv_def kMax_def spec_defs split: if_splits)

lemma ring_keeps_inv:
  assumes "ring_inv s"
  shows "ring_inv (RequestProduce op_id v s)" "ring_inv (RequestConsume op_id s)"
  using assms
  by (cases "rb_elems s"; auto simp: ring_inv_def kCap_def RequestProduce_def RequestConsume_def
      TryWakeConsumerFromBuffer_def TryAdmitProducerToBuffer_def algebra_simps split: list.splits prod.splits)+

interpretation ring_spec: dual_spec ring_methods ring_inv "int_args [''produce'']"
  "\<lambda>n. if n = ''produce'' then TRingProduce else if n = ''consume'' then TRingExpected
     else if n = ''size'' then TSize else if n = ''snapshot'' then TRingSnapshot
     else if n = ''internal_snapshot'' then TRingInternal else TBool"
  using ring_keeps_inv
  by unfold_locales (auto simp: ring_methods_def method_kinds FollowUpProduce_def FollowUpConsume_def value_followup_def
      ring_Size_def ring_Empty_def ring_Full_def ring_Snapshot_def ring_InternalSnapshot_def Let_def ring_inv_def
      split: if_splits option.splits)

text \<open>
  C27. Whatever calls are made, the ring buffer holds at most one value, its two cursors differ by
  the number of values modulo the width of \<open>size_t\<close>, a consumer waits only on an empty buffer and a
  producer only on a full one.
\<close>

theorem ring_buffer_cursors:
  assumes "spec_reaches ring_methods (int_args [''produce''])
    (\<lambda>n. if n = ''produce'' then TRingProduce else if n = ''consume'' then TRingExpected
      else if n = ''size'' then TSize else if n = ''snapshot'' then TRingSnapshot
      else if n = ''internal_snapshot'' then TRingInternal else TBool) LibcoroRingBuffer s"
  shows "length (rb_elems s) \<le> kCap \<and> front_cursor s - back_cursor s = of_nat (length (rb_elems s)) \<and>
    (rb_elems s = [] \<or> waiting_consumers s = []) \<and> (waiting_producers s = [] \<or> length (rb_elems s) = kCap)"
proof -
  have "ring_inv s"
    by (rule ring_spec.reaches_inv [OF assms]) (simp add: ring_inv_def LibcoroRingBuffer_def)
  then show ?thesis by (simp add: ring_inv_def)
qed

lemma produced_reaches:
  "spec_reaches ring_methods (int_args [''produce''])
    (\<lambda>n. if n = ''produce'' then TRingProduce else if n = ''consume'' then TRingExpected
      else if n = ''size'' then TSize else if n = ''snapshot'' then TRingSnapshot
      else if n = ''internal_snapshot'' then TRingInternal else TBool) LibcoroRingBuffer
    (RequestProduce 2 6 (RequestProduce 1 5 LibcoroRingBuffer))"
  by (rule reaches_request_int [OF reaches_request_int [OF spec_reaches.initial, where n = "''produce''"],
      where n = "''produce''"]) (simp_all add: ring_methods_def)

theorem ring_buffer_cursors_witness:
  "waiting_producers (RequestProduce 2 6 (RequestProduce 1 5 LibcoroRingBuffer)) = [(2, 6)] \<and>
   length (rb_elems (RequestProduce 2 6 (RequestProduce 1 5 LibcoroRingBuffer))) = kCap"
  using ring_buffer_cursors [OF produced_reaches]
  by (simp add: RequestProduce_def TryWakeConsumerFromBuffer_def LibcoroRingBuffer_def kCap_def)

text \<open>
  C28. Whatever calls are made, the semaphore has between zero and \<open>kMax\<close> free units, and an acquire
  waits only when none is free and only until the shutdown.
\<close>

theorem semaphore_bounds:
  assumes "spec_reaches semaphore_methods (int_args [])
    (\<lambda>n. if n \<in> {''try_acquire'', ''is_shutdown''} then TBool else if n \<in> {''value'', ''max''} then TPtrdiff
      else if n = ''acquire'' then TAcquireResult else TVoid) LibcoroSemaphore s"
  shows "0 \<le> available s \<and> available s \<le> kMax \<and> (sem_waiting s = [] \<or> available s = 0 \<and> \<not> shutdown s)"
proof -
  have "semaphore_inv s"
    by (rule semaphore_spec.reaches_inv [OF assms])
      (simp add: semaphore_inv_def LibcoroSemaphore_def kMax_def kInitial_def)
  then show ?thesis by (simp add: semaphore_inv_def)
qed

lemma acquired_reaches:
  "spec_reaches semaphore_methods (int_args [])
    (\<lambda>n. if n \<in> {''try_acquire'', ''is_shutdown''} then TBool else if n \<in> {''value'', ''max''} then TPtrdiff
      else if n = ''acquire'' then TAcquireResult else TVoid) LibcoroSemaphore
    (sem_RequestAcquire 2 (sem_RequestAcquire 1 LibcoroSemaphore))"
  by (rule reaches_request [OF reaches_request [OF spec_reaches.initial, where n = "''acquire''"],
      where n = "''acquire''"]) (simp_all add: semaphore_methods_def)

theorem semaphore_bounds_witness:
  "sem_waiting (sem_RequestAcquire 2 (sem_RequestAcquire 1 LibcoroSemaphore)) = [2] \<and>
   available (sem_RequestAcquire 2 (sem_RequestAcquire 1 LibcoroSemaphore)) = 0"
  using semaphore_bounds [OF acquired_reaches]
  by (simp add: sem_RequestAcquire_def LibcoroSemaphore_def kInitial_def)

text \<open>
  C26. Whatever calls are made, the shared mutex of libcoro never has a writer and a reader at the same
  time; here ownership counts from the request, before the follow-up.
\<close>

theorem libcoro_shared_mutex_exclusion:
  assumes "spec_reaches libcoro_shared_methods (int_args []) (\<lambda>_. TVoid) LibcoroSharedMutex s"
  shows "0 \<le> active_readers s \<and> (writer_active s \<longrightarrow> active_readers s = 0)"
proof -
  have "shared_mutex_inv s"
    by (rule libcoro_shared_spec.reaches_inv [OF assms]) (simp add: shared_mutex_inv_def LibcoroSharedMutex_def)
  then show ?thesis by (simp add: shared_mutex_inv_def)
qed

lemma handover_reaches:
  "spec_reaches libcoro_shared_methods (int_args []) (\<lambda>_. TVoid) LibcoroSharedMutex
    (snd (libcoro_UnlockShared (libcoro_shared_RequestLock 2 (libcoro_RequestLockShared 1 LibcoroSharedMutex))))"
  by (rule reaches_ordinary [OF reaches_request [OF reaches_request [OF spec_reaches.initial, where n = "''lock_shared''"],
      where n = "''lock''"], where n = "''unlock_shared''"]) (simp_all add: libcoro_shared_methods_def)

theorem libcoro_shared_mutex_exclusion_witness:
  "writer_active (snd (libcoro_UnlockShared (libcoro_shared_RequestLock 2 (libcoro_RequestLockShared 1 LibcoroSharedMutex)))) \<and>
   active_readers (snd (libcoro_UnlockShared (libcoro_shared_RequestLock 2 (libcoro_RequestLockShared 1 LibcoroSharedMutex)))) = 0"
  using libcoro_shared_mutex_exclusion [OF handover_reaches]
  by (simp add: libcoro_UnlockShared_def libcoro_shared_RequestLock_def libcoro_RequestLockShared_def
      libcoro_WakeNextWaiters_def LibcoroSharedMutex_def HasExclusiveWaiter_def Let_def)

end
