(* ===== verification/Dual_Stack_Split.thy ===== *)
theory Dual_Stack_Split
  imports Sequential_Specs "HOL-Library.AList_Mapping"
begin

text \<open>
  verifying/specs/dual_stack_split.h: a stack whose pop is split into a request, which returns a
  ticket, and a polled follow-up. It is a sequential specification with an assertion in \<open>Push\<close>; its
  invariant shows that the assertion never fails.
\<close>

section \<open>State and operations\<close>

text \<open>
  A ticket is its identifier: equality ignores the pointer, which the specification always leaves null.
\<close>

record dual_stack =
  deq :: "int list"
  pending_requests :: "int list"
  ticket_state :: "(int, int option) mapping"
  next_ticket :: int

definition DualStackSplit :: dual_stack where
  "DualStackSplit = \<lparr>deq = [], pending_requests = [], ticket_state = Mapping.empty, next_ticket = 1\<rparr>"

text \<open>\<open>operator[]\<close> of the ticket map inserts an empty ticket where there is none.\<close>

definition ticket_slot :: "dual_stack \<Rightarrow> int \<Rightarrow> int option" where
  "ticket_slot s i = (case Mapping.lookup (ticket_state s) i of None \<Rightarrow> None | Some slot \<Rightarrow> slot)"

definition split_Push :: "int \<Rightarrow> dual_stack \<Rightarrow> dual_stack res" where
  "split_Push v s =
     (if pending_requests s \<noteq> [] then
        let i = last (pending_requests s) in
        andThen (cpp_assert (ticket_slot s i = None)) (\<lambda>_.
          Ret (s\<lparr>pending_requests := butlast (pending_requests s),
                 ticket_state := Mapping.update i (Some v) (ticket_state s)\<rparr>))
      else Ret (s\<lparr>deq := deq s @ [v]\<rparr>))"

definition PopRequest :: "dual_stack \<Rightarrow> int \<times> dual_stack" where
  "PopRequest s =
     (let i = next_ticket s; s' = s\<lparr>next_ticket := next_ticket s + 1\<rparr> in
      (i,
       if deq s' \<noteq> [] then
         s'\<lparr>deq := butlast (deq s'), ticket_state := Mapping.update i (Some (last (deq s'))) (ticket_state s')\<rparr>
       else s'\<lparr>ticket_state := Mapping.update i None (ticket_state s'), pending_requests := pending_requests s' @ [i]\<rparr>))"

definition TryPopFollowUp :: "int \<Rightarrow> dual_stack \<Rightarrow> int \<times> dual_stack" where
  "TryPopFollowUp t s =
     (if t = 0 then (0, s)
      else case Mapping.lookup (ticket_state s) t of
        None \<Rightarrow> (0, s)
      | Some None \<Rightarrow> (0, s)
      | Some (Some v) \<Rightarrow> (v, s\<lparr>ticket_state := Mapping.delete t (ticket_state s)\<rparr>))"

fun arg_ticket :: "spec_args \<Rightarrow> int res" where
  "arg_ticket [ArgTicket t] = Ret t"
| "arg_ticket _ = Exn Undefined"

definition dual_stack_methods :: "(dual_stack, spec_args) method_map" where
  "dual_stack_methods =
     [''Push'' \<mapsto> (\<lambda>s args. andThen (arg_int args) (\<lambda>v. andThen (split_Push v s) (\<lambda>s'. Ret (void_v, s')))),
      ''PopRequest'' \<mapsto> (\<lambda>s _. case PopRequest s of (t, s') \<Rightarrow> Ret (wrap (AnyTicket t), s')),
      ''TryPopFollowUp'' \<mapsto> (\<lambda>s args. andThen (arg_ticket args) (\<lambda>t.
          case TryPopFollowUp t s of (v, s') \<Rightarrow> Ret (wrap (AnyInt v), s')))]"

definition split_mix :: "64 word \<Rightarrow> 64 word \<Rightarrow> 64 word" where
  "split_mix seed v = seed XOR (v + 0x9e3779b97f4a7c15 + push_bit 6 seed + drop_bit 2 seed)"

text \<open>The ticket map is ordered: the hash visits its keys in increasing order.\<close>

definition DualStackSplitHash :: "(int \<Rightarrow> 64 word) \<Rightarrow> dual_stack \<Rightarrow> 64 word" where
  "DualStackSplitHash hash_int r =
     (let h = foldl (\<lambda>h x. split_mix h (hash_int x)) 0 (deq r);
          h = foldl (\<lambda>h i. split_mix h (hash_int i)) h (pending_requests r);
          h = foldl (\<lambda>h k. case ticket_slot r k of
                 Some v \<Rightarrow> split_mix (split_mix h (hash_int k)) (hash_int v)
               | None \<Rightarrow> split_mix (split_mix h (hash_int k)) 0xDEADBEEF)
               h (sorted_list_of_set (Mapping.keys (ticket_state r)))
      in split_mix h (hash_int (next_ticket r)))"

definition DualStackSplitEquals :: "dual_stack \<Rightarrow> dual_stack \<Rightarrow> bool" where
  "DualStackSplitEquals lhs rhs \<longleftrightarrow>
     deq lhs = deq rhs \<and> pending_requests lhs = pending_requests rhs \<and>
     ticket_state lhs = ticket_state rhs \<and> next_ticket lhs = next_ticket rhs"

text \<open>
  Pending requests are distinct tickets without a value, tickets are handed out in increasing order,
  and values and pending requests never coexist.
\<close>

definition dual_stack_inv :: "dual_stack \<Rightarrow> bool" where
  "dual_stack_inv s \<longleftrightarrow>
     distinct (pending_requests s) \<and>
     (\<forall>i\<in>set (pending_requests s). Mapping.lookup (ticket_state s) i = Some None) \<and>
     (\<forall>i. next_ticket s \<le> i \<longrightarrow> Mapping.lookup (ticket_state s) i = None) \<and>
     (deq s = [] \<or> pending_requests s = [])"

section \<open>The contract holds\<close>

lemma lookup_update_entry: "Mapping.lookup (Mapping.update k v m) i = (if i = k then Some v else Mapping.lookup m i)"
  by (simp add: lookup_update')

lemma lookup_delete_entry: "Mapping.lookup (Mapping.delete k m) i = (if i = k then None else Mapping.lookup m i)"
  by transfer simp

lemma DualStackSplitEquals_eq: "DualStackSplitEquals = (=)"
  by (auto simp: fun_eq_iff DualStackSplitEquals_def)

lemma split_Push_inv:
  assumes "dual_stack_inv s"
  shows "\<exists>s'. split_Push v s = Ret s' \<and> dual_stack_inv s'"
proof (cases "pending_requests s" rule: rev_cases)
  case Nil
  then show ?thesis
    using assms by (simp add: split_Push_def dual_stack_inv_def)
next
  case (snoc ys i)
  then have i: "Mapping.lookup (ticket_state s) i = Some None" "i \<notin> set ys"
    using assms by (simp_all add: dual_stack_inv_def)
  moreover have "\<not> next_ticket s \<le> i"
    using assms i(1) unfolding dual_stack_inv_def by (metis option.distinct(1))
  ultimately have "i < next_ticket s"
    by simp
  then show ?thesis
    using assms snoc i by (auto simp: split_Push_def dual_stack_inv_def ticket_slot_def lookup_update_entry)
qed

lemma PopRequest_inv:
  assumes "dual_stack_inv s"
  shows "dual_stack_inv (snd (PopRequest s))"
proof -
  have "next_ticket s \<notin> set (pending_requests s)"
    using assms by (force simp: dual_stack_inv_def)
  then show ?thesis
    using assms by (auto simp: PopRequest_def dual_stack_inv_def Let_def lookup_update_entry)
qed

lemma TryPopFollowUp_inv:
  assumes "dual_stack_inv s"
  shows "dual_stack_inv (snd (TryPopFollowUp t s))"
  using assms by (auto simp: TryPopFollowUp_def dual_stack_inv_def lookup_delete_entry split: option.splits)

definition dual_stack_args :: "string \<Rightarrow> spec_args \<Rightarrow> bool" where
  "dual_stack_args n a \<longleftrightarrow>
     (n = ''Push'' \<longrightarrow> (\<exists>v. a = [ArgInt v])) \<and> (n = ''TryPopFollowUp'' \<longrightarrow> (\<exists>t. a = [ArgTicket t]))"

interpretation split_stack: sequential_spec dual_stack_methods dual_stack_inv DualStackSplitEquals dual_stack_args
  "\<lambda>n. if n = ''Push'' then TVoid else if n = ''PopRequest'' then TTicket else TInt"
proof unfold_locales
  fix n m a st
  assume *: "dual_stack_methods n = Some m" "dual_stack_inv st" "dual_stack_args n a"
  have push: "\<exists>s'. split_Push v st = Ret s' \<and> dual_stack_inv s'" for v
    by (rule split_Push_inv [OF *(2)])
  consider (push) v where "n = ''Push''" "a = [ArgInt v]" | (request) "n = ''PopRequest''"
    | (followup) t where "n = ''TryPopFollowUp''" "a = [ArgTicket t]"
    using * by (auto simp: dual_stack_methods_def dual_stack_args_def split: if_splits)
  then show "\<exists>v st'. m st a = Ret (v, st') \<and> dual_stack_inv st' \<and>
      result_of_type (if n = ''Push'' then TVoid else if n = ''PopRequest'' then TTicket else TInt) v"
  proof cases
    case (push v)
    then show ?thesis
      using * \<open>\<And>v. \<exists>s'. split_Push v st = Ret s' \<and> dual_stack_inv s'\<close> [of v]
      by (auto simp: dual_stack_methods_def)
  next
    case request
    then show ?thesis
      using * PopRequest_inv [OF *(2)] by (auto simp: dual_stack_methods_def split: prod.splits)
  next
    case (followup t)
    then show ?thesis
      using * TryPopFollowUp_inv [OF *(2), of t] by (auto simp: dual_stack_methods_def split: prod.splits)
  qed
qed (simp add: DualStackSplitEquals_eq)

text \<open>
  C29. A push never fails its assertion: on every state that keeps the invariant it returns and keeps
  it, hands the value to the newest pending request when there is one, and otherwise puts it on the stack.
\<close>

theorem split_push_total:
  assumes "dual_stack_inv s"
  shows "\<exists>s'. split_Push v s = Ret s' \<and> dual_stack_inv s' \<and>
    (if pending_requests s = [] then deq s' = deq s @ [v]
     else deq s' = deq s \<and> Mapping.lookup (ticket_state s') (last (pending_requests s)) = Some (Some v))"
  using split_Push_inv [OF assms, of v] by (auto simp: split_Push_def Let_def lookup_update_entry res_simps)

theorem split_push_total_witness:
  "\<exists>s'. split_Push 9 (snd (PopRequest DualStackSplit)) = Ret s' \<and>
    Mapping.lookup (ticket_state s') 1 = Some (Some 9)"
proof -
  have "dual_stack_inv (snd (PopRequest DualStackSplit))"
    by (rule PopRequest_inv) (simp add: dual_stack_inv_def DualStackSplit_def)
  from split_push_total [OF this, of 9] show ?thesis
    by (auto simp: PopRequest_def DualStackSplit_def Let_def)
qed

text \<open>
  C30. A pop request on an empty stack followed by a push and the follow-up of its ticket returns the
  pushed value; polling the ticket before the push, or a second time after it, returns zero.
\<close>

theorem split_pop_roundtrip:
  assumes "dual_stack_inv s" "deq s = []" "0 < next_ticket s"
  shows "case PopRequest s of (t, s1) \<Rightarrow>
    TryPopFollowUp t s1 = (0, s1) \<and>
    (\<exists>s2. split_Push v s1 = Ret s2 \<and> fst (TryPopFollowUp t s2) = v \<and>
       fst (TryPopFollowUp t (snd (TryPopFollowUp t s2))) = 0)"
  using assms
  by (simp add: PopRequest_def split_Push_def TryPopFollowUp_def ticket_slot_def Let_def lookup_update_entry lookup_delete_entry)

theorem split_pop_roundtrip_witness:
  "case PopRequest DualStackSplit of (t, s1) \<Rightarrow> \<exists>s2. split_Push 4 s1 = Ret s2 \<and> fst (TryPopFollowUp t s2) = 4"
  using split_pop_roundtrip [of DualStackSplit 4] by (auto simp: dual_stack_inv_def DualStackSplit_def split: prod.splits)

end
