(* ===== verification/Strategy_Verifier.thy ===== *)
theory Strategy_Verifier
  imports Workload_Policy History
begin

text \<open>
  Task verifiers (runtime/include/strategy_verifier.h): the policy that decides whether a strategy may
  start a method on a thread. \<open>ReservePolicyVerifier\<close> wraps a base verifier and enforces the workload
  policy of the specification; a base verifier is a record of its operations.
\<close>

section \<open>Base verifiers\<close>

record ('b, 'a) base_verifier =
  base_OnRoundStart :: "size_t \<Rightarrow> 'b \<Rightarrow> 'b"
  base_OnTaskStarted :: "string \<Rightarrow> size_t \<Rightarrow> int \<Rightarrow> 'b \<Rightarrow> 'b"
  base_VerifyStart :: "string \<Rightarrow> size_t \<Rightarrow> start_context \<Rightarrow> 'b \<Rightarrow> bool \<times> 'b"
  base_Verify :: "string \<Rightarrow> size_t \<Rightarrow> bool \<Rightarrow> 'b \<Rightarrow> (bool \<times> 'b) res"
  base_VerifyExisting :: "'a task \<Rightarrow> size_t \<Rightarrow> 'b \<Rightarrow> (bool \<times> 'b) res"
  base_OnFinished :: "'a task \<Rightarrow> size_t \<Rightarrow> 'b \<Rightarrow> 'b res"
  base_Reset :: "'b \<Rightarrow> 'b"

text \<open>
  \<open>DefaultStrategyTaskVerifier\<close> allows everything and keeps no state. Its methods are not virtual: a
  structure that derives from it and redefines some of them still runs the default \<open>VerifyExisting\<close>,
  which calls the default \<open>Verify\<close>.
\<close>

definition Default_Verify :: "string \<Rightarrow> size_t \<Rightarrow> bool \<Rightarrow> 'b \<Rightarrow> (bool \<times> 'b) res" where
  "Default_Verify name thread is_new b = Ret (True, b)"

definition Default_VerifyExisting :: "'a task \<Rightarrow> size_t \<Rightarrow> 'b \<Rightarrow> (bool \<times> 'b) res" where
  "Default_VerifyExisting t thread b = Default_Verify (task_name t) thread True b"

definition DefaultStrategyTaskVerifier :: "('b, 'a) base_verifier" where
  "DefaultStrategyTaskVerifier =
     \<lparr>base_OnRoundStart = (\<lambda>_ b. b), base_OnTaskStarted = (\<lambda>_ _ _ b. b),
      base_VerifyStart = (\<lambda>_ _ _ b. (True, b)), base_Verify = Default_Verify,
      base_VerifyExisting = Default_VerifyExisting, base_OnFinished = (\<lambda>_ _ b. Ret b),
      base_Reset = (\<lambda>b. b)\<rparr>"

section \<open>The reserve policy\<close>

record 'b reserve_verifier =
  base :: 'b
  started_by_method :: "string \<rightharpoonup> size_t"
  started_task_ids :: "int set"
  rv_threads :: size_t

definition OnRoundStart :: "('b, 'a) base_verifier \<Rightarrow> size_t \<Rightarrow> 'b reserve_verifier \<Rightarrow> 'b reserve_verifier" where
  "OnRoundStart B n v =
     v\<lparr>rv_threads := n, started_by_method := Map.empty, started_task_ids := {}, base := base_OnRoundStart B n (base v)\<rparr>"

definition count_of :: "(string \<rightharpoonup> size_t) \<Rightarrow> string \<Rightarrow> size_t" where
  "count_of m name = (case m name of None \<Rightarrow> 0 | Some n \<Rightarrow> n)"

definition OnTaskStarted :: "('b, 'a) base_verifier \<Rightarrow> string \<Rightarrow> size_t \<Rightarrow> int \<Rightarrow> 'b reserve_verifier \<Rightarrow> 'b reserve_verifier" where
  "OnTaskStarted B method thread task v =
     (if task \<in> started_task_ids v then v
      else v\<lparr>started_task_ids := insert task (started_task_ids v),
             base := base_OnTaskStarted B method thread task (base v),
             started_by_method := (started_by_method v)(method \<mapsto> count_of (started_by_method v) method + 1)\<rparr>)"

text \<open>The local functions of \<open>VerifyStart\<close>: counts as if the method had been started.\<close>

definition started_if :: "'b reserve_verifier \<Rightarrow> string \<Rightarrow> string \<Rightarrow> size_t" where
  "started_if v method name =
     (let val = count_of (started_by_method v) name in if name = method then val + 1 else val)"

definition active_if :: "start_context \<Rightarrow> string \<Rightarrow> string \<Rightarrow> size_t" where
  "active_if ctx method name =
     (let val = (case active_by_method ctx name of None \<Rightarrow> 0 | Some n \<Rightarrow> word_of_int n) in
      if name = method then val + 1 else val)"

definition blocked_now :: "start_context \<Rightarrow> string \<Rightarrow> size_t" where
  "blocked_now ctx name = (case blocked_by_method ctx name of None \<Rightarrow> 0 | Some n \<Rightarrow> word_of_int n)"

text \<open>The four stages of \<open>VerifyStart\<close>, one per group of rules.\<close>

definition max_active_ok :: "workload_policy \<Rightarrow> string \<Rightarrow> start_context \<Rightarrow> bool" where
  "max_active_ok pol method ctx \<longleftrightarrow>
     list_all (\<lambda>r. \<not> (ma_method r = method \<and> active_if ctx method method > max_active_count r)) (max_active pol)"

definition max_blocked_ok :: "workload_policy \<Rightarrow> string \<Rightarrow> start_context \<Rightarrow> bool" where
  "max_blocked_ok pol method ctx \<longleftrightarrow>
     list_all (\<lambda>r. \<not> (mb_method r = method \<and> blocked_now ctx method \<ge> max_blocked_count r)) (max_blocked pol)"

definition budget_rhs :: "(string \<Rightarrow> size_t) \<Rightarrow> size_t \<Rightarrow> prefix_budget_rule \<Rightarrow> size_t" where
  "budget_rhs count threads r =
     foldl (\<lambda>rhs pm. rhs + count pm) (initial_credit r + threads - pb_reserve_threads r) (pb_progress_methods r)"

definition prefix_budget_ok :: "workload_policy \<Rightarrow> string \<Rightarrow> start_context \<Rightarrow> 'b reserve_verifier \<Rightarrow> bool" where
  "prefix_budget_ok pol method ctx v \<longleftrightarrow>
     list_all (\<lambda>r. \<not> started_if v method (pb_wait_method r) > budget_rhs (started_if v method) (ctx_threads ctx) r)
       (prefix_budget pol)"

definition reserve_scan :: "start_context \<Rightarrow> reserve_rule list \<Rightarrow> string set \<times> size_t \<times> bool" where
  "reserve_scan ctx rs =
     foldl (\<lambda>(allowed, needed, triggered) r.
       if blocked_now ctx (wait_method r) = 0 then (allowed, needed, triggered)
       else (allowed \<union> set (progress_methods r), max needed (reserve_threads r), True)) ({}, 0, False) rs"

definition reserve_ok :: "workload_policy \<Rightarrow> string \<Rightarrow> start_context \<Rightarrow> bool" where
  "reserve_ok pol method ctx =
     (case reserve_scan ctx (reserve pol) of (allowed, needed, triggered) \<Rightarrow>
        if \<not> triggered then True
        else if free_threads ctx \<le> needed then
          if allowed = {} then True else method \<in> allowed
        else True)"

definition VerifyStart :: "workload_policy \<Rightarrow> ('b, 'a) base_verifier \<Rightarrow> string \<Rightarrow> size_t \<Rightarrow> start_context \<Rightarrow>
    'b reserve_verifier \<Rightarrow> bool \<times> 'b reserve_verifier" where
  "VerifyStart pol B method thread ctx v =
     (case base_VerifyStart B method thread ctx (base v) of (ok, b) \<Rightarrow>
        let v' = v\<lparr>base := b\<rparr> in
        if \<not> ok then (False, v')
        else if \<not> max_active_ok pol method ctx then (False, v')
        else if \<not> max_blocked_ok pol method ctx then (False, v')
        else if \<not> prefix_budget_ok pol method ctx v' then (False, v')
        else (reserve_ok pol method ctx, v'))"

text \<open>
  The operations that pass on to the base verifier. \<open>VerifyExisting\<close> uses the base's own when it has
  one, which every base in the repository inherits.
\<close>

definition Verify :: "('b, 'a) base_verifier \<Rightarrow> string \<Rightarrow> size_t \<Rightarrow> bool \<Rightarrow> 'b reserve_verifier \<Rightarrow>
    (bool \<times> 'b reserve_verifier) res" where
  "Verify B name thread is_new v =
     andThen (base_Verify B name thread is_new (base v)) (\<lambda>(ok, b). Ret (ok, v\<lparr>base := b\<rparr>))"

definition VerifyExisting :: "('b, 'a) base_verifier \<Rightarrow> 'a task \<Rightarrow> size_t \<Rightarrow> 'b reserve_verifier \<Rightarrow>
    (bool \<times> 'b reserve_verifier) res" where
  "VerifyExisting B t thread v =
     andThen (base_VerifyExisting B t thread (base v)) (\<lambda>(ok, b). Ret (ok, v\<lparr>base := b\<rparr>))"

definition OnFinished :: "('b, 'a) base_verifier \<Rightarrow> 'a task \<Rightarrow> size_t \<Rightarrow> 'b reserve_verifier \<Rightarrow> 'b reserve_verifier res" where
  "OnFinished B t thread v = andThen (base_OnFinished B t thread (base v)) (\<lambda>b. Ret (v\<lparr>base := b\<rparr>))"

definition Reset :: "('b, 'a) base_verifier \<Rightarrow> 'b reserve_verifier \<Rightarrow> 'b reserve_verifier" where
  "Reset B v = v\<lparr>started_by_method := Map.empty, started_task_ids := {}, base := base_Reset B (base v)\<rparr>"

definition add_unique :: "string list \<Rightarrow> string list \<Rightarrow> string list" where
  "add_unique out methods = foldl (\<lambda>out name. if name \<in> set out then out else out @ [name]) out methods"

definition rule_progress :: "('r \<Rightarrow> string) \<Rightarrow> ('r \<Rightarrow> string list) \<Rightarrow> string \<Rightarrow> string list \<Rightarrow> 'r list \<Rightarrow> string list" where
  "rule_progress wait progress method out rs =
     foldl (\<lambda>out r. if wait r = method then add_unique out (progress r) else out) out rs"

definition GetDeadlockProgressMethods :: "workload_policy \<Rightarrow> string \<Rightarrow> string list" where
  "GetDeadlockProgressMethods pol method =
     (let from_explicit_rules = rule_progress rb_wait_method rb_progress_methods method [] (rollback pol)
      in if from_explicit_rules \<noteq> [] then from_explicit_rules
      else let fallback = rule_progress wait_method progress_methods method [] (reserve pol)
      in rule_progress pb_wait_method pb_progress_methods method fallback (prefix_budget pol))"

section \<open>The sequence of starts\<close>

text \<open>
  How a strategy drives the verifier while it generates a round (\<open>NextVerifiedFor\<close>, scheduler.h): every new task
  first passes \<open>VerifyStart\<close> in a context with the round's number of threads and then \<open>Verify\<close>, and is recorded. A
  method that \<open>VerifyStart\<close> or \<open>Verify\<close> refuses is not started; tasks that exist are verified and finish in between.
\<close>

inductive generated :: "workload_policy \<Rightarrow> ('b, 'a) base_verifier \<Rightarrow> 'b reserve_verifier \<Rightarrow> bool"
  for pol :: workload_policy and B :: "('b, 'a) base_verifier" where
  round_start: "generated pol B (OnRoundStart B n v)"
| start: "generated pol B v \<Longrightarrow> ctx_threads ctx = rv_threads v \<Longrightarrow>
    VerifyStart pol B method thread ctx v = (True, v') \<Longrightarrow> Verify B method thread True v' = Ret (True, v'') \<Longrightarrow>
    generated pol B (OnTaskStarted B method thread task v'')"
| asked: "generated pol B v \<Longrightarrow> VerifyStart pol B method thread ctx v = (ok, v') \<Longrightarrow> generated pol B v'"
| existing: "generated pol B v \<Longrightarrow> VerifyExisting B t thread v = Ret (ok, v') \<Longrightarrow> generated pol B v'"
| verified: "generated pol B v \<Longrightarrow> Verify B name thread is_new v = Ret (ok, v') \<Longrightarrow> generated pol B v'"
| finished: "generated pol B v \<Longrightarrow> OnFinished B t thread v = Ret v' \<Longrightarrow> generated pol B v'"

definition budget_kept :: "workload_policy \<Rightarrow> 'b reserve_verifier \<Rightarrow> bool" where
  "budget_kept pol v \<longleftrightarrow>
     (\<forall>r\<in>set (prefix_budget pol).
        count_of (started_by_method v) (pb_wait_method r) \<le>
        budget_rhs (count_of (started_by_method v)) (rv_threads v) r)"

section \<open>The prefix budget is an invariant\<close>

lemma started_if_recorded:
  assumes "task \<notin> started_task_ids v"
  shows "count_of (started_by_method (OnTaskStarted B method thread task v)) = started_if v method"
  using assms by (auto simp: fun_eq_iff OnTaskStarted_def started_if_def count_of_def Let_def split: option.splits)

lemma VerifyStart_True:
  assumes "VerifyStart pol B method thread ctx v = (True, v')"
  shows "prefix_budget_ok pol method ctx v'" "max_active_ok pol method ctx" "max_blocked_ok pol method ctx"
    "reserve_ok pol method ctx"
  using assms by (auto simp: VerifyStart_def Let_def split: prod.splits if_splits)

lemma VerifyStart_keeps:
  assumes "VerifyStart pol B method thread ctx v = (ok, v')"
  shows "started_by_method v' = started_by_method v" "rv_threads v' = rv_threads v" "started_task_ids v' = started_task_ids v"
  using assms by (auto simp: VerifyStart_def Let_def split: prod.splits if_splits)

lemma Verify_keeps:
  assumes "Verify B name thread is_new v = Ret (ok, v')"
  shows "started_by_method v' = started_by_method v" "rv_threads v' = rv_threads v" "started_task_ids v' = started_task_ids v"
  using assms by (auto simp: Verify_def res_simps)

lemma generated_budget: "generated pol B v \<Longrightarrow> budget_kept pol v"
proof (induction rule: generated.induct)
  case (round_start n v)
  then show ?case by (simp add: budget_kept_def OnRoundStart_def count_of_def)
next
  case (start v ctx name thread v' v'' task)
  note keeps = VerifyStart_keeps [OF start.hyps(3)] Verify_keeps [OF start.hyps(4)]
  show ?case
  proof (cases "task \<in> started_task_ids v''")
    case True
    then show ?thesis
      using start.IH keeps by (simp add: OnTaskStarted_def budget_kept_def)
  next
    case False
    have "rv_threads (OnTaskStarted B name thread task v'') = ctx_threads ctx"
      using keeps start.hyps(2) by (simp add: OnTaskStarted_def)
    moreover have "started_if v'' = started_if v'"
      using keeps by (simp add: started_if_def [abs_def])
    ultimately show ?thesis
      using VerifyStart_True(1) [OF start.hyps(3)]
      unfolding budget_kept_def prefix_budget_ok_def list_all_iff started_if_recorded [OF False] linorder_not_less
      by simp
  qed
next
  case (asked v name thread ctx ok v')
  then show ?case
    using VerifyStart_keeps [OF asked.hyps(2)] by (simp add: budget_kept_def)
qed (auto simp: budget_kept_def VerifyExisting_def Verify_def OnFinished_def res_simps)

text \<open>
  The bound in natural numbers: when the reserve does not exceed the credit and the threads together,
  wrapping the right-hand side can only make it smaller.
\<close>

lemma foldl_add_mod:
  "unat (foldl (\<lambda>rhs pm. rhs + count pm) (a :: size_t) pms) = (unat a + (\<Sum>pm\<leftarrow>pms. unat (count pm))) mod 2 ^ 64"
proof (induction pms arbitrary: a)
  case Nil
  then show ?case using unsigned_less [of a, where 'a = nat] by simp
next
  case (Cons pm pms)
  have step: "unat (a + count pm) = (unat a + unat (count pm)) mod 2 ^ 64"
    by (simp add: unat_word_ariths(1))
  show ?case
    unfolding foldl.simps Cons.IH step mod_add_left_eq list.map sum_list.Cons add.assoc ..
qed

lemma budget_rhs_le:
  assumes "unat (pb_reserve_threads r) \<le> unat (initial_credit r) + unat threads"
  shows "unat (budget_rhs count threads r) \<le>
    unat (initial_credit r) + unat threads - unat (pb_reserve_threads r) + (\<Sum>pm\<leftarrow>pb_progress_methods r. unat (count pm))"
proof -
  let ?c = "unat (initial_credit r)" and ?t = "unat threads" and ?k = "unat (pb_reserve_threads r)"
  have "initial_credit r + threads - pb_reserve_threads r = of_nat (?c + ?t - ?k)"
    using assms by (simp add: of_nat_diff)
  then have "unat (initial_credit r + threads - pb_reserve_threads r) = (?c + ?t - ?k) mod 2 ^ 64"
    by (simp only: unat_of_nat) simp
  then have "unat (budget_rhs count threads r) =
      (?c + ?t - ?k + (\<Sum>pm\<leftarrow>pb_progress_methods r. unat (count pm))) mod 2 ^ 64"
    unfolding budget_rhs_def foldl_add_mod by (simp only: mod_add_left_eq)
  then show ?thesis by (simp only: mod_less_eq_dividend)
qed

section \<open>Reserved threads\<close>

lemma reserve_scan_step:
  "foldl (\<lambda>(allowed, needed, triggered) r.
     if blocked_now ctx (wait_method r) = 0 then (allowed, needed, triggered)
     else (allowed \<union> set (progress_methods r), max needed (reserve_threads r), True)) (A, n, t) rs =
   (A \<union> (\<Union>r\<in>{r \<in> set rs. blocked_now ctx (wait_method r) \<noteq> 0}. set (progress_methods r)),
    foldl max n (map reserve_threads (filter (\<lambda>r. blocked_now ctx (wait_method r) \<noteq> 0) rs)),
    t \<or> (\<exists>r\<in>set rs. blocked_now ctx (wait_method r) \<noteq> 0))"
  by (induction rs arbitrary: A n t) auto

lemma foldl_max_ge: "n \<le> foldl max n xs" "x \<in> set xs \<Longrightarrow> x \<le> foldl max n xs" for x :: size_t
proof -
  have "n \<le> foldl max n xs \<and> (\<forall>x\<in>set xs. x \<le> foldl max n xs)"
  proof (induction xs arbitrary: n)
    case (Cons a xs)
    from Cons.IH [of "max n a"] show ?case by simp
  qed simp
  then show "n \<le> foldl max n xs" "x \<in> set xs \<Longrightarrow> x \<le> foldl max n xs" by auto
qed

text \<open>When a triggered rule asks for at least as many threads as are free, the methods that may still start.\<close>

lemma reserved_start:
  assumes "r \<in> set (reserve pol)" "blocked_now ctx (wait_method r) \<noteq> 0" "free_threads ctx \<le> reserve_threads r"
  shows "reserve_ok pol method ctx \<longleftrightarrow>
    (\<exists>r'\<in>set (reserve pol). blocked_now ctx (wait_method r') \<noteq> 0 \<and> method \<in> set (progress_methods r')) \<or>
    (\<forall>r'\<in>set (reserve pol). blocked_now ctx (wait_method r') \<noteq> 0 \<longrightarrow> progress_methods r' = [])"
proof -
  let ?hit = "\<lambda>r. blocked_now ctx (wait_method r) \<noteq> 0"
  let ?allowed = "\<Union>r\<in>{r \<in> set (reserve pol). ?hit r}. set (progress_methods r)"
  have "reserve_threads r \<le> foldl max 0 (map reserve_threads (filter ?hit (reserve pol)))"
    by (rule foldl_max_ge) (use assms(1,2) in auto)
  then have "free_threads ctx \<le> foldl max 0 (map reserve_threads (filter ?hit (reserve pol)))"
    using assms(3) by (rule order_trans [rotated])
  then have "reserve_ok pol method ctx \<longleftrightarrow> ?allowed = {} \<or> method \<in> ?allowed"
    using assms(1,2) by (auto simp: reserve_ok_def reserve_scan_def reserve_scan_step)
  then show ?thesis by auto
qed

lemma VerifyStart_stages:
  "fst (VerifyStart pol B method thread ctx v) \<longleftrightarrow>
     fst (base_VerifyStart B method thread ctx (base v)) \<and> max_active_ok pol method ctx \<and> max_blocked_ok pol method ctx \<and>
     prefix_budget_ok pol method ctx v \<and> reserve_ok pol method ctx"
proof -
  have "prefix_budget_ok pol method ctx (v\<lparr>base := b\<rparr>) = prefix_budget_ok pol method ctx v" for b
    by (simp add: prefix_budget_ok_def started_if_def [abs_def])
  then show ?thesis by (auto simp: VerifyStart_def Let_def split: prod.splits)
qed

section \<open>Progress methods\<close>

lemma add_unique_set [simp]: "set (add_unique out ms) = set out \<union> set ms"
  unfolding add_unique_def by (induction ms arbitrary: out) auto

lemma add_unique_distinct: "distinct out \<Longrightarrow> distinct (add_unique out ms)"
  unfolding add_unique_def by (induction ms arbitrary: out) auto

definition progress_of :: "('r \<Rightarrow> string) \<Rightarrow> ('r \<Rightarrow> string list) \<Rightarrow> string \<Rightarrow> 'r list \<Rightarrow> string set" where
  "progress_of wait progress method rs = (\<Union>r\<in>{r \<in> set rs. wait r = method}. set (progress r))"

lemma rule_progress_set: "set (rule_progress f g m out rs) = set out \<union> progress_of f g m rs"
  unfolding rule_progress_def progress_of_def by (induction rs arbitrary: out) auto

lemma rule_progress_distinct: "distinct out \<Longrightarrow> distinct (rule_progress f g m out rs)"
  unfolding rule_progress_def by (induction rs arbitrary: out) (auto simp: add_unique_distinct)

lemma rule_progress_Nil: "rule_progress f g m [] rs = [] \<longleftrightarrow> progress_of f g m rs = {}"
  using rule_progress_set [of f g m "[]" rs] by (metis set_empty sup_bot_left)

section \<open>Properties\<close>

text \<open>
  C18. While a round is generated, the number of started wait operations never exceeds the initial
  credit plus the threads that are not reserved plus the number of started progress operations, for
  every prefix budget rule whose reserve does not exceed the credit and the threads together.
\<close>

theorem prefix_budget_invariant:
  assumes "generated pol B v" "r \<in> set (prefix_budget pol)"
    "unat (pb_reserve_threads r) \<le> unat (initial_credit r) + unat (rv_threads v)"
  shows "unat (count_of (started_by_method v) (pb_wait_method r)) \<le>
    unat (initial_credit r) + unat (rv_threads v) - unat (pb_reserve_threads r) +
    (\<Sum>pm\<leftarrow>pb_progress_methods r. unat (count_of (started_by_method v) pm))"
proof -
  have "count_of (started_by_method v) (pb_wait_method r) \<le> budget_rhs (count_of (started_by_method v)) (rv_threads v) r"
    using generated_budget [OF assms(1)] assms(2) by (simp add: budget_kept_def)
  then show ?thesis
    using budget_rhs_le [OF assms(3)] unfolding word_le_nat_alt by (rule order_trans)
qed

definition example_policy :: workload_policy where
  "example_policy = WorkloadPolicy\<lparr>prefix_budget := [budget_one ''wait'' [''set''] 0]\<rparr>"

definition example_context :: start_context where
  "example_context = \<lparr>ctx_threads = 2, free_threads = 2, active_by_method = Map.empty, blocked_by_method = Map.empty\<rparr>"

definition example_start :: "unit reserve_verifier" where
  "example_start = OnRoundStart (DefaultStrategyTaskVerifier :: (unit, unit) base_verifier) 2
     \<lparr>base = (), started_by_method = Map.empty, started_task_ids = {}, rv_threads = 0\<rparr>"

definition example_started :: "unit reserve_verifier" where
  "example_started = OnTaskStarted (DefaultStrategyTaskVerifier :: (unit, unit) base_verifier) ''wait'' 0 1 example_start"

lemmas verifier_eval = OnRoundStart_def OnTaskStarted_def VerifyStart_def DefaultStrategyTaskVerifier_def
  max_active_ok_def max_blocked_ok_def prefix_budget_ok_def budget_rhs_def reserve_ok_def reserve_scan_def
  started_if_def count_of_def WorkloadPolicy_def budget_one_def Let_def

lemma example_generated:
  "generated example_policy (DefaultStrategyTaskVerifier :: (unit, unit) base_verifier) example_started"
  unfolding example_started_def
  by (rule generated.start [OF generated.round_start [where n = 2, folded example_start_def],
      where ctx = example_context and v' = example_start])
    (simp_all add: Verify_def Default_Verify_def example_start_def example_policy_def example_context_def verifier_eval)

theorem prefix_budget_invariant_witness:
  "unat (count_of (started_by_method example_started) ''wait'') = 1 \<and>
   unat (count_of (started_by_method example_started) ''wait'') \<le> 1"
  using prefix_budget_invariant [OF example_generated, of "budget_one ''wait'' [''set''] 0"]
  by (simp add: example_started_def example_start_def example_policy_def verifier_eval)

text \<open>
  C19. When an operation of a wait method is blocked and no more threads are free than its rule reserves, a method may
  start exactly when the base verifier, the limits and the prefix budget allow it and it is a progress method of a
  triggered rule. The only exception is that no triggered rule names a progress method: then the reserve refuses
  nothing.
\<close>

theorem reserved_threads_make_progress:
  assumes "r \<in> set (reserve pol)" "blocked_now ctx (wait_method r) \<noteq> 0" "free_threads ctx \<le> reserve_threads r"
  shows "fst (VerifyStart pol B method thread ctx v) \<longleftrightarrow>
    fst (base_VerifyStart B method thread ctx (base v)) \<and> max_active_ok pol method ctx \<and> max_blocked_ok pol method ctx \<and>
    prefix_budget_ok pol method ctx v \<and>
    ((\<exists>r'\<in>set (reserve pol). blocked_now ctx (wait_method r') \<noteq> 0 \<and> method \<in> set (progress_methods r')) \<or>
     (\<forall>r'\<in>set (reserve pol). blocked_now ctx (wait_method r') \<noteq> 0 \<longrightarrow> progress_methods r' = []))"
  unfolding VerifyStart_stages reserved_start [OF assms] ..

definition blocked_context :: start_context where
  "blocked_context = \<lparr>ctx_threads = 2, free_threads = 1, active_by_method = [''lock'' \<mapsto> 1], blocked_by_method = [''lock'' \<mapsto> 1]\<rparr>"

definition lock_policy :: workload_policy where
  "lock_policy = WorkloadPolicy\<lparr>reserve := [reserve_one ''lock'' [''unlock'']]\<rparr>"

definition silent_policy :: workload_policy where
  "silent_policy = WorkloadPolicy\<lparr>reserve := [reserve_one ''lock'' []]\<rparr>"

theorem reserved_threads_make_progress_witness:
  "fst (VerifyStart lock_policy (DefaultStrategyTaskVerifier :: (unit, unit) base_verifier) ''unlock'' 1 blocked_context example_start) \<and>
   \<not> fst (VerifyStart lock_policy (DefaultStrategyTaskVerifier :: (unit, unit) base_verifier) ''lock'' 1 blocked_context example_start) \<and>
   fst (VerifyStart silent_policy (DefaultStrategyTaskVerifier :: (unit, unit) base_verifier) ''lock'' 1 blocked_context example_start)"
proof -
  note eval = blocked_context_def example_start_def reserve_one_def blocked_now_def WorkloadPolicy_def max_active_ok_def
    max_blocked_ok_def prefix_budget_ok_def DefaultStrategyTaskVerifier_def
  have lock: "fst (VerifyStart lock_policy (DefaultStrategyTaskVerifier :: (unit, unit) base_verifier) name 1 blocked_context example_start)
      \<longleftrightarrow> name = ''unlock''" for name
    by (subst reserved_threads_make_progress [of "reserve_one ''lock'' [''unlock'']"]) (simp_all add: lock_policy_def eval)
  have silent: "fst (VerifyStart silent_policy (DefaultStrategyTaskVerifier :: (unit, unit) base_verifier) ''lock'' 1 blocked_context
      example_start)"
    by (subst reserved_threads_make_progress [of "reserve_one ''lock'' []"]) (simp_all add: silent_policy_def eval)
  show ?thesis by (simp add: lock silent)
qed

text \<open>
  C36. The progress methods offered to break a deadlock are those of the rollback rules of the blocked
  method, or, when these name none, those of its reserve and prefix budget rules; none is listed twice.
\<close>

theorem deadlock_progress_methods:
  "distinct (GetDeadlockProgressMethods pol method) \<and>
   set (GetDeadlockProgressMethods pol method) =
     (if progress_of rb_wait_method rb_progress_methods method (rollback pol) \<noteq> {}
      then progress_of rb_wait_method rb_progress_methods method (rollback pol)
      else progress_of wait_method progress_methods method (reserve pol) \<union>
           progress_of pb_wait_method pb_progress_methods method (prefix_budget pol))"
  by (simp add: GetDeadlockProgressMethods_def Let_def rule_progress_Nil rule_progress_distinct rule_progress_set)

end
