(* ===== verification/Task_Verifiers.thy ===== *)
theory Task_Verifiers
  imports Strategy_Verifier
begin

text \<open>
  The verifiers that the targets of the repository plug into a strategy
  (verifying/blocking/verifiers, verifying/dual/folly/verifiers, \<open>OnlyOneTaskPerThreadVerifier\<close> of
  runtime/include/scheduler.h). They restrict which method a thread may start, so that a thread
  unlocks only what it holds. The thread-status verifiers share a contract, a locale that shows that
  every thread follows the acquire and release protocol; it is interpreted on each of them.
\<close>

section \<open>Verifiers by thread status\<close>

type_synonym status_map = "size_t \<rightharpoonup> size_t"

definition ensure_status :: "size_t \<Rightarrow> status_map \<Rightarrow> status_map" where
  "ensure_status thread status = (if status thread = None then status(thread \<mapsto> 0) else status)"

definition status_of :: "status_map \<Rightarrow> size_t \<Rightarrow> size_t" where
  "status_of status thread = (case status thread of None \<Rightarrow> 0 | Some s \<Rightarrow> s)"

subsection \<open>Mutex\<close>

definition MutexVerifier_Verify :: "string \<Rightarrow> size_t \<Rightarrow> bool \<Rightarrow> status_map \<Rightarrow> (bool \<times> status_map) res" where
  "MutexVerifier_Verify name thread is_new status =
     (let status = ensure_status thread status in
      if name = ''Lock'' then Ret (status_of status thread = 0, status)
      else if name = ''Unlock'' then Ret (status_of status thread = 1, status)
      else Exn AssertionFailure)"

definition MutexVerifier_OnFinished :: "'a task \<Rightarrow> size_t \<Rightarrow> status_map \<Rightarrow> status_map res" where
  "MutexVerifier_OnFinished t thread status =
     (if task_name t = ''Lock'' then Ret (status(thread \<mapsto> 1))
      else if task_name t = ''Unlock'' then Ret (status(thread \<mapsto> 0))
      else Ret status)"

definition MutexVerifier_Reset :: "status_map \<Rightarrow> status_map" where
  "MutexVerifier_Reset status = Map.empty"

subsection \<open>Shared mutex\<close>

definition SharedMutexVerifier_Verify :: "string \<Rightarrow> size_t \<Rightarrow> bool \<Rightarrow> status_map \<Rightarrow> (bool \<times> status_map) res" where
  "SharedMutexVerifier_Verify name thread is_new status =
     (let status = ensure_status thread status in
      if name = ''lock'' then Ret (status_of status thread = 0, status)
      else if name = ''unlock'' then Ret (status_of status thread = 1, status)
      else if name = ''lock_shared'' then Ret (status_of status thread = 0, status)
      else if name = ''unlock_shared'' then Ret (status_of status thread = 4, status)
      else Exn AssertionFailure)"

definition SharedMutexVerifier_OnFinished :: "'a task \<Rightarrow> size_t \<Rightarrow> status_map \<Rightarrow> status_map res" where
  "SharedMutexVerifier_OnFinished t thread status =
     (if task_name t = ''lock'' then Ret (status(thread \<mapsto> 1))
      else if task_name t = ''unlock'' then Ret (status(thread \<mapsto> 0))
      else if task_name t = ''lock_shared'' then Ret (status(thread \<mapsto> 4))
      else if task_name t = ''unlock_shared'' then Ret (status(thread \<mapsto> 0))
      else Exn AssertionFailure)"

definition SharedMutexVerifier_Reset :: "status_map \<Rightarrow> status_map" where
  "SharedMutexVerifier_Reset status = Map.empty"

definition SharedMutexVerifier_GetDeadlockProgressMethods :: "string \<Rightarrow> string list" where
  "SharedMutexVerifier_GetDeadlockProgressMethods name =
     (if name = ''lock'' \<or> name = ''lock_shared'' then [''unlock'', ''unlock_shared''] else [])"

subsection \<open>Shared mutex of libcoro\<close>

definition LibcoroSharedMutexVerifier_Verify :: "string \<Rightarrow> size_t \<Rightarrow> bool \<Rightarrow> status_map \<Rightarrow> (bool \<times> status_map) res" where
  "LibcoroSharedMutexVerifier_Verify name thread is_new status =
     (let status = ensure_status thread status in
      if name = ''lock'' then Ret (status_of status thread = 0, status)
      else if name = ''lock_shared'' then Ret (status_of status thread = 0, status)
      else if name = ''unlock'' then Ret (status_of status thread = 1, status)
      else if name = ''unlock_shared'' then Ret (status_of status thread = 2, status)
      else Exn AssertionFailure)"

definition LibcoroSharedMutexVerifier_OnFinished :: "'a task \<Rightarrow> size_t \<Rightarrow> status_map \<Rightarrow> status_map res" where
  "LibcoroSharedMutexVerifier_OnFinished t thread status =
     (if task_name t = ''lock'' then Ret (if task_returned t then status(thread \<mapsto> 1) else status)
      else if task_name t = ''lock_shared'' then Ret (if task_returned t then status(thread \<mapsto> 2) else status)
      else if task_name t = ''unlock'' then Ret (status(thread \<mapsto> 0))
      else if task_name t = ''unlock_shared'' then Ret (status(thread \<mapsto> 0))
      else Exn AssertionFailure)"

definition LibcoroSharedMutexVerifier_Reset :: "status_map \<Rightarrow> status_map" where
  "LibcoroSharedMutexVerifier_Reset status = Map.empty"

section \<open>Buffered channel\<close>

record channel_verifier =
  senders :: size_t
  receivers :: size_t
  channel_size :: size_t

definition BufferedChannelVerifier :: channel_verifier where
  "BufferedChannelVerifier = \<lparr>senders = 0, receivers = 0, channel_size = 0\<rparr>"

definition BufferedChannelVerifier_Verify :: "string \<Rightarrow> size_t \<Rightarrow> bool \<Rightarrow> channel_verifier \<Rightarrow> (bool \<times> channel_verifier) res" where
  "BufferedChannelVerifier_Verify name thread is_new v =
     (if name = ''Send'' then
        if senders v = 0 then Ret (True, v\<lparr>senders := senders v + 1, channel_size := channel_size v + 1\<rparr>)
        else Ret (False, v)
      else if name = ''Recv'' then
        if receivers v = 0 then
          Ret (True, v\<lparr>receivers := receivers v + 1,
                       channel_size := (if channel_size v > 0 then channel_size v - 1 else channel_size v)\<rparr>)
        else Ret (False, v)
      else Exn AssertionFailure)"

definition BufferedChannelVerifier_OnFinished :: "'a task \<Rightarrow> size_t \<Rightarrow> channel_verifier \<Rightarrow> channel_verifier res" where
  "BufferedChannelVerifier_OnFinished t thread v =
     (if task_name t = ''Send'' then Ret (v\<lparr>senders := senders v - 1\<rparr>)
      else if task_name t = ''Recv'' then Ret (v\<lparr>receivers := receivers v - 1\<rparr>)
      else Exn AssertionFailure)"

definition BufferedChannelVerifier_Reset :: "channel_verifier \<Rightarrow> channel_verifier" where
  "BufferedChannelVerifier_Reset v = v\<lparr>senders := 0, receivers := 0, channel_size := 0\<rparr>"

section \<open>One task per thread\<close>

definition OnlyOneTask_Verify :: "string \<Rightarrow> size_t \<Rightarrow> bool \<Rightarrow> bool \<Rightarrow> bool \<times> bool" where
  "OnlyOneTask_Verify name thread is_new has_started =
     (if \<not> is_new then (True, has_started)
      else if thread \<noteq> 0 \<or> has_started then (False, has_started)
      else (True, True))"

definition OnlyOneTask_OnFinished :: "'a task \<Rightarrow> size_t \<Rightarrow> bool \<Rightarrow> bool" where
  "OnlyOneTask_OnFinished t thread has_started = has_started"

definition OnlyOneTask_Reset :: "bool \<Rightarrow> bool" where
  "OnlyOneTask_Reset has_started = False"

section \<open>Verifiers by owner\<close>

text \<open>
  The base verifiers of the coroutine mutexes keep the owning thread. They derive from
  \<open>DefaultStrategyTaskVerifier\<close> and redefine \<open>Verify\<close> and \<open>OnFinished\<close> only.
\<close>

definition IsOwner :: "size_t option \<Rightarrow> size_t \<Rightarrow> bool" where
  "IsOwner owner thread \<longleftrightarrow> owner = Some thread"

definition ret_bool :: "'a task \<Rightarrow> bool res" where
  "ret_bool t = andThen (GetRetVal t) (\<lambda>w. andThen (GetValue TBool w) (\<lambda>v. Ret (v = AnyBool True)))"

definition LibcoroMutex_Verify :: "string \<Rightarrow> size_t \<Rightarrow> bool \<Rightarrow> size_t option \<Rightarrow> (bool \<times> size_t option) res" where
  "LibcoroMutex_Verify name thread is_new owner =
     (if name = ''lock'' \<or> name = ''try_lock'' then Ret (\<not> IsOwner owner thread, owner)
      else if name = ''unlock'' then Ret (IsOwner owner thread, owner)
      else Exn AssertionFailure)"

definition LibcoroMutex_OnFinished :: "'a task \<Rightarrow> size_t \<Rightarrow> size_t option \<Rightarrow> size_t option res" where
  "LibcoroMutex_OnFinished t thread owner =
     (if task_name t = ''lock'' then Ret (if task_returned t then Some thread else owner)
      else if task_name t = ''try_lock'' then andThen (ret_bool t) (\<lambda>ok. Ret (if ok then Some thread else owner))
      else if task_name t = ''unlock'' then Ret (if IsOwner owner thread then None else owner)
      else Exn AssertionFailure)"

definition LibcoroMutexVerifierBase :: "(size_t option, 'a) base_verifier" where
  "LibcoroMutexVerifierBase = DefaultStrategyTaskVerifier\<lparr>
     base_Verify := LibcoroMutex_Verify, base_OnFinished := LibcoroMutex_OnFinished\<rparr>"

definition FollyCoroMutex_Verify :: "string \<Rightarrow> size_t \<Rightarrow> bool \<Rightarrow> size_t option \<Rightarrow> (bool \<times> size_t option) res" where
  "FollyCoroMutex_Verify name thread is_new owner =
     (if name = ''lock'' \<or> name = ''try_lock'' then Ret (\<not> IsOwner owner thread, owner)
      else if name = ''unlock'' then Ret (IsOwner owner thread, owner)
      else Exn AssertionFailure)"

definition FollyCoroMutex_OnFinished :: "'a task \<Rightarrow> size_t \<Rightarrow> size_t option \<Rightarrow> size_t option res" where
  "FollyCoroMutex_OnFinished t thread owner =
     (if task_name t = ''lock'' then Ret (if task_returned t then Some thread else owner)
      else if task_name t = ''try_lock'' then andThen (ret_bool t) (\<lambda>ok. Ret (if ok then Some thread else owner))
      else if task_name t = ''unlock'' then Ret (if IsOwner owner thread then None else owner)
      else Exn AssertionFailure)"

definition FollyCoroMutexVerifierBase :: "(size_t option, 'a) base_verifier" where
  "FollyCoroMutexVerifierBase = DefaultStrategyTaskVerifier\<lparr>
     base_Verify := FollyCoroMutex_Verify, base_OnFinished := FollyCoroMutex_OnFinished\<rparr>"

record folly_shared_verifier =
  exclusive_owner :: "size_t option"
  shared_counts :: "int list"

definition EnsureThread :: "size_t \<Rightarrow> folly_shared_verifier \<Rightarrow> folly_shared_verifier" where
  "EnsureThread thread v =
     (if unat thread \<ge> length (shared_counts v) then
        v\<lparr>shared_counts := shared_counts v @ replicate (unat (thread + 1) - length (shared_counts v)) 0\<rparr>
      else v)"

definition IsExclusiveOwner :: "folly_shared_verifier \<Rightarrow> size_t \<Rightarrow> bool" where
  "IsExclusiveOwner v thread \<longleftrightarrow> exclusive_owner v = Some thread"

definition shared_count :: "folly_shared_verifier \<Rightarrow> size_t \<Rightarrow> int res" where
  "shared_count v thread =
     (if unat thread < length (shared_counts v) then Ret (shared_counts v ! unat thread) else Exn Undefined)"

definition add_shared :: "int \<Rightarrow> size_t \<Rightarrow> folly_shared_verifier \<Rightarrow> folly_shared_verifier res" where
  "add_shared d thread v =
     andThen (shared_count v thread) (\<lambda>n. Ret (v\<lparr>shared_counts := (shared_counts v)[unat thread := n + d]\<rparr>))"

definition FollyShared_Verify :: "string \<Rightarrow> size_t \<Rightarrow> bool \<Rightarrow> folly_shared_verifier \<Rightarrow> (bool \<times> folly_shared_verifier) res" where
  "FollyShared_Verify name thread is_new v =
     (let v = EnsureThread thread v in
      if name \<in> {''lock'', ''try_lock'', ''lock_shared'', ''try_lock_shared''} then
        if IsExclusiveOwner v thread then Ret (False, v)
        else andThen (shared_count v thread) (\<lambda>n. Ret (n = 0, v))
      else if name = ''unlock'' then Ret (IsExclusiveOwner v thread, v)
      else if name = ''unlock_shared'' then andThen (shared_count v thread) (\<lambda>n. Ret (n > 0, v))
      else Exn AssertionFailure)"

definition FollyShared_OnFinished :: "'a task \<Rightarrow> size_t \<Rightarrow> folly_shared_verifier \<Rightarrow> folly_shared_verifier res" where
  "FollyShared_OnFinished t thread v =
     (let v = EnsureThread thread v; name = task_name t in
      if name = ''lock'' then Ret (if task_returned t then v\<lparr>exclusive_owner := Some thread\<rparr> else v)
      else if name = ''try_lock'' then
        andThen (ret_bool t) (\<lambda>ok. Ret (if ok then v\<lparr>exclusive_owner := Some thread\<rparr> else v))
      else if name = ''lock_shared'' then if task_returned t then add_shared 1 thread v else Ret v
      else if name = ''try_lock_shared'' then andThen (ret_bool t) (\<lambda>ok. if ok then add_shared 1 thread v else Ret v)
      else if name = ''unlock'' then
        Ret (if IsExclusiveOwner v thread then v\<lparr>exclusive_owner := None\<rparr> else v)
      else if name = ''unlock_shared'' then
        andThen (shared_count v thread) (\<lambda>n. if n > 0 then add_shared (-1) thread v else Ret v)
      else Exn AssertionFailure)"

definition FollyCoroSharedMutexVerifierBase :: "(folly_shared_verifier, 'a) base_verifier" where
  "FollyCoroSharedMutexVerifierBase = DefaultStrategyTaskVerifier\<lparr>
     base_Verify := FollyShared_Verify, base_OnFinished := FollyShared_OnFinished\<rparr>"

section \<open>Runs under a verifier\<close>

text \<open>
  A run interleaves the threads: a thread with no operation in flight starts one that the verifier
  accepts, and a thread finishes the one it has in flight, which returned. In between a strategy asks the
  verifier about any method on any thread and starts nothing, whatever the answer: \<open>Pick\<close> and
  \<open>PickSchedule\<close> verify the tasks of every thread before they choose one. The trace records the finished
  operations with their threads.
\<close>

inductive verified_run :: "(string \<Rightarrow> size_t \<Rightarrow> bool \<Rightarrow> 'v \<Rightarrow> (bool \<times> 'v) res) \<Rightarrow> ('a task \<Rightarrow> size_t \<Rightarrow> 'v \<Rightarrow> 'v res) \<Rightarrow>
    'v \<Rightarrow> 'v \<Rightarrow> (size_t \<rightharpoonup> string) \<Rightarrow> (size_t \<times> string) list \<Rightarrow> bool"
  for verify :: "string \<Rightarrow> size_t \<Rightarrow> bool \<Rightarrow> 'v \<Rightarrow> (bool \<times> 'v) res" and finish :: "'a task \<Rightarrow> size_t \<Rightarrow> 'v \<Rightarrow> 'v res"
    and v0 :: 'v where
  init: "verified_run verify finish v0 v0 Map.empty []"
| start: "verified_run verify finish v0 v running tr \<Longrightarrow> running thread = None \<Longrightarrow>
    verify name thread True v = Ret (True, v') \<Longrightarrow>
    verified_run verify finish v0 v' (running(thread \<mapsto> name)) tr"
| ask: "verified_run verify finish v0 v running tr \<Longrightarrow> verify name thread is_new v = Ret (ok, v') \<Longrightarrow>
    verified_run verify finish v0 v' running tr"
| finish: "verified_run verify finish v0 v running tr \<Longrightarrow> running thread = Some (task_name t) \<Longrightarrow> task_returned t \<Longrightarrow>
    finish t thread v = Ret v' \<Longrightarrow>
    verified_run verify finish v0 v' (running(thread := None)) (tr @ [(thread, task_name t)])"

definition thread_trace :: "size_t \<Rightarrow> (size_t \<times> string) list \<Rightarrow> string list" where
  "thread_trace thread tr = map snd (filter (\<lambda>e. fst e = thread) tr)"

text \<open>The protocol of a thread: an acquisition, then the release that belongs to it, and so on.\<close>

fun follows :: "(string \<Rightarrow> string option) \<Rightarrow> string list \<Rightarrow> bool" where
  "follows rel [] = True"
| "follows rel [a] = (rel a \<noteq> None)"
| "follows rel (a # r # rest) = (rel a = Some r \<and> follows rel rest)"

definition open_acquire :: "string list \<Rightarrow> string option" where
  "open_acquire ns = (if odd (length ns) then Some (last ns) else None)"

text \<open>An operation fits what the thread holds: an acquisition when it holds nothing, else its release.\<close>

definition fits :: "(string \<Rightarrow> string option) \<Rightarrow> string option \<Rightarrow> string \<Rightarrow> bool" where
  "fits rel held name \<longleftrightarrow>
     (case held of None \<Rightarrow> rel name \<noteq> None | Some a \<Rightarrow> rel a = Some name \<and> rel name = None)"

text \<open>
  The contract of a status verifier: what each thread holds, as a function \<open>holds\<close> of the state, changes
  only when that thread finishes an operation, and a start is accepted only when it fits.
\<close>

locale status_verifier =
  fixes verify :: "string \<Rightarrow> size_t \<Rightarrow> bool \<Rightarrow> 'v \<Rightarrow> (bool \<times> 'v) res"
    and finish :: "'a task \<Rightarrow> size_t \<Rightarrow> 'v \<Rightarrow> 'v res"
    and v0 :: 'v
    and holds :: "'v \<Rightarrow> size_t \<Rightarrow> string option"
    and rel :: "string \<Rightarrow> string option"
  assumes holds_init: "holds v0 thread = None"
    and verify_keeps: "verify name thread is_new v = Ret (ok, v') \<Longrightarrow> holds v' = holds v"
    and verify_fits: "verify name thread is_new v = Ret (True, v') \<Longrightarrow> fits rel (holds v thread) name"
    and finish_updates: "finish t thread v = Ret v' \<Longrightarrow> task_returned t \<Longrightarrow> fits rel (holds v thread) (task_name t) \<Longrightarrow>
      holds v' = (holds v)(thread := (if rel (task_name t) \<noteq> None then Some (task_name t) else None))"
begin

lemma follows_snoc:
  "follows rel ns \<Longrightarrow>
   (case open_acquire ns of None \<Rightarrow> rel n \<noteq> None | Some a \<Rightarrow> rel a = Some n) \<Longrightarrow> follows rel (ns @ [n])"
  by (induction rel ns rule: follows.induct) (auto simp: open_acquire_def split: if_splits)

lemma open_acquire_snoc: "open_acquire (ns @ [n]) = (if odd (length ns) then None else Some n)"
  by (simp add: open_acquire_def)

lemma run_invariant:
  assumes "verified_run verify finish v0 v running tr"
  shows "(\<forall>thread. holds v thread = open_acquire (thread_trace thread tr) \<and> follows rel (thread_trace thread tr)) \<and>
    (\<forall>thread n. running thread = Some n \<longrightarrow> fits rel (holds v thread) n)"
  using assms
proof (induction rule: verified_run.induct)
  case init
  then show ?case by (simp add: holds_init open_acquire_def thread_trace_def)
next
  case (start v running tr thread name v')
  have "holds v' = holds v" "fits rel (holds v thread) name"
    using verify_keeps [OF start.hyps(3)] verify_fits [OF start.hyps(3)] by simp_all
  then show ?case
    using start.IH by (metis fun_upd_apply option.inject)
next
  case (ask v running tr name thread is_new ok v')
  have "holds v' = holds v"
    by (rule verify_keeps [OF ask.hyps(2)])
  then show ?case
    using ask.IH by metis
next
  case (finish v running tr thread t v')
  have fit: "fits rel (holds v thread) (task_name t)"
    using finish by blast
  have upd: "holds v' = (holds v)(thread := (if rel (task_name t) \<noteq> None then Some (task_name t) else None))"
    using finish_updates [OF finish.hyps(4,3) fit] .
  have here: "holds v thread = open_acquire (thread_trace thread tr)" "follows rel (thread_trace thread tr)"
    using finish.IH by simp_all
  have snoc: "thread_trace k (tr @ [(thread, task_name t)]) =
      (if k = thread then thread_trace k tr @ [task_name t] else thread_trace k tr)" for k
    by (simp add: thread_trace_def)
  have this_thread: "holds v' thread = open_acquire (thread_trace thread tr @ [task_name t]) \<and>
      follows rel (thread_trace thread tr @ [task_name t])"
    using fit upd here follows_snoc [OF here(2), of "task_name t"]
    by (auto simp: fits_def open_acquire_snoc open_acquire_def split: option.splits if_splits)
  have others: "fits rel (holds v' k) n" if "k \<noteq> thread" "running k = Some n" for k n
    using finish.IH that upd by (metis fun_upd_other)
  have trace: "holds v' k = open_acquire (thread_trace k (tr @ [(thread, task_name t)])) \<and>
      follows rel (thread_trace k (tr @ [(thread, task_name t)]))" for k
    using this_thread finish.IH upd by (cases "k = thread") (simp_all add: snoc)
  show ?case
    using trace others by (metis fun_upd_apply option.distinct(1))
qed

lemma protocol: "verified_run verify finish v0 v running tr \<Longrightarrow> follows rel (thread_trace thread tr)"
  using run_invariant by blast

end

section \<open>The status verifiers keep the protocol\<close>

definition mutex_release :: "string \<Rightarrow> string option" where
  "mutex_release n = (if n = ''Lock'' then Some ''Unlock'' else None)"

definition shared_release :: "string \<Rightarrow> string option" where
  "shared_release n =
     (if n = ''lock'' then Some ''unlock'' else if n = ''lock_shared'' then Some ''unlock_shared'' else None)"

definition mutex_holds :: "status_map \<Rightarrow> size_t \<Rightarrow> string option" where
  "mutex_holds status thread = (if status_of status thread = 0 then None else Some ''Lock'')"

definition shared_holds :: "size_t \<Rightarrow> status_map \<Rightarrow> size_t \<Rightarrow> string option" where
  "shared_holds reader status thread =
     (if status_of status thread = 0 then None
      else if status_of status thread = reader then Some ''lock_shared'' else Some ''lock'')"

lemma status_of_simps [simp]:
  "status_of (ensure_status k status) = status_of status"
  "status_of (status(k \<mapsto> n)) = (status_of status)(k := n)"
  "status_of Map.empty k = 0"
  by (auto simp: status_of_def ensure_status_def fun_eq_iff)

interpretation mutex_status: status_verifier MutexVerifier_Verify MutexVerifier_OnFinished Map.empty
  mutex_holds mutex_release
  by unfold_locales
    (auto simp: MutexVerifier_Verify_def MutexVerifier_OnFinished_def mutex_holds_def mutex_release_def fits_def
      Let_def intro!: ext split: if_splits)

interpretation shared_status: status_verifier SharedMutexVerifier_Verify SharedMutexVerifier_OnFinished Map.empty
  "shared_holds 4" shared_release
  by unfold_locales
    (auto simp: SharedMutexVerifier_Verify_def SharedMutexVerifier_OnFinished_def shared_holds_def shared_release_def
      fits_def Let_def intro!: ext split: if_splits)

interpretation libcoro_shared_status: status_verifier LibcoroSharedMutexVerifier_Verify LibcoroSharedMutexVerifier_OnFinished
  Map.empty "shared_holds 2" shared_release
  by unfold_locales
    (auto simp: LibcoroSharedMutexVerifier_Verify_def LibcoroSharedMutexVerifier_OnFinished_def shared_holds_def
      shared_release_def fits_def Let_def intro!: ext split: if_splits)

section \<open>The channel verifier admits one sender and one receiver\<close>

definition in_flight :: "(size_t \<rightharpoonup> string) \<Rightarrow> string \<Rightarrow> size_t set" where
  "in_flight running name = {thread. running thread = Some name}"

definition channel_counts :: "channel_verifier \<Rightarrow> (size_t \<rightharpoonup> string) \<Rightarrow> bool" where
  "channel_counts v running \<longleftrightarrow>
     senders v \<in> {0, 1} \<and> card (in_flight running ''Send'') \<le> unat (senders v) \<and>
     receivers v \<in> {0, 1} \<and> card (in_flight running ''Recv'') \<le> unat (receivers v)"

lemma in_flight_start:
  "running thread = None \<Longrightarrow>
   in_flight (running(thread \<mapsto> n)) name = (if n = name then insert thread (in_flight running name) else in_flight running name)"
  by (auto simp: in_flight_def)

lemma in_flight_finish: "in_flight (running(thread := None)) name = in_flight running name - {thread}"
  by (auto simp: in_flight_def)

lemma in_flight_mem [simp]: "thread \<in> in_flight running name \<longleftrightarrow> running thread = Some name"
  by (simp add: in_flight_def)

lemma channel_run_counts:
  assumes "verified_run BufferedChannelVerifier_Verify BufferedChannelVerifier_OnFinished BufferedChannelVerifier v running tr"
  shows "channel_counts v running"
  using assms
proof (induction rule: verified_run.induct)
  case init
  then show ?case by (simp add: channel_counts_def BufferedChannelVerifier_def in_flight_def)
next
  case (start v running tr thread name v')
  have "card (in_flight running n) = 0 \<Longrightarrow> card (insert thread (in_flight running n)) = 1" for n
    using finite_subset [of "in_flight running n" UNIV] by simp
  then show ?case
    using start unfolding channel_counts_def in_flight_start [of running thread, OF start.hyps(2)]
    by (auto simp: BufferedChannelVerifier_Verify_def split: if_splits)
next
  case (ask v running tr name thread is_new ok v')
  then show ?case
    by (auto simp: BufferedChannelVerifier_Verify_def channel_counts_def split: if_splits)
next
  case (finish v running tr thread t v')
  have pos: "0 < card (in_flight running n)" if "running thread = Some n" for n
    using that by (auto simp: card_gt_0_iff in_flight_def)
  show ?case
    using finish pos [OF finish.hyps(2)] unfolding channel_counts_def in_flight_finish
    by (auto simp: BufferedChannelVerifier_OnFinished_def card_Diff_singleton split: if_splits)
qed

section \<open>Properties\<close>

text \<open>
  C20. Under the mutex verifier every thread alternates between locking and unlocking, starting with a
  lock, however the threads interleave.
\<close>

theorem mutex_verifier_protocol:
  assumes "verified_run MutexVerifier_Verify MutexVerifier_OnFinished Map.empty v running tr"
  shows "follows mutex_release (thread_trace thread tr)"
  by (rule mutex_status.protocol [OF assms])

definition lock_task :: "string \<Rightarrow> unit task" where
  "lock_task name = \<lparr>task_slot = 0, task_get = 0, task_id = 0, task_name = name, task_args = (), task_returned = True,
     task_ret = void_v\<rparr>"

lemma mutex_example_run:
  "verified_run MutexVerifier_Verify (MutexVerifier_OnFinished :: unit task \<Rightarrow> _) Map.empty [0 \<mapsto> 0]
     Map.empty [(0, ''Lock''), (0, ''Unlock'')]"
proof -
  note eval = MutexVerifier_Verify_def MutexVerifier_OnFinished_def ensure_status_def status_of_def lock_task_def Let_def
  have 1: "verified_run MutexVerifier_Verify (MutexVerifier_OnFinished :: unit task \<Rightarrow> _) Map.empty [0 \<mapsto> 0] [0 \<mapsto> ''Lock''] []"
    by (rule verified_run.start [OF verified_run.init]) (simp_all add: eval)
  have 2: "verified_run MutexVerifier_Verify (MutexVerifier_OnFinished :: unit task \<Rightarrow> _) Map.empty [0 \<mapsto> 1] Map.empty [(0, ''Lock'')]"
    using verified_run.finish [OF 1, of 0 "lock_task ''Lock''" "[0 \<mapsto> 1]"] by (simp add: eval)
  have 3: "verified_run MutexVerifier_Verify (MutexVerifier_OnFinished :: unit task \<Rightarrow> _) Map.empty [0 \<mapsto> 1] [0 \<mapsto> ''Unlock''] [(0, ''Lock'')]"
    by (rule verified_run.start [OF 2]) (simp_all add: eval)
  show ?thesis
    using verified_run.finish [OF 3, of 0 "lock_task ''Unlock''" "[0 \<mapsto> 0]"] by (simp add: eval)
qed

theorem mutex_verifier_protocol_witness:
  "follows mutex_release (thread_trace 0 [(0, ''Lock''), (0, ''Unlock'')])"
  by (rule mutex_verifier_protocol [OF mutex_example_run])

text \<open>
  C21. Under the shared mutex verifiers every thread releases with the operation that belongs to its
  acquisition before it acquires again, for reading or writing.
\<close>

theorem shared_mutex_verifier_protocol:
  assumes "verified_run SharedMutexVerifier_Verify SharedMutexVerifier_OnFinished Map.empty v running tr \<or>
    verified_run LibcoroSharedMutexVerifier_Verify LibcoroSharedMutexVerifier_OnFinished Map.empty v running tr"
  shows "follows shared_release (thread_trace thread tr)"
  using assms shared_status.protocol libcoro_shared_status.protocol by blast

lemma shared_example_run:
  "verified_run SharedMutexVerifier_Verify (SharedMutexVerifier_OnFinished :: unit task \<Rightarrow> _) Map.empty [0 \<mapsto> 4]
     Map.empty [(0, ''lock_shared'')]"
proof -
  note eval = SharedMutexVerifier_Verify_def SharedMutexVerifier_OnFinished_def ensure_status_def status_of_def lock_task_def Let_def
  have "verified_run SharedMutexVerifier_Verify (SharedMutexVerifier_OnFinished :: unit task \<Rightarrow> _) Map.empty [0 \<mapsto> 0]
      [0 \<mapsto> ''lock_shared''] []"
    by (rule verified_run.start [OF verified_run.init]) (simp_all add: eval)
  from verified_run.finish [OF this, of 0 "lock_task ''lock_shared''" "[0 \<mapsto> 4]"] show ?thesis
    by (simp add: eval)
qed

theorem shared_mutex_verifier_protocol_witness:
  "follows shared_release (thread_trace 0 [(0, ''lock_shared'')])"
  by (rule shared_mutex_verifier_protocol [OF disjI1 [OF shared_example_run]])

text \<open>
  C22. Under the buffered channel verifier, however a strategy starts, finishes and only asks about operations, the
  counters are zero or one and at least the numbers of sends and receives in flight, so that at most one of each is in
  flight; and while one is in flight the verifier refuses every other of its kind and its state does not change.
\<close>

theorem channel_verifier_exclusive:
  assumes "verified_run BufferedChannelVerifier_Verify BufferedChannelVerifier_OnFinished BufferedChannelVerifier v running tr"
  shows "senders v \<le> 1 \<and> card (in_flight running ''Send'') \<le> unat (senders v) \<and>
    receivers v \<le> 1 \<and> card (in_flight running ''Recv'') \<le> unat (receivers v) \<and>
    (\<forall>name thread thread' is_new. running thread = Some name \<and> name \<in> {''Send'', ''Recv''} \<longrightarrow>
       BufferedChannelVerifier_Verify name thread' is_new v = Ret (False, v))"
proof -
  have c: "channel_counts v running" by (rule channel_run_counts [OF assms])
  have "0 < card (in_flight running n)" if "running thread = Some n" for n thread
    using that by (auto simp: card_gt_0_iff in_flight_def)
  then have "senders v \<noteq> 0" if "running thread = Some ''Send''" for thread
    using c that by (fastforce simp: channel_counts_def)
  moreover have "receivers v \<noteq> 0" if "running thread = Some ''Recv''" for thread
    using c that \<open>\<And>thread n. running thread = Some n \<Longrightarrow> 0 < card (in_flight running n)\<close> by (fastforce simp: channel_counts_def)
  ultimately show ?thesis
    using c by (auto simp: channel_counts_def BufferedChannelVerifier_Verify_def)
qed

text \<open>A send in flight, and a receive that a strategy only asked about: its counter is one and none is in flight.\<close>

lemma channel_example_run:
  "verified_run BufferedChannelVerifier_Verify (BufferedChannelVerifier_OnFinished :: unit task \<Rightarrow> _) BufferedChannelVerifier
     \<lparr>senders = 1, receivers = 1, channel_size = 0\<rparr> [0 \<mapsto> ''Send''] []"
proof -
  have "verified_run BufferedChannelVerifier_Verify (BufferedChannelVerifier_OnFinished :: unit task \<Rightarrow> _) BufferedChannelVerifier
      \<lparr>senders = 1, receivers = 0, channel_size = 1\<rparr> [0 \<mapsto> ''Send''] []"
    by (rule verified_run.start [OF verified_run.init])
      (simp_all add: BufferedChannelVerifier_Verify_def BufferedChannelVerifier_def)
  then show ?thesis
    by (rule verified_run.ask [where name = "''Recv''" and thread = 1 and is_new = True and ok = True])
      (simp add: BufferedChannelVerifier_Verify_def)
qed

theorem channel_verifier_exclusive_witness:
  "BufferedChannelVerifier_Verify ''Send'' 1 True \<lparr>senders = 1, receivers = 1, channel_size = 0\<rparr> =
     Ret (False, \<lparr>senders = 1, receivers = 1, channel_size = 0\<rparr>) \<and>
   card (in_flight [0 \<mapsto> ''Send''] ''Send'') = 1 \<and> card (in_flight [0 \<mapsto> ''Send''] ''Recv'') = 0"
proof -
  note run = channel_verifier_exclusive [OF channel_example_run]
  have "in_flight [0 \<mapsto> ''Send''] ''Send'' = {0}" "in_flight [0 \<mapsto> ''Send''] ''Recv'' = {}"
    by (auto simp: in_flight_def split: if_splits)
  then show ?thesis using run by auto
qed

text \<open>
  Verifying is not idempotent for the buffered channel: a send that was just accepted is refused
  when the same operation is verified again, which is what a strategy does with a task that is in flight.
\<close>

theorem channel_verifier_refuses_running:
  "\<exists>v. BufferedChannelVerifier_Verify ''Send'' thread True BufferedChannelVerifier = Ret (True, v) \<and>
     BufferedChannelVerifier_Verify ''Send'' thread True v = Ret (False, v)"
  by (simp add: BufferedChannelVerifier_Verify_def BufferedChannelVerifier_def)

text \<open>
  A verifier built on a mutex base keeps the owner over a reset and the start of a new round: a
  thread whose lock finished in one round may unlock first in the next, although the mutex is new.
\<close>

lemma mutex_owner_survives_reset:
  "\<exists>v v'. OnFinished FollyCoroMutexVerifierBase (lock_task ''lock'') thread
       \<lparr>base = None, started_by_method = Map.empty, started_task_ids = {}, rv_threads = n\<rparr> = Ret v \<and>
     Verify (FollyCoroMutexVerifierBase :: (size_t option, unit) base_verifier) ''unlock'' thread True
       (OnRoundStart (FollyCoroMutexVerifierBase :: (size_t option, unit) base_verifier) n
         (Reset (FollyCoroMutexVerifierBase :: (size_t option, unit) base_verifier) v)) = Ret (True, v')"
  by (simp add: OnFinished_def Verify_def OnRoundStart_def Reset_def FollyCoroMutexVerifierBase_def
      DefaultStrategyTaskVerifier_def FollyCoroMutex_OnFinished_def FollyCoroMutex_Verify_def lock_task_def IsOwner_def)

text \<open>
  The check of an existing task bypasses the base verifier: for the mutex bases it accepts every
  task on every thread, also an unlock by a thread that does not own the mutex.
\<close>

lemma verify_existing_accepts_everything:
  "VerifyExisting LibcoroMutexVerifierBase t thread v = Ret (True, v) \<and>
   VerifyExisting FollyCoroMutexVerifierBase t thread v = Ret (True, v) \<and>
   VerifyExisting FollyCoroSharedMutexVerifierBase t thread w = Ret (True, w)"
  by (simp add: VerifyExisting_def LibcoroMutexVerifierBase_def FollyCoroMutexVerifierBase_def
      FollyCoroSharedMutexVerifierBase_def DefaultStrategyTaskVerifier_def Default_VerifyExisting_def Default_Verify_def)

end
