(* ===== verification/Stable_Vector.thy ===== *)
theory Stable_Vector
  imports LTest_Prelude "HOL-Library.Word"
begin

text \<open>
  \<open>ltest::StableVector\<close> (runtime/include/stable_vector.h): a vector in blocks of doubling size, so that
  elements never move. Index arithmetic is on 64-bit words; blocks are lists of cells, a cell is empty
  until an element is constructed in it, and every access that the language leaves undefined is an
  error. The vector refines a list.
\<close>

unbundle bit_operations_syntax

section \<open>State and operations\<close>

record 'a stable_vector =
  entities :: "'a option list option list"
  total_size :: "64 word"

definition StableVector :: "'a stable_vector" where
  "StableVector = \<lparr>entities = replicate 31 None, total_size = 0\<rparr>"

text \<open>\<open>__builtin_clzll\<close> counts the leading zero bits; of zero it is undefined.\<close>

fun clz_from :: "nat \<Rightarrow> 64 word \<Rightarrow> nat" where
  "clz_from 0 x = 0"
| "clz_from (Suc n) x = (if bit x n then 0 else Suc (clz_from n x))"

definition block_index :: "64 word \<Rightarrow> nat res" where
  "block_index x = (if x = 0 then Exn Undefined else Ret (63 - clz_from 64 x))"

definition internal_index :: "64 word \<Rightarrow> nat \<Rightarrow> nat" where
  "internal_index x index = unat (x XOR push_bit index 1)"

definition entity :: "'a stable_vector \<Rightarrow> nat \<Rightarrow> 'a option list option res" where
  "entity s index = (if index < length (entities s) then Ret (entities s ! index) else Exn Undefined)"

definition cell :: "'a stable_vector \<Rightarrow> nat \<Rightarrow> nat \<Rightarrow> 'a option res" where
  "cell s index j =
     andThen (entity s index) (\<lambda>block.
       case block of
         None \<Rightarrow> Exn Undefined
       | Some b \<Rightarrow> if j < length b then Ret (b ! j) else Exn Undefined)"

definition set_cell :: "nat \<Rightarrow> nat \<Rightarrow> 'a option \<Rightarrow> 'a stable_vector \<Rightarrow> 'a stable_vector res" where
  "set_cell index j v s =
     andThen (entity s index) (\<lambda>block.
       case block of
         None \<Rightarrow> Exn Undefined
       | Some b \<Rightarrow> if j < length b then Ret (s\<lparr>entities := (entities s)[index := Some (b[j := v])]\<rparr>) else Exn Undefined)"

definition allocate :: "nat \<Rightarrow> 'a stable_vector \<Rightarrow> 'a stable_vector" where
  "allocate index s = s\<lparr>entities := (entities s)[index := Some (replicate (2 ^ index) None)]\<rparr>"

definition emplace_back :: "'a \<Rightarrow> 'a stable_vector \<Rightarrow> 'a stable_vector res" where
  "emplace_back v s =
     andThen (block_index (total_size s + 1)) (\<lambda>index.
     andThen (if (total_size s + 1) AND total_size s = 0
              then andThen (entity s index) (\<lambda>block. Ret (if block = None then allocate index s else s))
              else Ret s) (\<lambda>s.
     andThen (set_cell index (internal_index (total_size s + 1) index) (Some v) s) (\<lambda>s.
     Ret (s\<lparr>total_size := total_size s + 1\<rparr>))))"

text \<open>Running the destructor of a cell without an element is undefined.\<close>

definition destroy :: "nat \<Rightarrow> nat \<Rightarrow> 'a stable_vector \<Rightarrow> ('a \<times> 'a stable_vector) res" where
  "destroy index j s =
     andThen (cell s index j) (\<lambda>c.
       case c of
         None \<Rightarrow> Exn Undefined
       | Some v \<Rightarrow> andThen (set_cell index j None s) (\<lambda>s. Ret (v, s)))"

definition pop_back :: "'a stable_vector \<Rightarrow> 'a stable_vector res" where
  "pop_back s =
     andThen (block_index (total_size s)) (\<lambda>index.
     andThen (if (total_size s - 1) AND total_size s = 0
              then andThen (entity s (index + 1)) (\<lambda>block.
                Ret (if block \<noteq> None then s\<lparr>entities := (entities s)[index + 1 := None]\<rparr> else s))
              else Ret s) (\<lambda>s.
     andThen (destroy index (internal_index (total_size s) index) s) (\<lambda>(_, s).
     Ret (s\<lparr>total_size := total_size s - 1\<rparr>))))"

definition subscript :: "'a stable_vector \<Rightarrow> 64 word \<Rightarrow> 'a res" where
  "subscript s i =
     andThen (block_index (i + 1)) (\<lambda>index.
     andThen (cell s index (internal_index (i + 1) index)) (\<lambda>c.
       case c of None \<Rightarrow> Exn Undefined | Some v \<Rightarrow> Ret v))"

definition vector_front :: "'a stable_vector \<Rightarrow> 'a res" where
  "vector_front s = subscript s 0"

definition vector_back :: "'a stable_vector \<Rightarrow> 'a res" where
  "vector_back s = subscript s (total_size s - 1)"

definition vector_size :: "'a stable_vector \<Rightarrow> 64 word" where
  "vector_size s = total_size s"

definition vector_empty :: "'a stable_vector \<Rightarrow> bool" where
  "vector_empty s \<longleftrightarrow> vector_size s = 0"

text \<open>
  The two loops of \<open>resize\<close>. The fuel is one more than the number of steps they take, which is the
  difference of the sizes.
\<close>

fun grow :: "nat \<Rightarrow> 64 word \<Rightarrow> 'a \<Rightarrow> 'a stable_vector \<Rightarrow> 'a stable_vector res" where
  "grow 0 new_size d s = OutOfFuel"
| "grow (Suc fuel) new_size d s =
     (if new_size > total_size s then andThen (emplace_back d s) (grow fuel new_size d) else Ret s)"

fun shrink :: "nat \<Rightarrow> 64 word \<Rightarrow> 'a stable_vector \<Rightarrow> 'a stable_vector res" where
  "shrink 0 new_size s = OutOfFuel"
| "shrink (Suc fuel) new_size s =
     (if new_size < total_size s then andThen (pop_back s) (shrink fuel new_size) else Ret s)"

definition resize :: "64 word \<Rightarrow> 'a \<Rightarrow> 'a stable_vector \<Rightarrow> 'a stable_vector res" where
  "resize new_size d s =
     andThen (grow (Suc (unat new_size - unat (total_size s))) new_size d s) (\<lambda>s.
       shrink (Suc (unat (total_size s) - unat new_size)) new_size s)"

text \<open>The destructor: the elements it destroys, in order, block by block up to the first null one.\<close>

fun destroy_cells :: "nat \<Rightarrow> nat \<Rightarrow> nat \<Rightarrow> 'a stable_vector \<Rightarrow> ('a list \<times> 'a stable_vector) res" where
  "destroy_cells i j 0 s = Ret ([], s)"
| "destroy_cells i j (Suc n) s =
     (if j < 2 ^ i \<and> j + 2 ^ i < unat (total_size s + 1) then
        andThen (destroy i j s) (\<lambda>(v, s).
        andThen (destroy_cells i (Suc j) n s) (\<lambda>(vs, s). Ret (v # vs, s)))
      else Ret ([], s))"

fun destroy_blocks :: "nat list \<Rightarrow> 'a stable_vector \<Rightarrow> ('a list \<times> 'a stable_vector) res" where
  "destroy_blocks [] s = Ret ([], s)"
| "destroy_blocks (i # is) s =
     (if entities s ! i \<noteq> None then
        andThen (destroy_cells i 0 (2 ^ i) s) (\<lambda>(vs, s).
        andThen (destroy_blocks is (s\<lparr>entities := (entities s)[i := None]\<rparr>)) (\<lambda>(ws, s). Ret (vs @ ws, s)))
      else Ret ([], s))"

definition destruct :: "'a stable_vector \<Rightarrow> ('a list \<times> 'a stable_vector) res" where
  "destruct s = destroy_blocks [0..<31] s"

text \<open>Moving: the new vector and what is left of the source (and, for an assignment, of the target).\<close>

definition move_construct :: "'a stable_vector \<Rightarrow> 'a stable_vector \<times> 'a stable_vector" where
  "move_construct rhs =
     (\<lparr>entities = entities rhs, total_size = total_size rhs\<rparr>, rhs\<lparr>entities := entities StableVector\<rparr>)"

definition move_assign :: "'a stable_vector \<Rightarrow> 'a stable_vector \<Rightarrow> 'a stable_vector \<times> 'a stable_vector" where
  "move_assign s rhs =
     (\<lparr>entities = entities rhs, total_size = total_size rhs\<rparr>, \<lparr>entities = entities s, total_size = 0\<rparr>)"

section \<open>Abstraction and invariant\<close>

text \<open>
  A vector represents a list: the block of every element is there, at most one further block is, and a
  cell holds the element of its number, or nothing.
\<close>

definition block_of :: "'a list \<Rightarrow> nat \<Rightarrow> 'a option list" where
  "block_of xs i = map (\<lambda>j. if 2 ^ i + j \<le> length xs then Some (xs ! (2 ^ i + j - 1)) else None) [0..<2 ^ i]"

definition represents :: "'a stable_vector \<Rightarrow> 'a list \<Rightarrow> bool" where
  "represents s xs \<longleftrightarrow>
     length (entities s) = 31 \<and> total_size s = of_nat (length xs) \<and> length xs < 2 ^ 31 \<and>
     (\<forall>i<31. case entities s ! i of
        None \<Rightarrow> length xs < 2 ^ i
      | Some b \<Rightarrow> 2 ^ i \<le> 2 * length xs + 1 \<and> b = block_of xs i)"

section \<open>Bit arithmetic\<close>

lemma nat_top_bit:
  fixes n :: nat
  assumes "bit n k" "\<forall>m>k. \<not> bit n m"
  shows "2 ^ k \<le> n" "n < 2 * 2 ^ k"
proof -
  show "2 ^ k \<le> n"
    using assms(1) by (metis bit_iff_odd div_less even_zero not_less)
  have "take_bit (Suc k) n = n"
    by (rule bit_eqI) (metis assms(2) bit_take_bit_iff less_Suc_eq_le not_less)
  then show "n < 2 * 2 ^ k"
    by (metis power_Suc take_bit_nat_less_exp)
qed

lemma clz_from_top:
  "x \<noteq> 0 \<Longrightarrow> \<forall>m\<ge>n. \<not> bit x m \<Longrightarrow>
   clz_from n x < n \<and> bit x (n - 1 - clz_from n x) \<and> (\<forall>m>n - 1 - clz_from n x. \<not> bit x m)"
proof (induction n)
  case 0
  then have "x = 0" by (intro bit_eqI) simp
  then show ?case using 0 by simp
next
  case (Suc n)
  show ?case
  proof (cases "bit x n")
    case True
    then show ?thesis using Suc.prems by simp
  next
    case False
    then have "\<forall>m\<ge>n. \<not> bit x m"
      using Suc.prems(2) by (metis le_antisym not_less_eq_eq)
    then show ?thesis using Suc False by simp
  qed
qed

lemma block_index_bounds:
  assumes "x \<noteq> 0"
  obtains k where "block_index x = Ret k" "2 ^ k \<le> unat x" "unat x < 2 * 2 ^ k"
proof -
  have "\<forall>m\<ge>64. \<not> bit x m"
    using bit_imp_le_length [of x] by fastforce
  then have top: "clz_from 64 x < 64" "bit x (63 - clz_from 64 x)" "\<forall>m>63 - clz_from 64 x. \<not> bit x m"
    using clz_from_top [OF assms, of 64] by simp_all
  have bits: "bit (unat x) m \<longleftrightarrow> bit x m" for m
    by (simp add: bit_unsigned_iff)
  show ?thesis
    using that [of "63 - clz_from 64 x"] nat_top_bit [of "unat x" "63 - clz_from 64 x"] top assms
    by (simp add: block_index_def bits)
qed

lemma bits_top:
  assumes "2 ^ k \<le> n" "n < 2 * 2 ^ k"
  shows "bit (n :: nat) m \<longleftrightarrow> m = k \<or> m < k \<and> bit (n - 2 ^ k) m"
proof -
  obtain r where r: "n = 2 ^ k + r" "r < 2 ^ k"
    using assms by (metis add_less_cancel_left le_Suc_ex mult_2)
  have "r = take_bit k r"
    using r(2) by (simp add: take_bit_nat_eq_self)
  have "n = (2 ^ k) OR r"
    unfolding r(1) by (rule disjunctive_add) (metis \<open>r = take_bit k r\<close> bit_exp_iff bit_take_bit_iff less_irrefl)
  then have "bit n m \<longleftrightarrow> m = k \<or> bit r m"
    by (auto simp: bit_or_iff bit_exp_iff)
  moreover have "bit r m \<longleftrightarrow> m < k \<and> bit r m"
    by (metis \<open>r = take_bit k r\<close> bit_take_bit_iff)
  ultimately show ?thesis
    using r(1) by auto
qed

lemma internal_index_eq:
  assumes "2 ^ k \<le> unat x" "unat x < 2 * 2 ^ k"
  shows "internal_index x k = unat x - 2 ^ k"
proof -
  have k: "k < 64"
  proof (rule ccontr)
    assume "\<not> k < 64"
    then have "(2 :: nat) ^ 64 \<le> 2 ^ k" by (intro power_increasing) simp_all
    then show False using assms(1) unsigned_less [of x, where 'a = nat] by simp
  qed
  show ?thesis
    unfolding internal_index_def
  proof (rule bit_eqI)
    fix m
    have "bit (unat x - 2 ^ k) m \<Longrightarrow> m < k"
      using bits_top [of k "unat x - 2 ^ k + 2 ^ k" m] assms
      by (metis bit_take_bit_iff le_add_diff_inverse2 less_diff_conv2 mult_2 take_bit_nat_eq_self)
    then show "bit (unat (x XOR push_bit k 1)) m \<longleftrightarrow> bit (unat x - 2 ^ k) m"
      using bits_top [OF assms, of m] k
      by (auto simp: bit_unsigned_iff bit_xor_iff bit_push_bit_iff bit_1_iff bit_exp_iff possible_bit_word)
  qed
qed

lemma and_pred_zero:
  fixes x :: "64 word"
  assumes "2 ^ k \<le> unat x" "unat x < 2 * 2 ^ k"
  shows "x AND (x - 1) = 0 \<longleftrightarrow> unat x = 2 ^ k"
proof -
  have pred: "unat (x - 1) = unat x - 1"
    using assms(1) by (intro unat_minus_one) auto
  have word_bit: "bit y m \<longleftrightarrow> bit (unat y) m" if "y = x \<or> y = x - 1" for y m
    by (auto simp: bit_unsigned_iff possible_bit_def dest: bit_imp_le_length)
  show ?thesis
  proof
    assume z: "x AND (x - 1) = 0"
    show "unat x = 2 ^ k"
    proof (rule ccontr)
      assume "unat x \<noteq> 2 ^ k"
      then have "bit (unat (x - 1)) k"
        using bits_top [of k "unat (x - 1)" k] assms pred by simp
      moreover have "bit (unat x) k"
        using bits_top [OF assms, of k] by simp
      ultimately have "bit (x AND (x - 1)) k"
        by (simp add: bit_and_iff word_bit)
      then show False using z by simp
    qed
  next
    assume e: "unat x = 2 ^ k"
    show "x AND (x - 1) = 0"
    proof (rule bit_eqI)
      fix m
      have "\<not> bit (unat (x - 1)) k"
        unfolding pred e by (metis bit_take_bit_iff diff_less less_irrefl take_bit_nat_eq_self zero_less_numeral
          zero_less_one zero_less_power)
      then show "bit (x AND (x - 1)) m \<longleftrightarrow> bit (0 :: 64 word) m"
        using e by (auto simp: bit_and_iff word_bit bit_exp_iff)
    qed
  qed
qed

lemma unat_of_nat_small:
  assumes "n < 2 ^ 64"
  shows "unat (of_nat n :: 64 word) = n"
  using assms by (simp add: unsigned_of_nat take_bit_nat_eq_self)

lemma index_of_position:
  assumes "0 < unat x"
  obtains k where
    "block_index x = Ret k" "2 ^ k \<le> unat x" "unat x < 2 * 2 ^ k"
    "internal_index x k = unat x - 2 ^ k" "x AND (x - 1) = 0 \<longleftrightarrow> unat x = 2 ^ k"
proof -
  have "x \<noteq> 0" using assms by auto
  then obtain k where k: "block_index x = Ret k" "2 ^ k \<le> unat x" "unat x < 2 * 2 ^ k"
    using block_index_bounds by metis
  show ?thesis
    using that [of k] k internal_index_eq [of k x] and_pred_zero [of k x] by simp
qed

section \<open>The vector refines a list\<close>

lemma length_block_of [simp]: "length (block_of xs i) = 2 ^ i"
  by (simp add: block_of_def)

lemma pow_neq_cases:
  assumes "2 ^ k \<le> (n :: nat)" "n < 2 * 2 ^ k" "i \<noteq> k"
  shows "2 * 2 ^ i \<le> n \<and> i < k \<or> n < 2 ^ i \<and> k < i"
proof (cases "i < k")
  case True
  then have "(2 :: nat) ^ Suc i \<le> 2 ^ k" by (intro power_increasing) simp_all
  then show ?thesis using assms True by simp
next
  case False
  then have "(2 :: nat) ^ Suc k \<le> 2 ^ i" using assms by (intro power_increasing) simp_all
  then show ?thesis using assms False by simp
qed

lemma block_of_append:
  assumes "2 ^ k \<le> length xs + 1" "length xs + 1 < 2 * 2 ^ k"
  shows "block_of (xs @ [v]) i =
    (if i = k then (block_of xs k)[length xs + 1 - 2 ^ k := Some v] else block_of xs i)"
proof (cases "i = k")
  case True
  have "(block_of (xs @ [v]) k) ! j = ((block_of xs k)[length xs + 1 - 2 ^ k := Some v]) ! j" if "j < 2 ^ k" for j
    using assms that by (cases "j = length xs + 1 - 2 ^ k") (auto simp: block_of_def nth_append)
  then show ?thesis using True by (simp add: list_eq_iff_nth_eq)
next
  case False
  have "(2 ^ i + j \<le> length xs + 1) = (2 ^ i + j \<le> length xs) \<and> 2 ^ i + j \<noteq> length xs + 1" if "j < 2 ^ i" for j
    using pow_neq_cases [OF assms False] that by auto
  then show ?thesis
    using False by (auto simp: block_of_def nth_append)
qed

lemma represents_size:
  assumes "represents s xs"
  shows "unat (total_size s) = length xs"
  using assms by (simp add: represents_def unat_of_nat_small)

lemma represents_block:
  assumes "represents s xs" "i < 31" "2 ^ i \<le> length xs"
  shows "entities s ! i = Some (block_of xs i)"
  using assms by (fastforce simp: represents_def split: option.splits)

lemma block_index_31:
  assumes "2 ^ k \<le> n" "n < (2 :: nat) ^ 31"
  shows "k < 31"
proof (rule ccontr)
  assume "\<not> k < 31"
  then have "(2 :: nat) ^ 31 \<le> 2 ^ k" by (intro power_increasing) simp_all
  then show False using assms by simp
qed

lemma StableVector_represents: "represents StableVector []"
  by (simp add: represents_def StableVector_def)

lemma block_ready:
  assumes r: "represents s xs" and k: "k < 31" "2 ^ k \<le> length xs + 1"
  shows "length xs + 1 \<noteq> 2 ^ k \<Longrightarrow> s\<lparr>entities := (entities s)[k := Some (block_of xs k)]\<rparr> = s"
    and "(if entities s ! k = None then allocate k s else s) = s\<lparr>entities := (entities s)[k := Some (block_of xs k)]\<rparr>"
proof -
  have same: "s\<lparr>entities := (entities s)[k := Some (block_of xs k)]\<rparr> = s" if "entities s ! k \<noteq> None"
  proof -
    have "entities s ! k = Some (block_of xs k)"
      using r k(1) that by (auto simp: represents_def split: option.splits)
    then have "(entities s)[k := Some (block_of xs k)] = entities s"
      by (metis list_update_id)
    then show ?thesis by simp
  qed
  show "s\<lparr>entities := (entities s)[k := Some (block_of xs k)]\<rparr> = s" if "length xs + 1 \<noteq> 2 ^ k"
  proof (rule same)
    have "2 ^ k \<le> length xs" using k(2) that by linarith
    then show "entities s ! k \<noteq> None" using represents_block [OF r k(1)] by simp
  qed
  have "block_of xs k = replicate (2 ^ k) None" if "entities s ! k = None"
  proof -
    have "length xs < 2 ^ k" using r k(1) that by (force simp: represents_def)
    then show ?thesis by (simp add: block_of_def list_eq_iff_nth_eq)
  qed
  then show "(if entities s ! k = None then allocate k s else s) = s\<lparr>entities := (entities s)[k := Some (block_of xs k)]\<rparr>"
    using same by (simp add: allocate_def)
qed

lemma represents_update:
  assumes r: "represents s xs" and k: "k < 31"
    and ys: "t = of_nat (length ys)" "length ys < 2 ^ 31" "2 ^ k \<le> 2 * length ys + 1"
    and none: "\<And>i. i < 31 \<Longrightarrow> i \<noteq> k \<Longrightarrow> entities s ! i = None \<Longrightarrow> length ys < 2 ^ i"
    and some: "\<And>i. i < 31 \<Longrightarrow> i \<noteq> k \<Longrightarrow> entities s ! i \<noteq> None \<Longrightarrow> 2 ^ i \<le> 2 * length xs + 1 \<Longrightarrow>
      2 ^ i \<le> 2 * length ys + 1 \<and> block_of xs i = block_of ys i"
  shows "represents (s\<lparr>entities := (entities s)[k := Some (block_of ys k)], total_size := t\<rparr>) ys"
proof -
  have len: "length (entities s) = 31" using r by (simp add: represents_def)
  have "case (entities s)[k := Some (block_of ys k)] ! i of
      None \<Rightarrow> length ys < 2 ^ i | Some b \<Rightarrow> 2 ^ i \<le> 2 * length ys + 1 \<and> b = block_of ys i" if i: "i < 31" for i
  proof (cases "i = k")
    case True
    then show ?thesis using ys(3) len k by simp
  next
    case False
    then show ?thesis
      using r i none [OF i False] some [OF i False] by (cases "entities s ! i") (auto simp: represents_def)
  qed
  then show ?thesis using ys(1,2) len by (simp add: represents_def)
qed

lemma emplace_back_represents:
  assumes r: "represents s xs" and bound: "length xs < 2 ^ 31 - 1"
  shows "\<exists>s'. emplace_back v s = Ret s' \<and> represents s' (xs @ [v])"
proof -
  have size: "total_size s = of_nat (length xs)" and len: "length (entities s) = 31"
    using r by (simp_all add: represents_def)
  have u: "unat (total_size s + 1) = length xs + 1"
    using unat_of_nat_small [of "length xs + 1"] bound by (simp add: size add.commute)
  obtain k where k: "block_index (total_size s + 1) = Ret k" "2 ^ k \<le> length xs + 1" "length xs + 1 < 2 * 2 ^ k"
    "internal_index (total_size s + 1) k = length xs + 1 - 2 ^ k"
    "(total_size s + 1) AND total_size s = 0 \<longleftrightarrow> length xs + 1 = 2 ^ k"
    using index_of_position [of "total_size s + 1"] u by (metis add_diff_cancel_right' less_add_one zero_less_Suc Suc_eq_plus1)
  have k31: "k < 31" using block_index_31 [of k "length xs + 1"] k bound by simp
  let ?s1 = "s\<lparr>entities := (entities s)[k := Some (block_of xs k)]\<rparr>"
  have block: "(if (total_size s + 1) AND total_size s = 0
     then andThen (entity s k) (\<lambda>block. Ret (if block = None then allocate k s else s)) else Ret s) = Ret ?s1"
    using block_ready [OF r k31 k(2)] k(5) k31 len by (simp add: entity_def)
  have append: "block_of (xs @ [v]) k = (block_of xs k)[length xs + 1 - 2 ^ k := Some v]"
    and append': "i \<noteq> k \<Longrightarrow> block_of (xs @ [v]) i = block_of xs i" for i
    by (simp_all add: block_of_append [OF k(2,3)])
  have inside: "Suc (length xs) - 2 ^ k < 2 ^ k"
    using k(2,3) by simp
  have gap: "Suc (length xs) < 2 ^ i" if "i < 31" "entities s ! i = None" "i \<noteq> k" for i
    using pow_neq_cases [OF k(2,3), of i] r that by (auto simp: represents_def)
  have "emplace_back v s =
      Ret (s\<lparr>entities := (entities s)[k := Some (block_of (xs @ [v]) k)], total_size := total_size s + 1\<rparr>)"
    unfolding emplace_back_def k(1) andThen.simps block
    using append inside k31 len by (simp add: set_cell_def entity_def k(4))
  moreover have "represents (s\<lparr>entities := (entities s)[k := Some (block_of (xs @ [v]) k)],
      total_size := total_size s + 1\<rparr>) (xs @ [v])"
  proof (rule represents_update [OF r k31])
    show "total_size s + 1 = of_nat (length (xs @ [v]))" by (simp add: size)
    show "length (xs @ [v]) < 2 ^ 31" using bound by simp
    show "2 ^ k \<le> 2 * length (xs @ [v]) + 1" using k(2) by simp
    show "\<And>i. i < 31 \<Longrightarrow> i \<noteq> k \<Longrightarrow> entities s ! i = None \<Longrightarrow> length (xs @ [v]) < 2 ^ i"
      using gap by simp
    show "\<And>i. i < 31 \<Longrightarrow> i \<noteq> k \<Longrightarrow> entities s ! i \<noteq> None \<Longrightarrow> 2 ^ i \<le> 2 * length xs + 1 \<Longrightarrow>
        2 ^ i \<le> 2 * length (xs @ [v]) + 1 \<and> block_of xs i = block_of (xs @ [v]) i"
      by (simp add: append')
  qed
  ultimately show ?thesis by blast
qed

lemma represents_free:
  assumes "represents s xs" "length xs < 2 ^ i"
  shows "represents (s\<lparr>entities := (entities s)[i := None]\<rparr>) xs"
proof (cases "i < 31")
  case True
  have "case (entities s)[i := None] ! m of
      None \<Rightarrow> length xs < 2 ^ m | Some b \<Rightarrow> 2 ^ m \<le> 2 * length xs + 1 \<and> b = block_of xs m" if "m < 31" for m
    using assms that True by (cases "m = i") (auto simp: represents_def)
  then show ?thesis using assms by (simp add: represents_def)
next
  case False
  then show ?thesis using assms by (simp add: represents_def)
qed

text \<open>What \<open>pop_back\<close> leaves before it destroys the element: the block after next is freed.\<close>

lemma pop_back_free:
  assumes r: "represents s xs" and k: "2 ^ k \<le> length xs" "length xs < 2 * 2 ^ k" "k + 1 < 31"
  shows "\<exists>s1. (if length xs = 2 ^ k
      then andThen (entity s (k + 1)) (\<lambda>block.
        Ret (if block \<noteq> None then s\<lparr>entities := (entities s)[k + 1 := None]\<rparr> else s))
      else Ret s) = Ret s1 \<and> represents s1 xs \<and> total_size s1 = total_size s \<and>
      (length xs = 2 ^ k \<longrightarrow> entities s1 ! (k + 1) = None)"
  using r k represents_free [OF r, of "k + 1"]
  by (auto simp: entity_def represents_def)

lemma pop_back_cell:
  assumes r: "represents s (ys @ [v])" and k: "k < 31" "2 ^ k \<le> length ys + 1" "length ys + 1 < 2 * 2 ^ k"
  shows "destroy k (length ys + 1 - 2 ^ k) s =
    Ret (v, s\<lparr>entities := (entities s)[k := Some (block_of ys k)]\<rparr>)"
proof -
  let ?j = "length ys + 1 - 2 ^ k"
  have block: "entities s ! k = Some ((block_of ys k)[?j := Some v])"
    using represents_block [OF r k(1)] k by (simp add: block_of_append [OF k(2,3)])
  have j: "?j < 2 ^ k" using k by linarith
  have "block_of ys k ! ?j = None"
    using k j by (simp add: block_of_def)
  then have undo: "(block_of ys k)[?j := None] = block_of ys k"
    by (metis list_update_id)
  have "length (entities s) = 31" using r by (simp add: represents_def)
  then show ?thesis
    using block j undo k(1) by (simp add: destroy_def cell_def set_cell_def entity_def)
qed

lemma pop_back_shrinks:
  assumes s1: "represents s1 (ys @ [v])" and r: "represents s (ys @ [v])"
    and k: "k < 31" "2 ^ k \<le> length ys + 1" "length ys + 1 < 2 * 2 ^ k"
    and freed: "length ys + 1 = 2 ^ k \<Longrightarrow> entities s1 ! (k + 1) = None"
  shows "represents (s1\<lparr>entities := (entities s1)[k := Some (block_of ys k)], total_size := total_size s - 1\<rparr>) ys"
proof (rule represents_update [OF s1 k(1)])
  show "total_size s - 1 = of_nat (length ys)" "length ys < 2 ^ 31"
    using r by (simp_all add: represents_def)
  show "2 ^ k \<le> 2 * length ys + 1" using k by (cases k) simp_all
  show "length ys < 2 ^ i" if "i < 31" "i \<noteq> k" "entities s1 ! i = None" for i
    using s1 that by (force simp: represents_def)
  show "2 ^ i \<le> 2 * length ys + 1 \<and> block_of (ys @ [v]) i = block_of ys i"
    if i: "i < 31" "i \<noteq> k" "entities s1 ! i \<noteq> None" "2 ^ i \<le> 2 * length (ys @ [v]) + 1" for i
  proof -
    have "2 ^ i \<le> 2 * length ys + 1"
    proof (cases "i \<le> k")
      case True
      then show ?thesis using pow_neq_cases [OF k(2,3) i(2)] by auto
    next
      case False
      show ?thesis
      proof (cases "length ys + 1 = 2 ^ k")
        case True
        then have "i \<noteq> k + 1" using freed i(3) by auto
        then have "(2 :: nat) ^ (k + 2) \<le> 2 ^ i" using False by (intro power_increasing) simp_all
        then show ?thesis using True i(4) by simp
      next
        case ne: False
        have "\<not> i \<ge> k + 2"
        proof
          assume "k + 2 \<le> i"
          then have "(2 :: nat) ^ (k + 2) \<le> 2 ^ i" by (intro power_increasing) simp_all
          then show False using k(3) i(4) by simp
        qed
        then have "i = k + 1" using False by simp
        then show ?thesis using ne k(2) by simp
      qed
    qed
    then show ?thesis using i(2) by (simp add: block_of_append [OF k(2,3)])
  qed
qed

lemma pop_back_represents:
  assumes r: "represents s (ys @ [v])" and bound: "length ys + 1 \<noteq> 2 ^ 30"
  shows "\<exists>s'. pop_back s = Ret s' \<and> represents s' ys"
proof -
  have u: "unat (total_size s) = length ys + 1"
    using represents_size [OF r] by simp
  obtain k where k: "block_index (total_size s) = Ret k" "2 ^ k \<le> length ys + 1" "length ys + 1 < 2 * 2 ^ k"
    "internal_index (total_size s) k = length ys + 1 - 2 ^ k"
    "(total_size s - 1) AND total_size s = 0 \<longleftrightarrow> length (ys @ [v]) = 2 ^ k"
    using index_of_position [of "total_size s"] u by (auto simp: and.commute)
  have k31: "k < 31"
    using block_index_31 [OF k(2)] r by (simp add: represents_def)
  have "\<exists>s1. (if length (ys @ [v]) = 2 ^ k
      then andThen (entity s (k + 1)) (\<lambda>block.
        Ret (if block \<noteq> None then s\<lparr>entities := (entities s)[k + 1 := None]\<rparr> else s))
      else Ret s) = Ret s1 \<and> represents s1 (ys @ [v]) \<and> total_size s1 = total_size s \<and>
      (length ys + 1 = 2 ^ k \<longrightarrow> entities s1 ! (k + 1) = None)"
  proof (cases "k + 1 < 31")
    case True
    then show ?thesis using pop_back_free [OF r, of k] k(2,3) by simp
  next
    case False
    then have "length ys + 1 \<noteq> 2 ^ k" using k31 bound by (metis Suc_eq_plus1 Suc_lessI add_left_imp_eq
      numeral_eq_Suc pred_numeral_simps(2) pred_numeral_simps(3) nat.inject)
    then show ?thesis using r by simp
  qed
  then obtain s1 where s1: "(if (total_size s - 1) AND total_size s = 0
      then andThen (entity s (k + 1)) (\<lambda>block.
        Ret (if block \<noteq> None then s\<lparr>entities := (entities s)[k + 1 := None]\<rparr> else s))
      else Ret s) = Ret s1" "represents s1 (ys @ [v])" "total_size s1 = total_size s"
      "length ys + 1 = 2 ^ k \<Longrightarrow> entities s1 ! (k + 1) = None"
    unfolding k(5) by blast
  have "pop_back s = Ret (s1\<lparr>entities := (entities s1)[k := Some (block_of ys k)], total_size := total_size s - 1\<rparr>)"
    unfolding pop_back_def k(1) andThen.simps s1(1)
    using pop_back_cell [OF s1(2) k31 k(2,3)] by (simp add: s1(3) k(4))
  moreover have "represents (s1\<lparr>entities := (entities s1)[k := Some (block_of ys k)],
      total_size := total_size s - 1\<rparr>) ys"
    by (rule pop_back_shrinks [OF s1(2) r k31 k(2,3) s1(4)])
  ultimately show ?thesis by blast
qed

lemma pop_back_last_block:
  assumes r: "represents s xs" and n: "length xs = 2 ^ 30"
  shows "pop_back s = Exn Undefined"
proof -
  have u: "unat (total_size s) = 2 ^ 30"
    using represents_size [OF r] n by simp
  obtain k where k: "block_index (total_size s) = Ret k" "2 ^ k \<le> unat (total_size s)" "unat (total_size s) < 2 * 2 ^ k"
    "total_size s AND (total_size s - 1) = 0 \<longleftrightarrow> unat (total_size s) = 2 ^ k"
    using index_of_position [of "total_size s"] u by auto
  have "k = 30"
    using k(2,3) pow_neq_cases [of 30 "2 ^ 30" k] unfolding u by fastforce
  then show ?thesis
    using k u r by (simp add: pop_back_def entity_def represents_def and.commute)
qed

lemma pop_back_empty:
  assumes "represents s []"
  shows "pop_back s = Exn Undefined"
  using assms by (simp add: pop_back_def block_index_def represents_def)

lemma subscript_represents:
  assumes r: "represents s xs" and i: "unat i < length xs"
  shows "subscript s i = Ret (xs ! unat i)"
proof -
  have u: "unat (i + 1) = unat i + 1"
    using unat_of_nat_small [of "unat i + 1"] i r by (simp add: represents_def add.commute)
  obtain k where k: "block_index (i + 1) = Ret k" "2 ^ k \<le> unat i + 1" "unat i + 1 < 2 * 2 ^ k"
    "internal_index (i + 1) k = unat i + 1 - 2 ^ k"
    using index_of_position [of "i + 1"] u by auto
  have k31: "k < 31"
    using block_index_31 [of k "unat i + 1"] k i r by (simp add: represents_def)
  have "entities s ! k = Some (block_of xs k)"
    using represents_block [OF r k31] k i by simp
  moreover have "unat i + 1 - 2 ^ k < 2 ^ k" using k by linarith
  moreover have "block_of xs k ! (unat i + 1 - 2 ^ k) = Some (xs ! unat i)"
    using calculation(2) k i by (simp add: block_of_def)
  ultimately show ?thesis
    using r k31 k by (simp add: subscript_def cell_def entity_def represents_def)
qed

text \<open>The loops of \<open>resize\<close>.\<close>

lemma grow_represents:
  assumes "represents s xs" "unat new_size < 2 ^ 31" "unat new_size - length xs < fuel"
  shows "\<exists>s'. grow fuel new_size d s = Ret s' \<and> represents s' (xs @ replicate (unat new_size - length xs) d)"
  using assms
proof (induction fuel arbitrary: s xs)
  case (Suc fuel)
  have size: "total_size s < new_size \<longleftrightarrow> length xs < unat new_size"
    using represents_size [OF Suc.prems(1)] by (simp add: word_less_nat_alt)
  show ?case
  proof (cases "length xs < unat new_size")
    case True
    then obtain s1 where s1: "emplace_back d s = Ret s1" "represents s1 (xs @ [d])"
      using emplace_back_represents [OF Suc.prems(1), of d] Suc.prems(2) by force
    have "unat new_size - length xs = Suc (unat new_size - length (xs @ [d]))"
      using True by simp
    then show ?thesis
      using Suc.IH [OF s1(2)] Suc.prems True s1 size by (simp add: andThen.simps)
  next
    case False
    then show ?thesis using Suc.prems size by simp
  qed
qed simp

lemma shrink_represents:
  assumes "represents s xs" "length xs - unat new_size < fuel" "\<not> (unat new_size < 2 ^ 30 \<and> 2 ^ 30 \<le> length xs)"
  shows "\<exists>s'. shrink fuel new_size s = Ret s' \<and> represents s' (take (unat new_size) xs)"
  using assms
proof (induction fuel arbitrary: s xs)
  case (Suc fuel)
  have size: "new_size < total_size s \<longleftrightarrow> unat new_size < length xs"
    using represents_size [OF Suc.prems(1)] by (simp add: word_less_nat_alt)
  show ?case
  proof (cases "unat new_size < length xs")
    case True
    then obtain ys v where xs: "xs = ys @ [v]" by (metis append_butlast_last_id length_0_conv not_less_zero)
    obtain s1 where s1: "pop_back s = Ret s1" "represents s1 ys"
      using pop_back_represents [of s ys v] Suc.prems True xs by fastforce
    have "take (unat new_size) xs = take (unat new_size) ys" using True xs by simp
    moreover have "length ys - unat new_size < fuel" "\<not> (unat new_size < 2 ^ 30 \<and> 2 ^ 30 \<le> length ys)"
      using Suc.prems(2,3) True xs by auto
    ultimately show ?thesis
      using Suc.IH [OF s1(2)] True s1(1) size by simp
  next
    case False
    then show ?thesis using Suc.prems size by simp
  qed
qed simp

lemma resize_represents:
  assumes r: "represents s xs" and new: "unat new_size < 2 ^ 31" "\<not> (unat new_size < 2 ^ 30 \<and> 2 ^ 30 \<le> length xs)"
  shows "\<exists>s'. resize new_size d s = Ret s' \<and>
    represents s' (take (unat new_size) xs @ replicate (unat new_size - length xs) d)"
proof -
  let ?n = "unat new_size"
  obtain s1 where s1: "grow (Suc (?n - length xs)) new_size d s = Ret s1" "represents s1 (xs @ replicate (?n - length xs) d)"
    using grow_represents [OF r new(1)] by (metis lessI)
  have "\<not> (?n < 2 ^ 30 \<and> 2 ^ 30 \<le> length (xs @ replicate (?n - length xs) d))"
    using new(2) by auto
  from shrink_represents [OF s1(2) lessI this] obtain s2
    where s2: "shrink (Suc (length (xs @ replicate (?n - length xs) d) - ?n)) new_size s1 = Ret s2"
      "represents s2 (take ?n (xs @ replicate (?n - length xs) d))"
    by blast
  show ?thesis
    unfolding resize_def represents_size [OF r] s1(1) andThen.simps represents_size [OF s1(2)] s2(1)
    using s2(2) by simp
qed

text \<open>The destructor destroys every element once, in order, and frees every block.\<close>

lemma same_block:
  assumes "entities s ! i = Some b"
  shows "\<exists>b'. s = s\<lparr>entities := (entities s)[i := Some b']\<rparr>"
proof
  have "(entities s)[i := Some b] = entities s"
    using assms by (metis list_update_id)
  then show "s = s\<lparr>entities := (entities s)[i := Some b]\<rparr>" by simp
qed

lemma destroy_cells_block:
  assumes "i < length (entities s)" "entities s ! i = Some b" "length b = 2 ^ i" "\<forall>m\<ge>j. m < 2 ^ i \<longrightarrow> b ! m = block_of xs i ! m"
    "unat (total_size s + 1) = length xs + 1" "j + n = 2 ^ i"
  shows "\<exists>b'. destroy_cells i j n s =
    Ret (take n (drop (2 ^ i + j - 1) xs), s\<lparr>entities := (entities s)[i := Some b']\<rparr>)"
  using assms
proof (induction n arbitrary: j s b)
  case 0
  then show ?case by (simp add: same_block)
next
  case (Suc n)
  show ?case
  proof (cases "2 ^ i + j \<le> length xs")
    case True
    have c: "b ! j = Some (xs ! (2 ^ i + j - 1))"
      using Suc.prems True by (simp add: block_of_def)
    let ?s = "s\<lparr>entities := (entities s)[i := Some (b[j := None])]\<rparr>"
    have d: "destroy i j s = Ret (xs ! (2 ^ i + j - 1), ?s)"
      using Suc.prems c by (simp add: destroy_def cell_def set_cell_def entity_def)
    obtain b' where "destroy_cells i (Suc j) n ?s =
        Ret (take n (drop (2 ^ i + Suc j - 1) xs), ?s\<lparr>entities := (entities ?s)[i := Some b']\<rparr>)"
      using Suc.IH [of ?s "b[j := None]" "Suc j"] Suc.prems by auto
    moreover have "xs ! (2 ^ i + j - 1) # take n (drop (2 ^ i + Suc j - 1) xs) = take (Suc n) (drop (2 ^ i + j - 1) xs)"
    proof -
      have "0 < (2 :: nat) ^ i + j" by simp
      then obtain p where p: "2 ^ i + j = Suc p" by (metis gr0_implies_Suc)
      then have "xs ! p # drop (Suc p) xs = drop p xs" using True by (intro Cons_nth_drop_Suc) simp
      then show ?thesis using p by (metis add_Suc_right diff_Suc_1 take_Suc_Cons)
    qed
    ultimately show ?thesis
      using d True Suc.prems by (auto intro!: exI [of _ b'])
  next
    case False
    then have "destroy_cells i j (Suc n) s = Ret ([], s)" "drop (2 ^ i + j - 1) xs = []"
      using Suc.prems by simp_all
    then show ?thesis
      using Suc.prems by (simp add: same_block)
  qed
qed

lemma destroy_blocks_none:
  assumes "\<forall>i\<in>set is. entities s ! i = None"
  shows "destroy_blocks is s = Ret ([], s)"
  using assms by (cases "is") simp_all

text \<open>The blocks below \<open>m\<close> are gone, the others are as the represented list says.\<close>

lemma destroy_blocks_represents:
  assumes "length (entities s) = 31" "unat (total_size s + 1) = length xs + 1" "m \<le> 31" "length xs < 2 ^ 31"
    "\<forall>i<m. entities s ! i = None"
    "\<forall>i<31. m \<le> i \<longrightarrow> (case entities s ! i of
        None \<Rightarrow> length xs < 2 ^ i
      | Some b \<Rightarrow> 2 ^ i \<le> 2 * length xs + 1 \<and> b = block_of xs i)"
  shows "\<exists>s'. destroy_blocks [m..<31] s = Ret (drop (2 ^ m - 1) xs, s') \<and> entities s' = replicate 31 None \<and>
    total_size s' = total_size s"
  using assms
proof (induction "31 - m" arbitrary: m s)
  case 0
  then have "m = 31" by simp
  moreover have "entities s = replicate 31 None"
    using 0 by (simp add: list_eq_iff_nth_eq)
  ultimately show ?case using 0 by simp
next
  case (Suc d)
  then have m: "m < 31" "[m..<31] = m # [Suc m..<31]" by (simp_all add: upt_conv_Cons)
  show ?case
  proof (cases "entities s ! m")
    case None
    then have n: "length xs < 2 ^ m" using Suc.prems m by fastforce
    have "entities s ! i = None" if "m \<le> i" "i < 31" for i
    proof (rule ccontr)
      assume "entities s ! i \<noteq> None"
      then have "2 ^ i \<le> 2 * length xs + 1" "i \<noteq> m" using Suc.prems(6) None that by auto
      moreover have "i \<noteq> m \<Longrightarrow> (2 :: nat) ^ Suc m \<le> 2 ^ i" using that by (intro power_increasing) simp_all
      ultimately show False using n by simp
    qed
    then have "entities s = replicate 31 None"
      using Suc.prems by (simp add: list_eq_iff_nth_eq) (metis not_le)
    then show ?thesis using n m None by simp
  next
    case (Some b)
    then have b: "b = block_of xs m" using Suc.prems(6) m by auto
    obtain b' where cells: "destroy_cells m 0 (2 ^ m) s =
        Ret (take (2 ^ m) (drop (2 ^ m - 1) xs), s\<lparr>entities := (entities s)[m := Some b']\<rparr>)"
      using destroy_cells_block [of m s b 0 xs "2 ^ m"] Suc.prems m Some b by auto
    let ?s = "s\<lparr>entities := (entities s)[m := None]\<rparr>"
    have ih: "\<exists>s'. destroy_blocks [Suc m..<31] ?s = Ret (drop (2 ^ Suc m - 1) xs, s') \<and>
        entities s' = replicate 31 None \<and> total_size s' = total_size ?s"
    proof (rule Suc.hyps(1))
      show "d = 31 - Suc m" using Suc.hyps(2) by simp
      show "\<forall>i<Suc m. entities ?s ! i = None"
        using Suc.prems(1,5) m by (auto simp: less_Suc_eq)
      show "\<forall>i<31. Suc m \<le> i \<longrightarrow> (case entities ?s ! i of None \<Rightarrow> length xs < 2 ^ i
          | Some b \<Rightarrow> 2 ^ i \<le> 2 * length xs + 1 \<and> b = block_of xs i)"
        using Suc.prems(6) by simp
    qed (use Suc.prems m in simp_all)
    have "drop (2 ^ m - 1) xs = take (2 ^ m) (drop (2 ^ m - 1) xs) @ drop (2 ^ Suc m - 1) xs"
      using append_take_drop_id [of "2 ^ m" "drop (2 ^ m - 1) xs"] by (simp add: mult_2 add.commute)
    then show ?thesis
      using ih Some cells unfolding m(2) by auto
  qed
qed

lemma destruct_represents:
  assumes "represents s xs"
  shows "\<exists>s'. destruct s = Ret (xs, s') \<and> entities s' = replicate 31 None"
proof -
  have "unat (total_size s + 1) = length xs + 1"
    using unat_of_nat_small [of "length xs + 1"] assms by (simp add: represents_def add.commute)
  then show ?thesis
    using destroy_blocks_represents [of s xs 0] assms unfolding represents_def destruct_def by auto
qed

text \<open>
  A move assignment swaps the blocks and sets the size of the source to zero: destroying the source frees
  the blocks of the old target and runs no destructor for its elements.
\<close>

lemma destroy_cells_none:
  assumes "total_size s = 0"
  shows "destroy_cells i j n s = Ret ([], s)"
  using assms by (cases n) simp_all

lemma destroy_blocks_unsized:
  "total_size s = 0 \<Longrightarrow> \<exists>s'. destroy_blocks is s = Ret ([], s')"
proof (induction "is" arbitrary: s)
  case (Cons i "is")
  show ?case
    using Cons.IH [of "s\<lparr>entities := (entities s)[i := None]\<rparr>"] Cons.prems
    by (auto simp: destroy_cells_none)
qed simp

section \<open>Properties\<close>

text \<open>
  C13. The vector is a list. If it represents the list \<open>xs\<close> then, as long as fewer than \<open>2 ^ 31 - 1\<close> elements are
  held, appending an element returns and represents \<open>xs\<close> with it at the end; indexing below the size
  returns the element of that index; and removing the last element returns and represents the list
  without it, unless the size is exactly \<open>2 ^ 30\<close>. The empty vector represents the empty list.
\<close>

theorem stable_vector_refines_list:
  "represents (StableVector :: 'a stable_vector) [] \<and>
   (\<forall>s (xs :: 'a list). represents s xs \<longrightarrow>
      unat (vector_size s) = length xs \<and>
      (length xs < 2 ^ 31 - 1 \<longrightarrow> (\<forall>v. \<exists>s'. emplace_back v s = Ret s' \<and> represents s' (xs @ [v]))) \<and>
      (\<forall>i. unat i < length xs \<longrightarrow> subscript s i = Ret (xs ! unat i)) \<and>
      (xs \<noteq> [] \<and> length xs \<noteq> 2 ^ 30 \<longrightarrow> (\<exists>s'. pop_back s = Ret s' \<and> represents s' (butlast xs))))"
proof (intro conjI allI impI StableVector_represents)
  fix s and xs :: "'a list" and v i
  assume r: "represents s xs"
  show "unat (vector_size s) = length xs" using represents_size [OF r] by (simp add: vector_size_def)
  show "\<exists>s'. emplace_back v s = Ret s' \<and> represents s' (xs @ [v])" if "length xs < 2 ^ 31 - 1"
    by (rule emplace_back_represents [OF r that])
  show "subscript s i = Ret (xs ! unat i)" if "unat i < length xs"
    by (rule subscript_represents [OF r that])
  show "\<exists>s'. pop_back s = Ret s' \<and> represents s' (butlast xs)" if "xs \<noteq> [] \<and> length xs \<noteq> 2 ^ 30"
    using pop_back_represents [of s "butlast xs" "last xs"] r that by simp
qed

theorem stable_vector_refines_list_witness:
  "\<exists>s1 s2 s3. emplace_back (7 :: nat) StableVector = Ret s1 \<and> emplace_back 8 s1 = Ret s2 \<and>
     subscript s2 1 = Ret 8 \<and> pop_back s2 = Ret s3 \<and> represents s3 [7]"
proof -
  note p = stable_vector_refines_list [where 'a = nat]
  obtain s1 where s1: "emplace_back 7 StableVector = Ret s1" "represents s1 [7 :: nat]"
    using p by fastforce
  obtain s2 where s2: "emplace_back 8 s1 = Ret s2" "represents s2 [7, 8 :: nat]"
    using p s1(2) by fastforce
  have "subscript s2 1 = Ret 8" "\<exists>s3. pop_back s2 = Ret s3 \<and> represents s3 [7]"
    using p s2(2) by fastforce+
  then show ?thesis using s1(1) s2(1) by blast
qed

text \<open>
  C31. Resizing returns, and represents the old elements cut to the new size or extended with copies of
  the default element (unless the size falls from \<open>2 ^ 30\<close> or more to less); the destructor then
  destroys exactly these elements, each once and in order, and frees every block.
\<close>

theorem resize_then_destruct:
  assumes "represents s xs" "unat new_size < 2 ^ 31" "\<not> (unat new_size < 2 ^ 30 \<and> 2 ^ 30 \<le> length xs)"
  shows "\<exists>s' s''. resize new_size d s = Ret s' \<and>
    destruct s' = Ret (take (unat new_size) xs @ replicate (unat new_size - length xs) d, s'') \<and>
    entities s'' = replicate 31 None"
  using resize_represents [OF assms] destruct_represents by blast

theorem resize_then_destruct_witness:
  "\<exists>s' s''. resize 3 (0 :: nat) StableVector = Ret s' \<and> destruct s' = Ret ([0, 0, 0], s'') \<and>
    entities s'' = replicate 31 None"
proof -
  have "replicate 3 (0 :: nat) = [0, 0, 0]" by (simp add: numeral_3_eq_3)
  then show ?thesis
    using resize_then_destruct [OF StableVector_represents [where 'a = nat], of 3 0] by simp
qed

text \<open>
  Removing the last of exactly \<open>2 ^ 30\<close> elements reads the block pointer of index 31, one past the end of the
  array of 31.
\<close>

theorem pop_back_reads_past_blocks:
  assumes "represents s xs" "length xs = 2 ^ 30"
  shows "pop_back s = Exn Undefined"
  by (rule pop_back_last_block [OF assms])

theorem pop_back_reads_past_blocks_witness:
  "\<exists>s. represents s (replicate (2 ^ 30) (0 :: nat)) \<and> pop_back s = Exn Undefined"
proof -
  have u: "unat (2 ^ 30 :: 64 word) = 2 ^ 30"
    using unat_of_nat_small [of "2 ^ 30"] by simp
  obtain s where "represents s ([] @ replicate (unat (2 ^ 30 :: 64 word) - length ([] :: nat list)) (0 :: nat))"
    using grow_represents [OF StableVector_represents, of "2 ^ 30" "2 ^ 30 + 1" 0] unfolding u by auto
  then have r: "represents s (replicate (2 ^ 30) (0 :: nat))" unfolding u by simp
  show ?thesis using pop_back_reads_past_blocks [OF r] r by auto
qed

text \<open>
  C32. A move assignment gives the target the list of the source, and no destructor ever runs for the
  elements the target held: they pass to the source with its size set to zero, and destroying it
  destroys nothing.
\<close>

theorem move_assign_loses_elements:
  assumes "represents s xs" "represents rhs ys" "move_assign s rhs = (s', rhs')"
  shows "represents s' ys \<and> (\<exists>t. destruct rhs' = Ret ([], t))"
proof
  show "represents s' ys"
    using assms(2,3) by (auto simp: move_assign_def represents_def)
  show "\<exists>t. destruct rhs' = Ret ([], t)"
    using assms(3) destroy_blocks_unsized [of rhs' "[0..<31]"] by (auto simp: move_assign_def destruct_def)
qed

theorem move_assign_loses_elements_witness:
  "\<exists>s s' rhs' t. emplace_back (7 :: nat) StableVector = Ret s \<and> represents s [7] \<and>
     move_assign s StableVector = (s', rhs') \<and> represents s' [] \<and> destruct rhs' = Ret ([], t)"
proof -
  obtain s where s: "emplace_back (7 :: nat) StableVector = Ret s" "represents s [7]"
    using emplace_back_represents [OF StableVector_represents, of "7 :: nat"] by auto
  obtain s' rhs' where m: "move_assign s StableVector = (s', rhs')" by (metis surj_pair)
  show ?thesis
    using move_assign_loses_elements [OF s(2) StableVector_represents m] s m by blast
qed

end
