(* ===== verification/Wmm_Event.thy ===== *)
theory Wmm_Event
  imports LTest_Prelude "HOL-Library.Word"
begin

text \<open>
  The events of the weak memory model: memory orders and enumerations (runtime/include/wmm/common.h),
  edges (edge.h), vector clocks (vector_clock.h), and the event classes with their virtual methods
  (event.h). A pointer to an event is its number. The value type of an atomic is an unsigned integer of
  any width.
\<close>

unbundle bit_operations_syntax

section \<open>Enumerations\<close>

datatype MemoryOrder = Relaxed | Acquire | Release | AcqRel | SeqCst

datatype EventType = DUMMY | READ | WRITE | RMW

datatype AtomicRmwOp = Exchange | FetchAdd | FetchSub | FetchAnd | FetchOr | FetchXor | FetchMin | FetchMax

datatype EdgeType = PO | SC | RF | MO

text \<open>Memory orders are compared as the numbers of the enumeration.\<close>

fun order_rank :: "MemoryOrder \<Rightarrow> nat" where
  "order_rank Relaxed = 0"
| "order_rank Acquire = 1"
| "order_rank Release = 2"
| "order_rank AcqRel = 3"
| "order_rank SeqCst = 4"

instantiation MemoryOrder :: linorder
begin

definition less_eq_MemoryOrder :: "MemoryOrder \<Rightarrow> MemoryOrder \<Rightarrow> bool" where
  "less_eq_MemoryOrder a b \<longleftrightarrow> order_rank a \<le> order_rank b"

definition less_MemoryOrder :: "MemoryOrder \<Rightarrow> MemoryOrder \<Rightarrow> bool" where
  "less_MemoryOrder a b \<longleftrightarrow> order_rank a < order_rank b"

instance
proof
  fix a b :: MemoryOrder
  show "a \<le> b \<Longrightarrow> b \<le> a \<Longrightarrow> a = b"
    by (cases a; cases b) (simp_all add: less_eq_MemoryOrder_def)
qed (auto simp: less_eq_MemoryOrder_def less_MemoryOrder_def)

end

text \<open>The orders of the standard library, and their translation.\<close>

datatype std_memory_order =
    memory_order_relaxed
  | memory_order_consume
  | memory_order_acquire
  | memory_order_release
  | memory_order_acq_rel
  | memory_order_seq_cst

fun OrderFromStd :: "std_memory_order \<Rightarrow> MemoryOrder res" where
  "OrderFromStd memory_order_relaxed = Ret Relaxed"
| "OrderFromStd memory_order_acquire = Ret Acquire"
| "OrderFromStd memory_order_release = Ret Release"
| "OrderFromStd memory_order_acq_rel = Ret AcqRel"
| "OrderFromStd memory_order_seq_cst = Ret SeqCst"
| "OrderFromStd memory_order_consume = Exn (InvalidArgument ''Unsupported memory order'')"

fun OrderToString :: "MemoryOrder \<Rightarrow> string" where
  "OrderToString Relaxed = ''Relaxed''"
| "OrderToString Acquire = ''Acquire''"
| "OrderToString Release = ''Release''"
| "OrderToString AcqRel = ''AcqRel''"
| "OrderToString SeqCst = ''SeqCst''"

fun EventTypeToString :: "EventType \<Rightarrow> string" where
  "EventTypeToString DUMMY = ''D''"
| "EventTypeToString READ = ''R''"
| "EventTypeToString WRITE = ''W''"
| "EventTypeToString RMW = ''RMW''"

fun AtomicRmwOpToString :: "AtomicRmwOp \<Rightarrow> string" where
  "AtomicRmwOpToString Exchange = ''exchange''"
| "AtomicRmwOpToString FetchAdd = ''fetch_add''"
| "AtomicRmwOpToString FetchSub = ''fetch_sub''"
| "AtomicRmwOpToString FetchAnd = ''fetch_and''"
| "AtomicRmwOpToString FetchOr = ''fetch_or''"
| "AtomicRmwOpToString FetchXor = ''fetch_xor''"
| "AtomicRmwOpToString FetchMin = ''fetch_min''"
| "AtomicRmwOpToString FetchMax = ''fetch_max''"

fun EdgeTypeToString :: "EdgeType \<Rightarrow> string" where
  "EdgeTypeToString PO = ''po''"
| "EdgeTypeToString SC = ''sc''"
| "EdgeTypeToString RF = ''rf''"
| "EdgeTypeToString MO = ''mo''"

definition INIT_THREAD_ID :: nat where
  "INIT_THREAD_ID = 0"

section \<open>Edges and vector clocks\<close>

record wmm_edge =
  e_id :: nat
  e_type :: EdgeType
  e_from :: nat
  e_to :: nat

type_synonym VectorClock = "int list"

definition new_clock :: "nat \<Rightarrow> VectorClock" where
  "new_clock nThreads = replicate nThreads 0"

definition IsSameLength :: "VectorClock \<Rightarrow> VectorClock \<Rightarrow> bool" where
  "IsSameLength ts other \<longleftrightarrow> length ts = length other"

definition IsSubsetOf :: "VectorClock \<Rightarrow> VectorClock \<Rightarrow> bool res" where
  "IsSubsetOf ts other =
     andThen (cpp_assert (IsSameLength ts other)) (\<lambda>_.
     Ret (\<forall>i\<in>set [0..<length ts]. \<not> ts ! i > other ! i))"

definition UniteWith :: "VectorClock \<Rightarrow> VectorClock \<Rightarrow> VectorClock res" where
  "UniteWith ts other =
     andThen (cpp_assert (IsSameLength ts other)) (\<lambda>_. Ret (map2 max ts other))"

definition Increment :: "VectorClock \<Rightarrow> nat \<Rightarrow> VectorClock res" where
  "Increment ts threadId =
     andThen (cpp_assert (threadId < length ts)) (\<lambda>_. Ret (ts[threadId := ts ! threadId + 1]))"

section \<open>Events\<close>

datatype RMWState = RMW_READ | MODIFY | UNSET

text \<open>
  What each class adds to the base class. The pointer \<open>expected\<close> of a compare-exchange is the value it
  points to: the caller's variable for the duration of the call.
\<close>

datatype 'v payload =
    DummyEvent
  | WriteEvent (written: 'v)
  | ReadEvent
  | CASRMWEvent (initialExpectedValue: 'v) (cachedExpectedValue: 'v) (expected: 'v) (desired: 'v)
      (failureOrder: MemoryOrder)
  | UnconditionalRMWEvent (op: AtomicRmwOp) (operand: 'v) (cachedReadValue: 'v) (writtenValue: 'v)

record 'v wmm_event =
  ev_id :: nat
  ev_type :: EventType
  location :: int
  threadId :: nat
  ev_order :: MemoryOrder
  clock :: VectorClock
  out_edges :: "nat list"
  readFrom :: "nat option"
  rmw_state :: RMWState
  payload :: "'v payload"

definition Event :: "nat \<Rightarrow> EventType \<Rightarrow> nat \<Rightarrow> int \<Rightarrow> nat \<Rightarrow> MemoryOrder \<Rightarrow> 'v payload \<Rightarrow> 'v wmm_event" where
  "Event eventId type nThreads loc t ord p =
     \<lparr>ev_id = eventId, ev_type = type, location = loc, threadId = t, ev_order = ord, clock = new_clock nThreads,
      out_edges = [], readFrom = None, rmw_state = UNSET, payload = p\<rparr>"

definition new_DummyEvent :: "nat \<Rightarrow> nat \<Rightarrow> nat \<Rightarrow> 'v wmm_event" where
  "new_DummyEvent eventId nThreads t = Event eventId DUMMY nThreads (-1) t Relaxed DummyEvent"

definition new_WriteEvent :: "nat \<Rightarrow> nat \<Rightarrow> int \<Rightarrow> nat \<Rightarrow> MemoryOrder \<Rightarrow> 'v \<Rightarrow> 'v wmm_event" where
  "new_WriteEvent eventId nThreads loc t ord v = Event eventId WRITE nThreads loc t ord (WriteEvent v)"

definition new_ReadEvent :: "nat \<Rightarrow> nat \<Rightarrow> int \<Rightarrow> nat \<Rightarrow> MemoryOrder \<Rightarrow> 'v wmm_event" where
  "new_ReadEvent eventId nThreads loc t ord = Event eventId READ nThreads loc t ord ReadEvent"

definition new_CASRMWEvent ::
    "nat \<Rightarrow> nat \<Rightarrow> int \<Rightarrow> nat \<Rightarrow> 'v \<Rightarrow> 'v \<Rightarrow> MemoryOrder \<Rightarrow> MemoryOrder \<Rightarrow> 'v wmm_event" where
  "new_CASRMWEvent eventId nThreads loc t expct des successOrder failOrder =
     Event eventId RMW nThreads loc t successOrder (CASRMWEvent expct expct expct des failOrder)"

definition new_UnconditionalRMWEvent ::
    "nat \<Rightarrow> nat \<Rightarrow> int \<Rightarrow> nat \<Rightarrow> AtomicRmwOp \<Rightarrow> 'v::zero \<Rightarrow> MemoryOrder \<Rightarrow> 'v wmm_event" where
  "new_UnconditionalRMWEvent eventId nThreads loc t oper arg ord =
     Event eventId RMW nThreads loc t ord (UnconditionalRMWEvent oper arg 0 0)"

definition HappensBefore :: "'v wmm_event \<Rightarrow> 'v wmm_event \<Rightarrow> bool res" where
  "HappensBefore e other = IsSubsetOf (clock e) (clock other)"

definition IsDummy :: "'v wmm_event \<Rightarrow> bool" where
  "IsDummy e \<longleftrightarrow> ev_type e = DUMMY"

definition IsWrite :: "'v wmm_event \<Rightarrow> bool" where
  "IsWrite e \<longleftrightarrow> ev_type e = WRITE"

definition IsRead :: "'v wmm_event \<Rightarrow> bool" where
  "IsRead e \<longleftrightarrow> ev_type e = READ"

definition IsRMW :: "'v wmm_event \<Rightarrow> bool" where
  "IsRMW e \<longleftrightarrow> ev_type e = RMW"

definition IsWriteOrRMW :: "'v wmm_event \<Rightarrow> bool" where
  "IsWriteOrRMW e \<longleftrightarrow> IsWrite e \<or> IsRMW e"

definition IsReadOrRMW :: "'v wmm_event \<Rightarrow> bool" where
  "IsReadOrRMW e \<longleftrightarrow> IsRead e \<or> IsRMW e"

text \<open>
  The memory order methods are virtual: a compare-exchange answers by its success or its failure order,
  and must have been resolved.
\<close>

definition Event_IsSeqCst :: "'v wmm_event \<Rightarrow> bool" where
  "Event_IsSeqCst e \<longleftrightarrow> ev_order e = SeqCst"

definition Event_IsAcqRel :: "'v wmm_event \<Rightarrow> bool" where
  "Event_IsAcqRel e \<longleftrightarrow> ev_order e = AcqRel"

definition Event_IsAcquire :: "'v wmm_event \<Rightarrow> bool" where
  "Event_IsAcquire e \<longleftrightarrow> ev_order e = Acquire"

definition Event_IsRelease :: "'v wmm_event \<Rightarrow> bool" where
  "Event_IsRelease e \<longleftrightarrow> ev_order e = Release"

definition Event_IsRelaxed :: "'v wmm_event \<Rightarrow> bool" where
  "Event_IsRelaxed e \<longleftrightarrow> ev_order e = Relaxed"

definition Event_IsAtLeastAcquire :: "'v wmm_event \<Rightarrow> bool" where
  "Event_IsAtLeastAcquire e \<longleftrightarrow> ev_order e \<ge> Acquire \<and> ev_order e \<noteq> Release"

definition Event_IsAtLeastRelease :: "'v wmm_event \<Rightarrow> bool" where
  "Event_IsAtLeastRelease e \<longleftrightarrow> ev_order e \<ge> Release"

definition CASRMW_order :: "'v wmm_event \<Rightarrow> MemoryOrder res" where
  "CASRMW_order e =
     andThen (cpp_assert (rmw_state e \<noteq> UNSET)) (\<lambda>_.
     Ret (if rmw_state e = MODIFY then ev_order e else failureOrder (payload e)))"

definition CASRMW_IsSeqCst :: "'v wmm_event \<Rightarrow> bool res" where
  "CASRMW_IsSeqCst e = andThen (CASRMW_order e) (\<lambda>ord. Ret (ord = SeqCst))"

definition CASRMW_IsAcqRel :: "'v wmm_event \<Rightarrow> bool res" where
  "CASRMW_IsAcqRel e = andThen (CASRMW_order e) (\<lambda>ord. Ret (ord = AcqRel))"

definition CASRMW_IsAcquire :: "'v wmm_event \<Rightarrow> bool res" where
  "CASRMW_IsAcquire e = andThen (CASRMW_order e) (\<lambda>ord. Ret (ord = Acquire))"

definition CASRMW_IsRelease :: "'v wmm_event \<Rightarrow> bool res" where
  "CASRMW_IsRelease e = andThen (CASRMW_order e) (\<lambda>ord. Ret (ord = Release))"

definition CASRMW_IsRelaxed :: "'v wmm_event \<Rightarrow> bool res" where
  "CASRMW_IsRelaxed e = andThen (CASRMW_order e) (\<lambda>ord. Ret (ord = Relaxed))"

definition CASRMW_IsAtLeastAcquire :: "'v wmm_event \<Rightarrow> bool res" where
  "CASRMW_IsAtLeastAcquire e = andThen (CASRMW_order e) (\<lambda>ord. Ret (ord \<ge> Acquire \<and> ord \<noteq> Release))"

definition CASRMW_IsAtLeastRelease :: "'v wmm_event \<Rightarrow> bool res" where
  "CASRMW_IsAtLeastRelease e = andThen (CASRMW_order e) (\<lambda>ord. Ret (ord \<ge> Release))"

definition IsSeqCst :: "'v wmm_event \<Rightarrow> bool res" where
  "IsSeqCst e = (if is_CASRMWEvent (payload e) then CASRMW_IsSeqCst e else Ret (Event_IsSeqCst e))"

definition IsAcqRel :: "'v wmm_event \<Rightarrow> bool res" where
  "IsAcqRel e = (if is_CASRMWEvent (payload e) then CASRMW_IsAcqRel e else Ret (Event_IsAcqRel e))"

definition IsAcquire :: "'v wmm_event \<Rightarrow> bool res" where
  "IsAcquire e = (if is_CASRMWEvent (payload e) then CASRMW_IsAcquire e else Ret (Event_IsAcquire e))"

definition IsRelease :: "'v wmm_event \<Rightarrow> bool res" where
  "IsRelease e = (if is_CASRMWEvent (payload e) then CASRMW_IsRelease e else Ret (Event_IsRelease e))"

definition IsRelaxed :: "'v wmm_event \<Rightarrow> bool res" where
  "IsRelaxed e = (if is_CASRMWEvent (payload e) then CASRMW_IsRelaxed e else Ret (Event_IsRelaxed e))"

definition IsAtLeastAcquire :: "'v wmm_event \<Rightarrow> bool res" where
  "IsAtLeastAcquire e =
     (if is_CASRMWEvent (payload e) then CASRMW_IsAtLeastAcquire e else Ret (Event_IsAtLeastAcquire e))"

definition IsAtLeastRelease :: "'v wmm_event \<Rightarrow> bool res" where
  "IsAtLeastRelease e =
     (if is_CASRMWEvent (payload e) then CASRMW_IsAtLeastRelease e else Ret (Event_IsAtLeastRelease e))"

text \<open>Whether a read-modify-write is resolved, and how.\<close>

definition CASRMW_IsReadRWM :: "'v wmm_event \<Rightarrow> bool" where
  "CASRMW_IsReadRWM e \<longleftrightarrow> rmw_state e = RMW_READ"

definition IsReadRWM :: "'v wmm_event \<Rightarrow> bool" where
  "IsReadRWM e \<longleftrightarrow> (if is_CASRMWEvent (payload e) then CASRMW_IsReadRWM e else False)"

definition CASRMW_IsModifyRMW :: "'v wmm_event \<Rightarrow> bool" where
  "CASRMW_IsModifyRMW e \<longleftrightarrow> rmw_state e = MODIFY"

definition UnconditionalRMW_IsModifyRMW :: "'v wmm_event \<Rightarrow> bool" where
  "UnconditionalRMW_IsModifyRMW e \<longleftrightarrow> rmw_state e = MODIFY"

definition IsModifyRMW :: "'v wmm_event \<Rightarrow> bool" where
  "IsModifyRMW e \<longleftrightarrow>
     (if is_CASRMWEvent (payload e) then CASRMW_IsModifyRMW e
      else if is_UnconditionalRMWEvent (payload e) then UnconditionalRMW_IsModifyRMW e
      else False)"

section \<open>Values\<close>

text \<open>The operations of a read-modify-write, on an unsigned type, which supports all of them.\<close>

fun ApplyAtomicRmwOp :: "AtomicRmwOp \<Rightarrow> 'w::len word \<Rightarrow> 'w word \<Rightarrow> 'w word" where
  "ApplyAtomicRmwOp Exchange readValue arg = arg"
| "ApplyAtomicRmwOp FetchAdd readValue arg = readValue + arg"
| "ApplyAtomicRmwOp FetchSub readValue arg = readValue - arg"
| "ApplyAtomicRmwOp FetchAnd readValue arg = readValue AND arg"
| "ApplyAtomicRmwOp FetchOr readValue arg = readValue OR arg"
| "ApplyAtomicRmwOp FetchXor readValue arg = readValue XOR arg"
| "ApplyAtomicRmwOp FetchMin readValue arg = min readValue arg"
| "ApplyAtomicRmwOp FetchMax readValue arg = max readValue arg"

definition CASRMW_GetWrittenValue :: "'v wmm_event \<Rightarrow> 'v res" where
  "CASRMW_GetWrittenValue e =
     andThen (cpp_assert (rmw_state e \<noteq> UNSET)) (\<lambda>_.
     Ret (if rmw_state e = MODIFY then desired (payload e) else expected (payload e)))"

definition UnconditionalRMW_GetWrittenValue :: "'v wmm_event \<Rightarrow> 'v res" where
  "UnconditionalRMW_GetWrittenValue e =
     andThen (cpp_assert (rmw_state e = MODIFY)) (\<lambda>_. Ret (writtenValue (payload e)))"

definition GetWrittenValue :: "'v wmm_event \<Rightarrow> 'v res" where
  "GetWrittenValue e =
     andThen (cpp_assert (IsWriteOrRMW e)) (\<lambda>_.
     case payload e of
       WriteEvent v \<Rightarrow> Ret v
     | CASRMWEvent _ _ _ _ _ \<Rightarrow> CASRMW_GetWrittenValue e
     | UnconditionalRMWEvent _ _ _ _ \<Rightarrow> UnconditionalRMW_GetWrittenValue e
     | _ \<Rightarrow> Exn Undefined)"

text \<open>
  \<open>SetReadFromEvent\<close> of each class: the event to read from, or null. The first argument finds an event
  by its number.
\<close>

definition read_from_ok :: "(nat \<Rightarrow> 'v wmm_event) \<Rightarrow> nat option \<Rightarrow> bool" where
  "read_from_ok ev w \<longleftrightarrow> (case w of None \<Rightarrow> True | Some i \<Rightarrow> IsWriteOrRMW (ev i))"

definition Read_SetReadFromEvent :: "(nat \<Rightarrow> 'v wmm_event) \<Rightarrow> nat option \<Rightarrow> 'v wmm_event \<Rightarrow> 'v wmm_event res" where
  "Read_SetReadFromEvent ev w e =
     andThen (cpp_assert (read_from_ok ev w)) (\<lambda>_. Ret (e\<lparr>readFrom := w\<rparr>))"

definition CASRMW_SetReadFromEvent :: "(nat \<Rightarrow> 'v wmm_event) \<Rightarrow> nat option \<Rightarrow> 'v wmm_event \<Rightarrow> 'v wmm_event res" where
  "CASRMW_SetReadFromEvent ev w e =
     (let init = initialExpectedValue (payload e); des = desired (payload e); fail = failureOrder (payload e) in
     andThen (cpp_assert (read_from_ok ev w)) (\<lambda>_.
     case w of
       None \<Rightarrow> Ret (e\<lparr>readFrom := None, rmw_state := UNSET, payload := CASRMWEvent init init init des fail\<rparr>)
     | Some i \<Rightarrow>
         andThen (GetWrittenValue (ev i)) (\<lambda>readValue.
         andThen (cpp_assert (expected (payload e) = init)) (\<lambda>_.
         if readValue = init then Ret (e\<lparr>readFrom := w, rmw_state := MODIFY\<rparr>)
         else Ret (e\<lparr>readFrom := w, rmw_state := RMW_READ,
                     payload := CASRMWEvent init readValue readValue des fail\<rparr>)))))"

definition UnconditionalRMW_SetReadFromEvent ::
    "(nat \<Rightarrow> 'w::len word wmm_event) \<Rightarrow> nat option \<Rightarrow> 'w word wmm_event \<Rightarrow> 'w word wmm_event res" where
  "UnconditionalRMW_SetReadFromEvent ev w e =
     andThen (cpp_assert (read_from_ok ev w)) (\<lambda>_.
     case w of
       None \<Rightarrow> Ret (e\<lparr>readFrom := None, rmw_state := UNSET\<rparr>)
     | Some i \<Rightarrow>
         andThen (GetWrittenValue (ev i)) (\<lambda>readValue.
         Ret (e\<lparr>readFrom := w, rmw_state := MODIFY,
                payload := UnconditionalRMWEvent (op (payload e)) (operand (payload e)) readValue
                  (ApplyAtomicRmwOp (op (payload e)) readValue (operand (payload e)))\<rparr>)))"

definition SetReadFromEvent ::
    "(nat \<Rightarrow> 'w::len word wmm_event) \<Rightarrow> nat option \<Rightarrow> 'w word wmm_event \<Rightarrow> 'w word wmm_event res" where
  "SetReadFromEvent ev w e =
     (case payload e of
        ReadEvent \<Rightarrow> Read_SetReadFromEvent ev w e
      | CASRMWEvent _ _ _ _ _ \<Rightarrow> CASRMW_SetReadFromEvent ev w e
      | UnconditionalRMWEvent _ _ _ _ \<Rightarrow> UnconditionalRMW_SetReadFromEvent ev w e
      | _ \<Rightarrow> Exn AssertionFailure)"

definition GetReadFromEvent :: "'v wmm_event \<Rightarrow> nat option res" where
  "GetReadFromEvent e =
     (case payload e of
        DummyEvent \<Rightarrow> Exn AssertionFailure
      | WriteEvent _ \<Rightarrow> Exn AssertionFailure
      | _ \<Rightarrow> Ret (readFrom e))"

text \<open>The value an event read.\<close>

definition read_through :: "(nat \<Rightarrow> 'v wmm_event) \<Rightarrow> 'v wmm_event \<Rightarrow> 'v res" where
  "read_through ev e = (case readFrom e of None \<Rightarrow> Exn AssertionFailure | Some i \<Rightarrow> GetWrittenValue (ev i))"

definition UnconditionalRMW_GetReadValue :: "'v wmm_event \<Rightarrow> 'v res" where
  "UnconditionalRMW_GetReadValue e =
     andThen (cpp_assert (readFrom e \<noteq> None)) (\<lambda>_. Ret (cachedReadValue (payload e)))"

definition GetReadValue :: "(nat \<Rightarrow> 'v wmm_event) \<Rightarrow> 'v wmm_event \<Rightarrow> 'v res" where
  "GetReadValue ev e =
     andThen (cpp_assert (IsReadOrRMW e)) (\<lambda>_.
     case payload e of
       ReadEvent \<Rightarrow> read_through ev e
     | CASRMWEvent _ _ _ _ _ \<Rightarrow> read_through ev e
     | UnconditionalRMWEvent _ _ _ _ \<Rightarrow> UnconditionalRMW_GetReadValue e
     | _ \<Rightarrow> Exn Undefined)"

end
