(* ===== verification/Wmm_Graph.thy ===== *)
theory Wmm_Graph
  imports Wmm_Event
begin

text \<open>
  The execution graph of the weak memory model (runtime/include/wmm/graph.h): events, edges, the rules
  that add modification order edges, the acyclicity test, and the trial of a reads-from edge under a
  snapshot. The shuffle of the candidates is a parameter. An access that the language leaves undefined
  is an error, as is a failed assertion.
\<close>

section \<open>State\<close>

record 'v wmm_graph =
  g_edges :: "wmm_edge list"
  g_events :: "'v wmm_event list"
  eventsPerThread :: "nat list list"
  lastSeqCstWriteEvents :: "int \<Rightarrow> nat option"
  snapshotEdges :: "nat set"
  inSnapshotMode :: bool
  g_nThreads :: nat

definition Graph :: "'v wmm_graph" where
  "Graph = \<lparr>g_edges = [], g_events = [], eventsPerThread = [], lastSeqCstWriteEvents = Map.empty,
            snapshotEdges = {}, inSnapshotMode = False, g_nThreads = 0\<rparr>"

text \<open>The event behind a pointer, and its update.\<close>

definition event_at :: "'v wmm_graph \<Rightarrow> nat \<Rightarrow> 'v wmm_event" where
  "event_at g i = g_events g ! i"

definition update_event :: "nat \<Rightarrow> ('v wmm_event \<Rightarrow> 'v wmm_event) \<Rightarrow> 'v wmm_graph \<Rightarrow> 'v wmm_graph" where
  "update_event i f g = g\<lparr>g_events := (g_events g)[i := f (event_at g i)]\<rparr>"

definition res_and :: "bool res \<Rightarrow> bool res \<Rightarrow> bool res" where
  "res_and a b = andThen a (\<lambda>x. if x then b else Ret False)"

definition is_store :: "'v wmm_event \<Rightarrow> bool" where
  "is_store e \<longleftrightarrow> IsWrite e \<or> IsModifyRMW e"

section \<open>Edges\<close>

fun find_edge :: "wmm_edge list \<Rightarrow> EdgeType \<Rightarrow> nat \<Rightarrow> nat \<Rightarrow> nat list \<Rightarrow> bool res" where
  "find_edge es ty src dst [] = Ret False"
| "find_edge es ty src dst (eId # eIds) =
     andThen (vector_at es eId) (\<lambda>edge.
     if e_from edge = src \<and> e_to edge = dst \<and> e_type edge = ty then Ret True
     else find_edge es ty src dst eIds)"

definition ExistsEdge :: "EdgeType \<Rightarrow> nat \<Rightarrow> nat \<Rightarrow> 'v wmm_graph \<Rightarrow> bool res" where
  "ExistsEdge ty src dst g =
     andThen (vector_at (g_events g) src) (\<lambda>e. find_edge (g_edges g) ty src dst (out_edges e))"

definition AddEdge :: "EdgeType \<Rightarrow> nat \<Rightarrow> nat \<Rightarrow> 'v wmm_graph \<Rightarrow> 'v wmm_graph res" where
  "AddEdge ty src dst g =
     andThen (if ty = MO then ExistsEdge ty src dst g else Ret False) (\<lambda>exists.
     if exists then Ret g
     else
       andThen (vector_at (g_events g) src) (\<lambda>e.
       let eId = length (g_edges g) in
       Ret (g\<lparr>g_events := (g_events g)[src := e\<lparr>out_edges := out_edges e @ [eId]\<rparr>],
              g_edges := g_edges g @ [\<lparr>e_id = eId, e_type = ty, e_from = src, e_to = dst\<rparr>],
              snapshotEdges := (if inSnapshotMode g then insert eId (snapshotEdges g) else snapshotEdges g)\<rparr>)))"

definition GetLastSeqCstWriteEventId :: "int \<Rightarrow> 'v wmm_graph \<Rightarrow> nat option" where
  "GetLastSeqCstWriteEventId loc g = lastSeqCstWriteEvents g loc"

text \<open>
  For each thread the most recent event that satisfies the predicate is handed to the callback.
\<close>

fun most_recent ::
    "('v wmm_graph \<Rightarrow> 'v wmm_event \<Rightarrow> bool res) \<Rightarrow> ('v wmm_event \<Rightarrow> 'v wmm_graph \<Rightarrow> 'v wmm_graph res) \<Rightarrow>
     nat list \<Rightarrow> 'v wmm_graph \<Rightarrow> 'v wmm_graph res" where
  "most_recent predicate callback [] g = Ret g"
| "most_recent predicate callback (i # is) g =
     andThen (vector_at (g_events g) i) (\<lambda>otherEvent.
     andThen (predicate g otherEvent) (\<lambda>b.
     if \<not> b then most_recent predicate callback is g
     else callback otherEvent g))"

fun over_threads ::
    "('v wmm_graph \<Rightarrow> 'v wmm_event \<Rightarrow> bool res) \<Rightarrow> ('v wmm_event \<Rightarrow> 'v wmm_graph \<Rightarrow> 'v wmm_graph res) \<Rightarrow>
     nat list \<Rightarrow> 'v wmm_graph \<Rightarrow> 'v wmm_graph res" where
  "over_threads predicate callback [] g = Ret g"
| "over_threads predicate callback (t # ts) g =
     andThen (vector_at (eventsPerThread g) t) (\<lambda>threadEvents.
     andThen (most_recent predicate callback (rev threadEvents) g) (over_threads predicate callback ts))"

definition IterateThroughMostRecentEventsByPredicate ::
    "('v wmm_graph \<Rightarrow> 'v wmm_event \<Rightarrow> bool res) \<Rightarrow> ('v wmm_event \<Rightarrow> 'v wmm_graph \<Rightarrow> 'v wmm_graph res) \<Rightarrow>
     'v wmm_graph \<Rightarrow> 'v wmm_graph res" where
  "IterateThroughMostRecentEventsByPredicate predicate callback g =
     over_threads predicate callback [0..<g_nThreads g] g"

section \<open>General edges\<close>

definition CreatePoEdgeToEvent :: "'v wmm_event \<Rightarrow> 'v wmm_graph \<Rightarrow> 'v wmm_graph res" where
  "CreatePoEdgeToEvent event g =
     andThen (vector_at (eventsPerThread g) (threadId event)) (\<lambda>threadEvents.
     andThen (if threadEvents = [] then Exn Undefined else Ret (last threadEvents)) (\<lambda>lastId.
     andThen (vector_at (g_events g) lastId) (\<lambda>lastEventInSameThread.
     andThen (AddEdge PO (ev_id lastEventInSameThread) (ev_id event) g) (\<lambda>g.
     andThen (Increment (clock lastEventInSameThread) (threadId event)) (\<lambda>newClock.
     Ret (g\<lparr>eventsPerThread := (eventsPerThread g)[threadId event := threadEvents @ [ev_id event]],
            g_events := g_events g @ [event\<lparr>clock := newClock\<rparr>]\<rparr>))))))"

definition CreateScEdgeToEvent :: "nat \<Rightarrow> 'v wmm_graph \<Rightarrow> 'v wmm_graph res" where
  "CreateScEdgeToEvent event g =
     andThen (IsSeqCst (event_at g event)) (\<lambda>sc.
     andThen (cpp_assert sc) (\<lambda>_.
     case GetLastSeqCstWriteEventId (location (event_at g event)) g of
       None \<Rightarrow> Ret g
     | Some lastSeqCstWriteEvent \<Rightarrow>
         andThen (vector_at (g_events g) lastSeqCstWriteEvent) (\<lambda>lastSeqCstWrite.
         andThen (cpp_assert (IsWrite lastSeqCstWrite \<or> IsModifyRMW lastSeqCstWrite)) (\<lambda>_.
         andThen (AddEdge SC (ev_id lastSeqCstWrite) (ev_id (event_at g event)) g) (\<lambda>g.
         andThen (UniteWith (clock (event_at g event)) (clock lastSeqCstWrite)) (\<lambda>newClock.
         Ret (update_event event (\<lambda>e. e\<lparr>clock := newClock\<rparr>) g)))))))"

section \<open>Modification order edges\<close>

text \<open>The assertions that the rules for a reads-from pair share.\<close>

definition assert_rf_pair :: "nat \<Rightarrow> nat \<Rightarrow> 'v wmm_graph \<Rightarrow> unit res" where
  "assert_rf_pair write read g =
     andThen (cpp_assert (IsWriteOrRMW (event_at g write) \<and> IsReadOrRMW (event_at g read))) (\<lambda>_.
     andThen (cpp_assert (location (event_at g write) = location (event_at g read))) (\<lambda>_.
     andThen (GetReadFromEvent (event_at g read)) (\<lambda>w. cpp_assert (w = Some write))))"

definition CreateSeqCstReadWriteCoherenceEdges :: "nat \<Rightarrow> nat \<Rightarrow> 'v wmm_graph \<Rightarrow> 'v wmm_graph res" where
  "CreateSeqCstReadWriteCoherenceEdges write read g =
     andThen (assert_rf_pair write read g) (\<lambda>_.
     case GetLastSeqCstWriteEventId (location (event_at g read)) g of
       None \<Rightarrow> Ret g
     | Some lastSeqCstWriteEvent \<Rightarrow>
         andThen (vector_at (g_events g) lastSeqCstWriteEvent) (\<lambda>lastSeqCstWrite.
         andThen (cpp_assert (IsWrite lastSeqCstWrite \<or> IsModifyRMW lastSeqCstWrite)) (\<lambda>_.
         andThen (cpp_assert (location lastSeqCstWrite = location (event_at g read))) (\<lambda>_.
         if ev_id lastSeqCstWrite = ev_id (event_at g write) then Ret g
         else AddEdge MO (ev_id lastSeqCstWrite) (ev_id (event_at g write)) g))))"

definition CreateWriteReadCoherenceEdges :: "nat \<Rightarrow> nat \<Rightarrow> 'v wmm_graph \<Rightarrow> 'v wmm_graph res" where
  "CreateWriteReadCoherenceEdges write read g =
     andThen (assert_rf_pair write read g) (\<lambda>_.
     IterateThroughMostRecentEventsByPredicate
       (\<lambda>g otherEvent. res_and
          (Ret (ev_id (event_at g read) \<noteq> ev_id otherEvent \<and> ev_id (event_at g write) \<noteq> ev_id otherEvent \<and>
                (IsWrite otherEvent \<or> IsModifyRMW otherEvent) \<and>
                location otherEvent = location (event_at g read)))
          (HappensBefore otherEvent (event_at g read)))
       (\<lambda>otherEvent g. AddEdge MO (ev_id otherEvent) (ev_id (event_at g write)) g) g)"

definition CreateReadReadCoherenceEdges :: "nat \<Rightarrow> nat \<Rightarrow> 'v wmm_graph \<Rightarrow> 'v wmm_graph res" where
  "CreateReadReadCoherenceEdges write read g =
     andThen (assert_rf_pair write read g) (\<lambda>_.
     IterateThroughMostRecentEventsByPredicate
       (\<lambda>g otherEvent. res_and
          (Ret (ev_id (event_at g read) \<noteq> ev_id otherEvent \<and> ev_id (event_at g write) \<noteq> ev_id otherEvent \<and>
                IsReadOrRMW otherEvent \<and> location otherEvent = location (event_at g read)))
          (res_and (HappensBefore otherEvent (event_at g read))
             (andThen (GetReadFromEvent otherEvent) (\<lambda>w. Ret (w \<noteq> None \<and> w \<noteq> Some write)))))
       (\<lambda>otherRead g.
          andThen (GetReadFromEvent otherRead) (\<lambda>w.
          case w of
            None \<Rightarrow> Exn Undefined
          | Some otherWrite \<Rightarrow> AddEdge MO (ev_id (event_at g otherWrite)) (ev_id (event_at g write)) g)) g)"

definition CreateSeqCstConsistencyEdges :: "nat \<Rightarrow> 'v wmm_graph \<Rightarrow> 'v wmm_graph res" where
  "CreateSeqCstConsistencyEdges event g =
     andThen (res_and (Ret (IsWriteOrRMW (event_at g event))) (IsSeqCst (event_at g event))) (\<lambda>b.
     andThen (cpp_assert b) (\<lambda>_.
     case GetLastSeqCstWriteEventId (location (event_at g event)) g of
       None \<Rightarrow> Ret g
     | Some lastSeqCstWriteEvent \<Rightarrow>
         andThen (vector_at (g_events g) lastSeqCstWriteEvent) (\<lambda>lastSeqCstWrite.
         andThen (cpp_assert (IsWrite lastSeqCstWrite \<or> IsModifyRMW lastSeqCstWrite)) (\<lambda>_.
         andThen (cpp_assert (location lastSeqCstWrite = location (event_at g event))) (\<lambda>_.
         AddEdge MO (ev_id lastSeqCstWrite) (ev_id (event_at g event)) g)))))"

definition CreateWriteWriteCoherenceEdges :: "nat \<Rightarrow> 'v wmm_graph \<Rightarrow> 'v wmm_graph res" where
  "CreateWriteWriteCoherenceEdges event g =
     andThen (cpp_assert (IsWriteOrRMW (event_at g event))) (\<lambda>_.
     IterateThroughMostRecentEventsByPredicate
       (\<lambda>g otherEvent. res_and
          (Ret (ev_id (event_at g event) \<noteq> ev_id otherEvent \<and> (IsWrite otherEvent \<or> IsModifyRMW otherEvent) \<and>
                location otherEvent = location (event_at g event)))
          (HappensBefore otherEvent (event_at g event)))
       (\<lambda>otherEvent g. AddEdge MO (ev_id otherEvent) (ev_id (event_at g event)) g) g)"

definition CreateReadWriteCoherenceEdges :: "nat \<Rightarrow> 'v wmm_graph \<Rightarrow> 'v wmm_graph res" where
  "CreateReadWriteCoherenceEdges event g =
     andThen (cpp_assert (IsWriteOrRMW (event_at g event))) (\<lambda>_.
     IterateThroughMostRecentEventsByPredicate
       (\<lambda>g otherEvent. res_and
          (Ret (ev_id (event_at g event) \<noteq> ev_id otherEvent \<and> IsReadOrRMW otherEvent \<and>
                location otherEvent = location (event_at g event)))
          (HappensBefore otherEvent (event_at g event)))
       (\<lambda>otherEvent g.
          andThen (GetReadFromEvent otherEvent) (\<lambda>w.
          case w of
            None \<Rightarrow> Exn AssertionFailure
          | Some writeEvent \<Rightarrow> AddEdge MO (ev_id (event_at g writeEvent)) (ev_id (event_at g event)) g)) g)"

definition assert_rmw_pair :: "nat \<Rightarrow> nat \<Rightarrow> 'v wmm_graph \<Rightarrow> unit res" where
  "assert_rmw_pair write rmw g =
     andThen (cpp_assert (IsWriteOrRMW (event_at g write) \<and> IsModifyRMW (event_at g rmw))) (\<lambda>_.
     andThen (cpp_assert (location (event_at g write) = location (event_at g rmw))) (\<lambda>_.
     andThen (GetReadFromEvent (event_at g rmw)) (\<lambda>w. cpp_assert (w = Some write))))"

definition CreateRmwConsistencyEdges :: "nat \<Rightarrow> nat \<Rightarrow> 'v wmm_graph \<Rightarrow> 'v wmm_graph res" where
  "CreateRmwConsistencyEdges write rmw g =
     andThen (assert_rmw_pair write rmw g) (\<lambda>_.
     AddEdge MO (ev_id (event_at g write)) (ev_id (event_at g rmw)) g)"

text \<open>
  The loop runs over the edges of \<open>write\<close>; the edges it adds leave \<open>rmw\<close>, another event.
\<close>

fun atomicity_loop :: "nat \<Rightarrow> nat list \<Rightarrow> 'v wmm_graph \<Rightarrow> 'v wmm_graph res" where
  "atomicity_loop rmw [] g = Ret g"
| "atomicity_loop rmw (edgeId # edgeIds) g =
     andThen (vector_at (g_edges g) edgeId) (\<lambda>edge.
     andThen (if e_type edge = MO \<and> e_to edge \<noteq> ev_id (event_at g rmw)
              then AddEdge MO (ev_id (event_at g rmw)) (e_to edge) g else Ret g)
       (atomicity_loop rmw edgeIds))"

definition CreateRmwAtomicityEdges :: "nat \<Rightarrow> nat \<Rightarrow> 'v wmm_graph \<Rightarrow> 'v wmm_graph res" where
  "CreateRmwAtomicityEdges write rmw g =
     andThen (assert_rmw_pair write rmw g) (\<lambda>_.
     atomicity_loop rmw (out_edges (event_at g write)) g)"

section \<open>Consistency\<close>

text \<open>
  The search for a cycle of modification order edges, with an explicit stack (its top is the head of
  the list). Scanning the edges of an event either finds a cycle or pushes the targets not yet visited.
\<close>

datatype color = NOT_VISITED | IN_STACK | VISITED

type_synonym dfs_stack = "(nat \<times> bool) list"

fun scan_edges :: "'v wmm_graph \<Rightarrow> nat list \<Rightarrow> color list \<Rightarrow> dfs_stack \<Rightarrow> (color list \<times> dfs_stack) option res" where
  "scan_edges g [] colors stack = Ret (Some (colors, stack))"
| "scan_edges g (edgeId # edgeIds) colors stack =
     andThen (vector_at (g_edges g) edgeId) (\<lambda>edge.
     if e_type edge \<noteq> MO then scan_edges g edgeIds colors stack
     else
       andThen (vector_at colors (e_to edge)) (\<lambda>c.
       case c of
         NOT_VISITED \<Rightarrow>
           andThen (vector_at (g_events g) (e_to edge)) (\<lambda>target.
           scan_edges g edgeIds (colors[e_to edge := IN_STACK]) ((ev_id target, False) # stack))
       | IN_STACK \<Rightarrow> Ret None
       | VISITED \<Rightarrow> scan_edges g edgeIds colors stack))"

text \<open>Every step of the search lowers this weight.\<close>

definition dfs_weight :: "color list \<Rightarrow> dfs_stack \<Rightarrow> nat" where
  "dfs_weight colors stack =
     3 * length (filter (\<lambda>c. c = NOT_VISITED) colors) + sum_list (map (\<lambda>(_, b). if b then 1 else 2) stack)"

lemma count_update:
  "i < length xs \<Longrightarrow> xs ! i = c \<Longrightarrow> v \<noteq> c \<Longrightarrow>
   Suc (length (filter (\<lambda>x. x = c) (xs[i := v]))) = length (filter (\<lambda>x. x = c) xs)"
proof (induction xs arbitrary: i)
  case (Cons x xs)
  then show ?case by (cases i) auto
qed simp

lemma count_update_le:
  "v \<noteq> c \<Longrightarrow> length (filter (\<lambda>x. x = c) (xs[i := v])) \<le> length (filter (\<lambda>x. x = c) xs)"
  by (induction xs arbitrary: i) (auto split: nat.split)

lemma scan_edges_weight:
  "scan_edges g es colors stack = Ret (Some (colors', stack')) \<Longrightarrow>
   dfs_weight colors' stack' \<le> dfs_weight colors stack"
proof (induction g es colors stack rule: scan_edges.induct)
  case (2 g edgeId edgeIds colors stack)
  obtain edge where edge: "vector_at (g_edges g) edgeId = Ret edge"
    using "2.prems" by (auto simp: res_simps)
  show ?case
  proof (cases "e_type edge = MO")
    case False
    then show ?thesis using "2.prems" "2.IH"(1) edge by simp
  next
    case True
    then obtain c where c: "vector_at colors (e_to edge) = Ret c"
      using "2.prems" edge by (auto simp: res_simps)
    show ?thesis
    proof (cases c)
      case NOT_VISITED
      then obtain target where t: "vector_at (g_events g) (e_to edge) = Ret target"
        using "2.prems" edge True c by (auto simp: res_simps)
      have "scan_edges g edgeIds (colors[e_to edge := IN_STACK]) ((ev_id target, False) # stack) = Ret (Some (colors', stack'))"
        using "2.prems" edge True c NOT_VISITED t by simp
      then have "dfs_weight colors' stack' \<le> dfs_weight (colors[e_to edge := IN_STACK]) ((ev_id target, False) # stack)"
        using "2.IH"(2) edge True c NOT_VISITED t by simp
      also have "\<dots> \<le> dfs_weight colors stack"
        using count_update [of "e_to edge" colors NOT_VISITED IN_STACK] c NOT_VISITED
        by (auto simp: dfs_weight_def vector_at_eq_Ret)
      finally show ?thesis .
    qed (use "2.prems" "2.IH"(3) edge True c in simp_all)
  qed
qed simp

function dfs_loop :: "'v wmm_graph \<Rightarrow> color list \<Rightarrow> dfs_stack \<Rightarrow> color list option res" where
  "dfs_loop g colors [] = Ret (Some colors)"
| "dfs_loop g colors ((eventId, considered) # stack) =
     (if considered then
        andThen (vector_at colors eventId) (\<lambda>_. dfs_loop g (colors[eventId := VISITED]) stack)
      else
        andThen (scan_edges g (out_edges (event_at g eventId)) colors ((eventId, True) # stack)) (\<lambda>r.
        case r of
          None \<Rightarrow> Ret None
        | Some (colors, stack) \<Rightarrow> dfs_loop g colors stack))"
  by pat_completeness auto

termination
proof (relation "measure (\<lambda>(g, colors, stack). dfs_weight colors stack)", goal_cases)
  case (2 g colors eventId considered stack x)
  then show ?case
    using count_update_le [of VISITED NOT_VISITED colors eventId] by (simp add: dfs_weight_def)
next
  case (3 g colors eventId considered stack r x colors' stack')
  then have "dfs_weight colors' stack' \<le> dfs_weight colors ((eventId, True) # stack)"
    using scan_edges_weight by metis
  then show ?case using 3 by (auto simp: dfs_weight_def)
qed simp

fun check_events :: "'v wmm_graph \<Rightarrow> 'v wmm_event list \<Rightarrow> color list \<Rightarrow> bool res" where
  "check_events g [] colors = Ret True"
| "check_events g (e # es) colors =
     andThen (vector_at colors (ev_id e)) (\<lambda>c.
     andThen (cpp_assert (c \<noteq> IN_STACK)) (\<lambda>_.
     if c = VISITED then check_events g es colors
     else
       andThen (dfs_loop g colors [(ev_id e, False)]) (\<lambda>r.
       case r of
         None \<Rightarrow> Ret False
       | Some colors \<Rightarrow> check_events g es colors)))"

definition IsConsistent :: "'v wmm_graph \<Rightarrow> bool res" where
  "IsConsistent g = check_events g (g_events g) (replicate (length (g_events g)) NOT_VISITED)"

section \<open>Snapshots\<close>

definition StartSnapshot :: "'v wmm_graph \<Rightarrow> 'v wmm_graph res" where
  "StartSnapshot g =
     andThen (cpp_assert (\<not> inSnapshotMode g)) (\<lambda>_. Ret (g\<lparr>inSnapshotMode := True\<rparr>))"

definition ApplySnapshot :: "'v wmm_graph \<Rightarrow> 'v wmm_graph res" where
  "ApplySnapshot g =
     andThen (cpp_assert (inSnapshotMode g)) (\<lambda>_. Ret (g\<lparr>inSnapshotMode := False, snapshotEdges := {}\<rparr>))"

text \<open>\<open>while (!xs.empty() && P(xs.back())) xs.pop_back();\<close>\<close>

definition pop_while :: "('a \<Rightarrow> bool) \<Rightarrow> 'a list \<Rightarrow> 'a list" where
  "pop_while P xs = rev (dropWhile P (rev xs))"

definition DiscardSnapshot :: "'v wmm_graph \<Rightarrow> 'v wmm_graph res" where
  "DiscardSnapshot g =
     andThen (cpp_assert (inSnapshotMode g)) (\<lambda>_.
     Ret (g\<lparr>g_edges := pop_while (\<lambda>e. e_id e \<in> snapshotEdges g) (g_edges g),
            g_events := map (\<lambda>e. e\<lparr>out_edges := pop_while (\<lambda>k. k \<in> snapshotEdges g) (out_edges e)\<rparr>) (g_events g),
            inSnapshotMode := False, snapshotEdges := {}\<rparr>))"

section \<open>Reading\<close>

definition set_read_from :: "nat \<Rightarrow> nat option \<Rightarrow> 'w::len word wmm_graph \<Rightarrow> 'w word wmm_graph res" where
  "set_read_from read w g =
     andThen (SetReadFromEvent (event_at g) w (event_at g read)) (\<lambda>e. Ret (update_event read (\<lambda>_. e) g))"

text \<open>\<open>operator[]\<close> of the map: a missing key is inserted with the value zero.\<close>

definition last_sc_write :: "int \<Rightarrow> 'v wmm_graph \<Rightarrow> nat \<times> 'v wmm_graph" where
  "last_sc_write loc g =
     (case lastSeqCstWriteEvents g loc of
        Some i \<Rightarrow> (i, g)
      | None \<Rightarrow> (0, g\<lparr>lastSeqCstWriteEvents := (lastSeqCstWriteEvents g)(loc \<mapsto> 0)\<rparr>))"

definition set_last_sc_write :: "int \<Rightarrow> nat \<Rightarrow> 'v wmm_graph \<Rightarrow> 'v wmm_graph" where
  "set_last_sc_write loc i g = g\<lparr>lastSeqCstWriteEvents := (lastSeqCstWriteEvents g)(loc \<mapsto> i)\<rparr>"

definition synchronizes :: "nat \<Rightarrow> nat \<Rightarrow> 'v wmm_graph \<Rightarrow> bool res" where
  "synchronizes write read g =
     res_and (IsAtLeastAcquire (event_at g read))
       (res_and (IsAtLeastRelease (event_at g write))
          (andThen (res_and (IsSeqCst (event_at g read)) (IsSeqCst (event_at g write))) (\<lambda>b. Ret (\<not> b))))"

text \<open>The edges of an event that only reads, and of one that also modifies.\<close>

definition read_rules :: "nat \<Rightarrow> nat \<Rightarrow> 'v wmm_graph \<Rightarrow> 'v wmm_graph res" where
  "read_rules write read g =
     andThen (IsSeqCst (event_at g read)) (\<lambda>sc.
     andThen (if sc then andThen (CreateScEdgeToEvent read g) (CreateSeqCstReadWriteCoherenceEdges write read)
              else Ret g) (\<lambda>g.
     andThen (CreateWriteReadCoherenceEdges write read g)
       (CreateReadReadCoherenceEdges write read)))"

definition rmw_rules :: "nat \<Rightarrow> nat \<Rightarrow> 'v wmm_graph \<Rightarrow> 'v wmm_graph res" where
  "rmw_rules write read g =
     andThen (cpp_assert (IsModifyRMW (event_at g read))) (\<lambda>_.
     andThen (CreateRmwConsistencyEdges write read g) (\<lambda>g.
     andThen (CreateRmwAtomicityEdges write read g) (\<lambda>g.
     andThen (IsSeqCst (event_at g read)) (\<lambda>sc.
     andThen (if sc then
                andThen (CreateScEdgeToEvent read g) (\<lambda>g.
                andThen (CreateSeqCstReadWriteCoherenceEdges write read g) (\<lambda>g.
                andThen (CreateSeqCstConsistencyEdges read g) (\<lambda>g.
                Ret (set_last_sc_write (location (event_at g read)) (ev_id (event_at g read)) g))))
              else Ret g) (\<lambda>g.
     andThen (CreateWriteReadCoherenceEdges write read g) (\<lambda>g.
     andThen (CreateReadReadCoherenceEdges write read g) (\<lambda>g.
     andThen (CreateReadWriteCoherenceEdges read g)
       (CreateWriteWriteCoherenceEdges read))))))))"

definition TryCreateRfEdge :: "nat \<Rightarrow> nat \<Rightarrow> 'w::len word wmm_graph \<Rightarrow> (bool \<times> 'w word wmm_graph) res" where
  "TryCreateRfEdge write read g =
     andThen (cpp_assert (IsWriteOrRMW (event_at g write) \<and> IsReadOrRMW (event_at g read))) (\<lambda>_.
     andThen (cpp_assert (location (event_at g write) = location (event_at g read))) (\<lambda>_.
     andThen (StartSnapshot g) (\<lambda>g.
     andThen (AddEdge RF (ev_id (event_at g write)) (ev_id (event_at g read)) g) (\<lambda>g.
     andThen (set_read_from read (Some write) g) (\<lambda>g.
     case last_sc_write (location (event_at g read)) g of (oldLastSeqCstWriteEvent, g) \<Rightarrow>
     andThen (synchronizes write read g) (\<lambda>isClockUpdated.
     let oldClock = clock (event_at g read) in
     andThen (if isClockUpdated then
                andThen (UniteWith (clock (event_at g read)) (clock (event_at g write))) (\<lambda>c.
                Ret (update_event read (\<lambda>e. e\<lparr>clock := c\<rparr>) g))
              else Ret g) (\<lambda>g.
     andThen (if IsRead (event_at g read) \<or> IsReadRWM (event_at g read) then read_rules write read g
              else rmw_rules write read g) (\<lambda>g.
     andThen (IsConsistent g) (\<lambda>isConsistent.
     if isConsistent then andThen (ApplySnapshot g) (\<lambda>g. Ret (True, g))
     else
       andThen (DiscardSnapshot g) (\<lambda>g.
       andThen (set_read_from read None g) (\<lambda>g.
       let g = (if isClockUpdated then update_event read (\<lambda>e. e\<lparr>clock := oldClock\<rparr>) g else g) in
       Ret (False, set_last_sc_write (location (event_at g read)) oldLastSeqCstWriteEvent g))))))))))))"

text \<open>The candidates to read from, in the order of the shuffle, and the loop that tries them.\<close>

definition GetShuffledReadFromCandidates :: "(nat list \<Rightarrow> nat list) \<Rightarrow> nat \<Rightarrow> 'v wmm_graph \<Rightarrow> nat list" where
  "GetShuffledReadFromCandidates shuffle event g =
     shuffle (filter (\<lambda>i. (IsWrite (event_at g i) \<or> IsModifyRMW (event_at g i)) \<and>
                          location (event_at g i) = location (event_at g event) \<and> i \<noteq> event)
                [0..<length (g_events g)])"

fun try_candidates :: "nat list \<Rightarrow> nat \<Rightarrow> 'w::len word wmm_graph \<Rightarrow> 'w word wmm_graph res" where
  "try_candidates [] read g = Ret g"
| "try_candidates (write # writes) read g =
     andThen (TryCreateRfEdge write read g) (\<lambda>(created, g).
     if created then Ret g else try_candidates writes read g)"

text \<open>What the three reading operations share: the edges, the assertions and the value read.\<close>

definition read_event ::
    "(nat list \<Rightarrow> nat list) \<Rightarrow> 'w::len word wmm_event \<Rightarrow> 'w word wmm_graph \<Rightarrow> ('w word \<times> 'w word wmm_graph) res" where
  "read_event shuffle event g =
     andThen (CreatePoEdgeToEvent event g) (\<lambda>g.
     andThen (try_candidates (GetShuffledReadFromCandidates shuffle (ev_id event) g) (ev_id event) g) (\<lambda>g.
     case readFrom (event_at g (ev_id event)) of
       None \<Rightarrow> Exn AssertionFailure
     | Some w \<Rightarrow>
         andThen (cpp_assert (IsWrite (event_at g w) \<or> IsModifyRMW (event_at g w))) (\<lambda>_.
         andThen (GetReadValue (event_at g) (event_at g (ev_id event))) (\<lambda>v. Ret (v, g)))))"

section \<open>The operations of the graph\<close>

definition AddReadEvent ::
    "(nat list \<Rightarrow> nat list) \<Rightarrow> int \<Rightarrow> nat \<Rightarrow> MemoryOrder \<Rightarrow> 'w::len word wmm_graph \<Rightarrow>
     ('w word \<times> 'w word wmm_graph) res" where
  "AddReadEvent shuffle loc t ord g =
     read_event shuffle (new_ReadEvent (length (g_events g)) (g_nThreads g) loc t ord) g"

definition AddWriteEvent ::
    "int \<Rightarrow> nat \<Rightarrow> MemoryOrder \<Rightarrow> 'w::len word \<Rightarrow> 'w word wmm_graph \<Rightarrow> 'w word wmm_graph res" where
  "AddWriteEvent loc t ord v g =
     (let event = length (g_events g) in
     andThen (CreatePoEdgeToEvent (new_WriteEvent event (g_nThreads g) loc t ord v) g) (\<lambda>g.
     andThen (if ord = SeqCst then
                andThen (CreateScEdgeToEvent event g) (\<lambda>g.
                andThen (CreateSeqCstConsistencyEdges event g) (\<lambda>g.
                Ret (set_last_sc_write (location (event_at g event)) (ev_id (event_at g event)) g)))
              else Ret g) (\<lambda>g.
     andThen (CreateReadWriteCoherenceEdges event g)
       (CreateWriteWriteCoherenceEdges event))))"

text \<open>
  A compare-exchange returns whether it modified, the value read, and what it left in the caller's
  variable.
\<close>

definition AddRMWEvent ::
    "(nat list \<Rightarrow> nat list) \<Rightarrow> int \<Rightarrow> nat \<Rightarrow> 'w::len word \<Rightarrow> 'w word \<Rightarrow> MemoryOrder \<Rightarrow> MemoryOrder \<Rightarrow>
     'w word wmm_graph \<Rightarrow> ((bool \<times> 'w word) \<times> 'w word \<times> 'w word wmm_graph) res" where
  "AddRMWEvent shuffle loc t expct des successOrder failOrder g =
     (let event = length (g_events g) in
     andThen (read_event shuffle (new_CASRMWEvent event (g_nThreads g) loc t expct des successOrder failOrder) g)
       (\<lambda>(v, g). Ret ((IsModifyRMW (event_at g event), v), expected (payload (event_at g event)), g)))"

definition AddUnconditionalRMWEvent ::
    "(nat list \<Rightarrow> nat list) \<Rightarrow> int \<Rightarrow> nat \<Rightarrow> AtomicRmwOp \<Rightarrow> 'w::len word \<Rightarrow> MemoryOrder \<Rightarrow>
     'w word wmm_graph \<Rightarrow> ('w word \<times> 'w word wmm_graph) res" where
  "AddUnconditionalRMWEvent shuffle loc t oper arg ord g =
     read_event shuffle (new_UnconditionalRMWEvent (length (g_events g)) (g_nThreads g) loc t oper arg ord) g"

definition Clean :: "'v wmm_graph \<Rightarrow> 'v wmm_graph" where
  "Clean g = g\<lparr>g_edges := [], g_events := [], eventsPerThread := [], lastSeqCstWriteEvents := Map.empty\<rparr>"

definition init_thread :: "nat \<Rightarrow> nat \<Rightarrow> 'v wmm_graph \<Rightarrow> 'v wmm_graph" where
  "init_thread n t g =
     (let eventId = length (g_events g) in
      g\<lparr>g_events := g_events g @ [new_DummyEvent eventId n t],
        eventsPerThread := (eventsPerThread g)[t := eventsPerThread g ! t @ [eventId]]\<rparr>)"

definition InitThreads :: "nat \<Rightarrow> 'v wmm_graph \<Rightarrow> 'v wmm_graph" where
  "InitThreads n g =
     fold (init_thread n) [0..<n] (g\<lparr>g_nThreads := n, eventsPerThread := take n (eventsPerThread g @ replicate n [])\<rparr>)"

definition graph_Reset :: "nat \<Rightarrow> 'v wmm_graph \<Rightarrow> 'v wmm_graph" where
  "graph_Reset n g = InitThreads n (Clean g)"

section \<open>The execution graph\<close>

text \<open>\<open>ExecutionGraph\<close> of runtime/include/wmm/wmm.h.\<close>

record 'v exec_graph =
  x_nThreads :: nat
  nextLocationId :: int
  x_graph :: "'v wmm_graph"

definition ExecutionGraph :: "'v exec_graph" where
  "ExecutionGraph = \<lparr>x_nThreads = 0, nextLocationId = 0, x_graph = Graph\<rparr>"

definition exec_Reset :: "nat \<Rightarrow> 'v exec_graph \<Rightarrow> 'v exec_graph" where
  "exec_Reset n x = x\<lparr>x_nThreads := n, nextLocationId := 0, x_graph := graph_Reset n (x_graph x)\<rparr>"

definition RegisterLocation :: "'w::len word \<Rightarrow> 'w word exec_graph \<Rightarrow> (int \<times> 'w word exec_graph) res" where
  "RegisterLocation v x =
     (let currentLocationId = nextLocationId x in
     andThen (AddWriteEvent currentLocationId INIT_THREAD_ID SeqCst v (x_graph x)) (\<lambda>g.
     Ret (currentLocationId, x\<lparr>nextLocationId := nextLocationId x + 1, x_graph := g\<rparr>)))"

definition Load ::
    "(nat list \<Rightarrow> nat list) \<Rightarrow> int \<Rightarrow> nat \<Rightarrow> MemoryOrder \<Rightarrow> 'w::len word exec_graph \<Rightarrow> ('w word \<times> 'w word exec_graph) res" where
  "Load shuffle loc t ord x =
     andThen (AddReadEvent shuffle loc t ord (x_graph x)) (\<lambda>(v, g). Ret (v, x\<lparr>x_graph := g\<rparr>))"

definition Store :: "int \<Rightarrow> nat \<Rightarrow> MemoryOrder \<Rightarrow> 'w::len word \<Rightarrow> 'w word exec_graph \<Rightarrow> 'w word exec_graph res" where
  "Store loc t ord v x = andThen (AddWriteEvent loc t ord v (x_graph x)) (\<lambda>g. Ret (x\<lparr>x_graph := g\<rparr>))"

definition ReadModifyWrite ::
    "(nat list \<Rightarrow> nat list) \<Rightarrow> int \<Rightarrow> nat \<Rightarrow> 'w::len word \<Rightarrow> 'w word \<Rightarrow> MemoryOrder \<Rightarrow> MemoryOrder \<Rightarrow>
     'w word exec_graph \<Rightarrow> ((bool \<times> 'w word) \<times> 'w word \<times> 'w word exec_graph) res" where
  "ReadModifyWrite shuffle loc t expct des success failure x =
     andThen (AddRMWEvent shuffle loc t expct des success failure (x_graph x)) (\<lambda>(r, e, g). Ret (r, e, x\<lparr>x_graph := g\<rparr>))"

definition UnconditionalReadModifyWrite ::
    "(nat list \<Rightarrow> nat list) \<Rightarrow> int \<Rightarrow> nat \<Rightarrow> AtomicRmwOp \<Rightarrow> 'w::len word \<Rightarrow> MemoryOrder \<Rightarrow>
     'w word exec_graph \<Rightarrow> ('w word \<times> 'w word exec_graph) res" where
  "UnconditionalReadModifyWrite shuffle loc t oper arg ord x =
     andThen (AddUnconditionalRMWEvent shuffle loc t oper arg ord (x_graph x)) (\<lambda>(v, g). Ret (v, x\<lparr>x_graph := g\<rparr>))"

end
