(* ===== verification/Wmm_Consistency.thy ===== *)
theory Wmm_Consistency
  imports Wmm_Graph
begin

text \<open>
  The acyclicity test of the execution graph. On a graph whose adjacency lists agree with its edges it
  always returns, its assertion never fails, and an accepted graph has an acyclic modification order.
\<close>

section \<open>Adjacency\<close>

definition mo :: "'v wmm_graph \<Rightarrow> (nat \<times> nat) set" where
  "mo g = {(e_from e, e_to e) |e. e \<in> set (g_edges g) \<and> e_type e = MO}"

definition edge_ok :: "nat \<Rightarrow> nat \<Rightarrow> wmm_edge \<Rightarrow> bool" where
  "edge_ok n k e \<longleftrightarrow> e_id e = k \<and> e_from e < n \<and> e_to e < n"

definition adjacency_ok :: "'v wmm_graph \<Rightarrow> bool" where
  "adjacency_ok g \<longleftrightarrow>
     (\<forall>k<length (g_edges g). edge_ok (length (g_events g)) k (g_edges g ! k)) \<and>
     (\<forall>i<length (g_events g). ev_id (g_events g ! i) = i \<and>
        out_edges (g_events g ! i) = filter (\<lambda>k. e_from (g_edges g ! k) = i) [0..<length (g_edges g)])"

lemma adjacency_id: "adjacency_ok g \<Longrightarrow> i < length (g_events g) \<Longrightarrow> ev_id (g_events g ! i) = i"
  by (simp add: adjacency_ok_def)

lemma adjacency_out:
  "adjacency_ok g \<Longrightarrow> i < length (g_events g) \<Longrightarrow>
   out_edges (g_events g ! i) = filter (\<lambda>k. e_from (g_edges g ! k) = i) [0..<length (g_edges g)]"
  by (simp add: adjacency_ok_def)

lemma adjacency_edge:
  "adjacency_ok g \<Longrightarrow> k < length (g_edges g) \<Longrightarrow>
   e_id (g_edges g ! k) = k \<and> e_from (g_edges g ! k) < length (g_events g) \<and> e_to (g_edges g ! k) < length (g_events g)"
  by (simp add: adjacency_ok_def edge_ok_def)

lemma mo_bounds:
  assumes "adjacency_ok g" "(i, j) \<in> mo g"
  shows "i < length (g_events g)" "j < length (g_events g)"
  using assms by (auto simp: mo_def in_set_conv_nth dest!: adjacency_edge)

lemma mo_out:
  assumes "adjacency_ok g" "i < length (g_events g)"
  shows "(i, j) \<in> mo g \<longleftrightarrow>
    (\<exists>k\<in>set (out_edges (g_events g ! i)). e_type (g_edges g ! k) = MO \<and> e_to (g_edges g ! k) = j)"
  using adjacency_out [OF assms] by (auto simp: mo_def in_set_conv_nth)

section \<open>Scanning the edges of an event\<close>

definition scan_result :: "'v wmm_graph \<Rightarrow> nat list \<Rightarrow> color list \<Rightarrow> dfs_stack \<Rightarrow> color list \<Rightarrow> dfs_stack \<Rightarrow> nat list \<Rightarrow> bool" where
  "scan_result g es colors stack colors' stack' new \<longleftrightarrow>
     length colors' = length colors \<and> stack' = map (\<lambda>i. (i, False)) new @ stack \<and>
     set new \<subseteq> {..<length (g_events g)} \<and>
     (\<forall>i. colors' ! i = VISITED \<longleftrightarrow> colors ! i = VISITED) \<and>
     (\<forall>i. colors' ! i = IN_STACK \<longrightarrow> colors ! i = IN_STACK \<or> i \<in> set new) \<and>
     (\<forall>k\<in>set es. e_type (g_edges g ! k) = MO \<longrightarrow>
        colors ! e_to (g_edges g ! k) = VISITED \<or> e_to (g_edges g ! k) \<in> set new)"

lemma scan_edges_spec:
  assumes "adjacency_ok g" "set es \<subseteq> {..<length (g_edges g)}" "length colors = length (g_events g)"
  shows "scan_edges g es colors stack = Ret None \<or>
    (\<exists>colors' stack' new. scan_edges g es colors stack = Ret (Some (colors', stack')) \<and>
       scan_result g es colors stack colors' stack' new)"
  using assms(2,3)
proof (induction es arbitrary: colors stack)
  case Nil
  then show ?case by (auto simp: scan_result_def intro!: exI [of _ "[]"])
next
  case (Cons k ks)
  let ?e = "g_edges g ! k"
  have k: "k < length (g_edges g)" "e_to ?e < length (g_events g)"
    using Cons.prems adjacency_edge [OF assms(1)] by auto
  have id: "ev_id (g_events g ! e_to ?e) = e_to ?e"
    using adjacency_id [OF assms(1) k(2)] .
  show ?case
  proof (cases "e_type ?e = MO")
    case False
    then have "scan_edges g (k # ks) colors stack = scan_edges g ks colors stack"
      using k by simp
    then show ?thesis
      using Cons.IH [of colors stack] Cons.prems False by (auto simp: scan_result_def)
  next
    case True
    show ?thesis
    proof (cases "colors ! e_to ?e")
      case NOT_VISITED
      let ?c = "colors[e_to ?e := IN_STACK]" and ?s = "(e_to ?e, False) # stack"
      have eq: "scan_edges g (k # ks) colors stack = scan_edges g ks ?c ?s"
        using k True NOT_VISITED id Cons.prems by simp
      have v: "?c ! i = VISITED \<longleftrightarrow> colors ! i = VISITED" for i
        using NOT_VISITED k(2) Cons.prems(2) by (cases "i = e_to ?e") auto
      have st: "?c ! i = IN_STACK \<Longrightarrow> colors ! i = IN_STACK \<or> i = e_to ?e" for i
        by (cases "i = e_to ?e") auto
      have "scan_result g (k # ks) colors stack colors' stack' (new @ [e_to ?e])"
        if "scan_result g ks ?c ?s colors' stack' new" for colors' stack' new
        using that v st k(2) unfolding scan_result_def by auto blast
      moreover have "set ks \<subseteq> {..<length (g_edges g)}" "length ?c = length (g_events g)"
        using Cons.prems by simp_all
      ultimately show ?thesis
        unfolding eq using Cons.IH [of ?c ?s] by blast
    next
      case VISITED
      then have "scan_edges g (k # ks) colors stack = scan_edges g ks colors stack"
        using k True Cons.prems by simp
      then show ?thesis
        using Cons.IH [of colors stack] Cons.prems VISITED by (auto simp: scan_result_def)
    qed (use k True Cons.prems in simp)
  qed
qed

section \<open>The search\<close>

text \<open>
  An event that was expanded has its successors visited or above it on the stack.
\<close>

fun stack_ok :: "'v wmm_graph \<Rightarrow> color list \<Rightarrow> nat set \<Rightarrow> dfs_stack \<Rightarrow> bool" where
  "stack_ok g colors over [] \<longleftrightarrow> True"
| "stack_ok g colors over ((x, expanded) # stack) \<longleftrightarrow>
     x < length (g_events g) \<and>
     (expanded \<longrightarrow> (\<forall>j. (x, j) \<in> mo g \<longrightarrow> colors ! j = VISITED \<or> j \<in> over)) \<and>
     stack_ok g colors (insert x over) stack"

definition dfs_inv :: "'v wmm_graph \<Rightarrow> color list \<Rightarrow> dfs_stack \<Rightarrow> bool" where
  "dfs_inv g colors stack \<longleftrightarrow>
     length colors = length (g_events g) \<and> stack_ok g colors {} stack \<and>
     (\<forall>i j. (i, j) \<in> mo g \<and> colors ! i = VISITED \<longrightarrow> colors ! j = VISITED) \<and>
     acyclic {(i, j). (i, j) \<in> mo g \<and> colors ! i = VISITED} \<and>
     (\<forall>i<length colors. colors ! i = IN_STACK \<longrightarrow> i \<in> fst ` set stack)"

lemma stack_ok_mono:
  "stack_ok g colors A stack \<Longrightarrow> (\<And>i. colors ! i = VISITED \<Longrightarrow> colors' ! i = VISITED) \<Longrightarrow>
   (\<And>i. i \<in> A \<Longrightarrow> i \<in> B \<or> colors' ! i = VISITED) \<Longrightarrow> stack_ok g colors' B stack"
proof (induction g colors A stack arbitrary: B rule: stack_ok.induct)
  case (2 g colors over x expanded stack)
  have "stack_ok g colors' (insert x B) stack"
    using "2.prems" by (intro "2.IH") auto
  moreover have "\<forall>j. (x, j) \<in> mo g \<longrightarrow> colors' ! j = VISITED \<or> j \<in> B" if expanded
    using "2.prems" that by (meson stack_ok.simps(2))
  ultimately show ?case using "2.prems"(1) by simp
qed simp

lemma stack_ok_append:
  "set new \<subseteq> {..<length (g_events g)} \<Longrightarrow>
   stack_ok g colors A (map (\<lambda>i. (i, False)) new @ stack) \<longleftrightarrow> stack_ok g colors (A \<union> set new) stack"
  by (induction new arbitrary: A) auto

text \<open>Adding an unvisited event whose successors are all visited makes no cycle.\<close>

lemma acyclic_add_source:
  fixes V :: "'a set" and r :: "('a \<times> 'a) set"
  assumes ac: "acyclic {(i, j). (i, j) \<in> r \<and> i \<in> V}"
    and closed: "\<And>i j. (i, j) \<in> r \<Longrightarrow> i \<in> V \<Longrightarrow> j \<in> V"
    and x: "x \<notin> V" "\<And>j. (x, j) \<in> r \<Longrightarrow> j \<in> V"
  shows "acyclic {(i, j). (i, j) \<in> r \<and> i \<in> insert x V}"
proof (rule acyclicI, rule allI)
  let ?r = "{(i, j). (i, j) \<in> r \<and> i \<in> V}" and ?s = "{(i, j). (i, j) \<in> r \<and> i \<in> insert x V}"
  have stay: "(i, j) \<in> ?s\<^sup>+ \<Longrightarrow> i \<in> V \<Longrightarrow> (i, j) \<in> ?r\<^sup>+ \<and> j \<in> V" for i j
  proof (induction rule: trancl_induct)
    case (base y)
    then show ?case using closed x(1) by auto
  next
    case (step y z)
    then have "(y, z) \<in> ?r" "z \<in> V" using closed x(1) by auto
    then show ?case using step by (meson trancl.trancl_into_trancl)
  qed
  fix i
  show "(i, i) \<notin> ?s\<^sup>+"
  proof
    assume c: "(i, i) \<in> ?s\<^sup>+"
    then obtain j where j: "(i, j) \<in> ?s" "j = i \<or> (j, i) \<in> ?s\<^sup>+"
      by (meson tranclD rtranclD)
    show False
    proof (cases "i \<in> V")
      case True
      then show False using stay [OF c] ac by (simp add: acyclic_def)
    next
      case False
      then have "j \<in> V" "j \<noteq> i" using j x(2) by auto
      then show False using j(2) stay False by blast
    qed
  qed
qed

lemma dfs_inv_finish:
  assumes ok: "adjacency_ok g" and inv: "dfs_inv g colors ((x, True) # stack)"
  shows "dfs_inv g (colors[x := VISITED]) stack"
proof -
  let ?c = "colors[x := VISITED]" and ?V = "{i. colors ! i = VISITED}"
  have len: "length colors = length (g_events g)" and x: "x < length colors"
    using inv by (auto simp: dfs_inv_def)
  have succ: "\<And>j. (x, j) \<in> mo g \<Longrightarrow> colors ! j = VISITED"
    and closed: "\<And>i j. (i, j) \<in> mo g \<Longrightarrow> colors ! i = VISITED \<Longrightarrow> colors ! j = VISITED"
    using inv by (auto simp: dfs_inv_def)
  have v: "?c ! i = VISITED \<longleftrightarrow> i = x \<or> colors ! i = VISITED" for i
    using x by (cases "i = x") simp_all
  have ac: "acyclic {(i, j). (i, j) \<in> mo g \<and> i \<in> ?V}"
    using inv by (simp add: dfs_inv_def)
  have "acyclic {(i, j). (i, j) \<in> mo g \<and> i \<in> insert x ?V}"
  proof (cases "x \<in> ?V")
    case True
    then show ?thesis using ac by (simp add: insert_absorb)
  next
    case False
    then show ?thesis using acyclic_add_source [OF ac _ False] closed succ by auto
  qed
  moreover have "stack_ok g ?c {} stack"
    using inv v by (auto simp: dfs_inv_def intro: stack_ok_mono [of g colors "{x}"])
  moreover have "\<forall>i<length ?c. ?c ! i = IN_STACK \<longrightarrow> i \<in> fst ` set stack"
  proof (intro allI impI)
    fix i assume "i < length ?c" "?c ! i = IN_STACK"
    then have "i \<noteq> x" "colors ! i = IN_STACK" "i < length colors"
      using x by (auto simp: nth_list_update split: if_splits)
    then show "i \<in> fst ` set stack" using inv by (auto simp: dfs_inv_def)
  qed
  ultimately show ?thesis
    using len closed succ v by (auto simp: dfs_inv_def)
qed

lemma dfs_inv_expand:
  assumes ok: "adjacency_ok g" and inv: "dfs_inv g colors ((x, False) # stack)"
    and scan: "scan_result g (out_edges (event_at g x)) colors ((x, True) # stack) colors' stack' new"
  shows "dfs_inv g colors' stack'"
proof -
  have x: "x < length (g_events g)" and len: "length colors = length (g_events g)"
    using inv by (auto simp: dfs_inv_def)
  have s: "stack' = map (\<lambda>i. (i, False)) new @ (x, True) # stack" "set new \<subseteq> {..<length (g_events g)}"
    "length colors' = length colors" "\<And>i. colors' ! i = VISITED \<longleftrightarrow> colors ! i = VISITED"
    using scan unfolding scan_result_def by blast+
  have succ: "colors' ! j = VISITED \<or> j \<in> set new" if m: "(x, j) \<in> mo g" for j
  proof -
    obtain k where k: "k \<in> set (out_edges (event_at g x))" "e_type (g_edges g ! k) = MO" "e_to (g_edges g ! k) = j"
      using m unfolding mo_out [OF ok x] event_at_def by blast
    have "\<forall>k\<in>set (out_edges (event_at g x)). e_type (g_edges g ! k) = MO \<longrightarrow>
        colors ! e_to (g_edges g ! k) = VISITED \<or> e_to (g_edges g ! k) \<in> set new"
      using scan unfolding scan_result_def by (elim conjE)
    then show ?thesis using k s(4) by auto
  qed
  have "stack_ok g colors {x} stack" using inv by (simp add: dfs_inv_def)
  then have "stack_ok g colors' (insert x (set new)) stack"
    by (rule stack_ok_mono) (auto simp: s(4))
  then have "stack_ok g colors' {} stack'"
    using x succ s(2) by (simp add: s(1) stack_ok_append)
  moreover have "\<forall>i<length colors'. colors' ! i = IN_STACK \<longrightarrow> i \<in> fst ` set stack'"
  proof (intro allI impI)
    fix i assume i: "i < length colors'" "colors' ! i = IN_STACK"
    then have "colors ! i = IN_STACK \<or> i \<in> set new" using scan unfolding scan_result_def by (elim conjE) blast
    moreover have "colors ! i = IN_STACK \<Longrightarrow> i = x \<or> i \<in> fst ` set stack"
      using inv i(1) s(3) by (auto simp: dfs_inv_def)
    ultimately show "i \<in> fst ` set stack'" by (force simp: s(1))
  qed
  ultimately show ?thesis
    using inv s(3) by (simp add: dfs_inv_def s(4))
qed

lemma dfs_loop_spec:
  assumes "adjacency_ok g"
  shows "dfs_inv g colors stack \<Longrightarrow>
    dfs_loop g colors stack = Ret None \<or>
    (\<exists>colors'. dfs_loop g colors stack = Ret (Some colors') \<and> dfs_inv g colors' [] \<and>
       (\<forall>i. colors ! i = VISITED \<or> i \<in> fst ` set stack \<longrightarrow> colors' ! i = VISITED))"
  using assms
proof (induction g colors stack rule: dfs_loop.induct)
  case (1 g colors)
  then show ?case by auto
next
  case (2 g colors x considered stack)
  have len: "x < length colors" "length colors = length (g_events g)"
    using "2.prems" by (auto simp: dfs_inv_def)
  show ?case
  proof (cases considered)
    case True
    have inv: "dfs_inv g (colors[x := VISITED]) stack"
      using dfs_inv_finish [OF "2.prems"(2)] "2.prems"(1) True by simp
    have v: "i = x \<or> colors ! i = VISITED \<Longrightarrow> colors[x := VISITED] ! i = VISITED" for i
      using len by (cases "i = x") simp_all
    have eq: "dfs_loop g colors ((x, considered) # stack) = dfs_loop g (colors[x := VISITED]) stack"
      using True len by simp
    have "colors ! i = VISITED \<or> i \<in> fst ` set ((x, considered) # stack) \<Longrightarrow>
        colors[x := VISITED] ! i = VISITED \<or> i \<in> fst ` set stack" for i
      using v by auto
    then show ?thesis
      unfolding eq using "2.IH"(1) [OF True vector_at_in [OF len(1)] inv "2.prems"(2)] by blast
  next
    case False
    have out: "set (out_edges (event_at g x)) \<subseteq> {..<length (g_edges g)}"
      using adjacency_out [OF "2.prems"(2)] len by (auto simp: event_at_def)
    from scan_edges_spec [OF "2.prems"(2) out len(2), of "(x, True) # stack"]
    show ?thesis
    proof (elim disjE exE conjE)
      assume "scan_edges g (out_edges (event_at g x)) colors ((x, True) # stack) = Ret None"
      then show ?thesis using False by simp
    next
      fix colors' stack' new
      assume r: "scan_edges g (out_edges (event_at g x)) colors ((x, True) # stack) = Ret (Some (colors', stack'))"
        and scan: "scan_result g (out_edges (event_at g x)) colors ((x, True) # stack) colors' stack' new"
      have inv: "dfs_inv g colors' stack'"
        using dfs_inv_expand [OF "2.prems"(2) _ scan] "2.prems"(1) False by simp
      have eq: "dfs_loop g colors ((x, considered) # stack) = dfs_loop g colors' stack'"
        using False r by simp
      have "colors ! i = VISITED \<or> i \<in> fst ` set ((x, considered) # stack) \<Longrightarrow>
          colors' ! i = VISITED \<or> i \<in> fst ` set stack'" for i
        using scan by (force simp: scan_result_def)
      then show ?thesis
        unfolding eq using "2.IH"(2) [OF False r refl refl inv "2.prems"(2)] by blast
    qed
  qed
qed

lemma check_events_spec:
  assumes ok: "adjacency_ok g"
  shows "dfs_inv g colors [] \<Longrightarrow> \<forall>e\<in>set es. ev_id e < length (g_events g) \<Longrightarrow>
    check_events g es colors = Ret False \<or>
    check_events g es colors = Ret True \<and>
      (\<exists>colors'. dfs_inv g colors' [] \<and> (\<forall>i. colors ! i = VISITED \<longrightarrow> colors' ! i = VISITED) \<and>
         (\<forall>e\<in>set es. colors' ! ev_id e = VISITED))"
proof (induction es arbitrary: colors)
  case Nil
  then show ?case by auto
next
  case (Cons e es)
  have e: "ev_id e < length colors" "colors ! ev_id e \<noteq> IN_STACK"
    using Cons.prems by (auto simp: dfs_inv_def)
  show ?case
  proof (cases "colors ! ev_id e = VISITED")
    case True
    then have "check_events g (e # es) colors = check_events g es colors"
      using e by simp
    then show ?thesis using Cons.IH [OF Cons.prems(1)] Cons.prems(2) True by auto
  next
    case False
    have inv: "dfs_inv g colors [(ev_id e, False)]"
      using Cons.prems by (auto simp: dfs_inv_def)
    from dfs_loop_spec [OF ok inv] show ?thesis
    proof (elim disjE exE conjE)
      assume "dfs_loop g colors [(ev_id e, False)] = Ret None"
      then show ?thesis using e False by simp
    next
      fix colors'
      assume r: "dfs_loop g colors [(ev_id e, False)] = Ret (Some colors')" and inv': "dfs_inv g colors' []"
        and v: "\<forall>i. colors ! i = VISITED \<or> i \<in> fst ` set [(ev_id e, False)] \<longrightarrow> colors' ! i = VISITED"
      have eq: "check_events g (e # es) colors = check_events g es colors'"
        using e False r by simp
      show ?thesis
        unfolding eq using Cons.IH [OF inv'] Cons.prems(2) v by auto
    qed
  qed
qed

text \<open>The test returns, and accepts only an acyclic modification order.\<close>

lemma IsConsistent_returns:
  assumes "adjacency_ok g"
  shows "\<exists>b. IsConsistent g = Ret b"
    and "IsConsistent g = Ret True \<Longrightarrow> acyclic (mo g)"
proof -
  let ?n = "length (g_events g)"
  let ?c = "replicate ?n NOT_VISITED"
  have nv: "?c ! i \<noteq> VISITED" if "i < ?n" for i using that by simp
  have empty: "{(i, j). (i, j) \<in> mo g \<and> ?c ! i = VISITED} = {}"
    using nv mo_bounds [OF assms] by auto
  have inv: "dfs_inv g ?c []"
    unfolding dfs_inv_def empty using nv mo_bounds(1) [OF assms] by (auto simp: acyclic_def)
  have ids: "\<forall>e\<in>set (g_events g). ev_id e < ?n"
    using adjacency_id [OF assms] by (auto simp: in_set_conv_nth)
  note spec = check_events_spec [OF assms inv ids]
  show "\<exists>b. IsConsistent g = Ret b"
    using spec by (auto simp: IsConsistent_def)
  assume "IsConsistent g = Ret True"
  then obtain c where c: "dfs_inv g c []" "\<forall>e\<in>set (g_events g). c ! ev_id e = VISITED"
    using spec by (auto simp: IsConsistent_def)
  have "c ! i = VISITED" if "i < ?n" for i
    using c(2) adjacency_id [OF assms that] that nth_mem by metis
  then have "{(i, j). (i, j) \<in> mo g \<and> c ! i = VISITED} = mo g"
    using mo_bounds [OF assms] by auto
  then show "acyclic (mo g)" using c(1) by (simp add: dfs_inv_def)
qed

end
