(* ===== verification/Wmm_Edges.thy ===== *)
theory Wmm_Edges
  imports Wmm_Consistency
begin

text \<open>
  What adding edges does to an execution graph. Between two states of a graph only the edges grow; a
  rule that adds modification order edges is described by the pairs it adds, and a scan for the most
  recent events by the fact that every event of the scanned kind is covered by a later one of its thread.
\<close>

section \<open>Growing graphs\<close>

definition skeleton :: "'v wmm_event \<Rightarrow> 'v wmm_event" where
  "skeleton e = e\<lparr>out_edges := []\<rparr>"

definition grows :: "'v wmm_graph \<Rightarrow> 'v wmm_graph \<Rightarrow> bool" where
  "grows g g' \<longleftrightarrow>
     map skeleton (g_events g') = map skeleton (g_events g) \<and>
     eventsPerThread g' = eventsPerThread g \<and> lastSeqCstWriteEvents g' = lastSeqCstWriteEvents g \<and>
     inSnapshotMode g' = inSnapshotMode g \<and> g_nThreads g' = g_nThreads g \<and>
     take (length (g_edges g)) (g_edges g') = g_edges g \<and> length (g_edges g) \<le> length (g_edges g') \<and>
     snapshotEdges g' = snapshotEdges g \<union>
       (if inSnapshotMode g then {length (g_edges g)..<length (g_edges g')} else {})"

lemma skeleton_simps [simp]:
  "ev_id (skeleton e) = ev_id e" "ev_type (skeleton e) = ev_type e" "location (skeleton e) = location e"
  "threadId (skeleton e) = threadId e" "ev_order (skeleton e) = ev_order e" "clock (skeleton e) = clock e"
  "readFrom (skeleton e) = readFrom e" "rmw_state (skeleton e) = rmw_state e" "payload (skeleton e) = payload e"
  "skeleton (e\<lparr>out_edges := es\<rparr>) = skeleton e" "skeleton (skeleton e) = skeleton e"
  by (simp_all add: skeleton_def)

lemma skeleton_fields:
  assumes "skeleton e = skeleton e'"
  shows "ev_id e = ev_id e'" "ev_type e = ev_type e'" "location e = location e'" "threadId e = threadId e'"
    "ev_order e = ev_order e'" "clock e = clock e'" "readFrom e = readFrom e'" "rmw_state e = rmw_state e'"
    "payload e = payload e'"
  using assms by (metis skeleton_simps)+

lemma grows_refl [simp, intro]: "grows g g"
  by (simp add: grows_def)

lemma grows_trans [trans]: "grows a b \<Longrightarrow> grows b c \<Longrightarrow> grows a c"
proof -
  assume "grows a b" "grows b c"
  then have "take (length (g_edges a)) (g_edges c) = g_edges a"
    unfolding grows_def by (metis min.absorb1 take_take)
  then show "grows a c"
    using \<open>grows a b\<close> \<open>grows b c\<close> unfolding grows_def by (auto split: if_splits)
qed

lemma grows_length [simp]: "grows g g' \<Longrightarrow> length (g_events g') = length (g_events g)"
  unfolding grows_def using map_eq_imp_length_eq by blast

lemma grows_event:
  assumes "grows g g'" "i < length (g_events g)"
  shows "skeleton (event_at g' i) = skeleton (event_at g i)"
proof -
  have "map skeleton (g_events g') ! i = map skeleton (g_events g) ! i"
    using assms(1) by (simp add: grows_def)
  then show ?thesis using assms by (simp add: event_at_def)
qed

lemmas grows_fields = skeleton_fields [OF grows_event]

lemma grows_graph:
  assumes "grows g g'"
  shows "eventsPerThread g' = eventsPerThread g" "lastSeqCstWriteEvents g' = lastSeqCstWriteEvents g"
    "inSnapshotMode g' = inSnapshotMode g" "g_nThreads g' = g_nThreads g"
  using assms by (simp_all add: grows_def)

lemma mo_image: "mo g = (\<lambda>e. (e_from e, e_to e)) ` set (filter (\<lambda>e. e_type e = MO) (g_edges g))"
  by (auto simp: mo_def)

lemma adjacency_find_edge:
  assumes "adjacency_ok g" "i < length (g_events g)"
  shows "ExistsEdge ty i j g = Ret (\<exists>e\<in>set (g_edges g). e_from e = i \<and> e_to e = j \<and> e_type e = ty)"
proof -
  have find: "find_edge (g_edges g) ty i j ks = Ret (\<exists>k\<in>set ks. e_from (g_edges g ! k) = i \<and>
      e_to (g_edges g ! k) = j \<and> e_type (g_edges g ! k) = ty)" if "set ks \<subseteq> {..<length (g_edges g)}" for ks
    using that by (induction ks) auto
  have out: "out_edges (g_events g ! i) = filter (\<lambda>k. e_from (g_edges g ! k) = i) [0..<length (g_edges g)]"
    by (rule adjacency_out [OF assms])
  have "(\<exists>k\<in>set (out_edges (g_events g ! i)). e_from (g_edges g ! k) = i \<and> e_to (g_edges g ! k) = j \<and> e_type (g_edges g ! k) = ty)
      \<longleftrightarrow> (\<exists>e\<in>set (g_edges g). e_from e = i \<and> e_to e = j \<and> e_type e = ty)"
    unfolding out by (auto simp: Bex_def in_set_conv_nth)
  then show ?thesis
    using assms(2) find [of "out_edges (g_events g ! i)"] out by (simp add: ExistsEdge_def subset_iff)
qed

text \<open>The pairs a computation on graphs adds to the modification order.\<close>

definition adds :: "'v wmm_graph \<Rightarrow> 'v wmm_graph res \<Rightarrow> (nat \<times> nat) set \<Rightarrow> bool" where
  "adds g m X \<longleftrightarrow> (\<exists>g'. m = Ret g' \<and> grows g g' \<and> adjacency_ok g' \<and> mo g' = mo g \<union> X)"

lemma adds_Ret: "adjacency_ok g \<Longrightarrow> adds g (Ret g) {}"
  by (auto simp: adds_def)

lemma adds_bind:
  assumes "adds g m X" "\<And>g'. grows g g' \<Longrightarrow> adjacency_ok g' \<Longrightarrow> adds g' (f g') Y"
  shows "adds g (andThen m f) (X \<union> Y)"
proof -
  obtain g' where g': "m = Ret g'" "grows g g'" "adjacency_ok g'" "mo g' = mo g \<union> X"
    using assms(1) by (auto simp: adds_def)
  obtain g'' where "f g' = Ret g''" "grows g' g''" "adjacency_ok g''" "mo g'' = mo g' \<union> Y"
    using assms(2) [OF g'(2,3)] by (auto simp: adds_def)
  then show ?thesis
    using g' grows_trans [OF g'(2)] by (auto simp: adds_def)
qed

definition append_edge :: "EdgeType \<Rightarrow> nat \<Rightarrow> nat \<Rightarrow> 'v wmm_graph \<Rightarrow> 'v wmm_graph" where
  "append_edge ty i j g =
     g\<lparr>g_events := (g_events g)[i := (g_events g ! i)\<lparr>out_edges := out_edges (g_events g ! i) @ [length (g_edges g)]\<rparr>],
       g_edges := g_edges g @ [\<lparr>e_id = length (g_edges g), e_type = ty, e_from = i, e_to = j\<rparr>],
       snapshotEdges := (if inSnapshotMode g then insert (length (g_edges g)) (snapshotEdges g) else snapshotEdges g)\<rparr>"

lemma append_edge_grows:
  assumes "i < length (g_events g)"
  shows "grows g (append_edge ty i j g)"
proof -
  have "map skeleton (g_events (append_edge ty i j g)) = map skeleton (g_events g)"
    using assms by (simp add: append_edge_def list_eq_iff_nth_eq nth_list_update)
  then show ?thesis by (auto simp: grows_def append_edge_def)
qed

lemma append_edge_adjacency:
  assumes "adjacency_ok g" "i < length (g_events g)" "j < length (g_events g)"
  shows "adjacency_ok (append_edge ty i j g)"
proof -
  let ?g = "append_edge ty i j g" and ?m = "length (g_edges g)"
  have edges: "edge_ok (length (g_events ?g)) k (g_edges ?g ! k)" if "k < length (g_edges ?g)" for k
    using assms that by (cases "k = ?m") (auto simp: append_edge_def adjacency_ok_def edge_ok_def nth_append)
  have "out_edges (g_events ?g ! n) = filter (\<lambda>k. e_from (g_edges ?g ! k) = n) [0..<length (g_edges ?g)]"
    if n: "n < length (g_events g)" for n
  proof -
    have "filter (\<lambda>k. e_from (g_edges ?g ! k) = n) [0..<?m] = filter (\<lambda>k. e_from (g_edges g ! k) = n) [0..<?m]"
      by (rule filter_cong) (auto simp: append_edge_def nth_append)
    then show ?thesis
      using adjacency_out [OF assms(1) n] n assms(2) by (cases "n = i") (simp_all add: append_edge_def)
  qed
  moreover have "ev_id (g_events ?g ! n) = n" if "n < length (g_events g)" for n
    using adjacency_id [OF assms(1) that] that assms(2) by (cases "n = i") (simp_all add: append_edge_def)
  ultimately show ?thesis
    using edges by (simp add: adjacency_ok_def append_edge_def)
qed

lemma AddEdge_adds:
  assumes "adjacency_ok g" "i < length (g_events g)" "j < length (g_events g)"
  shows "adds g (AddEdge ty i j g) (if ty = MO then {(i, j)} else {})"
proof (cases "ty = MO \<and> (\<exists>e\<in>set (g_edges g). e_from e = i \<and> e_to e = j \<and> e_type e = MO)")
  case True
  then have "AddEdge ty i j g = Ret g"
    using adjacency_find_edge [OF assms(1,2), of ty j] by (auto simp: AddEdge_def)
  moreover have "(i, j) \<in> mo g" using True by (auto simp: mo_def)
  ultimately show ?thesis using assms(1) True by (auto simp: adds_def)
next
  case False
  then have "AddEdge ty i j g = Ret (append_edge ty i j g)"
    using adjacency_find_edge [OF assms(1,2), of ty j] assms(2)
    by (auto simp: AddEdge_def append_edge_def Let_def)
  moreover have "mo (append_edge ty i j g) = mo g \<union> (if ty = MO then {(i, j)} else {})"
    by (auto simp: mo_image append_edge_def)
  ultimately show ?thesis
    using append_edge_grows [OF assms(2)] append_edge_adjacency [OF assms] by (auto simp: adds_def)
qed

section \<open>Threads and scans\<close>

definition threads_ok :: "'v wmm_graph \<Rightarrow> bool" where
  "threads_ok g \<longleftrightarrow>
     length (eventsPerThread g) = g_nThreads g \<and>
     (\<forall>t<g_nThreads g. eventsPerThread g ! t \<noteq> [] \<and> sorted_wrt (<) (eventsPerThread g ! t) \<and>
        set (eventsPerThread g ! t) = {i. i < length (g_events g) \<and> threadId (event_at g i) = t}) \<and>
     (\<forall>i<length (g_events g). threadId (event_at g i) < g_nThreads g)"

lemma threads_ok_grows:
  assumes "threads_ok g" "grows g g'"
  shows "threads_ok g'"
proof -
  have "threadId (event_at g' i) = threadId (event_at g i)" if "i < length (g_events g)" for i
    by (rule grows_fields(4) [OF assms(2) that])
  then have "{i. i < length (g_events g') \<and> threadId (event_at g' i) = t} =
      {i. i < length (g_events g) \<and> threadId (event_at g i) = t}" for t
    using assms(2) by auto
  then show ?thesis
    using assms grows_graph [OF assms(2)] grows_fields(4) [OF assms(2)] by (simp add: threads_ok_def)
qed

text \<open>
  A scan adds an edge from the image of the most recent event of each thread that satisfies the predicate.
\<close>

definition recent :: "'v wmm_graph \<Rightarrow> (nat \<Rightarrow> bool) \<Rightarrow> nat \<Rightarrow> nat set" where
  "recent g P t = (if filter P (eventsPerThread g ! t) = [] then {} else {last (filter P (eventsPerThread g ! t))})"

definition scan_ok ::
    "'v wmm_graph \<Rightarrow> ('v wmm_graph \<Rightarrow> 'v wmm_event \<Rightarrow> bool res) \<Rightarrow> ('v wmm_event \<Rightarrow> 'v wmm_graph \<Rightarrow> 'v wmm_graph res) \<Rightarrow>
     (nat \<Rightarrow> bool) \<Rightarrow> (nat \<Rightarrow> nat) \<Rightarrow> nat \<Rightarrow> bool" where
  "scan_ok g predicate callback P f dst \<longleftrightarrow>
     adjacency_ok g \<and> threads_ok g \<and> dst < length (g_events g) \<and>
     (\<forall>i<length (g_events g). (P i \<longrightarrow> f i < length (g_events g)) \<and>
        (\<forall>g'. grows g g' \<and> adjacency_ok g' \<longrightarrow>
           predicate g' (event_at g' i) = Ret (P i) \<and>
           (P i \<longrightarrow> callback (event_at g' i) g' = AddEdge MO (f i) dst g')))"

lemma most_recent_adds:
  assumes scan: "scan_ok g predicate callback P f dst"
    and g': "grows g g'" "adjacency_ok g'" and "is": "set is \<subseteq> {..<length (g_events g)}"
  shows "adds g' (most_recent predicate callback is g')
    (case filter P is of [] \<Rightarrow> {} | i # _ \<Rightarrow> {(f i, dst)})"
  using "is"
proof (induction "is")
  case (Cons i "is")
  then have i: "i < length (g_events g)" by simp
  have p: "predicate g' (event_at g' i) = Ret (P i)" "P i \<Longrightarrow> callback (event_at g' i) g' = AddEdge MO (f i) dst g'"
    "P i \<Longrightarrow> f i < length (g_events g)" "dst < length (g_events g)"
    using scan i g' by (simp_all add: scan_ok_def)
  have step: "most_recent predicate callback (i # is) g' =
      (if P i then callback (event_at g' i) g' else most_recent predicate callback is g')"
    using p(1) g'(1) i by (simp add: event_at_def)
  show ?case
  proof (cases "P i")
    case True
    then show ?thesis
      unfolding step using p AddEdge_adds [OF g'(2), of "f i" dst MO] g'(1) by simp
  next
    case False
    then show ?thesis unfolding step using Cons by simp
  qed
qed (simp add: adds_Ret g')

lemma thread_adds:
  assumes scan: "scan_ok g predicate callback P f dst"
    and "grows g g'" "adjacency_ok g'" "t < g_nThreads g"
  shows "adds g' (most_recent predicate callback (rev (eventsPerThread g ! t)) g') ((\<lambda>i. (f i, dst)) ` recent g P t)"
proof -
  have "set (rev (eventsPerThread g ! t)) \<subseteq> {..<length (g_events g)}"
    using scan assms(4) by (auto simp: threads_ok_def scan_ok_def)
  moreover have "(case filter P (rev (eventsPerThread g ! t)) of [] \<Rightarrow> {} | i # _ \<Rightarrow> {(f i, dst)}) =
      (\<lambda>i. (f i, dst)) ` recent g P t"
    by (cases "filter P (eventsPerThread g ! t)" rule: rev_cases) (simp_all add: recent_def flip: rev_filter)
  ultimately show ?thesis using most_recent_adds [OF scan assms(2,3)] by metis
qed

lemma over_threads_adds:
  assumes scan: "scan_ok g predicate callback P f dst"
    and "grows g g'" "adjacency_ok g'" "set ts \<subseteq> {..<g_nThreads g}"
  shows "adds g' (over_threads predicate callback ts g') ((\<lambda>i. (f i, dst)) ` (\<Union>t\<in>set ts. recent g P t))"
  using assms(2-)
proof (induction ts arbitrary: g')
  case Nil
  then show ?case by (simp add: adds_Ret)
next
  case (Cons t ts)
  have e: "vector_at (eventsPerThread g') t = Ret (eventsPerThread g ! t)"
    using Cons.prems grows_graph(1) [OF Cons.prems(1)] scan by (simp add: threads_ok_def scan_ok_def)
  have "adds g' (andThen (most_recent predicate callback (rev (eventsPerThread g ! t)) g') (over_threads predicate callback ts))
      ((\<lambda>i. (f i, dst)) ` recent g P t \<union> (\<lambda>i. (f i, dst)) ` (\<Union>t\<in>set ts. recent g P t))"
    using Cons.prems by (intro adds_bind thread_adds [OF scan] Cons.IH) (auto intro: grows_trans)
  then show ?case by (simp add: e image_Un)
qed

lemma scan_adds:
  assumes "scan_ok g predicate callback P f dst"
  shows "adds g (IterateThroughMostRecentEventsByPredicate predicate callback g)
     ((\<lambda>i. (f i, dst)) ` (\<Union>t<g_nThreads g. recent g P t))"
proof -
  have "adjacency_ok g" using assms by (simp add: scan_ok_def)
  then show ?thesis
    using over_threads_adds [OF assms grows_refl, of "[0..<g_nThreads g]"]
    by (simp add: IterateThroughMostRecentEventsByPredicate_def atLeast0LessThan)
qed

text \<open>Every event that satisfies the predicate is covered by one as late in its thread.\<close>

lemma recent_covers:
  assumes "threads_ok g" "i < length (g_events g)" "P i"
  shows "\<exists>j. j \<in> (\<Union>t<g_nThreads g. recent g P t) \<and> i \<le> j \<and> j < length (g_events g) \<and> P j \<and>
    threadId (event_at g j) = threadId (event_at g i)"
proof -
  let ?t = "threadId (event_at g i)"
  have t: "?t < g_nThreads g" using assms(1,2) by (simp add: threads_ok_def)
  let ?l = "filter P (eventsPerThread g ! ?t)"
  have l: "sorted_wrt (<) ?l" "i \<in> set ?l"
    using assms t by (auto simp: threads_ok_def intro: sorted_wrt_filter)
  then obtain xs j where j: "?l = xs @ [j]" by (metis empty_iff list.set(1) rev_exhaust)
  have "i \<le> j" using l unfolding j by (auto simp: sorted_wrt_append less_imp_le)
  moreover have "j \<in> set ?l" unfolding j by simp
  moreover have "j \<in> recent g P ?t" unfolding recent_def j by simp
  ultimately have "j < length (g_events g) \<and> P j \<and> threadId (event_at g j) = ?t \<and> i \<le> j \<and> j \<in> recent g P ?t"
    using assms(1) t by (auto simp: threads_ok_def)
  then show ?thesis using t by blast
qed

lemma recent_satisfies:
  assumes "threads_ok g" "j \<in> (\<Union>t<g_nThreads g. recent g P t)"
  shows "P j" "j < length (g_events g)"
proof -
  obtain t where t: "t < g_nThreads g" "j \<in> recent g P t" using assms(2) by auto
  then have "j \<in> set (filter P (eventsPerThread g ! t))"
    by (metis empty_iff last_in_set recent_def singletonD)
  then show "P j" "j < length (g_events g)" using assms(1) t by (auto simp: threads_ok_def)
qed

end
