(* ===== verification/Wmm_Rules.thy ===== *)
theory Wmm_Rules
  imports Wmm_Edges
begin

text \<open>
  The structural invariant of an execution graph, and what each rule adds to the modification order of a
  graph that satisfies it.
\<close>

section \<open>Structure\<close>

fun type_of :: "'v payload \<Rightarrow> EventType" where
  "type_of DummyEvent = DUMMY"
| "type_of (WriteEvent v) = WRITE"
| "type_of ReadEvent = READ"
| "type_of (CASRMWEvent a b c d f) = RMW"
| "type_of (UnconditionalRMWEvent a b c d) = RMW"

definition types_ok :: "'v wmm_graph \<Rightarrow> bool" where
  "types_ok g \<longleftrightarrow> (\<forall>i<length (g_events g).
     ev_type (event_at g i) = type_of (payload (event_at g i)) \<and> length (clock (event_at g i)) = g_nThreads g)"

definition last_ok :: "'v wmm_graph \<Rightarrow> bool" where
  "last_ok g \<longleftrightarrow> (\<forall>loc i. lastSeqCstWriteEvents g loc = Some i \<longrightarrow>
     i < length (g_events g) \<and> is_store (event_at g i) \<and> location (event_at g i) = loc)"

definition struct_ok :: "'v wmm_graph \<Rightarrow> bool" where
  "struct_ok g \<longleftrightarrow> adjacency_ok g \<and> threads_ok g \<and> types_ok g \<and> last_ok g"

text \<open>Happens-before, as the clocks say it.\<close>

definition hb :: "'v wmm_graph \<Rightarrow> nat \<Rightarrow> nat \<Rightarrow> bool" where
  "hb g i j \<longleftrightarrow> (\<forall>t<g_nThreads g. clock (event_at g i) ! t \<le> clock (event_at g j) ! t)"

definition reads_from :: "'v wmm_graph \<Rightarrow> nat \<Rightarrow> nat \<Rightarrow> bool" where
  "reads_from g r w \<longleftrightarrow>
     r < length (g_events g) \<and> w < length (g_events g) \<and> IsReadOrRMW (event_at g r) \<and>
     readFrom (event_at g r) = Some w \<and> is_store (event_at g w) \<and>
     location (event_at g w) = location (event_at g r)"

definition complete :: "'v wmm_graph \<Rightarrow> nat \<Rightarrow> bool" where
  "complete g i \<longleftrightarrow> (IsReadOrRMW (event_at g i) \<longrightarrow> (\<exists>w. reads_from g i w))"

lemma is_store_skeleton [simp]: "is_store (skeleton e) = is_store e"
  by (simp add: is_store_def IsWrite_def IsModifyRMW_def CASRMW_IsModifyRMW_def UnconditionalRMW_IsModifyRMW_def)

lemma IsReadOrRMW_skeleton [simp]: "IsReadOrRMW (skeleton e) = IsReadOrRMW e"
  by (simp add: IsReadOrRMW_def IsRead_def IsRMW_def)

lemma IsSeqCst_skeleton [simp]: "IsSeqCst (skeleton e) = IsSeqCst e"
  by (simp add: IsSeqCst_def CASRMW_IsSeqCst_def CASRMW_order_def Event_IsSeqCst_def)

lemma IsModifyRMW_skeleton [simp]: "IsModifyRMW (skeleton e) = IsModifyRMW e"
  by (simp add: IsModifyRMW_def CASRMW_IsModifyRMW_def UnconditionalRMW_IsModifyRMW_def)

lemma grows_predicates:
  assumes "grows g g'" "i < length (g_events g)"
  shows "is_store (event_at g' i) = is_store (event_at g i)" "IsReadOrRMW (event_at g' i) = IsReadOrRMW (event_at g i)"
    "IsSeqCst (event_at g' i) = IsSeqCst (event_at g i)" "IsModifyRMW (event_at g' i) = IsModifyRMW (event_at g i)"
  using grows_event [OF assms]
  by (metis is_store_skeleton, metis IsReadOrRMW_skeleton, metis IsSeqCst_skeleton, metis IsModifyRMW_skeleton)

lemma grows_hb:
  assumes "grows g g'" "i < length (g_events g)" "j < length (g_events g)"
  shows "hb g' i j = hb g i j"
  using grows_fields(6) [OF assms(1,2)] grows_fields(6) [OF assms(1,3)] grows_graph(4) [OF assms(1)]
  by (simp add: hb_def)

lemma grows_reads_from:
  assumes "grows g g'"
  shows "reads_from g' r w = reads_from g r w"
  using assms grows_predicates(1,2) [OF assms] grows_fields(3,7) [OF assms]
  by (auto simp: reads_from_def)

lemma grows_complete: "grows g g' \<Longrightarrow> i < length (g_events g) \<Longrightarrow> complete g' i = complete g i"
  by (simp add: complete_def grows_reads_from grows_predicates)

lemma struct_ok_grows:
  assumes "struct_ok g" "grows g g'" "adjacency_ok g'"
  shows "struct_ok g'"
proof -
  have "types_ok g'"
    using assms(1) grows_fields [OF assms(2)] grows_graph(4) [OF assms(2)] assms(2) by (simp add: struct_ok_def types_ok_def)
  moreover have "last_ok g'"
    using assms(1) grows_fields(3) [OF assms(2)] grows_predicates(1) [OF assms(2)] grows_graph(2) [OF assms(2)] assms(2)
    by (simp add: struct_ok_def last_ok_def)
  ultimately show ?thesis
    using assms threads_ok_grows [OF _ assms(2)] by (simp add: struct_ok_def)
qed

lemma struct_okD:
  assumes "struct_ok g"
  shows "adjacency_ok g" "threads_ok g" "types_ok g" "last_ok g"
  using assms by (simp_all add: struct_ok_def)

lemma event_id: "struct_ok g \<Longrightarrow> i < length (g_events g) \<Longrightarrow> ev_id (event_at g i) = i"
  by (simp add: struct_ok_def adjacency_id event_at_def)

lemma HappensBefore_hb:
  assumes "struct_ok g" "i < length (g_events g)" "j < length (g_events g)"
  shows "HappensBefore (event_at g i) (event_at g j) = Ret (hb g i j)"
  using assms by (auto simp: struct_ok_def types_ok_def HappensBefore_def IsSubsetOf_def IsSameLength_def hb_def not_less)

lemma store_is_WriteOrRMW:
  assumes "struct_ok g" "i < length (g_events g)" "is_store (event_at g i)"
  shows "IsWriteOrRMW (event_at g i)"
  using assms
  by (cases "payload (event_at g i)")
    (auto simp: struct_ok_def types_ok_def is_store_def IsWriteOrRMW_def IsWrite_def IsRMW_def IsModifyRMW_def)

lemma GetReadFromEvent_reader:
  assumes "struct_ok g" "i < length (g_events g)" "IsReadOrRMW (event_at g i)"
  shows "GetReadFromEvent (event_at g i) = Ret (readFrom (event_at g i))"
  using assms
  by (cases "payload (event_at g i)")
    (auto simp: struct_ok_def types_ok_def IsReadOrRMW_def IsRead_def IsRMW_def GetReadFromEvent_def)

lemma assert_rf_pair_Ret:
  assumes "struct_ok g" "reads_from g r w"
  shows "assert_rf_pair w r g = Ret ()"
  using assms store_is_WriteOrRMW [OF assms(1), of w] GetReadFromEvent_reader [OF assms(1), of r]
  by (simp add: assert_rf_pair_def reads_from_def)

section \<open>The pairs each rule adds\<close>

definition wr_scanned :: "'v wmm_graph \<Rightarrow> nat \<Rightarrow> nat \<Rightarrow> nat \<Rightarrow> bool" where
  "wr_scanned g w r i \<longleftrightarrow> i \<noteq> r \<and> i \<noteq> w \<and> is_store (event_at g i) \<and>
     location (event_at g i) = location (event_at g r) \<and> hb g i r"

definition rr_scanned :: "'v wmm_graph \<Rightarrow> nat \<Rightarrow> nat \<Rightarrow> nat \<Rightarrow> bool" where
  "rr_scanned g w r i \<longleftrightarrow> i \<noteq> r \<and> i \<noteq> w \<and> IsReadOrRMW (event_at g i) \<and>
     location (event_at g i) = location (event_at g r) \<and> hb g i r \<and>
     readFrom (event_at g i) \<noteq> None \<and> readFrom (event_at g i) \<noteq> Some w"

definition ww_scanned :: "'v wmm_graph \<Rightarrow> nat \<Rightarrow> nat \<Rightarrow> bool" where
  "ww_scanned g e i \<longleftrightarrow> i \<noteq> e \<and> is_store (event_at g i) \<and>
     location (event_at g i) = location (event_at g e) \<and> hb g i e"

definition rw_scanned :: "'v wmm_graph \<Rightarrow> nat \<Rightarrow> nat \<Rightarrow> bool" where
  "rw_scanned g e i \<longleftrightarrow> i \<noteq> e \<and> IsReadOrRMW (event_at g i) \<and>
     location (event_at g i) = location (event_at g e) \<and> hb g i e"

abbreviation source_of :: "'v wmm_graph \<Rightarrow> nat \<Rightarrow> nat" where
  "source_of g i \<equiv> the (readFrom (event_at g i))"

abbreviation scan_pairs :: "'v wmm_graph \<Rightarrow> (nat \<Rightarrow> bool) \<Rightarrow> (nat \<Rightarrow> nat) \<Rightarrow> nat \<Rightarrow> (nat \<times> nat) set" where
  "scan_pairs g P f dst \<equiv> (\<lambda>i. (f i, dst)) ` (\<Union>t<g_nThreads g. recent g P t)"

lemma scan_okI:
  assumes "struct_ok g" "dst < length (g_events g)"
    and "\<And>i. i < length (g_events g) \<Longrightarrow> P i \<Longrightarrow> f i < length (g_events g)"
    and "\<And>i g'. i < length (g_events g) \<Longrightarrow> grows g g' \<Longrightarrow> struct_ok g' \<Longrightarrow> predicate g' (event_at g' i) = Ret (P i)"
    and "\<And>i g'. i < length (g_events g) \<Longrightarrow> grows g g' \<Longrightarrow> struct_ok g' \<Longrightarrow> P i \<Longrightarrow>
      callback (event_at g' i) g' = AddEdge MO (f i) dst g'"
  shows "scan_ok g predicate callback P f dst"
  using assms struct_ok_grows [OF assms(1)] by (simp add: scan_ok_def struct_ok_def)

lemma WriteReadCoherence_adds:
  assumes s: "struct_ok g" and rf: "reads_from g r w"
  shows "adds g (CreateWriteReadCoherenceEdges w r g) (scan_pairs g (wr_scanned g w r) (\<lambda>i. i) w)"
proof -
  have b: "w < length (g_events g)" "r < length (g_events g)" using rf by (simp_all add: reads_from_def)
  let ?p = "\<lambda>g otherEvent. res_and
          (Ret (ev_id (event_at g r) \<noteq> ev_id otherEvent \<and> ev_id (event_at g w) \<noteq> ev_id otherEvent \<and>
                (IsWrite otherEvent \<or> IsModifyRMW otherEvent) \<and>
                location otherEvent = location (event_at g r)))
          (HappensBefore otherEvent (event_at g r))"
  have "scan_ok g ?p (\<lambda>otherEvent g. AddEdge MO (ev_id otherEvent) (ev_id (event_at g w)) g) (wr_scanned g w r) (\<lambda>i. i) w"
  proof (rule scan_okI [OF s b(1)])
    fix i g' assume i: "i < length (g_events g)" and g': "grows g g'" "struct_ok g'"
    have len: "length (g_events g') = length (g_events g)" using g'(1) by simp
    show "?p g' (event_at g' i) = Ret (wr_scanned g w r i)"
      using i b HappensBefore_hb [OF g'(2), of i r] event_id [OF g'(2)] grows_predicates(1) [OF g'(1) i]
        grows_fields(3) [OF g'(1)] grows_hb [OF g'(1) i b(2)] len
      by (auto simp: res_and_def wr_scanned_def is_store_def)
    show "AddEdge MO (ev_id (event_at g' i)) (ev_id (event_at g' w)) g' = AddEdge MO i w g'"
      using event_id [OF g'(2)] i b len by simp
  qed
  then show ?thesis
    using scan_adds assert_rf_pair_Ret [OF s rf] by (simp add: CreateWriteReadCoherenceEdges_def)
qed

lemma WriteWriteCoherence_adds:
  assumes s: "struct_ok g" and e: "e < length (g_events g)" "is_store (event_at g e)"
  shows "adds g (CreateWriteWriteCoherenceEdges e g) (scan_pairs g (ww_scanned g e) (\<lambda>i. i) e)"
proof -
  let ?p = "\<lambda>g otherEvent. res_and
          (Ret (ev_id (event_at g e) \<noteq> ev_id otherEvent \<and> (IsWrite otherEvent \<or> IsModifyRMW otherEvent) \<and>
                location otherEvent = location (event_at g e)))
          (HappensBefore otherEvent (event_at g e))"
  have "scan_ok g ?p (\<lambda>otherEvent g. AddEdge MO (ev_id otherEvent) (ev_id (event_at g e)) g) (ww_scanned g e) (\<lambda>i. i) e"
  proof (rule scan_okI [OF s e(1)])
    fix i g' assume i: "i < length (g_events g)" and g': "grows g g'" "struct_ok g'"
    have len: "length (g_events g') = length (g_events g)" using g'(1) by simp
    show "?p g' (event_at g' i) = Ret (ww_scanned g e i)"
      using i e HappensBefore_hb [OF g'(2), of i e] event_id [OF g'(2)] grows_predicates(1) [OF g'(1) i]
        grows_fields(3) [OF g'(1)] grows_hb [OF g'(1) i e(1)] len
      by (auto simp: res_and_def ww_scanned_def is_store_def)
    show "AddEdge MO (ev_id (event_at g' i)) (ev_id (event_at g' e)) g' = AddEdge MO i e g'"
      using event_id [OF g'(2)] i e len by simp
  qed
  then show ?thesis
    using scan_adds store_is_WriteOrRMW [OF s e] by (simp add: CreateWriteWriteCoherenceEdges_def)
qed

lemma ReadReadCoherence_adds:
  assumes s: "struct_ok g" and rf: "reads_from g r w"
    and others: "\<And>i. i < length (g_events g) \<Longrightarrow> i \<noteq> r \<Longrightarrow> complete g i"
  shows "adds g (CreateReadReadCoherenceEdges w r g) (scan_pairs g (rr_scanned g w r) (source_of g) w)"
proof -
  have b: "w < length (g_events g)" "r < length (g_events g)" using rf by (simp_all add: reads_from_def)
  let ?p = "\<lambda>g otherEvent. res_and
          (Ret (ev_id (event_at g r) \<noteq> ev_id otherEvent \<and> ev_id (event_at g w) \<noteq> ev_id otherEvent \<and>
                IsReadOrRMW otherEvent \<and> location otherEvent = location (event_at g r)))
          (res_and (HappensBefore otherEvent (event_at g r))
             (andThen (GetReadFromEvent otherEvent) (\<lambda>v. Ret (v \<noteq> None \<and> v \<noteq> Some w))))"
  let ?c = "\<lambda>otherRead g.
          andThen (GetReadFromEvent otherRead) (\<lambda>v.
          case v of
            None \<Rightarrow> Exn Undefined
          | Some otherWrite \<Rightarrow> AddEdge MO (ev_id (event_at g otherWrite)) (ev_id (event_at g w)) g)"
  have src: "\<exists>v. readFrom (event_at g i) = Some v \<and> v < length (g_events g)"
    if "i < length (g_events g)" "rr_scanned g w r i" for i
    using others [OF that(1)] that(2) by (auto simp: rr_scanned_def complete_def reads_from_def)
  have "scan_ok g ?p ?c (rr_scanned g w r) (source_of g) w"
  proof (rule scan_okI [OF s b(1)])
    fix i g' assume i: "i < length (g_events g)" and g': "grows g g'" "struct_ok g'"
    have len: "length (g_events g') = length (g_events g)" using g'(1) by simp
    have rd: "IsReadOrRMW (event_at g i) \<Longrightarrow> GetReadFromEvent (event_at g' i) = Ret (readFrom (event_at g i))"
      using GetReadFromEvent_reader [OF g'(2), of i] grows_predicates(2) [OF g'(1) i] grows_fields(7) [OF g'(1) i] i len by simp
    show "?p g' (event_at g' i) = Ret (rr_scanned g w r i)"
      using i b HappensBefore_hb [OF g'(2), of i r] event_id [OF g'(2)] grows_predicates(2) [OF g'(1) i]
        grows_fields(3) [OF g'(1)] grows_hb [OF g'(1) i b(2)] len rd
      by (auto simp: res_and_def rr_scanned_def)
    show "?c (event_at g' i) g' = AddEdge MO (source_of g i) w g'" if "rr_scanned g w r i"
      using src [OF i that] that rd event_id [OF g'(2)] b len by (auto simp: rr_scanned_def)
  qed (use src in force)
  then show ?thesis
    using scan_adds assert_rf_pair_Ret [OF s rf] by (simp add: CreateReadReadCoherenceEdges_def)
qed

lemma ReadWriteCoherence_adds:
  assumes s: "struct_ok g" and e: "e < length (g_events g)" "is_store (event_at g e)"
    and others: "\<And>i. i < length (g_events g) \<Longrightarrow> i \<noteq> e \<Longrightarrow> complete g i"
  shows "adds g (CreateReadWriteCoherenceEdges e g) (scan_pairs g (rw_scanned g e) (source_of g) e)"
proof -
  let ?p = "\<lambda>g otherEvent. res_and
          (Ret (ev_id (event_at g e) \<noteq> ev_id otherEvent \<and> IsReadOrRMW otherEvent \<and>
                location otherEvent = location (event_at g e)))
          (HappensBefore otherEvent (event_at g e))"
  let ?c = "\<lambda>otherEvent g.
          andThen (GetReadFromEvent otherEvent) (\<lambda>v.
          case v of
            None \<Rightarrow> Exn AssertionFailure
          | Some writeEvent \<Rightarrow> AddEdge MO (ev_id (event_at g writeEvent)) (ev_id (event_at g e)) g)"
  have src: "\<exists>v. readFrom (event_at g i) = Some v \<and> v < length (g_events g)"
    if "i < length (g_events g)" "rw_scanned g e i" for i
    using others [OF that(1)] that(2) by (auto simp: rw_scanned_def complete_def reads_from_def)
  have "scan_ok g ?p ?c (rw_scanned g e) (source_of g) e"
  proof (rule scan_okI [OF s e(1)])
    fix i g' assume i: "i < length (g_events g)" and g': "grows g g'" "struct_ok g'"
    have len: "length (g_events g') = length (g_events g)" using g'(1) by simp
    show "?p g' (event_at g' i) = Ret (rw_scanned g e i)"
      using i e HappensBefore_hb [OF g'(2), of i e] event_id [OF g'(2)] grows_predicates(2) [OF g'(1) i]
        grows_fields(3) [OF g'(1)] grows_hb [OF g'(1) i e(1)] len
      by (auto simp: res_and_def rw_scanned_def)
    have rd: "IsReadOrRMW (event_at g i) \<Longrightarrow> GetReadFromEvent (event_at g' i) = Ret (readFrom (event_at g i))"
      using GetReadFromEvent_reader [OF g'(2), of i] grows_predicates(2) [OF g'(1) i] grows_fields(7) [OF g'(1) i] i len by simp
    show "?c (event_at g' i) g' = AddEdge MO (source_of g i) e g'" if "rw_scanned g e i"
      using src [OF i that] that rd event_id [OF g'(2)] e len by (auto simp: rw_scanned_def)
  qed (use src in force)
  then show ?thesis
    using scan_adds store_is_WriteOrRMW [OF s e] by (simp add: CreateReadWriteCoherenceEdges_def)
qed

text \<open>The rules for sequentially consistent accesses.\<close>

lemma SeqCstReadWriteCoherence_adds:
  assumes s: "struct_ok g" and rf: "reads_from g r w"
  shows "adds g (CreateSeqCstReadWriteCoherenceEdges w r g)
    {(l, w) |l. lastSeqCstWriteEvents g (location (event_at g r)) = Some l \<and> l \<noteq> w}"
proof (cases "lastSeqCstWriteEvents g (location (event_at g r))")
  case None
  then show ?thesis
    using assert_rf_pair_Ret [OF s rf] adds_Ret [OF struct_okD(1) [OF s]]
    by (simp add: CreateSeqCstReadWriteCoherenceEdges_def GetLastSeqCstWriteEventId_def)
next
  case (Some l)
  have l: "l < length (g_events g)" "is_store (event_at g l)" "location (event_at g l) = location (event_at g r)"
    using s Some by (auto simp: struct_ok_def last_ok_def)
  have w: "w < length (g_events g)" using rf by (simp add: reads_from_def)
  have eq: "CreateSeqCstReadWriteCoherenceEdges w r g = (if l = w then Ret g else AddEdge MO l w g)"
    using assert_rf_pair_Ret [OF s rf] Some l w event_id [OF s]
    by (simp add: CreateSeqCstReadWriteCoherenceEdges_def GetLastSeqCstWriteEventId_def is_store_def event_at_def)
  show ?thesis
    unfolding eq using adds_Ret [OF struct_okD(1) [OF s]] AddEdge_adds [OF struct_okD(1) [OF s] l(1) w, of MO] Some by simp
qed

lemma SeqCstConsistency_adds:
  assumes s: "struct_ok g" and e: "e < length (g_events g)" "is_store (event_at g e)" "IsSeqCst (event_at g e) = Ret True"
  shows "adds g (CreateSeqCstConsistencyEdges e g)
    {(l, e) |l. lastSeqCstWriteEvents g (location (event_at g e)) = Some l}"
proof (cases "lastSeqCstWriteEvents g (location (event_at g e))")
  case None
  then show ?thesis
    using adds_Ret [OF struct_okD(1) [OF s]] store_is_WriteOrRMW [OF s e(1,2)] e(3)
    by (simp add: CreateSeqCstConsistencyEdges_def GetLastSeqCstWriteEventId_def res_and_def)
next
  case (Some l)
  have l: "l < length (g_events g)" "is_store (event_at g l)" "location (event_at g l) = location (event_at g e)"
    using s Some by (auto simp: struct_ok_def last_ok_def)
  have eq: "CreateSeqCstConsistencyEdges e g = AddEdge MO l e g"
    using store_is_WriteOrRMW [OF s e(1,2)] e Some l event_id [OF s]
    by (simp add: CreateSeqCstConsistencyEdges_def GetLastSeqCstWriteEventId_def is_store_def event_at_def res_and_def)
  show ?thesis
    unfolding eq using AddEdge_adds [OF _ l(1) e(1), of MO] struct_okD(1) [OF s] Some by simp
qed

text \<open>The rules for read-modify-writes.\<close>

lemma assert_rmw_pair_Ret:
  assumes "struct_ok g" "reads_from g r w" "IsModifyRMW (event_at g r)"
  shows "assert_rmw_pair w r g = Ret ()"
  using assms store_is_WriteOrRMW [OF assms(1), of w] GetReadFromEvent_reader [OF assms(1), of r]
  by (simp add: assert_rmw_pair_def reads_from_def)

lemma RmwConsistency_adds:
  assumes s: "struct_ok g" and rf: "reads_from g r w" and m: "IsModifyRMW (event_at g r)"
  shows "adds g (CreateRmwConsistencyEdges w r g) {(w, r)}"
  using assert_rmw_pair_Ret [OF s rf m] AddEdge_adds [OF struct_okD(1) [OF s], of w r MO] event_id [OF s] rf
  by (simp add: CreateRmwConsistencyEdges_def reads_from_def)

lemma atomicity_loop_adds:
  assumes "struct_ok g" "r < length (g_events g)" "set ks \<subseteq> {..<length (g_edges g)}" "grows g g'" "adjacency_ok g'"
  shows "adds g' (atomicity_loop r ks g')
    {(r, e_to (g_edges g ! k)) |k. k \<in> set ks \<and> e_type (g_edges g ! k) = MO \<and> e_to (g_edges g ! k) \<noteq> r}"
  using assms(3-)
proof (induction ks arbitrary: g')
  case Nil
  then show ?case by (simp add: adds_Ret)
next
  case (Cons k ks)
  let ?e = "g_edges g ! k"
  have s': "struct_ok g'" using struct_ok_grows [OF assms(1)] Cons.prems by blast
  have len: "length (g_events g') = length (g_events g)" using Cons.prems by simp
  have k: "k < length (g_edges g)" "e_to ?e < length (g_events g)"
    using Cons.prems adjacency_edge [OF struct_okD(1) [OF assms(1)]] by auto
  have pre: "take (length (g_edges g)) (g_edges g') = g_edges g" "length (g_edges g) \<le> length (g_edges g')"
    using Cons.prems by (simp_all add: grows_def)
  have e: "vector_at (g_edges g') k = Ret ?e"
    using k pre by (metis nth_take order_less_le_trans vector_at_in)
  have id: "ev_id (event_at g' r) = r" using event_id [OF s'] assms(2) len by simp
  have "adds g' (if e_type ?e = MO \<and> e_to ?e \<noteq> r then AddEdge MO r (e_to ?e) g' else Ret g')
      (if e_type ?e = MO \<and> e_to ?e \<noteq> r then {(r, e_to ?e)} else {})"
    using AddEdge_adds [OF Cons.prems(3), of r "e_to ?e" MO] assms(2) k len Cons.prems(3) by (simp add: adds_Ret)
  then have "adds g' (atomicity_loop r (k # ks) g') ((if e_type ?e = MO \<and> e_to ?e \<noteq> r then {(r, e_to ?e)} else {}) \<union>
      {(r, e_to (g_edges g ! k)) |k. k \<in> set ks \<and> e_type (g_edges g ! k) = MO \<and> e_to (g_edges g ! k) \<noteq> r})"
    unfolding atomicity_loop.simps e andThen.simps id
    using Cons.prems by (elim adds_bind) (auto intro!: Cons.IH intro: grows_trans)
  moreover have "(if e_type ?e = MO \<and> e_to ?e \<noteq> r then {(r, e_to ?e)} else {}) \<union>
      {(r, e_to (g_edges g ! k)) |k. k \<in> set ks \<and> e_type (g_edges g ! k) = MO \<and> e_to (g_edges g ! k) \<noteq> r} =
      {(r, e_to (g_edges g ! k')) |k'. k' \<in> set (k # ks) \<and> e_type (g_edges g ! k') = MO \<and> e_to (g_edges g ! k') \<noteq> r}"
    by auto
  ultimately show ?case by simp
qed

lemma RmwAtomicity_adds:
  assumes s: "struct_ok g" and rf: "reads_from g r w" and m: "IsModifyRMW (event_at g r)"
  shows "adds g (CreateRmwAtomicityEdges w r g) {(r, j) |j. (w, j) \<in> mo g \<and> j \<noteq> r}"
proof -
  have b: "w < length (g_events g)" "r < length (g_events g)" using rf by (simp_all add: reads_from_def)
  let ?ks = "out_edges (event_at g w)"
  have ks: "set ?ks \<subseteq> {..<length (g_edges g)}"
    using adjacency_out [OF struct_okD(1) [OF s] b(1)] by (auto simp: event_at_def)
  have "{(r, e_to (g_edges g ! k)) |k. k \<in> set ?ks \<and> e_type (g_edges g ! k) = MO \<and> e_to (g_edges g ! k) \<noteq> r} =
      {(r, j) |j. (w, j) \<in> mo g \<and> j \<noteq> r}"
    using mo_out [OF struct_okD(1) [OF s] b(1)] by (auto simp: event_at_def)
  then show ?thesis
    using atomicity_loop_adds [OF s b(2) ks grows_refl struct_okD(1) [OF s]] assert_rmw_pair_Ret [OF s rf m]
    by (simp add: CreateRmwAtomicityEdges_def)
qed

end
