(* ===== verification/Wmm_Coherence.thy ===== *)
theory Wmm_Coherence
  imports Wmm_Rules
begin

text \<open>
  Clocks and coherence: the invariants on clocks, the four coherence axioms, and the proof that the scans
  for a new event extend them to that event.
\<close>

section \<open>Clocks\<close>

text \<open>
  Program order is in happens-before, and nobody has seen more of a thread than its last event.
\<close>

definition clocks_ok :: "'v wmm_graph \<Rightarrow> bool" where
  "clocks_ok g \<longleftrightarrow>
     (\<forall>i j. i < j \<and> j < length (g_events g) \<and> threadId (event_at g i) = threadId (event_at g j) \<longrightarrow> hb g i j) \<and>
     (\<forall>i<length (g_events g). \<forall>t<g_nThreads g.
        clock (event_at g i) ! t \<le> clock (event_at g (last (eventsPerThread g ! t))) ! t)"

text \<open>The event under construction: no other event has seen it.\<close>

definition fresh :: "'v wmm_graph \<Rightarrow> nat \<Rightarrow> bool" where
  "fresh g r \<longleftrightarrow> r < length (g_events g) \<and>
     (\<forall>i<length (g_events g). i \<noteq> r \<longrightarrow>
        clock (event_at g i) ! threadId (event_at g r) < clock (event_at g r) ! threadId (event_at g r))"

lemma fresh_not_hb:
  assumes "struct_ok g" "fresh g r" "i < length (g_events g)" "i \<noteq> r"
  shows "\<not> hb g r i"
proof -
  have "threadId (event_at g r) < g_nThreads g"
    using assms by (auto simp: fresh_def struct_ok_def threads_ok_def)
  then have "hb g r i \<Longrightarrow> clock (event_at g r) ! threadId (event_at g r) \<le> clock (event_at g i) ! threadId (event_at g r)"
    by (simp add: hb_def)
  moreover have "clock (event_at g i) ! threadId (event_at g r) < clock (event_at g r) ! threadId (event_at g r)"
    using assms by (simp add: fresh_def)
  ultimately show ?thesis by auto
qed

lemma last_in_thread:
  assumes "struct_ok g" "t < g_nThreads g"
  shows "last (eventsPerThread g ! t) < length (g_events g)" "threadId (event_at g (last (eventsPerThread g ! t))) = t"
proof -
  have "eventsPerThread g ! t \<noteq> []" "set (eventsPerThread g ! t) = {i. i < length (g_events g) \<and> threadId (event_at g i) = t}"
    using assms by (simp_all add: struct_ok_def threads_ok_def)
  then have "last (eventsPerThread g ! t) \<in> {i. i < length (g_events g) \<and> threadId (event_at g i) = t}"
    using last_in_set by blast
  then show "last (eventsPerThread g ! t) < length (g_events g)" "threadId (event_at g (last (eventsPerThread g ! t))) = t"
    by simp_all
qed

lemma grows_clocks:
  assumes "grows g g'" "struct_ok g"
  shows "clocks_ok g' = clocks_ok g" "fresh g' r = fresh g r"
proof -
  have l: "t < g_nThreads g \<Longrightarrow> last (eventsPerThread g ! t) < length (g_events g)" for t
    by (rule last_in_thread [OF assms(2)])
  have c: "i < length (g_events g) \<Longrightarrow> clock (event_at g' i) = clock (event_at g i)"
    "i < length (g_events g) \<Longrightarrow> threadId (event_at g' i) = threadId (event_at g i)" for i
    using grows_fields [OF assms(1)] by blast+
  show "clocks_ok g' = clocks_ok g"
    using l grows_graph [OF assms(1)] assms(1) c grows_hb [OF assms(1)]
    by (simp add: clocks_ok_def cong: conj_cong imp_cong)
  show "fresh g' r = fresh g r"
    using assms(1) c by (auto simp: fresh_def)
qed

text \<open>The clock of the event under construction may be joined with that of another event.\<close>

definition set_clock :: "nat \<Rightarrow> VectorClock \<Rightarrow> 'v wmm_graph \<Rightarrow> 'v wmm_graph" where
  "set_clock r c g = update_event r (\<lambda>e. e\<lparr>clock := c\<rparr>) g"

lemma set_clock_event:
  "r < length (g_events g) \<Longrightarrow>
   event_at (set_clock r c g) i = (if i = r then (event_at g r)\<lparr>clock := c\<rparr> else event_at g i)"
  by (simp add: set_clock_def update_event_def event_at_def)

lemma set_clock_graph [simp]:
  "g_edges (set_clock r c g) = g_edges g" "length (g_events (set_clock r c g)) = length (g_events g)"
  "eventsPerThread (set_clock r c g) = eventsPerThread g"
  "lastSeqCstWriteEvents (set_clock r c g) = lastSeqCstWriteEvents g"
  "snapshotEdges (set_clock r c g) = snapshotEdges g" "inSnapshotMode (set_clock r c g) = inSnapshotMode g"
  "g_nThreads (set_clock r c g) = g_nThreads g" "mo (set_clock r c g) = mo g"
  by (simp_all add: set_clock_def update_event_def mo_def)

lemma set_clock_struct:
  assumes "struct_ok g" "r < length (g_events g)" "length c = g_nThreads g"
  shows "struct_ok (set_clock r c g)"
proof -
  let ?g = "set_clock r c g"
  have f: "threadId (event_at ?g i) = threadId (event_at g i)" "ev_type (event_at ?g i) = ev_type (event_at g i)"
    "payload (event_at ?g i) = payload (event_at g i)" "location (event_at ?g i) = location (event_at g i)"
    "ev_id (event_at ?g i) = ev_id (event_at g i)" "out_edges (event_at ?g i) = out_edges (event_at g i)"
    "is_store (event_at ?g i) = is_store (event_at g i)" for i
    using assms(2) by (simp_all add: set_clock_event is_store_def IsWrite_def IsModifyRMW_def
      CASRMW_IsModifyRMW_def UnconditionalRMW_IsModifyRMW_def)
  have "adjacency_ok ?g" using assms(1) f(5,6) by (simp add: struct_ok_def adjacency_ok_def event_at_def)
  moreover have "threads_ok ?g" using assms(1) f(1) by (simp add: struct_ok_def threads_ok_def)
  moreover have "types_ok ?g" using assms f by (auto simp: struct_ok_def types_ok_def set_clock_event)
  moreover have "last_ok ?g" using assms(1) f by (simp add: struct_ok_def last_ok_def)
  ultimately show ?thesis by (simp add: struct_ok_def)
qed

lemma join_clocks:
  assumes s: "struct_ok g" and ok: "clocks_ok g" and fr: "fresh g r" and l: "l < length (g_events g)"
  defines "c \<equiv> map2 max (clock (event_at g r)) (clock (event_at g l))"
  shows "clocks_ok (set_clock r c g)" "fresh (set_clock r c g) r" "length c = g_nThreads g"
proof -
  let ?g = "set_clock r c g" and ?t = "threadId (event_at g r)"
  have r: "r < length (g_events g)" using fr by (simp add: fresh_def)
  have t: "?t < g_nThreads g" using s r by (simp add: struct_ok_def threads_ok_def)
  have len: "length (clock (event_at g i)) = g_nThreads g" if "i < length (g_events g)" for i
    using s that by (simp add: struct_ok_def types_ok_def)
  show lc: "length c = g_nThreads g" by (simp add: c_def len r l)
  have c: "c ! u = max (clock (event_at g r) ! u) (clock (event_at g l) ! u)" if "u < g_nThreads g" for u
    using that by (simp add: c_def len r l)
  have ct: "c ! ?t = clock (event_at g r) ! ?t"
  proof (cases "l = r")
    case False
    then have "clock (event_at g l) ! ?t < clock (event_at g r) ! ?t" using fr l by (simp add: fresh_def)
    then show ?thesis using c [OF t] by simp
  qed (simp add: c [OF t])
  show fr': "fresh ?g r"
    using fr ct r by (auto simp: fresh_def set_clock_event)
  have last_r: "last (eventsPerThread g ! u) = r" if "u = ?t" for u
  proof (rule ccontr)
    assume "last (eventsPerThread g ! u) \<noteq> r"
    then have "clock (event_at g (last (eventsPerThread g ! u))) ! ?t < clock (event_at g r) ! ?t"
      using fr last_in_thread(1) [OF s t] that by (simp add: fresh_def)
    moreover have "clock (event_at g r) ! ?t \<le> clock (event_at g (last (eventsPerThread g ! u))) ! ?t"
      using ok r t that by (simp add: clocks_ok_def)
    ultimately show False by simp
  qed
  have bound: "clock (event_at ?g i) ! u \<le> clock (event_at ?g (last (eventsPerThread ?g ! u))) ! u"
    if i: "i < length (g_events g)" and u: "u < g_nThreads g" for i u
  proof -
    have le: "clock (event_at g i) ! u \<le> clock (event_at g (last (eventsPerThread g ! u))) ! u" if "i < length (g_events g)" for i
      using ok that u by (simp add: clocks_ok_def)
    show ?thesis
    proof (cases "u = ?t")
      case True
      then show ?thesis
        using le [OF i] last_r [OF True] ct r by (cases "i = r") (simp_all add: set_clock_event)
    next
      case False
      then have "last (eventsPerThread g ! u) \<noteq> r" using last_in_thread(2) [OF s u] by auto
      then show ?thesis
        using le [OF i] le [OF l] le [OF r] c [OF u] r by (cases "i = r") (simp_all add: set_clock_event)
    qed
  qed
  have "hb ?g i j" if ij: "i < j" "j < length (g_events g)" "threadId (event_at g i) = threadId (event_at g j)" for i j
  proof -
    have old: "hb g i j" using ok ij by (simp add: clocks_ok_def)
    show ?thesis
    proof (cases "i = r")
      case True
      then show ?thesis using fresh_not_hb [OF s fr, of j] old ij by simp
    next
      case False
      then show ?thesis
        using old c r by (auto simp: hb_def set_clock_event le_max_iff_disj)
    qed
  qed
  then show "clocks_ok ?g"
    using bound r by (auto simp: clocks_ok_def set_clock_event split: if_splits)
qed

section \<open>Coherence\<close>

text \<open>
  The coherence axioms on a set of events: a store happens-before another, a store a read, a read a
  store, or a read another read of the same location; and a read-modify-write follows the store it
  reads from.
\<close>

abbreviation same_loc :: "'v wmm_graph \<Rightarrow> nat \<Rightarrow> nat \<Rightarrow> bool" where
  "same_loc g i j \<equiv> location (event_at g i) = location (event_at g j)"

definition CoWW :: "'v wmm_graph \<Rightarrow> nat set \<Rightarrow> bool" where
  "CoWW g A \<longleftrightarrow> (\<forall>i\<in>A. \<forall>j\<in>A. is_store (event_at g i) \<and> is_store (event_at g j) \<and> same_loc g i j \<and> i \<noteq> j \<and> hb g i j \<longrightarrow>
     (i, j) \<in> (mo g)\<^sup>+)"

definition CoWR :: "'v wmm_graph \<Rightarrow> nat set \<Rightarrow> bool" where
  "CoWR g A \<longleftrightarrow> (\<forall>i\<in>A. \<forall>r\<in>A. \<forall>w. is_store (event_at g i) \<and> reads_from g r w \<and> same_loc g i r \<and> i \<noteq> r \<and> i \<noteq> w \<and>
     hb g i r \<longrightarrow> (i, w) \<in> (mo g)\<^sup>+)"

definition CoRW :: "'v wmm_graph \<Rightarrow> nat set \<Rightarrow> bool" where
  "CoRW g A \<longleftrightarrow> (\<forall>r\<in>A. \<forall>j\<in>A. \<forall>w. reads_from g r w \<and> is_store (event_at g j) \<and> same_loc g r j \<and> r \<noteq> j \<and> hb g r j \<longrightarrow>
     (w, j) \<in> (mo g)\<^sup>+)"

definition CoRR :: "'v wmm_graph \<Rightarrow> nat set \<Rightarrow> bool" where
  "CoRR g A \<longleftrightarrow> (\<forall>r\<in>A. \<forall>s\<in>A. \<forall>w v. reads_from g r w \<and> reads_from g s v \<and> same_loc g r s \<and> r \<noteq> s \<and> hb g r s \<longrightarrow>
     w = v \<or> (w, v) \<in> (mo g)\<^sup>+)"

definition CoRmw :: "'v wmm_graph \<Rightarrow> nat set \<Rightarrow> bool" where
  "CoRmw g A \<longleftrightarrow> (\<forall>r\<in>A. \<forall>w. reads_from g r w \<and> is_store (event_at g r) \<longrightarrow> (w, r) \<in> mo g)"

definition coherent :: "'v wmm_graph \<Rightarrow> nat set \<Rightarrow> bool" where
  "coherent g A \<longleftrightarrow> CoWW g A \<and> CoWR g A \<and> CoRW g A \<and> CoRR g A \<and> CoRmw g A"

definition covers :: "'v wmm_graph \<Rightarrow> (nat \<Rightarrow> bool) \<Rightarrow> (nat \<Rightarrow> nat) \<Rightarrow> nat \<Rightarrow> bool" where
  "covers g P f dst \<longleftrightarrow> (\<forall>i<length (g_events g). P i \<longrightarrow>
     (\<exists>j<length (g_events g). i \<le> j \<and> P j \<and> threadId (event_at g i) = threadId (event_at g j) \<and> (f j, dst) \<in> mo g))"

lemma coversE:
  assumes "covers g P f dst" "clocks_ok g" "i < length (g_events g)" "P i"
  obtains j where "j < length (g_events g)" "P j" "i = j \<or> hb g i j" "(f j, dst) \<in> mo g"
proof -
  obtain j where j: "j < length (g_events g)" "i \<le> j" "P j" "threadId (event_at g i) = threadId (event_at g j)" "(f j, dst) \<in> mo g"
    using assms(1,3,4) by (auto simp: covers_def)
  then have "i = j \<or> hb g i j" using assms(2) by (auto simp: clocks_ok_def le_less)
  then show ?thesis using that j by blast
qed

lemma CoWW_extend:
  assumes s: "struct_ok g" and ok: "clocks_ok g" and fr: "fresh g r" and A: "A = {..<length (g_events g)} - {r}"
    and co: "CoWW g A" and cov: "is_store (event_at g r) \<Longrightarrow> covers g (ww_scanned g r) (\<lambda>i. i) r"
  shows "CoWW g {..<length (g_events g)}"
  unfolding CoWW_def
proof (intro ballI impI)
  fix i j assume ij: "i \<in> {..<length (g_events g)}" "j \<in> {..<length (g_events g)}"
    and h: "is_store (event_at g i) \<and> is_store (event_at g j) \<and> same_loc g i j \<and> i \<noteq> j \<and> hb g i j"
  have "i \<noteq> r" using fresh_not_hb [OF s fr, of j] h ij by auto
  show "(i, j) \<in> (mo g)\<^sup>+"
  proof (cases "j = r")
    case False
    then show ?thesis using co h ij \<open>i \<noteq> r\<close> A by (simp add: CoWW_def)
  next
    case True
    then obtain k where k: "k < length (g_events g)" "ww_scanned g r k" "i = k \<or> hb g i k" "(k, r) \<in> mo g"
      using coversE [OF cov ok, of i] h ij by (auto simp: ww_scanned_def)
    have "i = k \<or> (i, k) \<in> (mo g)\<^sup>+"
      using co k h ij \<open>i \<noteq> r\<close> True A by (auto simp: CoWW_def ww_scanned_def)
    then show ?thesis using k(4) True by (auto intro: trancl_into_trancl)
  qed
qed

lemma CoWR_extend:
  assumes s: "struct_ok g" and ok: "clocks_ok g" and fr: "fresh g r" and A: "A = {..<length (g_events g)} - {r}"
    and co: "CoWR g A" "CoWW g A" and cov: "\<And>w. reads_from g r w \<Longrightarrow> covers g (wr_scanned g w r) (\<lambda>i. i) w"
  shows "CoWR g {..<length (g_events g)}"
  unfolding CoWR_def
proof (intro ballI allI impI)
  fix i q w assume ij: "i \<in> {..<length (g_events g)}" "q \<in> {..<length (g_events g)}"
    and h: "is_store (event_at g i) \<and> reads_from g q w \<and> same_loc g i q \<and> i \<noteq> q \<and> i \<noteq> w \<and> hb g i q"
  have "i \<noteq> r" using fresh_not_hb [OF s fr, of q] h ij by auto
  show "(i, w) \<in> (mo g)\<^sup>+"
  proof (cases "q = r")
    case False
    then show ?thesis using co(1) h ij \<open>i \<noteq> r\<close> A by (simp add: CoWR_def)
  next
    case True
    then obtain k where k: "k < length (g_events g)" "wr_scanned g w r k" "i = k \<or> hb g i k" "(k, w) \<in> mo g"
      using coversE [OF cov ok, of w i] h ij by (auto simp: wr_scanned_def)
    have "i = k \<or> (i, k) \<in> (mo g)\<^sup>+"
      using co(2) k h ij \<open>i \<noteq> r\<close> True A by (auto simp: CoWW_def wr_scanned_def)
    then show ?thesis using k(4) by (auto intro: trancl_into_trancl)
  qed
qed

text \<open>Two reads of one thread: the sources are equal or ordered.\<close>

lemma CoRR_sources:
  assumes "CoRR g A" "i \<in> A" "k \<in> A" "reads_from g i w" "reads_from g k v" "same_loc g i k" "i = k \<or> hb g i k"
    and "(v, d) \<in> mo g"
  shows "(w, d) \<in> (mo g)\<^sup>+"
proof -
  have "w = v \<or> (w, v) \<in> (mo g)\<^sup>+"
  proof (cases "i = k")
    case True
    then show ?thesis using assms(4,5) by (simp add: reads_from_def)
  next
    case False
    then show ?thesis using assms unfolding CoRR_def by blast
  qed
  then show ?thesis using assms(8) by (auto intro: trancl_into_trancl)
qed

lemma complete_source:
  assumes "complete g k" "IsReadOrRMW (event_at g k)"
  shows "reads_from g k (source_of g k)"
  using assms by (auto simp: complete_def reads_from_def)

lemma CoRW_extend:
  assumes s: "struct_ok g" and ok: "clocks_ok g" and fr: "fresh g r" and A: "A = {..<length (g_events g)} - {r}"
    and comp: "\<And>i. i \<in> A \<Longrightarrow> complete g i"
    and co: "CoRW g A" "CoRR g A" and cov: "is_store (event_at g r) \<Longrightarrow> covers g (rw_scanned g r) (source_of g) r"
  shows "CoRW g {..<length (g_events g)}"
  unfolding CoRW_def
proof (intro ballI allI impI)
  fix i j w assume ij: "i \<in> {..<length (g_events g)}" "j \<in> {..<length (g_events g)}"
    and h: "reads_from g i w \<and> is_store (event_at g j) \<and> same_loc g i j \<and> i \<noteq> j \<and> hb g i j"
  have "i \<noteq> r" using fresh_not_hb [OF s fr, of j] h ij by auto
  show "(w, j) \<in> (mo g)\<^sup>+"
  proof (cases "j = r")
    case False
    then show ?thesis using co(1) h ij \<open>i \<noteq> r\<close> A by (simp add: CoRW_def)
  next
    case True
    have "rw_scanned g r i" using h True by (auto simp: rw_scanned_def reads_from_def)
    then obtain k where k: "k < length (g_events g)" "rw_scanned g r k" "i = k \<or> hb g i k" "(source_of g k, r) \<in> mo g"
      using coversE [OF cov ok, of i] h ij True by auto
    have kA: "k \<in> A" "i \<in> A" using k ij A \<open>i \<noteq> r\<close> by (auto simp: rw_scanned_def)
    have "reads_from g k (source_of g k)" "same_loc g i k"
      using complete_source [OF comp [OF kA(1)]] k h True by (auto simp: rw_scanned_def)
    then show ?thesis using CoRR_sources [OF co(2) kA(2,1)] h k(3,4) True by blast
  qed
qed

lemma CoRR_extend:
  assumes s: "struct_ok g" and ok: "clocks_ok g" and fr: "fresh g r" and A: "A = {..<length (g_events g)} - {r}"
    and comp: "\<And>i. i \<in> A \<Longrightarrow> complete g i"
    and co: "CoRR g A" "CoRmw g A" and cov: "\<And>w. reads_from g r w \<Longrightarrow> covers g (rr_scanned g w r) (source_of g) w"
  shows "CoRR g {..<length (g_events g)}"
  unfolding CoRR_def
proof (intro ballI allI impI)
  fix i q w v assume ij: "i \<in> {..<length (g_events g)}" "q \<in> {..<length (g_events g)}"
    and h: "reads_from g i w \<and> reads_from g q v \<and> same_loc g i q \<and> i \<noteq> q \<and> hb g i q"
  have "i \<noteq> r" using fresh_not_hb [OF s fr, of q] h ij by auto
  then have iA: "i \<in> A" using ij A by simp
  consider "q \<noteq> r" | "q = r" "w = v" | "q = r" "i = v" | "q = r" "w \<noteq> v" "i \<noteq> v" by blast
  then show "w = v \<or> (w, v) \<in> (mo g)\<^sup>+"
  proof cases
    case 1
    then show ?thesis using co(1) h ij iA A unfolding CoRR_def by blast
  next
    case 3
    then show ?thesis using co(2) h iA unfolding CoRmw_def reads_from_def by blast
  next
    case 4
    have "rr_scanned g v r i" using h 4 by (auto simp: rr_scanned_def reads_from_def)
    then obtain k where k: "k < length (g_events g)" "rr_scanned g v r k" "i = k \<or> hb g i k" "(source_of g k, v) \<in> mo g"
      using coversE [OF cov ok, of v i] h ij 4 by auto
    have kA: "k \<in> A" using k A by (auto simp: rr_scanned_def)
    have "reads_from g k (source_of g k)" "same_loc g i k"
      using complete_source [OF comp [OF kA]] k h 4 by (auto simp: rr_scanned_def)
    then show ?thesis using CoRR_sources [OF co(1) iA kA] h k(3,4) by blast
  qed simp
qed

lemma coherent_extend:
  assumes s: "struct_ok g" and ok: "clocks_ok g" and fr: "fresh g r" and A: "A = {..<length (g_events g)} - {r}"
    and comp: "\<And>i. i \<in> A \<Longrightarrow> complete g i" and co: "coherent g A"
    and read: "\<And>w. reads_from g r w \<Longrightarrow> covers g (wr_scanned g w r) (\<lambda>i. i) w \<and> covers g (rr_scanned g w r) (source_of g) w"
    and store: "is_store (event_at g r) \<Longrightarrow> covers g (ww_scanned g r) (\<lambda>i. i) r \<and> covers g (rw_scanned g r) (source_of g) r"
    and rmw: "\<And>w. reads_from g r w \<Longrightarrow> is_store (event_at g r) \<Longrightarrow> (w, r) \<in> mo g"
  shows "coherent g {..<length (g_events g)}"
proof -
  have c: "CoWW g A" "CoWR g A" "CoRW g A" "CoRR g A" "CoRmw g A" using co by (simp_all add: coherent_def)
  have "CoRmw g {..<length (g_events g)}"
    using c(5) rmw A unfolding CoRmw_def by blast
  then show ?thesis
    unfolding coherent_def
    using CoWW_extend [OF s ok fr A c(1)] CoWR_extend [OF s ok fr A c(2,1)] CoRW_extend [OF s ok fr A comp c(3,4)]
      CoRR_extend [OF s ok fr A comp c(4,5)] read store by blast
qed

end
