(* ===== verification/Wmm_Invariant.thy ===== *)
theory Wmm_Invariant
  imports Wmm_Coherence
begin

text \<open>
  The invariant of the execution graph and its preservation: while a reads-from edge is tried, by the
  snapshot, and by every operation.
\<close>

section \<open>The invariant\<close>

definition typed_mo :: "'v wmm_graph \<Rightarrow> bool" where
  "typed_mo g \<longleftrightarrow> (\<forall>(i, j)\<in>mo g. is_store (event_at g i) \<and> is_store (event_at g j) \<and> same_loc g i j)"

text \<open>A read-modify-write was resolved by the value it reads.\<close>

definition resolved :: "'w::len word wmm_graph \<Rightarrow> nat \<Rightarrow> bool" where
  "resolved g i \<longleftrightarrow>
     (case payload (event_at g i) of
        CASRMWEvent initial cached expct des fail \<Rightarrow>
          GetWrittenValue (event_at g (source_of g i)) = Ret expct \<and>
          rmw_state (event_at g i) = (if expct = initial then MODIFY else RMW_READ)
      | UnconditionalRMWEvent oper arg readValue writtenVal \<Rightarrow>
          rmw_state (event_at g i) = MODIFY \<and> GetWrittenValue (event_at g (source_of g i)) = Ret readValue \<and>
          writtenVal = ApplyAtomicRmwOp oper readValue arg
      | _ \<Rightarrow> True)"

definition settled :: "'w::len word wmm_graph \<Rightarrow> nat \<Rightarrow> bool" where
  "settled g i \<longleftrightarrow> complete g i \<and> resolved g i"

definition wmm_inv :: "'w::len word wmm_graph \<Rightarrow> bool" where
  "wmm_inv g \<longleftrightarrow>
     struct_ok g \<and> clocks_ok g \<and> (\<forall>i<length (g_events g). settled g i) \<and> typed_mo g \<and> acyclic (mo g) \<and>
     coherent g {..<length (g_events g)} \<and> \<not> inSnapshotMode g \<and> snapshotEdges g = {}"

text \<open>A new event \<open>r\<close> that has not read yet, and one that is tried with the store \<open>w\<close>.\<close>

definition pending :: "'v wmm_event \<Rightarrow> bool" where
  "pending e \<longleftrightarrow> readFrom e = None \<and> rmw_state e = UNSET \<and>
     (is_CASRMWEvent (payload e) \<longrightarrow> expected (payload e) = initialExpectedValue (payload e))"

definition others_ok :: "'w::len word wmm_graph \<Rightarrow> nat \<Rightarrow> bool" where
  "others_ok g r \<longleftrightarrow>
     struct_ok g \<and> clocks_ok g \<and> fresh g r \<and> typed_mo g \<and> coherent g ({..<length (g_events g)} - {r}) \<and>
     (\<forall>i<length (g_events g). i \<noteq> r \<longrightarrow> settled g i \<and> (IsReadOrRMW (event_at g i) \<longrightarrow> readFrom (event_at g i) \<noteq> Some r))"

definition building :: "'w::len word wmm_graph \<Rightarrow> nat \<Rightarrow> bool" where
  "building g r \<longleftrightarrow> others_ok g r \<and> acyclic (mo g) \<and> pending (event_at g r) \<and> \<not> inSnapshotMode g \<and> snapshotEdges g = {}"

definition trying :: "'w::len word wmm_graph \<Rightarrow> nat \<Rightarrow> nat \<Rightarrow> bool" where
  "trying g r w \<longleftrightarrow> others_ok g r \<and> reads_from g r w \<and> w \<noteq> r \<and> resolved g r"

text \<open>What may change while \<open>r\<close> is tried: its own record, and the edges grow.\<close>

definition evolves :: "nat \<Rightarrow> 'v wmm_graph \<Rightarrow> 'v wmm_graph \<Rightarrow> bool" where
  "evolves r g g' \<longleftrightarrow>
     length (g_events g') = length (g_events g) \<and>
     (\<forall>i<length (g_events g). i \<noteq> r \<longrightarrow> skeleton (event_at g' i) = skeleton (event_at g i)) \<and>
     eventsPerThread g' = eventsPerThread g \<and> inSnapshotMode g' = inSnapshotMode g \<and> g_nThreads g' = g_nThreads g \<and>
     take (length (g_edges g)) (g_edges g') = g_edges g \<and> length (g_edges g) \<le> length (g_edges g') \<and>
     snapshotEdges g' = snapshotEdges g \<union>
       (if inSnapshotMode g then {length (g_edges g)..<length (g_edges g')} else {})"

lemma grows_evolves: "grows g g' \<Longrightarrow> evolves r g g'"
  using grows_event [of g g'] by (simp add: evolves_def grows_def)

lemma evolves_refl [simp, intro]: "evolves r g g"
  by (simp add: evolves_def)

lemma evolves_trans [trans]: "evolves r a b \<Longrightarrow> evolves r b c \<Longrightarrow> evolves r a c"
proof -
  assume ab: "evolves r a b" and bc: "evolves r b c"
  then have "take (length (g_edges a)) (g_edges c) = g_edges a"
    unfolding evolves_def by (metis min.absorb1 take_take)
  then show "evolves r a c"
    using ab bc unfolding evolves_def by (auto split: if_splits)
qed

lemma set_clock_evolves: "r < length (g_events g) \<Longrightarrow> evolves r g (set_clock r c g)"
  by (simp add: evolves_def set_clock_event)

section \<open>Transfer\<close>

lemma GetWrittenValue_skeleton [simp]: "GetWrittenValue (skeleton e) = GetWrittenValue e"
  by (simp add: GetWrittenValue_def IsWriteOrRMW_def IsWrite_def IsRMW_def CASRMW_GetWrittenValue_def
    UnconditionalRMW_GetWrittenValue_def split: payload.split)

text \<open>
  Settled events and coherence carry over to a graph in which the events concerned, and the stores they
  read from, are the same.
\<close>

definition same_event :: "'v wmm_graph \<Rightarrow> 'v wmm_graph \<Rightarrow> nat \<Rightarrow> bool" where
  "same_event g g' i \<longleftrightarrow> skeleton (event_at g' i) = skeleton (event_at g i)"

lemma same_event_fields:
  assumes "same_event g g' i"
  shows "location (event_at g' i) = location (event_at g i)" "threadId (event_at g' i) = threadId (event_at g i)"
    "clock (event_at g' i) = clock (event_at g i)" "readFrom (event_at g' i) = readFrom (event_at g i)"
    "rmw_state (event_at g' i) = rmw_state (event_at g i)" "payload (event_at g' i) = payload (event_at g i)"
    "is_store (event_at g' i) = is_store (event_at g i)" "IsReadOrRMW (event_at g' i) = IsReadOrRMW (event_at g i)"
    "GetWrittenValue (event_at g' i) = GetWrittenValue (event_at g i)"
proof -
  have e: "skeleton (event_at g' i) = skeleton (event_at g i)" using assms by (simp add: same_event_def)
  note f = skeleton_fields [OF e]
  show "location (event_at g' i) = location (event_at g i)" "threadId (event_at g' i) = threadId (event_at g i)"
    "clock (event_at g' i) = clock (event_at g i)" "readFrom (event_at g' i) = readFrom (event_at g i)"
    "rmw_state (event_at g' i) = rmw_state (event_at g i)" "payload (event_at g' i) = payload (event_at g i)"
    using f by simp_all
  show "is_store (event_at g' i) = is_store (event_at g i)" using e by (metis is_store_skeleton)
  show "IsReadOrRMW (event_at g' i) = IsReadOrRMW (event_at g i)" using e by (metis IsReadOrRMW_skeleton)
  show "GetWrittenValue (event_at g' i) = GetWrittenValue (event_at g i)" using e by (metis GetWrittenValue_skeleton)
qed

lemma reads_from_transfer:
  assumes "same_event g g' r" "same_event g g' w" "r < length (g_events g')" "w < length (g_events g')" "reads_from g r w"
  shows "reads_from g' r w"
  using assms same_event_fields [OF assms(1)] same_event_fields [OF assms(2)] by (simp add: reads_from_def)

lemma settled_transfer:
  assumes st: "settled g i" and si: "same_event g g' i" and len: "length (g_events g) \<le> length (g_events g')" "i < length (g_events g)"
    and src: "\<And>w. reads_from g i w \<Longrightarrow> same_event g g' w"
    and ty: "struct_ok g"
  shows "settled g' i"
proof (cases "IsReadOrRMW (event_at g i)")
  case True
  then obtain w where w: "reads_from g i w" using st by (auto simp: settled_def complete_def)
  have sw: "same_event g g' w" by (rule src [OF w])
  have bw: "w < length (g_events g)" "source_of g i = w" "source_of g' i = w"
    using w same_event_fields(4) [OF si] by (auto simp: reads_from_def)
  have "complete g' i"
    using reads_from_transfer [OF si sw _ _ w] len bw by (auto simp: complete_def)
  moreover have "resolved g' i"
    using st same_event_fields [OF si] same_event_fields(9) [OF sw] bw
    by (simp add: settled_def resolved_def split: payload.splits)
  ultimately show ?thesis by (simp add: settled_def)
next
  case False
  have "ev_type (event_at g i) = type_of (payload (event_at g i))"
    using ty len by (simp add: struct_ok_def types_ok_def)
  then have "resolved g' i"
    using False same_event_fields(6) [OF si]
    by (cases "payload (event_at g i)") (simp_all add: resolved_def IsReadOrRMW_def IsRead_def IsRMW_def)
  then show ?thesis
    using False same_event_fields(8) [OF si] by (simp add: settled_def complete_def)
qed

lemma coherent_transfer:
  assumes co: "coherent g A" and same: "\<And>i. i \<in> A \<Longrightarrow> same_event g g' i" and n: "g_nThreads g' = g_nThreads g"
    and m: "mo g \<subseteq> mo g'" and rf: "\<And>r w. r \<in> A \<Longrightarrow> reads_from g' r w \<Longrightarrow> reads_from g r w"
  shows "coherent g' A"
proof -
  have h: "hb g' i j = hb g i j" if "i \<in> A" "j \<in> A" for i j
    using same_event_fields(3) [OF same [OF that(1)]] same_event_fields(3) [OF same [OF that(2)]] n by (simp add: hb_def)
  note f = same_event_fields(1,7) [OF same]
  have mt: "p \<in> (mo g)\<^sup>+ \<Longrightarrow> p \<in> (mo g')\<^sup>+" for p
    using trancl_mono_subset [OF m] by blast
  have c: "CoWW g A" "CoWR g A" "CoRW g A" "CoRR g A" "CoRmw g A" using co by (simp_all add: coherent_def)
  have "CoWW g' A" using c(1) h f mt unfolding CoWW_def by (metis (no_types, lifting))
  moreover have "CoWR g' A" using c(2) h f mt rf unfolding CoWR_def by (metis (no_types, lifting))
  moreover have "CoRW g' A" using c(3) h f mt rf unfolding CoRW_def by (metis (no_types, lifting))
  moreover have "CoRR g' A" using c(4) h f mt rf unfolding CoRR_def by (metis (no_types, lifting))
  moreover have "CoRmw g' A" using c(5) f m rf unfolding CoRmw_def by blast
  ultimately show ?thesis by (simp add: coherent_def)
qed

section \<open>Trying a store\<close>

definition same_others :: "nat \<Rightarrow> 'v wmm_graph \<Rightarrow> 'v wmm_graph \<Rightarrow> bool" where
  "same_others r g g' \<longleftrightarrow>
     length (g_events g') = length (g_events g) \<and> g_nThreads g' = g_nThreads g \<and>
     (\<forall>i<length (g_events g). i \<noteq> r \<longrightarrow> skeleton (event_at g' i) = skeleton (event_at g i))"

lemma evolves_same_others: "evolves r g g' \<Longrightarrow> same_others r g g'"
  by (simp add: evolves_def same_others_def)

lemma others_ok_transfer:
  assumes o: "others_ok g r" and ev: "same_others r g g'" and s: "struct_ok g'" "clocks_ok g'" "fresh g' r" "typed_mo g'"
    and m: "mo g \<subseteq> mo g'"
  shows "others_ok g' r"
proof -
  have same: "same_event g g' i" if "i < length (g_events g)" "i \<noteq> r" for i
    using ev that by (simp add: same_others_def same_event_def)
  have len: "length (g_events g') = length (g_events g)" using ev by (simp add: same_others_def)
  have so: "struct_ok g" "\<And>i. i < length (g_events g) \<Longrightarrow> i \<noteq> r \<Longrightarrow> settled g i \<and> (IsReadOrRMW (event_at g i) \<longrightarrow> readFrom (event_at g i) \<noteq> Some r)"
    "coherent g ({..<length (g_events g)} - {r})"
    using o by (simp_all add: others_ok_def)
  have nr: "IsReadOrRMW (event_at g' i) \<longrightarrow> readFrom (event_at g' i) \<noteq> Some r" if "i < length (g_events g)" "i \<noteq> r" for i
    using so(2) [OF that] same_event_fields(4,8) [OF same [OF that]] by simp
  have "settled g' i" if i: "i < length (g_events g)" "i \<noteq> r" for i
  proof (rule settled_transfer [OF _ same [OF i]])
    fix w assume "reads_from g i w"
    then have "w \<noteq> r" "w < length (g_events g)" using so(2) [OF i] by (auto simp: reads_from_def)
    then show "same_event g g' w" using same by blast
  qed (use so i len in auto)
  moreover have "coherent g' ({..<length (g_events g)} - {r})"
  proof (rule coherent_transfer [OF so(3)])
    fix i w assume i: "i \<in> {..<length (g_events g)} - {r}" and rf: "reads_from g' i w"
    then have "w \<noteq> r" "w < length (g_events g)" using nr [of i] len by (auto simp: reads_from_def)
    then have "same_event g' g w" "same_event g' g i"
      using same i by (auto simp: same_event_def)
    then show "reads_from g i w" using rf i len \<open>w < length (g_events g)\<close> by (intro reads_from_transfer [of g' g]) auto
  qed (use same m ev in \<open>auto simp: same_others_def\<close>)
  ultimately show ?thesis using s nr len by (simp add: others_ok_def)
qed

lemma others_okD:
  assumes "others_ok g r"
  shows "struct_ok g" "clocks_ok g" "fresh g r" "typed_mo g" "r < length (g_events g)"
    "\<And>i. i < length (g_events g) \<Longrightarrow> i \<noteq> r \<Longrightarrow> complete g i"
    "\<And>i. i < length (g_events g) \<Longrightarrow> i \<noteq> r \<Longrightarrow> IsReadOrRMW (event_at g i) \<Longrightarrow> readFrom (event_at g i) \<noteq> Some r"
  using assms by (auto simp: others_ok_def settled_def fresh_def)

lemma tryingD:
  assumes "trying g r w"
  shows "struct_ok g" "clocks_ok g" "fresh g r" "typed_mo g" "reads_from g r w" "w \<noteq> r"
    "r < length (g_events g)" "w < length (g_events g)" "is_store (event_at g w)" "same_loc g w r"
    "\<And>i. i < length (g_events g) \<Longrightarrow> i \<noteq> r \<Longrightarrow> complete g i"
  using assms by (auto simp: trying_def others_ok_def settled_def reads_from_def)

definition mo_pairs :: "'v wmm_graph \<Rightarrow> nat \<Rightarrow> (nat \<times> nat) set \<Rightarrow> bool" where
  "mo_pairs g r X \<longleftrightarrow> (\<forall>(i, j)\<in>X. i < length (g_events g) \<and> j < length (g_events g) \<and>
     is_store (event_at g i) \<and> is_store (event_at g j) \<and> same_loc g i r \<and> same_loc g j r)"

lemma typed_mo_adds:
  assumes "typed_mo g" "grows g g'" "mo g' = mo g \<union> X" "mo_pairs g r X" "adjacency_ok g"
  shows "typed_mo g'"
  unfolding typed_mo_def
proof (intro ballI, clarify)
  fix i j assume "(i, j) \<in> mo g'"
  then have "i < length (g_events g) \<and> j < length (g_events g) \<and> is_store (event_at g i) \<and> is_store (event_at g j) \<and> same_loc g i j"
    using assms mo_bounds [OF assms(5), of i j] by (auto simp: typed_mo_def mo_pairs_def)
  then show "is_store (event_at g' i) \<and> is_store (event_at g' j) \<and> same_loc g' i j"
    using grows_predicates(1) [OF assms(2)] grows_fields(3) [OF assms(2)] by simp
qed

lemma resolved_transfer:
  assumes "same_event g g' r" "same_event g g' (source_of g r)" "resolved g r"
  shows "resolved g' r"
  using assms same_event_fields [OF assms(1)] same_event_fields(9) [OF assms(2)]
  by (simp add: resolved_def split: payload.splits)

lemma others_adds:
  assumes o: "others_ok g r" and a: "adds g m X" and X: "mo_pairs g r X"
  shows "\<exists>g'. m = Ret g' \<and> grows g g' \<and> others_ok g' r \<and> mo g' = mo g \<union> X"
proof -
  obtain g' where g': "m = Ret g'" "grows g g'" "adjacency_ok g'" "mo g' = mo g \<union> X"
    using a by (auto simp: adds_def)
  have s: "struct_ok g" "clocks_ok g" "fresh g r" "typed_mo g" using o by (simp_all add: others_ok_def)
  have "others_ok g' r"
  proof (rule others_ok_transfer [OF o evolves_same_others [OF grows_evolves [OF g'(2)]]])
    show "struct_ok g'" by (rule struct_ok_grows [OF s(1) g'(2,3)])
    show "clocks_ok g'" "fresh g' r" using grows_clocks [OF g'(2) s(1)] s(2,3) by simp_all
    show "typed_mo g'" by (rule typed_mo_adds [OF s(4) g'(2,4) X struct_okD(1) [OF s(1)]])
  qed (simp add: g'(4))
  then show ?thesis using g' by blast
qed

lemma trying_grows:
  assumes t: "trying g r w" and g: "grows g g'" and o: "others_ok g' r"
  shows "trying g' r w"
proof -
  have same: "same_event g g' i" if "i < length (g_events g)" for i
    using grows_event [OF g that] by (simp add: same_event_def)
  have "resolved g' r"
    using t same tryingD(7,8) [OF t] by (intro resolved_transfer [of g g']) (auto simp: trying_def reads_from_def)
  then show ?thesis using t g o by (simp add: trying_def grows_reads_from)
qed

lemma set_clock_fields:
  assumes "r < length (g_events g)"
  shows "is_store (event_at (set_clock r c g) i) = is_store (event_at g i)"
    "IsReadOrRMW (event_at (set_clock r c g) i) = IsReadOrRMW (event_at g i)"
    "location (event_at (set_clock r c g) i) = location (event_at g i)"
    "readFrom (event_at (set_clock r c g) i) = readFrom (event_at g i)"
    "GetWrittenValue (event_at (set_clock r c g) i) = GetWrittenValue (event_at g i)"
    "payload (event_at (set_clock r c g) i) = payload (event_at g i)"
    "rmw_state (event_at (set_clock r c g) i) = rmw_state (event_at g i)"
    "IsSeqCst (event_at (set_clock r c g) i) = IsSeqCst (event_at g i)"
    "IsModifyRMW (event_at (set_clock r c g) i) = IsModifyRMW (event_at g i)"
  using assms
  by (simp_all add: set_clock_event is_store_def IsWrite_def IsModifyRMW_def CASRMW_IsModifyRMW_def
      UnconditionalRMW_IsModifyRMW_def IsReadOrRMW_def IsRead_def IsRMW_def GetWrittenValue_def IsWriteOrRMW_def
      CASRMW_GetWrittenValue_def UnconditionalRMW_GetWrittenValue_def IsSeqCst_def CASRMW_IsSeqCst_def
      CASRMW_order_def Event_IsSeqCst_def split: payload.split)

lemma others_join:
  assumes o: "others_ok g r" and l: "l < length (g_events g)"
  defines "c \<equiv> map2 max (clock (event_at g r)) (clock (event_at g l))"
  shows "others_ok (set_clock r c g) r"
proof (rule others_ok_transfer [OF o])
  note d = others_okD [OF o] and j = join_clocks [OF others_okD(1,2,3) [OF o] l, folded c_def]
  show "same_others r g (set_clock r c g)" by (rule evolves_same_others [OF set_clock_evolves [OF d(5)]])
  show "struct_ok (set_clock r c g)" by (rule set_clock_struct [OF d(1,5) j(3)])
  show "typed_mo (set_clock r c g)" using d(4) set_clock_fields [OF d(5), of c] by (simp add: typed_mo_def)
  show "clocks_ok (set_clock r c g)" "fresh (set_clock r c g) r" by (rule j)+
qed simp

lemma trying_join:
  assumes t: "trying g r w" and l: "l < length (g_events g)"
  defines "c \<equiv> map2 max (clock (event_at g r)) (clock (event_at g l))"
  shows "trying (set_clock r c g) r w"
proof -
  note f = set_clock_fields [OF tryingD(7) [OF t], of c]
  have "others_ok (set_clock r c g) r" unfolding c_def using t l by (intro others_join) (simp_all add: trying_def)
  moreover have "reads_from (set_clock r c g) r w"
    using t by (simp add: trying_def reads_from_def f)
  moreover have "resolved (set_clock r c g) r"
    using t by (cases "payload (event_at g r)") (simp_all add: trying_def resolved_def f)
  ultimately show ?thesis using t by (simp add: trying_def)
qed

text \<open>A step of the trial: it returns, keeps the state of the trial, and only adds to the graph.\<close>

definition trial_step :: "nat \<Rightarrow> nat \<Rightarrow> 'w::len word wmm_graph \<Rightarrow> 'w word wmm_graph \<Rightarrow> bool" where
  "trial_step r w g g' \<longleftrightarrow> trying g' r w \<and> evolves r g g' \<and> mo g \<subseteq> mo g' \<and>
     (\<forall>x. x \<noteq> location (event_at g r) \<longrightarrow> lastSeqCstWriteEvents g' x = lastSeqCstWriteEvents g x) \<and>
     dom (lastSeqCstWriteEvents g) \<subseteq> dom (lastSeqCstWriteEvents g') \<and>
     payload (event_at g' r) = payload (event_at g r) \<and>
     ev_order (event_at g' r) = ev_order (event_at g r) \<and> rmw_state (event_at g' r) = rmw_state (event_at g r) \<and>
     location (event_at g' r) = location (event_at g r) \<and> ev_type (event_at g' r) = ev_type (event_at g r)"

lemma trial_step_trans: "trial_step r w a b \<Longrightarrow> trial_step r w b c \<Longrightarrow> trial_step r w a c"
  using evolves_trans [of r a b c] unfolding trial_step_def by (metis subset_trans)

lemma trial_step_event:
  assumes "trial_step r w g g'"
  shows "IsSeqCst (event_at g' r) = IsSeqCst (event_at g r)" "IsModifyRMW (event_at g' r) = IsModifyRMW (event_at g r)"
    "is_store (event_at g' r) = is_store (event_at g r)"
  using assms
  by (simp_all add: trial_step_def IsSeqCst_def CASRMW_IsSeqCst_def CASRMW_order_def Event_IsSeqCst_def IsModifyRMW_def
      CASRMW_IsModifyRMW_def UnconditionalRMW_IsModifyRMW_def is_store_def IsWrite_def)

lemma grows_trial_step:
  assumes "grows g g'" "trying g r w" "trying g' r w" "mo g \<subseteq> mo g'"
  shows "trial_step r w g g'"
  using assms grows_evolves [OF assms(1)] grows_fields [OF assms(1) tryingD(7) [OF assms(2)]] grows_graph(2) [OF assms(1)]
  by (simp add: trial_step_def)

lemma trial_adds:
  assumes t: "trying g r w" and a: "adds g m X" and X: "mo_pairs g r X"
  shows "\<exists>g'. m = Ret g' \<and> trial_step r w g g' \<and> grows g g' \<and> mo g' = mo g \<union> X"
proof -
  have "others_ok g r" using t by (simp add: trying_def)
  from others_adds [OF this a X] obtain g'
    where g': "m = Ret g'" "grows g g'" "others_ok g' r" "mo g' = mo g \<union> X" by blast
  moreover have "trying g' r w" by (rule trying_grows [OF t g'(2,3)])
  ultimately have "trial_step r w g g'" by (intro grows_trial_step [OF _ t]) simp_all
  then show ?thesis using g' by blast
qed

lemma UniteWith_Ret:
  assumes "struct_ok g" "i < length (g_events g)" "j < length (g_events g)"
  shows "UniteWith (clock (event_at g i)) (clock (event_at g j)) =
    Ret (map2 max (clock (event_at g i)) (clock (event_at g j)))"
  using assms by (simp add: UniteWith_def IsSameLength_def struct_ok_def types_ok_def)

lemma others_ScEdge:
  assumes o: "others_ok g r" and sc: "IsSeqCst (event_at g r) = Ret True"
  shows "\<exists>g'. CreateScEdgeToEvent r g = Ret g' \<and> (g' = g \<or> (\<exists>g1 l. grows g g1 \<and> others_ok g1 r \<and> mo g1 = mo g \<and>
    l < length (g_events g1) \<and> g' = set_clock r (map2 max (clock (event_at g1 r)) (clock (event_at g1 l))) g1))"
proof (cases "lastSeqCstWriteEvents g (location (event_at g r))")
  case None
  then have "CreateScEdgeToEvent r g = Ret g"
    using sc by (simp add: CreateScEdgeToEvent_def GetLastSeqCstWriteEventId_def)
  then show ?thesis by simp
next
  case (Some l)
  note s = others_okD(1) [OF o] and r = others_okD(5) [OF o]
  have l: "l < length (g_events g)" "is_store (event_at g l)"
    using s Some by (auto simp: struct_ok_def last_ok_def)
  have "adds g (AddEdge SC l r g) {}"
    using AddEdge_adds [OF struct_okD(1) [OF s] l(1) r, of SC] by simp
  moreover have "mo_pairs g r {}" by (simp add: mo_pairs_def)
  ultimately obtain g1 where g1: "AddEdge SC l r g = Ret g1" "grows g g1" "others_ok g1 r" "mo g1 = mo g"
    using others_adds [OF o, of "AddEdge SC l r g" "{}"] by auto
  have l1: "l < length (g_events g1)" using l g1(2) by simp
  have cl: "clock (event_at g1 l) = clock (event_at g l)" by (rule grows_fields(6) [OF g1(2) l(1)])
  let ?c = "map2 max (clock (event_at g1 r)) (clock (event_at g1 l))"
  have v: "vector_at (g_events g) l = Ret (event_at g l)" using l by (simp add: event_at_def)
  have st: "IsWrite (event_at g l) \<or> IsModifyRMW (event_at g l)" using l(2) by (simp add: is_store_def)
  have u: "UniteWith (clock (event_at g1 r)) (clock (event_at g l)) = Ret ?c"
    using UniteWith_Ret [OF others_okD(1,5) [OF g1(3)] l1] unfolding cl .
  have "CreateScEdgeToEvent r g = Ret (set_clock r ?c g1)"
    using st by (simp add: CreateScEdgeToEvent_def GetLastSeqCstWriteEventId_def sc Some v
      event_id [OF s l(1)] event_id [OF s r] g1(1) u set_clock_def)
  then show ?thesis using g1(2-4) l1 by blast
qed

lemma trial_ScEdge:
  assumes t: "trying g r w" and sc: "IsSeqCst (event_at g r) = Ret True"
  shows "\<exists>g'. CreateScEdgeToEvent r g = Ret g' \<and> trial_step r w g g' \<and> mo g' = mo g"
proof -
  have "others_ok g r" using t by (simp add: trying_def)
  from others_ScEdge [OF this sc] obtain g' where g': "CreateScEdgeToEvent r g = Ret g'"
    "g' = g \<or> (\<exists>g1 l. grows g g1 \<and> others_ok g1 r \<and> mo g1 = mo g \<and> l < length (g_events g1) \<and>
      g' = set_clock r (map2 max (clock (event_at g1 r)) (clock (event_at g1 l))) g1)" by blast
  from g'(2) show ?thesis
  proof (elim disjE exE conjE)
    fix g1 l assume g1: "grows g g1" "others_ok g1 r" "mo g1 = mo g" and l: "l < length (g_events g1)"
      and eq: "g' = set_clock r (map2 max (clock (event_at g1 r)) (clock (event_at g1 l))) g1"
    have t1: "trying g1 r w" by (rule trying_grows [OF t g1(1,2)])
    have "trial_step r w g1 g'"
      unfolding eq using trying_join [OF t1 l] set_clock_evolves [OF tryingD(7) [OF t1]] tryingD(7) [OF t1]
      by (simp add: trial_step_def set_clock_event)
    moreover have "trial_step r w g g1" by (rule grows_trial_step [OF g1(1) t t1]) (simp add: g1(3))
    ultimately show ?thesis using g'(1) g1(3) trial_step_trans eq by auto
  qed (use t g'(1) in \<open>simp add: trial_step_def\<close>)
qed

lemma mo_pairs_scan:
  assumes "threads_ok g" "dst < length (g_events g)" "is_store (event_at g dst)" "same_loc g dst r"
    and "\<And>i. i < length (g_events g) \<Longrightarrow> P i \<Longrightarrow>
      f i < length (g_events g) \<and> is_store (event_at g (f i)) \<and> same_loc g (f i) r"
  shows "mo_pairs g r (scan_pairs g P f dst)"
  unfolding mo_pairs_def
proof (intro ballI, clarify)
  fix i t assume "t < g_nThreads g" "i \<in> recent g P t"
  then have "P i" "i < length (g_events g)" using recent_satisfies [OF assms(1), of i P] by auto
  then show "f i < length (g_events g) \<and> dst < length (g_events g) \<and> is_store (event_at g (f i)) \<and>
      is_store (event_at g dst) \<and> same_loc g (f i) r \<and> same_loc g dst r"
    using assms(2-) by blast
qed

lemma scan_covers:
  assumes "threads_ok g" "grows g g'" "mo g' = mo g \<union> scan_pairs g P f dst"
  shows "covers g' P f dst"
  unfolding covers_def
proof (intro allI impI)
  fix i assume i: "i < length (g_events g')" "P i"
  then obtain j where j: "j \<in> (\<Union>t<g_nThreads g. recent g P t)" "i \<le> j" "j < length (g_events g)" "P j"
    "threadId (event_at g j) = threadId (event_at g i)"
    using recent_covers [OF assms(1), of i P] assms(2) by auto
  then have "(f j, dst) \<in> mo g'" using assms(3) by auto
  then show "\<exists>j<length (g_events g'). i \<le> j \<and> P j \<and> threadId (event_at g' i) = threadId (event_at g' j) \<and> (f j, dst) \<in> mo g'"
    using j i grows_fields(4) [OF assms(2)] assms(2) by auto
qed

lemma covers_grows:
  assumes "covers g P f dst" "grows g g'" "mo g \<subseteq> mo g'"
    and "\<And>i. i < length (g_events g) \<Longrightarrow> P' i = P i" "\<And>i. i < length (g_events g) \<Longrightarrow> f' i = f i"
  shows "covers g' P' f' dst"
  unfolding covers_def
proof (intro allI impI)
  fix i assume i: "i < length (g_events g')" "P' i"
  then obtain j where "j < length (g_events g)" "i \<le> j" "P j" "threadId (event_at g i) = threadId (event_at g j)" "(f j, dst) \<in> mo g"
    using assms(1,4) assms(2) by (auto simp: covers_def)
  then show "\<exists>j<length (g_events g'). i \<le> j \<and> P' j \<and> threadId (event_at g' i) = threadId (event_at g' j) \<and> (f' j, dst) \<in> mo g'"
    using assms grows_fields(4) [OF assms(2)] i by (intro exI [of _ j]) auto
qed

lemma grows_scanned:
  assumes "grows g g'" "i < length (g_events g)" "r < length (g_events g)"
  shows "wr_scanned g' w r i = wr_scanned g w r i" "rr_scanned g' w r i = rr_scanned g w r i"
    "ww_scanned g' r i = ww_scanned g r i" "rw_scanned g' r i = rw_scanned g r i" "source_of g' i = source_of g i"
  using grows_predicates [OF assms(1,2)] grows_fields(3,7) [OF assms(1,2)] grows_fields(3) [OF assms(1,3)] grows_hb [OF assms]
  by (simp_all add: wr_scanned_def rr_scanned_def ww_scanned_def rw_scanned_def)

text \<open>The scans of a read, and of a store.\<close>

definition read_covered :: "'v wmm_graph \<Rightarrow> nat \<Rightarrow> nat \<Rightarrow> bool" where
  "read_covered g r w \<longleftrightarrow> covers g (wr_scanned g w r) (\<lambda>i. i) w \<and> covers g (rr_scanned g w r) (source_of g) w"

definition store_covered :: "'v wmm_graph \<Rightarrow> nat \<Rightarrow> bool" where
  "store_covered g r \<longleftrightarrow> covers g (ww_scanned g r) (\<lambda>i. i) r \<and> covers g (rw_scanned g r) (source_of g) r"

lemma read_covered_grows:
  assumes "read_covered g r w" "grows g g'" "mo g \<subseteq> mo g'" "r < length (g_events g)"
  shows "read_covered g' r w"
  unfolding read_covered_def
proof
  have c: "covers g (wr_scanned g w r) (\<lambda>i. i) w" "covers g (rr_scanned g w r) (source_of g) w"
    using assms(1) by (simp_all add: read_covered_def)
  show "covers g' (wr_scanned g' w r) (\<lambda>i. i) w"
    by (rule covers_grows [OF c(1) assms(2,3) grows_scanned(1) [OF assms(2) _ assms(4)]]) simp_all
  show "covers g' (rr_scanned g' w r) (source_of g') w"
    by (rule covers_grows [OF c(2) assms(2,3) grows_scanned(2) [OF assms(2) _ assms(4)] grows_scanned(5) [OF assms(2) _ assms(4)]])
qed

lemma complete_source_typed:
  assumes "complete g i" "IsReadOrRMW (event_at g i)"
  shows "source_of g i < length (g_events g) \<and> is_store (event_at g (source_of g i)) \<and> same_loc g (source_of g i) i"
  using complete_source [OF assms] by (simp add: reads_from_def)

lemma trial_scan:
  assumes t: "trying g r w" and a: "adds g m (scan_pairs g P f dst)"
    and dst: "dst < length (g_events g)" "is_store (event_at g dst)" "same_loc g dst r"
    and f: "\<And>i. i < length (g_events g) \<Longrightarrow> P i \<Longrightarrow>
      f i < length (g_events g) \<and> is_store (event_at g (f i)) \<and> same_loc g (f i) r"
  shows "\<exists>g'. m = Ret g' \<and> trial_step r w g g' \<and> grows g g' \<and> covers g' P f dst"
proof -
  have th: "threads_ok g" using tryingD(1) [OF t] by (simp add: struct_ok_def)
  have "mo_pairs g r (scan_pairs g P f dst)" by (rule mo_pairs_scan [OF th dst f])
  from trial_adds [OF t a this] obtain g' where g': "m = Ret g'" "trial_step r w g g'" "grows g g'"
    "mo g' = mo g \<union> scan_pairs g P f dst" by blast
  have "covers g' P f dst" by (rule scan_covers [OF th g'(3,4)])
  then show ?thesis using g'(1-3) by blast
qed

lemma trial_read_scans:
  assumes t: "trying g r w"
  shows "\<exists>g'. andThen (CreateWriteReadCoherenceEdges w r g) (CreateReadReadCoherenceEdges w r) = Ret g' \<and>
    trial_step r w g g' \<and> grows g g' \<and> read_covered g' r w"
proof -
  note d = tryingD [OF t]
  have "\<exists>g1. CreateWriteReadCoherenceEdges w r g = Ret g1 \<and> trial_step r w g g1 \<and> grows g g1 \<and>
      covers g1 (wr_scanned g w r) (\<lambda>i. i) w"
    by (rule trial_scan [OF t WriteReadCoherence_adds [OF d(1,5)] d(8,9,10)]) (simp add: wr_scanned_def)
  then obtain g1 where g1: "CreateWriteReadCoherenceEdges w r g = Ret g1" "trial_step r w g g1" "grows g g1"
    "covers g1 (wr_scanned g w r) (\<lambda>i. i) w" by blast
  have t1: "trying g1 r w" using g1(2) by (simp add: trial_step_def)
  note d1 = tryingD [OF t1]
  have "\<exists>g2. CreateReadReadCoherenceEdges w r g1 = Ret g2 \<and> trial_step r w g1 g2 \<and> grows g1 g2 \<and>
      covers g2 (rr_scanned g1 w r) (source_of g1) w"
  proof (rule trial_scan [OF t1 ReadReadCoherence_adds [OF d1(1,5)] d1(8,9,10)])
    fix i assume i: "i < length (g_events g1)" "rr_scanned g1 w r i"
    then show "source_of g1 i < length (g_events g1) \<and> is_store (event_at g1 (source_of g1 i)) \<and> same_loc g1 (source_of g1 i) r"
      using complete_source_typed [OF d1(11) [OF i(1)]] by (simp add: rr_scanned_def)
  qed (rule d1(11))
  then obtain g2 where g2: "CreateReadReadCoherenceEdges w r g1 = Ret g2" "trial_step r w g1 g2" "grows g1 g2"
    "covers g2 (rr_scanned g1 w r) (source_of g1) w" by blast
  have m: "mo g1 \<subseteq> mo g2" using g2(2) by (simp add: trial_step_def)
  have l: "length (g_events g1) = length (g_events g)" "length (g_events g2) = length (g_events g)"
    using g1(3) g2(3) by simp_all
  have g02: "grows g g2" by (rule grows_trans [OF g1(3) g2(3)])
  have "covers g2 (wr_scanned g2 w r) (\<lambda>i. i) w"
    by (rule covers_grows [OF g1(4) g2(3) m]) (simp_all add: l grows_scanned(1) [OF g02 _ d(7)])
  moreover have "covers g2 (rr_scanned g2 w r) (source_of g2) w"
    by (rule covers_grows [OF g2(4) grows_refl subset_refl])
      (simp_all add: l grows_scanned(2,5) [OF g2(3) _ d1(7)])
  ultimately show ?thesis
    using g1 g2 trial_step_trans [OF g1(2) g2(2)] grows_trans [OF g1(3) g2(3)] by (simp add: read_covered_def)
qed

text \<open>The order of an event that is being tried is known.\<close>

lemma trying_IsSeqCst:
  assumes "trying g r w"
  shows "\<exists>b. IsSeqCst (event_at g r) = Ret b"
  using assms
  by (cases "payload (event_at g r)")
    (auto simp: trying_def resolved_def IsSeqCst_def CASRMW_IsSeqCst_def CASRMW_order_def)

lemma trial_sc_pairs:
  assumes t: "trying g r w"
  shows "\<exists>g'. CreateSeqCstReadWriteCoherenceEdges w r g = Ret g' \<and> trial_step r w g g'"
proof -
  note d = tryingD [OF t]
  have "mo_pairs g r {(l, w) |l. lastSeqCstWriteEvents g (location (event_at g r)) = Some l \<and> l \<noteq> w}"
    using d struct_okD(4) [OF d(1)] by (auto simp: mo_pairs_def last_ok_def)
  from trial_adds [OF t SeqCstReadWriteCoherence_adds [OF d(1,5)] this] show ?thesis by blast
qed

lemma read_rules_trial:
  assumes t: "trying g r w"
  shows "\<exists>g'. read_rules w r g = Ret g' \<and> trial_step r w g g' \<and> read_covered g' r w"
proof -
  obtain sc where sc: "IsSeqCst (event_at g r) = Ret sc" using trying_IsSeqCst [OF t] by blast
  have "\<exists>g1. (if sc then andThen (CreateScEdgeToEvent r g) (CreateSeqCstReadWriteCoherenceEdges w r) else Ret g) = Ret g1 \<and>
      trial_step r w g g1"
  proof (cases sc)
    case True
    then obtain g1 where g1: "CreateScEdgeToEvent r g = Ret g1" "trial_step r w g g1"
      using trial_ScEdge [OF t] sc by auto
    then have "trying g1 r w" by (simp add: trial_step_def)
    from trial_sc_pairs [OF this] show ?thesis using True g1 trial_step_trans [OF g1(2)] by auto
  qed (use t in \<open>simp add: trial_step_def\<close>)
  then obtain g1 where g1: "(if sc then andThen (CreateScEdgeToEvent r g) (CreateSeqCstReadWriteCoherenceEdges w r) else Ret g) = Ret g1"
    "trial_step r w g g1" by blast
  then have "trying g1 r w" by (simp add: trial_step_def)
  from trial_read_scans [OF this] show ?thesis
    unfolding read_rules_def sc andThen.simps g1(1) using trial_step_trans [OF g1(2)] by blast
qed

text \<open>The scans of a store.\<close>

lemma others_scan:
  assumes o: "others_ok g r" and st: "is_store (event_at g r)" and a: "adds g m (scan_pairs g P f r)"
    and f: "\<And>i. i < length (g_events g) \<Longrightarrow> P i \<Longrightarrow>
      f i < length (g_events g) \<and> f i \<noteq> r \<and> is_store (event_at g (f i)) \<and> same_loc g (f i) r"
  shows "\<exists>g'. m = Ret g' \<and> grows g g' \<and> others_ok g' r \<and> covers g' P f r \<and> mo g \<subseteq> mo g' \<and>
    mo g' \<subseteq> mo g \<union> ({..<length (g_events g)} - {r}) \<times> {r}"
proof -
  have th: "threads_ok g" using others_okD(1) [OF o] by (simp add: struct_ok_def)
  have "mo_pairs g r (scan_pairs g P f r)"
    by (rule mo_pairs_scan [OF th others_okD(5) [OF o] st refl]) (simp add: f)
  from others_adds [OF o a this] obtain g' where g': "m = Ret g'" "grows g g'" "others_ok g' r"
    "mo g' = mo g \<union> scan_pairs g P f r" by blast
  have "covers g' P f r" by (rule scan_covers [OF th g'(2,4)])
  moreover have "scan_pairs g P f r \<subseteq> ({..<length (g_events g)} - {r}) \<times> {r}"
  proof (rule image_subsetI)
    fix i assume "i \<in> (\<Union>t<g_nThreads g. recent g P t)"
    then have "P i" "i < length (g_events g)" using recent_satisfies [OF th, of i P] by simp_all
    then show "(f i, r) \<in> ({..<length (g_events g)} - {r}) \<times> {r}" using f by simp
  qed
  ultimately show ?thesis using g' by (intro exI [of _ g']) (simp add: le_supI2)
qed

lemma store_scans:
  assumes o: "others_ok g r" and st: "is_store (event_at g r)"
  shows "\<exists>g'. andThen (CreateReadWriteCoherenceEdges r g) (CreateWriteWriteCoherenceEdges r) = Ret g' \<and>
    grows g g' \<and> others_ok g' r \<and> store_covered g' r \<and> mo g \<subseteq> mo g' \<and>
    mo g' \<subseteq> mo g \<union> ({..<length (g_events g)} - {r}) \<times> {r}"
proof -
  note d = others_okD [OF o]
  have "\<exists>g1. CreateReadWriteCoherenceEdges r g = Ret g1 \<and> grows g g1 \<and> others_ok g1 r \<and>
      covers g1 (rw_scanned g r) (source_of g) r \<and> mo g \<subseteq> mo g1 \<and> mo g1 \<subseteq> mo g \<union> ({..<length (g_events g)} - {r}) \<times> {r}"
  proof (rule others_scan [OF o st ReadWriteCoherence_adds [OF d(1,5) st d(6)]])
    fix i assume i: "i < length (g_events g)" "rw_scanned g r i"
    then have "i \<noteq> r" "IsReadOrRMW (event_at g i)" "same_loc g i r" by (simp_all add: rw_scanned_def)
    then show "source_of g i < length (g_events g) \<and> source_of g i \<noteq> r \<and> is_store (event_at g (source_of g i)) \<and> same_loc g (source_of g i) r"
      using complete_source [OF d(6) [OF i(1)]] d(7) [OF i(1)] by (auto simp: reads_from_def)
  qed
  then obtain g1 where g1: "CreateReadWriteCoherenceEdges r g = Ret g1" "grows g g1" "others_ok g1 r"
    "covers g1 (rw_scanned g r) (source_of g) r" "mo g \<subseteq> mo g1" "mo g1 \<subseteq> mo g \<union> ({..<length (g_events g)} - {r}) \<times> {r}" by blast
  note d1 = others_okD [OF g1(3)]
  have st1: "is_store (event_at g1 r)" using grows_predicates(1) [OF g1(2) d(5)] st by simp
  have "\<exists>g2. CreateWriteWriteCoherenceEdges r g1 = Ret g2 \<and> grows g1 g2 \<and> others_ok g2 r \<and>
      covers g2 (ww_scanned g1 r) (\<lambda>i. i) r \<and> mo g1 \<subseteq> mo g2 \<and> mo g2 \<subseteq> mo g1 \<union> ({..<length (g_events g1)} - {r}) \<times> {r}"
    by (rule others_scan [OF g1(3) st1 WriteWriteCoherence_adds [OF d1(1,5) st1]]) (simp add: ww_scanned_def)
  then obtain g2 where g2: "CreateWriteWriteCoherenceEdges r g1 = Ret g2" "grows g1 g2" "others_ok g2 r"
    "covers g2 (ww_scanned g1 r) (\<lambda>i. i) r" "mo g1 \<subseteq> mo g2" "mo g2 \<subseteq> mo g1 \<union> ({..<length (g_events g1)} - {r}) \<times> {r}" by blast
  have l: "length (g_events g1) = length (g_events g)" "length (g_events g2) = length (g_events g)"
    using g1(2) g2(2) by simp_all
  have g02: "grows g g2" by (rule grows_trans [OF g1(2) g2(2)])
  have "covers g2 (rw_scanned g2 r) (source_of g2) r"
    by (rule covers_grows [OF g1(4) g2(2,5)]) (simp_all add: l grows_scanned(4,5) [OF g02 _ d(5)])
  moreover have "covers g2 (ww_scanned g2 r) (\<lambda>i. i) r"
    by (rule covers_grows [OF g2(4) grows_refl subset_refl]) (simp_all add: l grows_scanned(3) [OF g2(2) _ d1(5)])
  ultimately have "store_covered g2 r" by (simp add: store_covered_def)
  moreover have "mo g2 \<subseteq> mo g \<union> ({..<length (g_events g)} - {r}) \<times> {r}" "mo g \<subseteq> mo g2"
    using g1(5,6) g2(5,6) l(1) by auto
  moreover have "andThen (CreateReadWriteCoherenceEdges r g) (CreateWriteWriteCoherenceEdges r) = Ret g2"
    by (simp add: g1(1) g2(1))
  ultimately show ?thesis using g02 g2(3) by blast
qed

section \<open>The rules of a read-modify-write\<close>

lemma trial_rmw_pairs:
  assumes t: "trying g r w" and m: "IsModifyRMW (event_at g r)"
  shows "\<exists>g'. andThen (CreateRmwConsistencyEdges w r g) (CreateRmwAtomicityEdges w r) = Ret g' \<and>
    trial_step r w g g' \<and> (w, r) \<in> mo g'"
proof -
  note d = tryingD [OF t]
  have st: "is_store (event_at g r)" using m by (simp add: is_store_def)
  have "mo_pairs g r {(w, r)}" using d st by (simp add: mo_pairs_def)
  from trial_adds [OF t RmwConsistency_adds [OF d(1,5) m] this] obtain g1
    where g1: "CreateRmwConsistencyEdges w r g = Ret g1" "trial_step r w g g1" "mo g1 = mo g \<union> {(w, r)}" by blast
  have t1: "trying g1 r w" using g1(2) by (simp add: trial_step_def)
  note d1 = tryingD [OF t1]
  have m1: "IsModifyRMW (event_at g1 r)" using trial_step_event(2) [OF g1(2)] m by simp
  have st1: "is_store (event_at g1 r)" using m1 by (simp add: is_store_def)
  have "mo_pairs g1 r {(r, j) |j. (w, j) \<in> mo g1 \<and> j \<noteq> r}"
    unfolding mo_pairs_def
  proof (intro ballI, clarify)
    fix j assume j: "(w, j) \<in> mo g1"
    then have "is_store (event_at g1 j)" "same_loc g1 w j" using d1(4) by (auto simp: typed_mo_def)
    then show "r < length (g_events g1) \<and> j < length (g_events g1) \<and> is_store (event_at g1 r) \<and>
        is_store (event_at g1 j) \<and> same_loc g1 r r \<and> same_loc g1 j r"
      using mo_bounds(2) [OF struct_okD(1) [OF d1(1)] j] d1(7,10) st1 by simp
  qed
  from trial_adds [OF t1 RmwAtomicity_adds [OF d1(1,5) m1] this] obtain g2
    where g2: "CreateRmwAtomicityEdges w r g1 = Ret g2" "trial_step r w g1 g2" by blast
  have "(w, r) \<in> mo g2" using g1(3) g2(2) by (auto simp: trial_step_def)
  then show ?thesis using g1(1) g2(1) trial_step_trans [OF g1(2) g2(2)] by simp
qed

lemma set_last_fields [simp]:
  "g_events (set_last_sc_write l i g) = g_events g" "g_edges (set_last_sc_write l i g) = g_edges g"
  "eventsPerThread (set_last_sc_write l i g) = eventsPerThread g" "g_nThreads (set_last_sc_write l i g) = g_nThreads g"
  "inSnapshotMode (set_last_sc_write l i g) = inSnapshotMode g" "snapshotEdges (set_last_sc_write l i g) = snapshotEdges g"
  "lastSeqCstWriteEvents (set_last_sc_write l i g) = (lastSeqCstWriteEvents g)(l \<mapsto> i)"
  "event_at (set_last_sc_write l i g) = event_at g" "mo (set_last_sc_write l i g) = mo g"
  by (simp_all add: set_last_sc_write_def event_at_def mo_def fun_eq_iff)

lemma set_last_invariants [simp]:
  "adjacency_ok (set_last_sc_write l i g) = adjacency_ok g" "threads_ok (set_last_sc_write l i g) = threads_ok g"
  "types_ok (set_last_sc_write l i g) = types_ok g" "clocks_ok (set_last_sc_write l i g) = clocks_ok g"
  "fresh (set_last_sc_write l i g) r = fresh g r" "typed_mo (set_last_sc_write l i g) = typed_mo g"
  "reads_from (set_last_sc_write l i g) = reads_from g" "hb (set_last_sc_write l i g) = hb g"
  by (simp_all add: adjacency_ok_def threads_ok_def types_ok_def clocks_ok_def fresh_def typed_mo_def reads_from_def hb_def fun_eq_iff)

lemma others_set_last:
  assumes o: "others_ok g r" and l: "last_ok (set_last_sc_write l i g)"
  shows "others_ok (set_last_sc_write l i g) r"
proof (rule others_ok_transfer [OF o])
  note d = others_okD [OF o]
  show "same_others r g (set_last_sc_write l i g)" by (simp add: same_others_def)
  show "struct_ok (set_last_sc_write l i g)" using struct_okD [OF d(1)] l by (simp add: struct_ok_def)
qed (use others_okD [OF o] in simp_all)

lemma trial_set_last:
  assumes t: "trying g r w" and st: "is_store (event_at g r)"
  shows "trial_step r w g (set_last_sc_write (location (event_at g r)) (ev_id (event_at g r)) g)"
proof -
  let ?g = "set_last_sc_write (location (event_at g r)) (ev_id (event_at g r)) g"
  note d = tryingD [OF t]
  have id: "ev_id (event_at g r) = r" by (rule event_id [OF d(1,7)])
  have "last_ok ?g" using struct_okD(4) [OF d(1)] st d(7) by (simp add: last_ok_def id)
  then have "others_ok ?g r" using t by (intro others_set_last) (simp_all add: trying_def)
  moreover have "resolved ?g r = resolved g r" unfolding resolved_def set_last_fields ..
  ultimately have "trying ?g r w" using t by (simp add: trying_def)
  then show ?thesis by (simp add: trial_step_def evolves_def subset_insertI)
qed

lemma trial_sc_store:
  assumes t: "trying g r w" and st: "is_store (event_at g r)" and sc: "IsSeqCst (event_at g r) = Ret True"
  shows "\<exists>g'. CreateSeqCstConsistencyEdges r g = Ret g' \<and> trial_step r w g g'"
proof -
  note d = tryingD [OF t]
  have "mo_pairs g r {(l, r) |l. lastSeqCstWriteEvents g (location (event_at g r)) = Some l}"
    using d struct_okD(4) [OF d(1)] st by (auto simp: mo_pairs_def last_ok_def)
  from trial_adds [OF t SeqCstConsistency_adds [OF d(1,7) st sc] this] show ?thesis by blast
qed

lemma trial_rmw_sc:
  assumes t: "trying g r w" and st: "is_store (event_at g r)" and sc: "IsSeqCst (event_at g r) = Ret True"
  shows "\<exists>g'. andThen (CreateScEdgeToEvent r g) (\<lambda>g.
                andThen (CreateSeqCstReadWriteCoherenceEdges w r g) (\<lambda>g.
                andThen (CreateSeqCstConsistencyEdges r g) (\<lambda>g.
                Ret (set_last_sc_write (location (event_at g r)) (ev_id (event_at g r)) g)))) = Ret g' \<and>
    trial_step r w g g'"
proof -
  obtain g1 where g1: "CreateScEdgeToEvent r g = Ret g1" "trial_step r w g g1"
    using trial_ScEdge [OF t sc] by blast
  have t1: "trying g1 r w" using g1(2) by (simp add: trial_step_def)
  obtain g2 where g2: "CreateSeqCstReadWriteCoherenceEdges w r g1 = Ret g2" "trial_step r w g1 g2"
    using trial_sc_pairs [OF t1] by blast
  have s02: "trial_step r w g g2" by (rule trial_step_trans [OF g1(2) g2(2)])
  have t2: "trying g2 r w" using g2(2) by (simp add: trial_step_def)
  have e2: "is_store (event_at g2 r)" "IsSeqCst (event_at g2 r) = Ret True"
    using trial_step_event(1,3) [OF s02] st sc by simp_all
  obtain g3 where g3: "CreateSeqCstConsistencyEdges r g2 = Ret g3" "trial_step r w g2 g3"
    using trial_sc_store [OF t2 e2] by blast
  have s03: "trial_step r w g g3" by (rule trial_step_trans [OF s02 g3(2)])
  have t3: "trying g3 r w" "is_store (event_at g3 r)"
    using g3(2) trial_step_event(3) [OF s03] st by (simp_all add: trial_step_def)
  show ?thesis
    using g1(1) g2(1) g3(1) trial_step_trans [OF s03 trial_set_last [OF t3]] by simp
qed

lemma rmw_rules_trial:
  assumes t: "trying g r w" and m: "IsModifyRMW (event_at g r)"
  shows "\<exists>g'. rmw_rules w r g = Ret g' \<and> trial_step r w g g' \<and> read_covered g' r w \<and> store_covered g' r \<and> (w, r) \<in> mo g'"
proof -
  obtain g1 where g1: "andThen (CreateRmwConsistencyEdges w r g) (CreateRmwAtomicityEdges w r) = Ret g1"
    "trial_step r w g g1" "(w, r) \<in> mo g1" using trial_rmw_pairs [OF t m] by blast
  have t1: "trying g1 r w" using g1(2) by (simp add: trial_step_def)
  have st1: "is_store (event_at g1 r)"
    using trial_step_event(2) [OF g1(2)] m by (simp add: is_store_def)
  obtain sc where sc: "IsSeqCst (event_at g1 r) = Ret sc" using trying_IsSeqCst [OF t1] by blast
  have "\<exists>g2. (if sc then
                andThen (CreateScEdgeToEvent r g1) (\<lambda>g.
                andThen (CreateSeqCstReadWriteCoherenceEdges w r g) (\<lambda>g.
                andThen (CreateSeqCstConsistencyEdges r g) (\<lambda>g.
                Ret (set_last_sc_write (location (event_at g r)) (ev_id (event_at g r)) g))))
              else Ret g1) = Ret g2 \<and> trial_step r w g1 g2"
  proof (cases sc)
    case True
    then show ?thesis using trial_rmw_sc [OF t1 st1] sc by simp
  next
    case False
    then show ?thesis using t1 by (simp add: trial_step_def)
  qed
  then obtain g2 where g2: "(if sc then
                andThen (CreateScEdgeToEvent r g1) (\<lambda>g.
                andThen (CreateSeqCstReadWriteCoherenceEdges w r g) (\<lambda>g.
                andThen (CreateSeqCstConsistencyEdges r g) (\<lambda>g.
                Ret (set_last_sc_write (location (event_at g r)) (ev_id (event_at g r)) g))))
              else Ret g1) = Ret g2" "trial_step r w g1 g2" by blast
  have t2: "trying g2 r w" using g2(2) by (simp add: trial_step_def)
  obtain g3 where g3: "andThen (CreateWriteReadCoherenceEdges w r g2) (CreateReadReadCoherenceEdges w r) = Ret g3"
    "trial_step r w g2 g3" "grows g2 g3" "read_covered g3 r w" using trial_read_scans [OF t2] by blast
  have t3: "trying g3 r w" using g3(2) by (simp add: trial_step_def)
  have s03: "trial_step r w g g3" by (rule trial_step_trans [OF trial_step_trans [OF g1(2) g2(2)] g3(2)])
  have st3: "is_store (event_at g3 r)" using trial_step_event(2) [OF s03] m by (simp add: is_store_def)
  have o3: "others_ok g3 r" using t3 by (simp add: trying_def)
  obtain g4 where g4: "andThen (CreateReadWriteCoherenceEdges r g3) (CreateWriteWriteCoherenceEdges r) = Ret g4"
    "grows g3 g4" "others_ok g4 r" "store_covered g4 r" "mo g3 \<subseteq> mo g4" using store_scans [OF o3 st3] by blast
  have t4: "trying g4 r w" by (rule trying_grows [OF t3 g4(2,3)])
  have s34: "trial_step r w g3 g4" by (rule grows_trial_step [OF g4(2) t3 t4 g4(5)])
  have "read_covered g4 r w" by (rule read_covered_grows [OF g3(4) g4(2,5) tryingD(7) [OF t3]])
  moreover have "(w, r) \<in> mo g4" using g1(3) g2(2) g3(2) s34 by (auto simp: trial_step_def)
  moreover have "trial_step r w g g4" by (rule trial_step_trans [OF s03 s34])
  moreover have "rmw_rules w r g = Ret g4"
  proof -
    obtain a where a: "CreateRmwConsistencyEdges w r g = Ret a" "CreateRmwAtomicityEdges w r a = Ret g1"
      using g1(1) by (auto simp: andThen_eq_Ret)
    obtain b where b: "CreateWriteReadCoherenceEdges w r g2 = Ret b" "CreateReadReadCoherenceEdges w r b = Ret g3"
      using g3(1) by (auto simp: andThen_eq_Ret)
    show ?thesis
      unfolding rmw_rules_def eqTrueI [OF m] cpp_assert_True andThen.simps a sc g2(1) b by (rule g4(1))
  qed
  ultimately show ?thesis using g4(4) by blast
qed

end
