(* ===== verification/Wmm_Operations.thy ===== *)
theory Wmm_Operations
  imports Wmm_Invariant
begin

text \<open>
  Every operation of the execution graph keeps the invariant: a tried reads-from edge is either kept,
  with a coherent graph, or taken back without a trace in the edges.
\<close>

section \<open>Taking back a snapshot\<close>

lemma pop_while_append:
  assumes "\<forall>x\<in>set xs. \<not> P x" "\<forall>y\<in>set ys. P y"
  shows "pop_while P (xs @ ys) = xs"
proof -
  have "dropWhile P (rev ys @ rev xs) = dropWhile P (rev xs)"
    using assms(2) by (intro dropWhile_append2) simp
  also have "\<dots> = rev xs"
    using assms(1) by (cases "rev xs") (auto simp: dropWhile_eq_self_iff)
  finally show ?thesis by (simp add: pop_while_def)
qed

lemma DiscardSnapshot_restores:
  assumes ok: "adjacency_ok g" and mode: "inSnapshotMode g" and m: "m \<le> length (g_edges g)"
    and snap: "snapshotEdges g = {m..<length (g_edges g)}"
  shows "DiscardSnapshot g = Ret (g\<lparr>g_edges := take m (g_edges g),
    g_events := map (\<lambda>e. e\<lparr>out_edges := filter (\<lambda>k. k < m) (out_edges e)\<rparr>) (g_events g),
    inSnapshotMode := False, snapshotEdges := {}\<rparr>)"
proof -
  let ?n = "length (g_edges g)"
  have ids: "\<forall>k<?n. e_id (g_edges g ! k) = k" using adjacency_edge [OF ok] by blast
  have "pop_while (\<lambda>e. e_id e \<in> snapshotEdges g) (take m (g_edges g) @ drop m (g_edges g)) = take m (g_edges g)"
  proof (rule pop_while_append)
    show "\<forall>e\<in>set (take m (g_edges g)). e_id e \<notin> snapshotEdges g"
    proof
      fix e assume "e \<in> set (take m (g_edges g))"
      then obtain k where "k < m" "e = g_edges g ! k" using m by (auto simp: in_set_conv_nth)
      then show "e_id e \<notin> snapshotEdges g" using ids m by (simp add: snap)
    qed
    show "\<forall>e\<in>set (drop m (g_edges g)). e_id e \<in> snapshotEdges g"
      using ids m by (auto simp: snap in_set_conv_nth)
  qed
  then have edges: "pop_while (\<lambda>e. e_id e \<in> snapshotEdges g) (g_edges g) = take m (g_edges g)" by simp
  have "pop_while (\<lambda>k. k \<in> snapshotEdges g) (out_edges e) = filter (\<lambda>k. k < m) (out_edges e)"
    if e: "e \<in> set (g_events g)" for e
  proof -
    obtain i where i: "i < length (g_events g)" "e = g_events g ! i" using e unfolding in_set_conv_nth by blast
    let ?Q = "\<lambda>k. e_from (g_edges g ! k) = i"
    have "[0..<?n] = [0..<m] @ [m..<?n]" using m by (metis le_add_diff_inverse upt_add_eq_append zero_le)
    then have out: "out_edges e = filter ?Q [0..<m] @ filter ?Q [m..<?n]"
      using adjacency_out [OF ok i(1)] i(2) by (metis filter_append)
    have "filter (\<lambda>k. k < m) (filter ?Q [m..<?n]) = []" by (simp add: filter_empty_conv)
    moreover have "filter (\<lambda>k. k < m) (filter ?Q [0..<m]) = filter ?Q [0..<m]" by (rule filter_True) auto
    moreover have "pop_while (\<lambda>k. k \<in> snapshotEdges g) (filter ?Q [0..<m] @ filter ?Q [m..<?n]) = filter ?Q [0..<m]"
      by (rule pop_while_append) (auto simp: snap)
    ultimately show ?thesis by (simp only: out filter_append append_Nil2)
  qed
  then have "map (\<lambda>e. e\<lparr>out_edges := pop_while (\<lambda>k. k \<in> snapshotEdges g) (out_edges e)\<rparr>) (g_events g) =
      map (\<lambda>e. e\<lparr>out_edges := filter (\<lambda>k. k < m) (out_edges e)\<rparr>) (g_events g)"
    by (auto intro!: map_cong)
  then show ?thesis by (simp add: DiscardSnapshot_def mode edges)
qed

section \<open>A new record for the event under construction\<close>

lemma same_clocks:
  assumes "struct_ok g" "length (g_events g') = length (g_events g)" "g_nThreads g' = g_nThreads g"
    "eventsPerThread g' = eventsPerThread g"
    and c: "\<And>i. i < length (g_events g) \<Longrightarrow> clock (event_at g' i) = clock (event_at g i)"
    and t: "\<And>i. i < length (g_events g) \<Longrightarrow> threadId (event_at g' i) = threadId (event_at g i)"
  shows "clocks_ok g' = clocks_ok g" "fresh g' r = fresh g r"
proof -
  have l: "u < g_nThreads g \<Longrightarrow> last (eventsPerThread g ! u) < length (g_events g)" for u
    by (rule last_in_thread [OF assms(1)])
  have h: "hb g' i j = hb g i j" if "i < length (g_events g)" "j < length (g_events g)" for i j
    using c [OF that(1)] c [OF that(2)] assms(3) by (simp add: hb_def)
  show "clocks_ok g' = clocks_ok g"
    using l assms(2-4) c t h by (simp add: clocks_ok_def cong: conj_cong imp_cong)
  show "fresh g' r = fresh g r" using assms(2) c t by (auto simp: fresh_def)
qed

definition reborn :: "nat \<Rightarrow> 'v wmm_graph \<Rightarrow> 'v wmm_graph \<Rightarrow> bool" where
  "reborn r g g' \<longleftrightarrow>
     same_others r g g' \<and> eventsPerThread g' = eventsPerThread g \<and> lastSeqCstWriteEvents g' = lastSeqCstWriteEvents g \<and>
     mo g' = mo g \<and> adjacency_ok g' \<and> threadId (event_at g' r) = threadId (event_at g r) \<and>
     ev_type (event_at g' r) = ev_type (event_at g r) \<and> type_of (payload (event_at g' r)) = type_of (payload (event_at g r)) \<and>
     length (clock (event_at g' r)) = g_nThreads g"

lemma reborn_fields:
  assumes "reborn r g g'" "i < length (g_events g)"
  shows "threadId (event_at g' i) = threadId (event_at g i)"
    "i \<noteq> r \<Longrightarrow> is_store (event_at g' i) = is_store (event_at g i)"
    "i \<noteq> r \<Longrightarrow> location (event_at g' i) = location (event_at g i)"
    "i \<noteq> r \<Longrightarrow> ev_type (event_at g' i) = ev_type (event_at g i)"
    "i \<noteq> r \<Longrightarrow> payload (event_at g' i) = payload (event_at g i)"
    "i \<noteq> r \<Longrightarrow> clock (event_at g' i) = clock (event_at g i)"
proof -
  have s: "i \<noteq> r \<Longrightarrow> same_event g g' i"
    using assms by (simp add: reborn_def same_others_def same_event_def)
  show "threadId (event_at g' i) = threadId (event_at g i)"
    using assms(1) same_event_fields(2) [OF s] by (cases "i = r") (simp_all add: reborn_def)
  show "i \<noteq> r \<Longrightarrow> is_store (event_at g' i) = is_store (event_at g i)"
    "i \<noteq> r \<Longrightarrow> location (event_at g' i) = location (event_at g i)"
    "i \<noteq> r \<Longrightarrow> payload (event_at g' i) = payload (event_at g i)"
    "i \<noteq> r \<Longrightarrow> clock (event_at g' i) = clock (event_at g i)"
    using same_event_fields [OF s] by blast+
  show "i \<noteq> r \<Longrightarrow> ev_type (event_at g' i) = ev_type (event_at g i)"
    using s skeleton_fields(2) by (auto simp: same_event_def)
qed

lemma reborn_others:
  assumes o: "others_ok g r" and ns: "\<not> is_store (event_at g r)" and re: "reborn r g g'"
    and c: "clocks_ok g'" "fresh g' r"
  shows "others_ok g' r"
proof -
  note d = others_okD [OF o] and f = reborn_fields [OF re]
  have n: "length (g_events g') = length (g_events g)" "g_nThreads g' = g_nThreads g"
    "eventsPerThread g' = eventsPerThread g" "lastSeqCstWriteEvents g' = lastSeqCstWriteEvents g" "mo g' = mo g"
    using re by (simp_all add: reborn_def same_others_def)
  have "{i. i < length (g_events g') \<and> threadId (event_at g' i) = t} = {i. i < length (g_events g) \<and> threadId (event_at g i) = t}" for t
    using f(1) n(1) by auto
  then have "threads_ok g'"
    using struct_okD(2) [OF d(1)] f(1) n by (simp add: threads_ok_def)
  moreover have "types_ok g'"
    unfolding types_ok_def
  proof (intro allI impI)
    fix i assume i: "i < length (g_events g')"
    then have "ev_type (event_at g i) = type_of (payload (event_at g i)) \<and> length (clock (event_at g i)) = g_nThreads g"
      using struct_okD(3) [OF d(1)] n by (simp add: types_ok_def)
    then show "ev_type (event_at g' i) = type_of (payload (event_at g' i)) \<and> length (clock (event_at g' i)) = g_nThreads g'"
      using i n re f(4-6) by (cases "i = r") (simp_all add: reborn_def)
  qed
  moreover have "last_ok g'"
    unfolding last_ok_def
  proof (intro allI impI)
    fix loc i assume "lastSeqCstWriteEvents g' loc = Some i"
    then have i: "i < length (g_events g)" "is_store (event_at g i)" "location (event_at g i) = loc"
      using struct_okD(4) [OF d(1)] n by (auto simp: last_ok_def)
    then have "i \<noteq> r" using ns by auto
    then show "i < length (g_events g') \<and> is_store (event_at g' i) \<and> location (event_at g' i) = loc"
      using i f(2,3) n by simp
  qed
  ultimately have s: "struct_ok g'" using re by (simp add: struct_ok_def reborn_def)
  have ty: "typed_mo g'"
    unfolding typed_mo_def
  proof (intro ballI, clarify)
    fix i j assume m: "(i, j) \<in> mo g'"
    then have ij: "is_store (event_at g i) \<and> is_store (event_at g j) \<and> same_loc g i j" "i < length (g_events g)" "j < length (g_events g)"
      using d(4) n mo_bounds [OF struct_okD(1) [OF d(1)], of i j] by (auto simp: typed_mo_def)
    then have "i \<noteq> r" "j \<noteq> r" using ns by auto
    then show "is_store (event_at g' i) \<and> is_store (event_at g' j) \<and> same_loc g' i j"
      using ij f(2,3) by simp
  qed
  have "same_others r g g'" using re by (simp add: reborn_def)
  then show ?thesis by (rule others_ok_transfer [OF o _ s c ty]) (simp add: n)
qed

section \<open>Starting a trial\<close>

lemma update_event_at:
  "r < length (g_events g) \<Longrightarrow> event_at (update_event r f g) i = (if i = r then f (event_at g r) else event_at g i)"
  by (simp add: update_event_def event_at_def)

lemma update_event_graph [simp]:
  "g_edges (update_event r f g) = g_edges g" "length (g_events (update_event r f g)) = length (g_events g)"
  "eventsPerThread (update_event r f g) = eventsPerThread g"
  "lastSeqCstWriteEvents (update_event r f g) = lastSeqCstWriteEvents g"
  "snapshotEdges (update_event r f g) = snapshotEdges g" "inSnapshotMode (update_event r f g) = inSnapshotMode g"
  "g_nThreads (update_event r f g) = g_nThreads g" "mo (update_event r f g) = mo g"
  by (simp_all add: update_event_def mo_def)

lemma update_event_adjacency:
  assumes "adjacency_ok g" "r < length (g_events g)" "ev_id (f (event_at g r)) = ev_id (event_at g r)"
    "out_edges (f (event_at g r)) = out_edges (event_at g r)"
  shows "adjacency_ok (update_event r f g)"
  using assms by (auto simp: adjacency_ok_def update_event_def event_at_def nth_list_update)

text \<open>The record a reader gets when it reads from a store.\<close>

fun same_kind :: "'v payload \<Rightarrow> 'v payload \<Rightarrow> bool" where
  "same_kind (CASRMWEvent i c e d f) (CASRMWEvent i' c' e' d' f') \<longleftrightarrow> i = i' \<and> d = d' \<and> f = f'"
| "same_kind (UnconditionalRMWEvent oper arg c v) (UnconditionalRMWEvent oper' arg' c' v') \<longleftrightarrow> oper = oper' \<and> arg = arg'"
| "same_kind p p' \<longleftrightarrow> p = p'"

lemma same_kind_refl [simp, intro]: "same_kind p p"
  by (cases p) simp_all

lemma same_kind_trans: "same_kind p q \<Longrightarrow> same_kind q r \<Longrightarrow> same_kind p r"
  by (cases p; cases q; cases r) simp_all

lemma same_kind_type: "same_kind p q \<Longrightarrow> type_of q = type_of p"
  by (cases p; cases q) simp_all

definition same_reader :: "'v wmm_event \<Rightarrow> 'v wmm_event \<Rightarrow> bool" where
  "same_reader e e' \<longleftrightarrow>
     ev_id e' = ev_id e \<and> ev_type e' = ev_type e \<and> location e' = location e \<and> threadId e' = threadId e \<and>
     ev_order e' = ev_order e \<and> clock e' = clock e \<and> out_edges e' = out_edges e \<and>
     same_kind (payload e) (payload e')"

definition resolved_by :: "'w::len word \<Rightarrow> 'w word wmm_event \<Rightarrow> bool" where
  "resolved_by v e \<longleftrightarrow>
     (case payload e of
        CASRMWEvent initial cached expct des fail \<Rightarrow>
          expct = v \<and> rmw_state e = (if v = initial then MODIFY else RMW_READ)
      | UnconditionalRMWEvent oper arg readValue writtenVal \<Rightarrow>
          rmw_state e = MODIFY \<and> readValue = v \<and> writtenVal = ApplyAtomicRmwOp oper v arg
      | _ \<Rightarrow> True)"

lemma store_value:
  assumes "struct_ok g" "i < length (g_events g)" "is_store (event_at g i)"
  shows "\<exists>v. GetWrittenValue (event_at g i) = Ret v"
  using assms store_is_WriteOrRMW [OF assms]
  by (cases "payload (event_at g i)")
    (auto simp: struct_ok_def types_ok_def is_store_def IsWrite_def IsModifyRMW_def CASRMW_IsModifyRMW_def
      UnconditionalRMW_IsModifyRMW_def GetWrittenValue_def CASRMW_GetWrittenValue_def UnconditionalRMW_GetWrittenValue_def)

lemma reader_payload:
  assumes "struct_ok g" "r < length (g_events g)" "IsReadOrRMW (event_at g r)"
  shows "payload (event_at g r) = ReadEvent \<or> is_CASRMWEvent (payload (event_at g r)) \<or>
    is_UnconditionalRMWEvent (payload (event_at g r))"
  using assms
  by (cases "payload (event_at g r)")
    (auto simp: struct_ok_def types_ok_def IsReadOrRMW_def IsRead_def IsRMW_def)

lemma SetReadFromEvent_Some:
  assumes p: "pending e" and pl: "payload e = ReadEvent \<or> is_CASRMWEvent (payload e) \<or> is_UnconditionalRMWEvent (payload e)"
    and w: "IsWriteOrRMW (ev w)" "GetWrittenValue (ev w) = Ret v"
  shows "\<exists>e'. SetReadFromEvent ev (Some w) e = Ret e' \<and> same_reader e e' \<and> readFrom e' = Some w \<and> resolved_by v e' \<and>
    (payload e' = ReadEvent \<longrightarrow> rmw_state e' = UNSET)"
  using assms
  by (cases "payload e")
    (auto simp: SetReadFromEvent_def Read_SetReadFromEvent_def CASRMW_SetReadFromEvent_def Let_def
      UnconditionalRMW_SetReadFromEvent_def read_from_ok_def same_reader_def resolved_by_def pending_def)

lemma SetReadFromEvent_None:
  assumes pl: "payload e = ReadEvent \<or> is_CASRMWEvent (payload e) \<or> is_UnconditionalRMWEvent (payload e)"
    and st: "payload e = ReadEvent \<Longrightarrow> rmw_state e = UNSET"
  shows "\<exists>e'. SetReadFromEvent ev None e = Ret e' \<and> same_reader e e' \<and> pending e'"
  using assms
  by (cases "payload e")
    (auto simp: SetReadFromEvent_def Read_SetReadFromEvent_def CASRMW_SetReadFromEvent_def Let_def
      UnconditionalRMW_SetReadFromEvent_def read_from_ok_def same_reader_def pending_def)

lemma pending_not_store:
  assumes "struct_ok g" "r < length (g_events g)" "pending (event_at g r)" "IsReadOrRMW (event_at g r)"
  shows "\<not> is_store (event_at g r)"
  using assms reader_payload [OF assms(1,2,4)]
  by (auto simp: struct_ok_def types_ok_def pending_def is_store_def IsWrite_def IsModifyRMW_def IsReadOrRMW_def IsRead_def
      IsRMW_def CASRMW_IsModifyRMW_def UnconditionalRMW_IsModifyRMW_def)

text \<open>The state in which the rules are applied.\<close>

lemma resolvedI:
  assumes "readFrom (event_at g r) = Some w" "GetWrittenValue (event_at g w) = Ret v" "resolved_by v (event_at g r)"
  shows "resolved g r"
  using assms by (cases "payload (event_at g r)") (simp_all add: resolved_def resolved_by_def)

lemma start_trial:
  assumes b: "building g r" and rd: "IsReadOrRMW (event_at g r)"
    and w: "w < length (g_events g)" "w \<noteq> r" "is_store (event_at g w)" "same_loc g w r"
  shows "\<exists>g1 g2 e'. StartSnapshot g = Ret g1 \<and> AddEdge RF (ev_id (event_at g1 w)) (ev_id (event_at g1 r)) g1 = Ret g2 \<and>
    set_read_from r (Some w) g2 = Ret (update_event r (\<lambda>_. e') g2) \<and> trying (update_event r (\<lambda>_. e') g2) r w \<and>
    evolves r (g\<lparr>inSnapshotMode := True\<rparr>) (update_event r (\<lambda>_. e') g2) \<and>
    lastSeqCstWriteEvents g2 = lastSeqCstWriteEvents g \<and> mo g2 = mo g \<and>
    location e' = location (event_at g r) \<and> ev_type e' = ev_type (event_at g r) \<and> clock e' = clock (event_at g r) \<and>
    same_kind (payload (event_at g r)) (payload e') \<and> (payload e' = ReadEvent \<longrightarrow> rmw_state e' = UNSET)"
proof -
  have o: "others_ok g r" and pe: "pending (event_at g r)" and sn: "\<not> inSnapshotMode g" "snapshotEdges g = {}"
    using b by (simp_all add: building_def)
  note d = others_okD [OF o]
  let ?g1 = "g\<lparr>inSnapshotMode := True\<rparr>"
  have ev1 [simp]: "event_at ?g1 = event_at g" by (simp add: event_at_def fun_eq_iff)
  have adj1: "adjacency_ok ?g1" using struct_okD(1) [OF d(1)] by (simp add: adjacency_ok_def)
  have "adds ?g1 (AddEdge RF w r ?g1) {}"
    using AddEdge_adds [OF adj1, of w r RF] w(1) d(5) by simp
  then obtain g2 where g2: "AddEdge RF w r ?g1 = Ret g2" "grows ?g1 g2" "adjacency_ok g2" "mo g2 = mo ?g1"
    by (auto simp: adds_def)
  have len: "length (g_events g2) = length (g_events g)" using g2(2) by simp
  have r2: "r < length (g_events g2)" "w < length (g_events g2)" using d(5) w(1) len by simp_all
  have sr: "skeleton (event_at g2 r) = skeleton (event_at g r)" "skeleton (event_at g2 w) = skeleton (event_at g w)"
    using grows_event [OF g2(2)] d(5) w(1) by simp_all
  note fr = skeleton_fields [OF sr(1)]
  obtain v where v: "GetWrittenValue (event_at g2 w) = Ret v" "IsWriteOrRMW (event_at g w)"
    using store_value [OF d(1) w(1,3)] store_is_WriteOrRMW [OF d(1) w(1,3)] sr(2) by (metis GetWrittenValue_skeleton)
  have "IsWriteOrRMW (event_at g2 w)"
    using v(2) skeleton_fields(2) [OF sr(2)] by (simp add: IsWriteOrRMW_def IsWrite_def IsRMW_def)
  moreover have "pending (event_at g2 r)" using pe fr by (simp add: pending_def)
  moreover have "payload (event_at g2 r) = ReadEvent \<or> is_CASRMWEvent (payload (event_at g2 r)) \<or> is_UnconditionalRMWEvent (payload (event_at g2 r))"
    using reader_payload [OF d(1,5) rd] fr by simp
  ultimately obtain e' where e': "SetReadFromEvent (event_at g2) (Some w) (event_at g2 r) = Ret e'"
    "same_reader (event_at g2 r) e'" "readFrom e' = Some w" "resolved_by v e'"
    "payload e' = ReadEvent \<longrightarrow> rmw_state e' = UNSET"
    using SetReadFromEvent_Some [of "event_at g2 r" "event_at g2" w v] v(1) by blast
  let ?g3 = "update_event r (\<lambda>_. e') g2"
  have ev3: "event_at ?g3 i = (if i = r then e' else event_at g2 i)" for i using update_event_at [OF r2(1)] by simp
  have same: "same_others r g ?g3"
    using grows_event [OF g2(2)] len grows_graph(4) [OF g2(2)] by (simp add: same_others_def ev3)
  have re: "reborn r g ?g3"
    using same grows_graph [OF g2(2)] g2(3,4) update_event_adjacency [OF g2(3) r2(1), of "\<lambda>_. e'"] e'(2) fr
      same_kind_type [of "payload (event_at g2 r)" "payload e'"] struct_okD(3) [OF d(1)] d(5)
    by (simp add: reborn_def ev3 same_reader_def mo_def types_ok_def)
  have cl: "clock (event_at ?g3 i) = clock (event_at g i)" "threadId (event_at ?g3 i) = threadId (event_at g i)"
    if "i < length (g_events g)" for i
    using grows_fields(4,6) [OF g2(2)] that e'(2) fr by (auto simp: ev3 same_reader_def)
  have "clocks_ok ?g3" "fresh ?g3 r"
    using same_clocks [OF d(1), of ?g3] cl len grows_graph [OF g2(2)] d(2,3) by simp_all
  then have o3: "others_ok ?g3 r"
    using reborn_others [OF o pending_not_store [OF d(1,5) pe rd] re] by blast
  have rf: "reads_from ?g3 r w"
  proof -
    have "is_store (event_at g2 w)" using w(3) sr(2) by (metis is_store_skeleton)
    then show ?thesis
      using w rd r2 e'(2,3) fr skeleton_fields(3) [OF sr(2)]
      by (auto simp: reads_from_def ev3 same_reader_def IsReadOrRMW_def IsRead_def IsRMW_def)
  qed
  have "resolved ?g3 r"
    by (rule resolvedI [of _ _ w v]) (use e' v w in \<open>simp_all add: ev3\<close>)
  then have "trying ?g3 r w" using o3 rf w(2) by (simp add: trying_def)
  moreover have "evolves r ?g1 ?g3"
    using grows_evolves [OF g2(2), of r] by (simp add: evolves_def ev3)
  moreover have "set_read_from r (Some w) g2 = Ret ?g3" using e'(1) by (simp add: set_read_from_def)
  ultimately show ?thesis
    using sn g2 event_id [OF d(1)] w(1) d(5) grows_graph(2) [OF g2(2)] e'(2,5) fr
    by (intro exI [of _ ?g1] exI [of _ g2] exI [of _ e']) (simp add: StartSnapshot_def same_reader_def mo_def)
qed

section \<open>Keeping and rejecting\<close>

definition end_snapshot :: "'v wmm_graph \<Rightarrow> 'v wmm_graph" where
  "end_snapshot g = g\<lparr>inSnapshotMode := False, snapshotEdges := {}\<rparr>"

lemma end_snapshot_fields [simp]:
  "g_events (end_snapshot g) = g_events g" "g_edges (end_snapshot g) = g_edges g"
  "eventsPerThread (end_snapshot g) = eventsPerThread g" "g_nThreads (end_snapshot g) = g_nThreads g"
  "\<not> inSnapshotMode (end_snapshot g)" "snapshotEdges (end_snapshot g) = {}"
  "lastSeqCstWriteEvents (end_snapshot g) = lastSeqCstWriteEvents g"
  "event_at (end_snapshot g) = event_at g" "mo (end_snapshot g) = mo g"
  by (simp_all add: end_snapshot_def event_at_def mo_def fun_eq_iff)

lemma end_snapshot_invariants [simp]:
  "struct_ok (end_snapshot g) = struct_ok g" "clocks_ok (end_snapshot g) = clocks_ok g"
  "typed_mo (end_snapshot g) = typed_mo g" "reads_from (end_snapshot g) = reads_from g" "hb (end_snapshot g) = hb g"
  "coherent (end_snapshot g) A = coherent g A"
proof -
  show "struct_ok (end_snapshot g) = struct_ok g"
    by (simp add: struct_ok_def adjacency_ok_def threads_ok_def types_ok_def last_ok_def)
  show rf: "reads_from (end_snapshot g) = reads_from g" and hb: "hb (end_snapshot g) = hb g"
    by (simp_all add: reads_from_def hb_def fun_eq_iff)
  show "clocks_ok (end_snapshot g) = clocks_ok g" "typed_mo (end_snapshot g) = typed_mo g"
    "coherent (end_snapshot g) A = coherent g A"
    by (simp_all add: clocks_ok_def typed_mo_def coherent_def CoWW_def CoWR_def CoRW_def CoRR_def CoRmw_def rf hb)
qed

lemma reader_store:
  assumes "struct_ok g" "r < length (g_events g)" "IsReadOrRMW (event_at g r)"
  shows "is_store (event_at g r) \<longleftrightarrow> IsModifyRMW (event_at g r)"
  using assms by (auto simp: is_store_def IsReadOrRMW_def IsRead_def IsRMW_def IsWrite_def)

lemma keep_trial:
  assumes t: "trying g r w" and rc: "read_covered g r w"
    and st: "IsModifyRMW (event_at g r) \<Longrightarrow> store_covered g r \<and> (w, r) \<in> mo g" and ac: "acyclic (mo g)"
  shows "wmm_inv (end_snapshot g)"
proof -
  note d = tryingD [OF t]
  let ?A = "{..<length (g_events g)} - {r}"
  have o: "others_ok g r" and rs: "resolved g r" using t by (simp_all add: trying_def)
  have rd: "IsReadOrRMW (event_at g r)" using d(5) by (simp add: reads_from_def)
  have uniq: "v = w" if "reads_from g r v" for v using that d(5) by (simp add: reads_from_def)
  have co: "coherent g {..<length (g_events g)}"
  proof (rule coherent_extend [OF d(1-3), of ?A])
    show "coherent g ?A" using o by (simp add: others_ok_def)
    show "covers g (wr_scanned g v r) (\<lambda>i. i) v \<and> covers g (rr_scanned g v r) (source_of g) v" if "reads_from g r v" for v
      using rc uniq [OF that] by (simp add: read_covered_def)
    show "covers g (ww_scanned g r) (\<lambda>i. i) r \<and> covers g (rw_scanned g r) (source_of g) r" if "is_store (event_at g r)"
      using st that reader_store [OF d(1,7) rd] by (simp add: store_covered_def)
    show "(v, r) \<in> mo g" if "reads_from g r v" "is_store (event_at g r)" for v
      using st that reader_store [OF d(1,7) rd] uniq by simp
  qed (use d(11) in auto)
  have "settled g i" if "i < length (g_events g)" for i
    using o rs d(5) that by (cases "i = r") (auto simp: others_ok_def settled_def complete_def)
  moreover have "settled (end_snapshot g) i = settled g i" for i
    by (simp only: settled_def complete_def resolved_def end_snapshot_fields end_snapshot_invariants)
  ultimately show ?thesis
    using d(1-4) co ac by (simp add: wmm_inv_def)
qed

lemma truncate_adjacency:
  assumes ok: "adjacency_ok g" and m: "m \<le> length (g_edges g)"
  shows "adjacency_ok (g\<lparr>g_edges := take m (g_edges g),
    g_events := map (\<lambda>e. e\<lparr>out_edges := filter (\<lambda>k. k < m) (out_edges e)\<rparr>) (g_events g),
    inSnapshotMode := False, snapshotEdges := {}\<rparr>)"
proof -
  let ?n = "length (g_edges g)"
  have "filter (\<lambda>k. k < m) (out_edges (g_events g ! i)) = filter (\<lambda>k. e_from (take m (g_edges g) ! k) = i) [0..<m]"
    if i: "i < length (g_events g)" for i
  proof -
    have "[0..<?n] = [0..<m] @ [m..<?n]" using m by (metis le_add_diff_inverse upt_add_eq_append zero_le)
    then have "filter (\<lambda>k. k < m) (out_edges (g_events g ! i)) =
        filter (\<lambda>k. k < m) (filter (\<lambda>k. e_from (g_edges g ! k) = i) ([0..<m] @ [m..<?n]))"
      using adjacency_out [OF ok i] by simp
    also have "\<dots> = filter (\<lambda>k. e_from (take m (g_edges g) ! k) = i) [0..<m]"
      by (auto simp: filter_empty_conv intro!: filter_cong)
    finally show ?thesis .
  qed
  then show ?thesis
    using ok m by (simp add: adjacency_ok_def edge_ok_def min_absorb2)
qed

text \<open>What a trial leaves of the reader, whatever its outcome.\<close>

definition reader_frame :: "nat \<Rightarrow> 'v wmm_graph \<Rightarrow> 'v wmm_graph \<Rightarrow> bool" where
  "reader_frame r g g' \<longleftrightarrow>
     same_others r g g' \<and> location (event_at g' r) = location (event_at g r) \<and>
     ev_type (event_at g' r) = ev_type (event_at g r) \<and> same_kind (payload (event_at g r)) (payload (event_at g' r)) \<and>
     (\<forall>x. (lastSeqCstWriteEvents g' x = None) = (lastSeqCstWriteEvents g x = None))"

lemma same_threads:
  assumes "threads_ok g" "threads_ok g'" "length (g_events g') = length (g_events g)" "g_nThreads g' = g_nThreads g"
    "eventsPerThread g' = eventsPerThread g" "i < length (g_events g)"
  shows "threadId (event_at g' i) = threadId (event_at g i)"
proof -
  let ?t = "threadId (event_at g i)"
  have t: "?t < g_nThreads g" using assms(1,6) by (simp add: threads_ok_def)
  then have "i \<in> set (eventsPerThread g ! ?t)" using assms(1,6) by (simp add: threads_ok_def)
  then have "i \<in> {j. j < length (g_events g') \<and> threadId (event_at g' j) = ?t}"
    using assms(2,4,5) t by (simp add: threads_ok_def)
  then show ?thesis by simp
qed

lemma reject_trial:
  assumes b: "building g r" and rd: "IsReadOrRMW (event_at g r)" and t: "trying g5 r w"
    and ev: "evolves r (g\<lparr>inSnapshotMode := True\<rparr>) g5"
    and last: "\<forall>x. x \<noteq> location (event_at g r) \<longrightarrow> lastSeqCstWriteEvents g5 x = lastSeqCstWriteEvents g x"
      "lastSeqCstWriteEvents g (location (event_at g r)) = Some l"
    and r5: "location (event_at g5 r) = location (event_at g r)" "ev_type (event_at g5 r) = ev_type (event_at g r)"
      "same_kind (payload (event_at g r)) (payload (event_at g5 r))"
      "payload (event_at g5 r) = ReadEvent \<longrightarrow> rmw_state (event_at g5 r) = UNSET"
    and upd: "upd \<Longrightarrow> c = clock (event_at g r)"
  shows "\<exists>gd ge. DiscardSnapshot g5 = Ret gd \<and> set_read_from r None gd = Ret ge \<and>
    (let gf = (if upd then update_event r (\<lambda>e. e\<lparr>clock := c\<rparr>) ge else ge);
         g' = set_last_sc_write (location (event_at gf r)) l gf in building g' r \<and> reader_frame r g g')"
proof -
  have o: "others_ok g r" and sn: "snapshotEdges g = {}" "acyclic (mo g)" and pe: "pending (event_at g r)"
    using b by (simp_all add: building_def)
  note d = others_okD [OF o] and d5 = tryingD [OF t]
  let ?m = "length (g_edges g)"
  have e1 [simp]: "event_at (g\<lparr>inSnapshotMode := True\<rparr>) = event_at g" by (simp add: event_at_def fun_eq_iff)
  have len: "length (g_events g5) = length (g_events g)" "g_nThreads g5 = g_nThreads g" "eventsPerThread g5 = eventsPerThread g"
    and pre: "take ?m (g_edges g5) = g_edges g" "?m \<le> length (g_edges g5)" "inSnapshotMode g5"
      "snapshotEdges g5 = {?m..<length (g_edges g5)}"
    and sk: "\<And>i. i < length (g_events g) \<Longrightarrow> i \<noteq> r \<Longrightarrow> skeleton (event_at g5 i) = skeleton (event_at g i)"
    using ev sn by (simp_all add: evolves_def)
  let ?gd = "g5\<lparr>g_edges := take ?m (g_edges g5),
    g_events := map (\<lambda>e. e\<lparr>out_edges := filter (\<lambda>k. k < ?m) (out_edges e)\<rparr>) (g_events g5),
    inSnapshotMode := False, snapshotEdges := {}\<rparr>"
  have disc: "DiscardSnapshot g5 = Ret ?gd"
    by (rule DiscardSnapshot_restores [OF struct_okD(1) [OF d5(1)] pre(3,2,4)])
  have adj: "adjacency_ok ?gd" by (rule truncate_adjacency [OF struct_okD(1) [OF d5(1)] pre(2)])
  have gd: "skeleton (event_at ?gd i) = skeleton (event_at g5 i)" if "i < length (g_events g)" for i
    using that len(1) by (simp add: event_at_def)
  have r: "r < length (g_events ?gd)" using d(5) len by simp
  note fr = skeleton_fields [OF gd [OF d(5)]]
  have "payload (event_at ?gd r) = ReadEvent \<or> is_CASRMWEvent (payload (event_at ?gd r)) \<or> is_UnconditionalRMWEvent (payload (event_at ?gd r))"
    using reader_payload [OF d5(1,7)] d5(5) fr(9) by (simp add: reads_from_def)
  moreover have "payload (event_at ?gd r) = ReadEvent \<Longrightarrow> rmw_state (event_at ?gd r) = UNSET"
    using r5(4) fr by simp
  ultimately obtain e' where e': "SetReadFromEvent (event_at ?gd) None (event_at ?gd r) = Ret e'"
    "same_reader (event_at ?gd r) e'" "pending e'"
    using SetReadFromEvent_None [of "event_at ?gd r" "event_at ?gd"] by blast
  let ?ge = "update_event r (\<lambda>_. e') ?gd"
  let ?e = "if upd then e'\<lparr>clock := c\<rparr> else e'"
  let ?gf = "if upd then update_event r (\<lambda>e. e\<lparr>clock := c\<rparr>) ?ge else ?ge"
  have gf: "?gf = update_event r (\<lambda>_. ?e) ?gd"
    using r by (simp add: update_event_def event_at_def)
  have evf: "event_at ?gf i = (if i = r then ?e else event_at ?gd i)" for i
    unfolding gf using update_event_at [OF r] by simp
  let ?g' = "set_last_sc_write (location (event_at ?gf r)) l ?gf"
  have locr: "location (event_at ?gf r) = location (event_at g r)"
    using evf [of r] e'(2) fr r5(1) by (simp add: same_reader_def)
  have lastg: "lastSeqCstWriteEvents ?g' = lastSeqCstWriteEvents g"
    using last locr by (auto simp: fun_eq_iff gf)
  have adjf: "adjacency_ok ?gf"
    unfolding gf by (rule update_event_adjacency [OF adj r]) (use e'(2) in \<open>simp_all add: same_reader_def\<close>)
  have same: "same_others r g ?g'"
    using gd sk len evf by (simp add: same_others_def gf)
  have cl: "clock (event_at ?g' r) = (if upd then clock (event_at g r) else clock (event_at g5 r))"
    using evf [of r] upd e'(2) fr by (simp add: same_reader_def)
  have lc: "length (clock (event_at g i)) = g_nThreads g" "length (clock (event_at g5 i)) = g_nThreads g" if "i < length (g_events g)" for i
    using that struct_okD(3) [OF d(1)] struct_okD(3) [OF d5(1)] len by (simp_all add: types_ok_def)
  have th: "threadId (event_at g5 i) = threadId (event_at g i)" if "i < length (g_events g)" for i
    by (rule same_threads [OF struct_okD(2) [OF d(1)] struct_okD(2) [OF d5(1)] len that])
  have kind: "same_kind (payload (event_at g r)) (payload ?e)"
    using same_kind_trans [OF r5(3)] e'(2) fr(9) by (simp add: same_reader_def)
  have re: "reborn r g ?g'"
    unfolding reborn_def
  proof (intro conjI same lastg)
    show "eventsPerThread ?g' = eventsPerThread g" "mo ?g' = mo g" "adjacency_ok ?g'"
      using len adjf pre(1) by (simp_all add: gf mo_def)
    show "threadId (event_at ?g' r) = threadId (event_at g r)" "ev_type (event_at ?g' r) = ev_type (event_at g r)"
      using evf [of r] e'(2) fr th [OF d(5)] r5(2) by (simp_all add: same_reader_def)
    show "type_of (payload (event_at ?g' r)) = type_of (payload (event_at g r))"
      using evf [of r] same_kind_type [OF kind] by simp
    show "length (clock (event_at ?g' r)) = g_nThreads g"
      using cl lc [OF d(5)] by simp
  qed
  have ci: "clock (event_at ?g' i) = clock (event_at g i)" "clock (event_at ?g' i) = clock (event_at g5 i)"
    if "i < length (g_events g)" "i \<noteq> r" for i
    using reborn_fields(6) [OF re that] skeleton_fields(6) [OF sk [OF that]] by simp_all
  have cf: "clocks_ok ?g' \<and> fresh ?g' r"
  proof (cases upd)
    case True
    then have "clock (event_at ?g' i) = clock (event_at g i)" if "i < length (g_events g)" for i
      using ci(1) [OF that] cl by (cases "i = r") simp_all
    then show ?thesis
      using same_clocks [OF d(1), of ?g'] reborn_fields(1) [OF re] re d(2,3) by (simp add: reborn_def same_others_def)
  next
    case False
    then have "clock (event_at ?g' i) = clock (event_at g5 i)" if "i < length (g_events g)" for i
      using ci(2) [OF that] cl by (cases "i = r") simp_all
    then show ?thesis
      using same_clocks [OF d5(1), of ?g'] reborn_fields(1) [OF re] th re len d5(2,3) by (simp add: reborn_def same_others_def)
  qed
  have "others_ok ?g' r"
    using reborn_others [OF o pending_not_store [OF d(1,5) pe rd] re] cf by blast
  moreover have "pending (event_at ?g' r)"
    using evf [of r] e'(3) by (simp add: pending_def)
  moreover have "mo ?g' = mo g" using re by (simp add: reborn_def)
  ultimately have "building ?g' r"
    using sn(2) by (simp add: building_def gf)
  moreover have "reader_frame r g ?g'"
    using same locr evf [of r] kind re lastg by (simp add: reader_frame_def reborn_def)
  moreover have "set_read_from r None ?gd = Ret ?ge" using e'(1) by (simp add: set_read_from_def)
  ultimately show ?thesis using disc by (auto simp: Let_def)
qed

end
