(* ===== verification/Wmm_Trial.thy ===== *)
theory Wmm_Trial
imports Wmm_Operations
begin

text \<open>
  The trial of one store for a read or a read-modify-write (\<open>TryCreateRfEdge\<close>, src/runtime/include/wmm/graph.h):
  it always returns, a store that is kept leaves a graph with the invariant, and a store that is refused leaves the
  reader as unresolved as it was.
\<close>

section \<open>A trial\<close>

lemma trying_orders:
  assumes t: "trying g r w"
  shows "\<exists>b. synchronizes w r g = Ret b"
proof -
  note d = tryingD [OF t]
  have rs: "is_CASRMWEvent (payload (event_at g r)) \<Longrightarrow> rmw_state (event_at g r) \<noteq> UNSET"
    using t by (cases "payload (event_at g r)") (auto simp: trying_def resolved_def)
  have ws: "is_CASRMWEvent (payload (event_at g w)) \<Longrightarrow> rmw_state (event_at g w) \<noteq> UNSET"
    using d(1,8,9) by (cases "payload (event_at g w)")
      (auto simp: struct_ok_def types_ok_def is_store_def IsWrite_def IsModifyRMW_def CASRMW_IsModifyRMW_def)
  have "\<exists>b. IsAtLeastAcquire (event_at g r) = Ret b" "\<exists>b. IsSeqCst (event_at g r) = Ret b"
    "\<exists>b. IsAtLeastRelease (event_at g w) = Ret b" "\<exists>b. IsSeqCst (event_at g w) = Ret b"
    using rs ws by (simp_all add: IsAtLeastAcquire_def CASRMW_IsAtLeastAcquire_def IsAtLeastRelease_def
      CASRMW_IsAtLeastRelease_def IsSeqCst_def CASRMW_IsSeqCst_def CASRMW_order_def)
  then show ?thesis by (auto simp: synchronizes_def res_and_def)
qed

lemma trial_sync:
  assumes t: "trying g r w"
  shows "\<exists>g'. (if upd then
      andThen (UniteWith (clock (event_at g r)) (clock (event_at g w))) (\<lambda>c. Ret (update_event r (\<lambda>e. e\<lparr>clock := c\<rparr>) g))
    else Ret g) = Ret g' \<and> trial_step r w g g'"
proof (cases upd)
  case True
  note d = tryingD [OF t]
  let ?c = "map2 max (clock (event_at g r)) (clock (event_at g w))"
  have "trial_step r w g (set_clock r ?c g)"
    using trying_join [OF t d(8)] set_clock_evolves [OF d(7)] d(7) by (simp add: trial_step_def set_clock_event)
  then show ?thesis
    using True UniteWith_Ret [OF d(1,7,8)] by (simp add: set_clock_def)
qed (use t in \<open>simp add: trial_step_def\<close>)

lemma trial_rules:
  assumes t: "trying g r w"
  shows "\<exists>g'. (if IsRead (event_at g r) \<or> IsReadRWM (event_at g r) then read_rules w r g else rmw_rules w r g) = Ret g' \<and>
    trial_step r w g g' \<and> read_covered g' r w \<and> (IsModifyRMW (event_at g' r) \<longrightarrow> store_covered g' r \<and> (w, r) \<in> mo g')"
proof (cases "IsRead (event_at g r) \<or> IsReadRWM (event_at g r)")
  case True
  have "\<not> IsModifyRMW (event_at g r)"
    using True tryingD(1,7) [OF t]
    by (auto simp: IsRead_def IsReadRWM_def IsModifyRMW_def CASRMW_IsReadRWM_def CASRMW_IsModifyRMW_def
        struct_ok_def types_ok_def split: if_splits) (metis EventType.distinct type_of.simps payload.collapse)+
  then show ?thesis
    using read_rules_trial [OF t] True trial_step_event(2) by (metis (no_types, lifting))
next
  case False
  have "IsModifyRMW (event_at g r)"
    using False t tryingD(1,7) [OF t]
    by (cases "payload (event_at g r)")
      (auto simp: trying_def resolved_def reads_from_def IsReadOrRMW_def IsRead_def IsRMW_def IsReadRWM_def IsModifyRMW_def
        CASRMW_IsReadRWM_def CASRMW_IsModifyRMW_def UnconditionalRMW_IsModifyRMW_def struct_ok_def types_ok_def split: if_splits)
  then show ?thesis using rmw_rules_trial [OF t] False by auto
qed

lemma trial_outcome:
  assumes t: "trying g5 r w" and ev: "evolves r (g\<lparr>inSnapshotMode := True\<rparr>) g5"
    and cov: "read_covered g5 r w" "IsModifyRMW (event_at g5 r) \<longrightarrow> store_covered g5 r \<and> (w, r) \<in> mo g5"
    and ok: "IsConsistent g5 = Ret True"
    and r5: "location (event_at g5 r) = location (event_at g r)" "ev_type (event_at g5 r) = ev_type (event_at g r)"
      "same_kind (payload (event_at g r)) (payload (event_at g5 r))"
    and last: "\<And>x. (lastSeqCstWriteEvents g5 x = None) = (lastSeqCstWriteEvents g x = None)"
  shows "ApplySnapshot g5 = Ret (end_snapshot g5)" "wmm_inv (end_snapshot g5)" "reads_from (end_snapshot g5) r w"
    "reader_frame r g (end_snapshot g5)"
proof -
  show "ApplySnapshot g5 = Ret (end_snapshot g5)"
    using ev by (simp add: evolves_def ApplySnapshot_def end_snapshot_def)
  have "acyclic (mo g5)" using IsConsistent_returns(2) [OF struct_okD(1) [OF tryingD(1) [OF t]] ok] .
  then show "wmm_inv (end_snapshot g5)" using keep_trial [OF t cov(1)] cov(2) by simp
  show "reads_from (end_snapshot g5) r w" using tryingD(5) [OF t] by simp
  have "same_others r g g5" using evolves_same_others [OF ev] by (simp add: same_others_def event_at_def)
  then show "reader_frame r g (end_snapshot g5)"
    using r5 last by (simp add: reader_frame_def same_others_def)
qed

lemma TryCreateRfEdge_spec:
  assumes b: "building g r" and rd: "IsReadOrRMW (event_at g r)"
    and w: "w < length (g_events g)" "w \<noteq> r" "is_store (event_at g w)" "same_loc g w r"
    and l: "lastSeqCstWriteEvents g (location (event_at g r)) = Some l"
  shows "\<exists>ok g'. TryCreateRfEdge w r g = Ret (ok, g') \<and> reader_frame r g g' \<and>
    (if ok then wmm_inv g' \<and> reads_from g' r w else building g' r)"
proof -
  have d: "struct_ok g" using b others_okD by (auto simp: building_def)
  obtain g1 g2 g3 e' where g: "StartSnapshot g = Ret g1" "AddEdge RF (ev_id (event_at g1 w)) (ev_id (event_at g1 r)) g1 = Ret g2"
    "set_read_from r (Some w) g2 = Ret g3"
    and t3: "trying g3 r w" and ev3: "evolves r (g\<lparr>inSnapshotMode := True\<rparr>) g3"
    and g3: "g3 = update_event r (\<lambda>_. e') g2" "lastSeqCstWriteEvents g2 = lastSeqCstWriteEvents g"
    and e': "location e' = location (event_at g r)" "ev_type e' = ev_type (event_at g r)" "clock e' = clock (event_at g r)"
      "same_kind (payload (event_at g r)) (payload e')" "payload e' = ReadEvent \<longrightarrow> rmw_state e' = UNSET"
    using start_trial [OF b rd w] by blast
  have r3: "event_at g3 r = e'" and last3: "lastSeqCstWriteEvents g3 = lastSeqCstWriteEvents g"
    using tryingD(7) [OF t3] g3 by (simp_all add: update_event_at)
  have l3: "last_sc_write (location (event_at g3 r)) g3 = (l, g3)"
    using l last3 e'(1) by (simp add: last_sc_write_def r3)
  obtain upd where upd: "synchronizes w r g3 = Ret upd" using trying_orders [OF t3] by blast
  obtain g4 where g4: "(if upd then
      andThen (UniteWith (clock (event_at g3 r)) (clock (event_at g3 w))) (\<lambda>c. Ret (update_event r (\<lambda>e. e\<lparr>clock := c\<rparr>) g3))
    else Ret g3) = Ret g4" "trial_step r w g3 g4" using trial_sync [OF t3] by blast
  have t4: "trying g4 r w" using g4(2) by (simp add: trial_step_def)
  obtain g5 where g5: "(if IsRead (event_at g4 r) \<or> IsReadRWM (event_at g4 r) then read_rules w r g4 else rmw_rules w r g4) = Ret g5"
    "trial_step r w g4 g5" and cov: "read_covered g5 r w" "IsModifyRMW (event_at g5 r) \<longrightarrow> store_covered g5 r \<and> (w, r) \<in> mo g5"
    using trial_rules [OF t4] by blast
  have s35: "trial_step r w g3 g5" by (rule trial_step_trans [OF g4(2) g5(2)])
  have t5: "trying g5 r w" and ev5: "evolves r (g\<lparr>inSnapshotMode := True\<rparr>) g5"
    using s35 evolves_trans [OF ev3] by (simp_all add: trial_step_def)
  have r5: "location (event_at g5 r) = location (event_at g r)" "ev_type (event_at g5 r) = ev_type (event_at g r)"
      "same_kind (payload (event_at g r)) (payload (event_at g5 r))"
      "payload (event_at g5 r) = ReadEvent \<longrightarrow> rmw_state (event_at g5 r) = UNSET"
    and last5: "\<forall>x. x \<noteq> location (event_at g r) \<longrightarrow> lastSeqCstWriteEvents g5 x = lastSeqCstWriteEvents g x"
    using s35 e' last3 by (simp_all add: trial_step_def r3)
  have some5: "lastSeqCstWriteEvents g5 (location (event_at g r)) \<noteq> None"
  proof -
    have "dom (lastSeqCstWriteEvents g3) \<subseteq> dom (lastSeqCstWriteEvents g5)" using s35 by (simp add: trial_step_def)
    moreover have "location (event_at g r) \<in> dom (lastSeqCstWriteEvents g3)" unfolding last3 by (rule domI [of "lastSeqCstWriteEvents g", OF l])
    ultimately show ?thesis unfolding domIff [symmetric] by (rule subsetD)
  qed
  obtain ok where ok: "IsConsistent g5 = Ret ok"
    using IsConsistent_returns(1) [OF struct_okD(1) [OF tryingD(1) [OF t5]]] by blast
  have wrm: "IsWriteOrRMW (event_at g w)" by (rule store_is_WriteOrRMW [OF d w(1,3)])
  have eq: "TryCreateRfEdge w r g =
     (if ok then andThen (ApplySnapshot g5) (\<lambda>g. Ret (True, g))
     else
       andThen (DiscardSnapshot g5) (\<lambda>g.
       andThen (set_read_from r None g) (\<lambda>g.
       let g = (if upd then update_event r (\<lambda>e. e\<lparr>clock := clock (event_at g3 r)\<rparr>) g else g) in
       Ret (False, set_last_sc_write (location (event_at g r)) l g))))"
    unfolding TryCreateRfEdge_def
    by (simp only: wrm rd w(4) g l3 upd g4(1) g5(1) ok simp_thms cpp_assert_def if_True andThen.simps prod.case Let_def)
  show ?thesis
  proof (cases ok)
    case True
    have "(lastSeqCstWriteEvents g5 x = None) = (lastSeqCstWriteEvents g x = None)" for x
      using last5 some5 l by (cases "x = location (event_at g r)") auto
    from trial_outcome [OF t5 ev5 cov ok [unfolded True [THEN eqTrueI]] r5(1,2,3) this]
    have "TryCreateRfEdge w r g = Ret (True, end_snapshot g5) \<and> reader_frame r g (end_snapshot g5) \<and>
      (if True then wmm_inv (end_snapshot g5) \<and> reads_from (end_snapshot g5) r w else building (end_snapshot g5) r)"
      unfolding eq using True by simp
    then show ?thesis by (intro exI)
  next
    case False
    let ?last = "\<lambda>ge. let gf = if upd then update_event r (\<lambda>e. e\<lparr>clock := clock (event_at g3 r)\<rparr>) ge else ge in
      set_last_sc_write (location (event_at gf r)) l gf"
    have "clock (event_at g3 r) = clock (event_at g r)" using e'(3) r3 by simp
    from reject_trial [OF b rd t5 ev5 last5 l r5 this] obtain gd ge where ge: "DiscardSnapshot g5 = Ret gd"
      "set_read_from r None gd = Ret ge" "building (?last ge) r" "reader_frame r g (?last ge)" unfolding Let_def by blast
    have "TryCreateRfEdge w r g = Ret (False, ?last ge)"
      unfolding eq using False by (simp only: ge(1,2) if_False andThen.simps Let_def)
    moreover have "if False then wmm_inv (?last ge) \<and> reads_from (?last ge) r w else building (?last ge) r"
      using ge(3) by (simp only: if_False)
    ultimately show ?thesis using ge(4) by (intro exI conjI)
  qed
qed

end
