(* ===== verification/Wmm_Execution.thy ===== *)
theory Wmm_Execution
imports Wmm_Trial "HOL-Library.Multiset"
begin

text \<open>
  The operations of the graph keep its invariant: a new event is appended to its thread
  (\<open>CreatePoEdgeToEvent\<close>), a store is ordered after what it must follow, a read or read-modify-write tries
  candidate stores until one is consistent, and a reset starts from the dummy events.
\<close>

section \<open>A new event\<close>

definition newest :: "'v wmm_graph \<Rightarrow> nat \<Rightarrow> nat" where
  "newest g t = last (eventsPerThread g ! t)"

definition next_clock :: "'v wmm_graph \<Rightarrow> nat \<Rightarrow> VectorClock" where
  "next_clock g t = (clock (event_at g (newest g t)))[t := clock (event_at g (newest g t)) ! t + 1]"

definition extended :: "'v wmm_event \<Rightarrow> 'v wmm_graph \<Rightarrow> 'v wmm_graph" where
  "extended e g =
     (let t = threadId e; n = length (g_events g); g1 = append_edge PO (newest g t) n g in
      g1\<lparr>eventsPerThread := (eventsPerThread g)[t := eventsPerThread g ! t @ [n]],
         g_events := g_events g1 @ [e\<lparr>clock := next_clock g t\<rparr>]\<rparr>)"

definition new_event :: "'v wmm_graph \<Rightarrow> 'v wmm_event \<Rightarrow> bool" where
  "new_event g e \<longleftrightarrow> ev_id e = length (g_events g) \<and> threadId e < g_nThreads g \<and> out_edges e = [] \<and>
     ev_type e = type_of (payload e) \<and> pending e"

lemma newest_in:
  assumes "struct_ok g" "t < g_nThreads g"
  shows "newest g t < length (g_events g)" "threadId (event_at g (newest g t)) = t" "eventsPerThread g ! t \<noteq> []"
    "length (clock (event_at g (newest g t))) = g_nThreads g"
  using last_in_thread [OF assms] assms by (auto simp: newest_def struct_ok_def threads_ok_def types_ok_def)

lemma extended_fields [simp]:
  "length (g_events (extended e g)) = Suc (length (g_events g))"
  "g_nThreads (extended e g) = g_nThreads g" "lastSeqCstWriteEvents (extended e g) = lastSeqCstWriteEvents g"
  "inSnapshotMode (extended e g) = inSnapshotMode g" "mo (extended e g) = mo g"
  "\<not> inSnapshotMode g \<Longrightarrow> snapshotEdges (extended e g) = snapshotEdges g"
  "eventsPerThread (extended e g) = (eventsPerThread g)[threadId e := eventsPerThread g ! threadId e @ [length (g_events g)]]"
  by (auto simp: extended_def append_edge_def Let_def mo_def)

lemma extended_new [simp]:
  "event_at (extended e g) (length (g_events g)) = e\<lparr>clock := next_clock g (threadId e)\<rparr>"
  by (simp add: extended_def append_edge_def Let_def event_at_def nth_append)

lemma extended_old:
  assumes "struct_ok g" "new_event g e" "i < length (g_events g)"
  shows "skeleton (event_at (extended e g) i) = skeleton (event_at g i)"
proof -
  have l: "newest g (threadId e) < length (g_events g)" using newest_in(1) [OF assms(1)] assms(2) by (simp add: new_event_def)
  have "event_at (extended e g) i = event_at (append_edge PO (newest g (threadId e)) (length (g_events g)) g) i"
    using assms(3) by (simp add: extended_def append_edge_def Let_def event_at_def nth_append)
  then show ?thesis using grows_event [OF append_edge_grows [OF l] assms(3)] by simp
qed

lemma CreatePoEdgeToEvent_Ret:
  assumes s: "struct_ok g" and e: "new_event g e"
  shows "CreatePoEdgeToEvent e g = Ret (extended e g)"
proof -
  let ?t = "threadId e"
  have t: "?t < g_nThreads g" "ev_id e = length (g_events g)" using e by (simp_all add: new_event_def)
  note l = newest_in [OF s t(1)]
  have v: "vector_at (eventsPerThread g) ?t = Ret (eventsPerThread g ! ?t)" using s t by (simp add: struct_ok_def threads_ok_def)
  have w: "vector_at (g_events g) (last (eventsPerThread g ! ?t)) = Ret (event_at g (newest g ?t))"
    using l(1) by (simp add: newest_def event_at_def)
  show ?thesis
    using l t event_id [OF s l(1)]
    by (simp add: CreatePoEdgeToEvent_def v w AddEdge_def Increment_def extended_def append_edge_def Let_def next_clock_def event_at_def)
qed

lemma extended_adjacency:
  assumes "struct_ok g" "new_event g e"
  shows "adjacency_ok (extended e g)"
proof -
  let ?n = "length (g_events g)" and ?m = "length (g_edges g)" and ?g = "extended e g" and ?l = "newest g (threadId e)"
  have ok: "adjacency_ok g" using assms(1) by (simp add: struct_ok_def)
  have l: "?l < ?n" and e: "ev_id e = ?n" "out_edges e = []" using newest_in(1) [OF assms(1)] assms(2) by (simp_all add: new_event_def)
  have ed: "g_edges ?g = g_edges g @ [\<lparr>e_id = ?m, e_type = PO, e_from = ?l, e_to = ?n\<rparr>]"
    by (simp add: extended_def append_edge_def Let_def)
  have ev: "g_events ?g = (g_events g)[?l := (g_events g ! ?l)\<lparr>out_edges := out_edges (g_events g ! ?l) @ [?m]\<rparr>] @
      [e\<lparr>clock := next_clock g (threadId e)\<rparr>]" by (simp add: extended_def append_edge_def Let_def)
  have "edge_ok (Suc ?n) k (g_edges ?g ! k)" if "k < Suc ?m" for k
    using ok l that by (cases "k = ?m") (auto simp: ed adjacency_ok_def edge_ok_def nth_append less_Suc_eq)
  moreover have "ev_id (g_events ?g ! i) = i" if "i < Suc ?n" for i
    using that ok e l by (cases "i = ?n") (auto simp: ev adjacency_ok_def nth_append nth_list_update less_Suc_eq)
  moreover have "out_edges (g_events ?g ! i) = filter (\<lambda>k. e_from (g_edges ?g ! k) = i) [0..<Suc ?m]" if "i < Suc ?n" for i
  proof -
    have old: "filter (\<lambda>k. e_from (g_edges ?g ! k) = i) [0..<?m] = filter (\<lambda>k. e_from (g_edges g ! k) = i) [0..<?m]"
      by (rule filter_cong) (simp_all add: ed nth_append)
    show ?thesis
    proof (cases "i = ?n")
      case True
      have "e_from (g_edges g ! k) \<noteq> ?n" if "k < ?m" for k using adjacency_edge [OF ok that] by simp
      then show ?thesis using True e(2) l old by (simp add: ev nth_append ed)
    next
      case False
      then show ?thesis using that ok l old by (auto simp: ev nth_append nth_list_update ed adjacency_ok_def)
    qed
  qed
  ultimately show ?thesis by (simp add: adjacency_ok_def ed)
qed

lemma extended_same:
  assumes "struct_ok g" "new_event g e" "i < length (g_events g)"
  shows "same_event g (extended e g) i"
  using extended_old [OF assms] by (simp add: same_event_def)

lemma extended_struct:
  assumes s: "struct_ok g" and e: "new_event g e"
  shows "struct_ok (extended e g)"
proof -
  let ?n = "length (g_events g)" and ?g = "extended e g" and ?t = "threadId e"
  note f = skeleton_fields [OF extended_old [OF s e]]
  have st: "is_store (event_at ?g i) = is_store (event_at g i)" if "i < ?n" for i
    using same_event_fields(7) [OF extended_same [OF s e that]] .
  have t: "?t < g_nThreads g" and p: "ev_type e = type_of (payload e)" using e by (simp_all add: new_event_def)
  have "threads_ok ?g"
  proof -
    have th: "length (eventsPerThread g) = g_nThreads g"
      "\<And>u. u < g_nThreads g \<Longrightarrow> eventsPerThread g ! u \<noteq> [] \<and> sorted_wrt (<) (eventsPerThread g ! u) \<and>
        set (eventsPerThread g ! u) = {i. i < ?n \<and> threadId (event_at g i) = u}"
      "\<And>i. i < ?n \<Longrightarrow> threadId (event_at g i) < g_nThreads g"
      using s by (simp_all add: struct_ok_def threads_ok_def)
    have "{i. i < Suc ?n \<and> threadId (event_at ?g i) = u} =
        {i. i < ?n \<and> threadId (event_at g i) = u} \<union> (if u = ?t then {?n} else {})" for u
      using f(4) by (auto simp: less_Suc_eq)
    moreover have "threadId (event_at ?g i) < g_nThreads g" if "i < Suc ?n" for i
      using that th(3) f(4) t by (cases "i = ?n") (auto simp: less_Suc_eq)
    ultimately show ?thesis
      using th t by (auto simp: threads_ok_def nth_list_update sorted_wrt_append)
  qed
  moreover have "types_ok ?g"
    using s f p newest_in(4) [OF s t] by (auto simp: struct_ok_def types_ok_def less_Suc_eq next_clock_def)
  moreover have "last_ok ?g"
    using s f st by (auto simp: struct_ok_def last_ok_def less_Suc_eq)
  ultimately show ?thesis using extended_adjacency [OF s e] by (simp add: struct_ok_def)
qed

lemma extended_clocks:
  assumes s: "struct_ok g" and ok: "clocks_ok g" and e: "new_event g e"
  shows "clocks_ok (extended e g)" "fresh (extended e g) (length (g_events g))"
proof -
  let ?n = "length (g_events g)" and ?g = "extended e g" and ?t = "threadId e" and ?l = "newest g (threadId e)"
  note f = skeleton_fields [OF extended_old [OF s e]]
  have t: "?t < g_nThreads g" using e by (simp add: new_event_def)
  note l = newest_in [OF s t]
  have th: "length (eventsPerThread g) = g_nThreads g" using s by (simp add: struct_ok_def threads_ok_def)
  have nc: "next_clock g ?t ! u = (if u = ?t then clock (event_at g ?l) ! u + 1 else clock (event_at g ?l) ! u)"
    if "u < g_nThreads g" for u using that l(4) by (simp add: next_clock_def nth_list_update)
  have bound: "clock (event_at g i) ! u \<le> clock (event_at g (newest g u)) ! u" if "i < ?n" "u < g_nThreads g" for i u
    using ok that by (simp add: clocks_ok_def newest_def)
  show fr: "fresh ?g ?n"
    using bound t nc [OF t] f(6) by (fastforce simp: fresh_def less_Suc_eq)
  have below: "hb g i ?l \<or> i = ?l" if "i < ?n" "threadId (event_at g i) = ?t" for i
  proof -
    have "i \<in> set (eventsPerThread g ! ?t)" "sorted_wrt (<) (eventsPerThread g ! ?t)"
      using s that t by (auto simp: struct_ok_def threads_ok_def)
    then have "i \<le> ?l" using l(3) unfolding newest_def
      by (metis strict_sorted_iff sorted_wrt_less_idx last_conv_nth in_set_conv_nth sorted_nth_mono length_greater_0_conv
          Suc_pred less_Suc_eq_le lessI diff_Suc_1)
    then show ?thesis using ok l(1,2) that by (cases "i = ?l") (auto simp: clocks_ok_def)
  qed
  have "hb ?g i j" if ij: "i < j" "j < Suc ?n" "threadId (event_at ?g i) = threadId (event_at ?g j)" for i j
  proof (cases "j = ?n")
    case True
    then have "hb g i ?l \<or> i = ?l" using below [of i] ij f(4) by simp
    then show ?thesis using True ij nc f(6) by (fastforce simp: hb_def)
  next
    case False
    then show ?thesis using ij ok f(4,6) by (simp add: clocks_ok_def hb_def)
  qed
  moreover have "clock (event_at ?g i) ! u \<le> clock (event_at ?g (last (eventsPerThread ?g ! u))) ! u"
    if i: "i < Suc ?n" and u: "u < g_nThreads g" for i u
  proof (cases "u = ?t")
    case True
    have "last (eventsPerThread ?g ! u) = ?n" using True t th by simp
    then show ?thesis using fr i True by (cases "i = ?n") (auto simp: fresh_def less_Suc_eq)
  next
    case False
    have "last (eventsPerThread ?g ! u) = newest g u" "newest g u < ?n" using False newest_in [OF s u] by (simp_all add: newest_def)
    then show ?thesis using bound [OF _ u] i False nc [OF u] l(1) f(6) by (cases "i = ?n") simp_all
  qed
  ultimately show "clocks_ok ?g" by (simp add: clocks_ok_def)
qed

lemma extended_building:
  assumes inv: "wmm_inv g" and e: "new_event g e"
  shows "building (extended e g) (length (g_events g))"
proof -
  let ?n = "length (g_events g)" and ?g = "extended e g"
  have s: "struct_ok g" "clocks_ok g" "typed_mo g" "acyclic (mo g)" "coherent g {..<?n}" "\<not> inSnapshotMode g" "snapshotEdges g = {}"
    and st: "\<And>i. i < ?n \<Longrightarrow> settled g i" using inv by (simp_all add: wmm_inv_def)
  have same: "same_event g ?g i" if "i < ?n" for i by (rule extended_same [OF s(1) e that])
  have rf: "reads_from g i w" if i: "i < ?n" and "reads_from ?g i w" for i w
  proof -
    have r: "IsReadOrRMW (event_at g i)" "readFrom (event_at g i) = Some w"
      using that same_event_fields(4,8) [OF same [OF i]] by (simp_all add: reads_from_def)
    then show ?thesis using st [OF i] by (auto simp: settled_def complete_def reads_from_def)
  qed
  have "settled ?g i" if "i < ?n" for i
    by (rule settled_transfer [OF st [OF that] same [OF that] _ that _ s(1)]) (auto simp: reads_from_def same)
  moreover have "IsReadOrRMW (event_at ?g i) \<longrightarrow> readFrom (event_at ?g i) \<noteq> Some ?n" if "i < ?n" for i
    using st [OF that] same_event_fields(4,8) [OF same [OF that]] by (auto simp: settled_def complete_def reads_from_def)
  moreover have "coherent ?g {..<?n}"
    by (rule coherent_transfer [OF s(5)]) (auto simp: same rf)
  moreover have "typed_mo ?g"
  proof -
    have "i < ?n \<and> j < ?n" if "(i, j) \<in> mo g" for i j
      using that struct_okD(1) [OF s(1)] by (auto simp: mo_def adjacency_ok_def edge_ok_def in_set_conv_nth)
    then show ?thesis using s(3) same_event_fields(1,7) [OF same] by (fastforce simp: typed_mo_def)
  qed
  moreover have "{..<Suc ?n} - {?n} = {..<?n}" by auto
  ultimately have "others_ok ?g ?n"
    using extended_struct [OF s(1) e] extended_clocks [OF s(1,2) e] by (auto simp: others_ok_def less_Suc_eq)
  moreover have "pending (e\<lparr>clock := next_clock g (threadId e)\<rparr>)" using e by (simp add: new_event_def pending_def)
  ultimately show ?thesis using s(4,6,7) by (simp add: building_def)
qed

section \<open>Stores\<close>

text \<open>What placing the store \<open>r\<close> may change: its clock, and edges of the modification order into it.\<close>

definition placed :: "nat \<Rightarrow> 'v wmm_graph \<Rightarrow> 'v wmm_graph \<Rightarrow> bool" where
  "placed r g g' \<longleftrightarrow> evolves r g g' \<and> mo g \<subseteq> mo g' \<and> mo g' \<subseteq> mo g \<union> ({..<length (g_events g)} - {r}) \<times> {r} \<and>
     (event_at g' r)\<lparr>out_edges := [], clock := []\<rparr> = (event_at g r)\<lparr>out_edges := [], clock := []\<rparr>"

lemma placed_refl [simp, intro]: "placed r g g"
  by (simp add: placed_def)

lemma placed_trans: "placed r a b \<Longrightarrow> placed r b c \<Longrightarrow> placed r a c"
  using evolves_trans [of r a b c] by (auto simp: placed_def evolves_def)

lemma placed_grows:
  assumes "grows g g'" "r < length (g_events g)" "mo g \<subseteq> mo g'" "mo g' \<subseteq> mo g \<union> ({..<length (g_events g)} - {r}) \<times> {r}"
  shows "placed r g g'"
proof -
  have "skeleton (event_at g' r) = skeleton (event_at g r)" by (rule grows_event [OF assms(1,2)])
  then have "(skeleton (event_at g' r))\<lparr>clock := []\<rparr> = (skeleton (event_at g r))\<lparr>clock := []\<rparr>" by simp
  then show ?thesis using assms grows_evolves [OF assms(1)] by (simp add: placed_def skeleton_def)
qed

lemma placed_event:
  assumes "placed r g g'"
  shows "location (event_at g' r) = location (event_at g r)" "payload (event_at g' r) = payload (event_at g r)"
    "ev_type (event_at g' r) = ev_type (event_at g r)" "ev_order (event_at g' r) = ev_order (event_at g r)"
    "rmw_state (event_at g' r) = rmw_state (event_at g r)" "readFrom (event_at g' r) = readFrom (event_at g r)"
    "threadId (event_at g' r) = threadId (event_at g r)"
proof -
  let ?f = "\<lambda>e :: 'a wmm_event. e\<lparr>out_edges := [], clock := []\<rparr>"
  have e: "?f (event_at g' r) = ?f (event_at g r)" using assms by (simp add: placed_def)
  show "location (event_at g' r) = location (event_at g r)" using arg_cong [OF e, of location] by simp
  show "payload (event_at g' r) = payload (event_at g r)" using arg_cong [OF e, of payload] by simp
  show "ev_type (event_at g' r) = ev_type (event_at g r)" using arg_cong [OF e, of ev_type] by simp
  show "ev_order (event_at g' r) = ev_order (event_at g r)" using arg_cong [OF e, of ev_order] by simp
  show "rmw_state (event_at g' r) = rmw_state (event_at g r)" using arg_cong [OF e, of rmw_state] by simp
  show "readFrom (event_at g' r) = readFrom (event_at g r)" using arg_cong [OF e, of readFrom] by simp
  show "threadId (event_at g' r) = threadId (event_at g r)" using arg_cong [OF e, of threadId] by simp
qed

lemma placed_is:
  assumes "placed r g g'"
  shows "is_store (event_at g' r) = is_store (event_at g r)" "IsSeqCst (event_at g' r) = IsSeqCst (event_at g r)"
  using placed_event [OF assms]
  by (simp_all add: is_store_def IsWrite_def IsModifyRMW_def CASRMW_IsModifyRMW_def UnconditionalRMW_IsModifyRMW_def
    IsSeqCst_def CASRMW_IsSeqCst_def CASRMW_order_def Event_IsSeqCst_def)

lemma place_ScEdge:
  assumes o: "others_ok g r" and sc: "IsSeqCst (event_at g r) = Ret True"
  shows "\<exists>g'. CreateScEdgeToEvent r g = Ret g' \<and> others_ok g' r \<and> placed r g g' \<and>
    lastSeqCstWriteEvents g' = lastSeqCstWriteEvents g"
proof -
  obtain g' where g': "CreateScEdgeToEvent r g = Ret g'" "g' = g \<or> (\<exists>g1 l. grows g g1 \<and> others_ok g1 r \<and> mo g1 = mo g \<and>
    l < length (g_events g1) \<and> g' = set_clock r (map2 max (clock (event_at g1 r)) (clock (event_at g1 l))) g1)"
    using others_ScEdge [OF o sc] by blast
  from g'(2) show ?thesis
  proof (elim disjE exE conjE)
    fix g1 l assume a: "grows g g1" "others_ok g1 r" "mo g1 = mo g" "l < length (g_events g1)"
      and eq: "g' = set_clock r (map2 max (clock (event_at g1 r)) (clock (event_at g1 l))) g1"
    have "placed r g g1" by (rule placed_grows [OF a(1) others_okD(5) [OF o]]) (simp_all add: a(3))
    moreover have "placed r g1 g'"
      using others_okD(5) [OF a(2)] by (simp add: eq placed_def set_clock_evolves set_clock_event)
    ultimately have "placed r g g'" by (rule placed_trans)
    moreover have "lastSeqCstWriteEvents g' = lastSeqCstWriteEvents g" using grows_graph(2) [OF a(1)] by (simp add: eq)
    moreover have "others_ok g' r" unfolding eq by (rule others_join [OF a(2,4)])
    ultimately show ?thesis using g'(1) by blast
  qed (use g'(1) o in simp)
qed

lemma place_seq_cst:
  assumes o: "others_ok g r" and st: "is_store (event_at g r)" and sc: "IsSeqCst (event_at g r) = Ret True"
    and l: "lastSeqCstWriteEvents g (location (event_at g r)) \<noteq> Some r"
  shows "\<exists>g'. andThen (CreateScEdgeToEvent r g) (\<lambda>g.
                andThen (CreateSeqCstConsistencyEdges r g) (\<lambda>g.
                Ret (set_last_sc_write (location (event_at g r)) (ev_id (event_at g r)) g))) = Ret g' \<and>
    others_ok g' r \<and> placed r g g' \<and>
    lastSeqCstWriteEvents g' = (lastSeqCstWriteEvents g)(location (event_at g r) \<mapsto> r)"
proof -
  note r = others_okD(5) [OF o]
  obtain g1 where g1: "CreateScEdgeToEvent r g = Ret g1" "others_ok g1 r" "placed r g g1"
    "lastSeqCstWriteEvents g1 = lastSeqCstWriteEvents g" using place_ScEdge [OF o sc] by blast
  note d1 = others_okD [OF g1(2)]
  have e1: "is_store (event_at g1 r)" "IsSeqCst (event_at g1 r) = Ret True" using placed_is [OF g1(3)] st sc by simp_all
  let ?X = "{(l, r) |l. lastSeqCstWriteEvents g1 (location (event_at g1 r)) = Some l}"
  have X: "mo_pairs g1 r ?X" using d1 struct_okD(4) [OF d1(1)] e1 by (auto simp: mo_pairs_def last_ok_def)
  have X': "?X \<subseteq> ({..<length (g_events g1)} - {r}) \<times> {r}"
    using l g1(4) placed_event(1) [OF g1(3)] struct_okD(4) [OF d1(1)] by (auto simp: last_ok_def)
  obtain g2 where g2: "CreateSeqCstConsistencyEdges r g1 = Ret g2" "grows g1 g2" "others_ok g2 r" "mo g2 = mo g1 \<union> ?X"
    using others_adds [OF g1(2) SeqCstConsistency_adds [OF d1(1,5) e1] X] by blast
  have "placed r g1 g2" by (rule placed_grows [OF g2(2) d1(5)]) (use g2(4) X' in auto)
  then have p2: "placed r g g2" by (rule placed_trans [OF g1(3)])
  let ?g3 = "set_last_sc_write (location (event_at g2 r)) (ev_id (event_at g2 r)) g2"
  note d2 = others_okD [OF g2(3)]
  have id: "ev_id (event_at g2 r) = r" by (rule event_id [OF d2(1,5)])
  have "last_ok ?g3" using struct_okD(4) [OF d2(1)] d2(5) placed_is(1) [OF p2] st by (simp add: last_ok_def id)
  then have "others_ok ?g3 r" by (rule others_set_last [OF g2(3)])
  moreover have "placed r g2 ?g3" by (simp add: placed_def evolves_def)
  moreover have "lastSeqCstWriteEvents ?g3 = (lastSeqCstWriteEvents g)(location (event_at g r) \<mapsto> r)"
    using grows_graph(2) [OF g2(2)] g1(4) placed_event(1) [OF p2] by (simp add: id)
  ultimately show ?thesis using g1(1) g2(1) placed_trans [OF p2] by simp
qed

lemma finish_store:
  assumes o: "others_ok g r" and w: "IsWrite (event_at g r)" and c: "store_covered g r" and ac: "acyclic (mo g)"
    and m: "\<not> inSnapshotMode g" "snapshotEdges g = {}"
  shows "wmm_inv g"
proof -
  note d = others_okD [OF o]
  have p: "payload (event_at g r) = WriteEvent v \<or> \<not> IsReadOrRMW (event_at g r)" "\<not> IsReadOrRMW (event_at g r)" "resolved g r" for v
    using w d(1,5) by (cases "payload (event_at g r)"; simp add: struct_ok_def types_ok_def IsWrite_def IsReadOrRMW_def IsRead_def
      IsRMW_def resolved_def; metis EventType.distinct type_of.simps)+
  have "coherent g {..<length (g_events g)}"
  proof (rule coherent_extend [OF d(1-3) refl])
    show "coherent g ({..<length (g_events g)} - {r})" using o by (simp add: others_ok_def)
    show "covers g (ww_scanned g r) (\<lambda>i. i) r \<and> covers g (rw_scanned g r) (source_of g) r"
      using c by (simp add: store_covered_def)
  qed (use d(6) p(2) in \<open>auto simp: reads_from_def\<close>)
  moreover have "settled g i" if "i < length (g_events g)" for i
    using o p(2,3) that by (cases "i = r") (auto simp: others_ok_def settled_def complete_def)
  ultimately show ?thesis using d ac m by (simp add: wmm_inv_def)
qed

lemma acyclic_into:
  assumes "acyclic R" "R \<subseteq> A \<times> A" "S \<subseteq> R \<union> A \<times> {r}" "r \<notin> A"
  shows "acyclic S"
proof -
  have "(x, y) \<in> S\<^sup>+ \<Longrightarrow> x \<in> A \<and> (y = r \<or> (x, y) \<in> R\<^sup>+)" for x y
  proof (induction rule: trancl_induct)
    case (base y)
    then show ?case using assms(2,3) by auto
  next
    case (step y z)
    then have "y \<noteq> r" using assms by blast
    then show ?case using step assms(2,3) by (auto intro: trancl_into_trancl)
  qed
  then show ?thesis using assms(1,4) unfolding acyclic_def by blast
qed

lemma mo_events: "struct_ok g \<Longrightarrow> mo g \<subseteq> {..<length (g_events g)} \<times> {..<length (g_events g)}"
  by (auto simp: struct_ok_def mo_def adjacency_ok_def edge_ok_def in_set_conv_nth)

lemma AddWriteEvent_spec:
  assumes inv: "wmm_inv g" and t: "t < g_nThreads g"
  defines "n \<equiv> length (g_events g)"
  shows "\<exists>g'. AddWriteEvent loc t ord v g = Ret g' \<and> wmm_inv g' \<and> length (g_events g') = Suc n \<and> g_nThreads g' = g_nThreads g \<and>
    (\<forall>i<n. skeleton (event_at g' i) = skeleton (event_at g i)) \<and>
    location (event_at g' n) = loc \<and> threadId (event_at g' n) = t \<and> payload (event_at g' n) = WriteEvent v \<and>
    lastSeqCstWriteEvents g' = (if ord = SeqCst then (lastSeqCstWriteEvents g)(loc \<mapsto> n) else lastSeqCstWriteEvents g)"
proof -
  let ?e = "new_WriteEvent n (g_nThreads g) loc t ord v"
  let ?g1 = "extended ?e g"
  have s: "struct_ok g" "acyclic (mo g)" using inv by (simp_all add: wmm_inv_def)
  have e: "new_event g ?e" using t by (simp add: new_event_def new_WriteEvent_def Event_def pending_def n_def)
  have f: "ev_type ?e = WRITE" "location ?e = loc" "threadId ?e = t" "payload ?e = WriteEvent v" "ev_order ?e = ord"
    by (simp_all add: new_WriteEvent_def Event_def)
  have b: "building ?g1 n" using extended_building [OF inv e] by (simp add: n_def)
  then have o1: "others_ok ?g1 n" and m1: "\<not> inSnapshotMode ?g1" "snapshotEdges ?g1 = {}" by (simp_all add: building_def)
  have n1: "event_at ?g1 n = ?e\<lparr>clock := next_clock g t\<rparr>"
    using extended_new [of ?e g] unfolding n_def [symmetric] f .
  have st1: "is_store (event_at ?g1 n)" "IsSeqCst (event_at ?g1 n) = Ret (ord = SeqCst)" "location (event_at ?g1 n) = loc"
    by (simp_all add: n1 f is_store_def IsWrite_def IsSeqCst_def Event_IsSeqCst_def)
  have l1: "lastSeqCstWriteEvents ?g1 loc \<noteq> Some n"
    using s(1) by (auto simp: struct_ok_def last_ok_def n_def)
  define last' where "last' = (if ord = SeqCst then (lastSeqCstWriteEvents g)(loc \<mapsto> n) else lastSeqCstWriteEvents g)"
  have "\<exists>g2. (if ord = SeqCst then
                andThen (CreateScEdgeToEvent n ?g1) (\<lambda>g.
                andThen (CreateSeqCstConsistencyEdges n g) (\<lambda>g.
                Ret (set_last_sc_write (location (event_at g n)) (ev_id (event_at g n)) g)))
              else Ret ?g1) = Ret g2 \<and> others_ok g2 n \<and> placed n ?g1 g2 \<and> lastSeqCstWriteEvents g2 = last'"
    using place_seq_cst [OF o1 st1(1)] st1 l1 o1 by (cases "ord = SeqCst") (simp_all add: last'_def)
  then obtain g2 where g2: "(if ord = SeqCst then
                andThen (CreateScEdgeToEvent n ?g1) (\<lambda>g.
                andThen (CreateSeqCstConsistencyEdges n g) (\<lambda>g.
                Ret (set_last_sc_write (location (event_at g n)) (ev_id (event_at g n)) g)))
              else Ret ?g1) = Ret g2" "others_ok g2 n" "placed n ?g1 g2" "lastSeqCstWriteEvents g2 = last'" by blast
  have "is_store (event_at g2 n)" using placed_is(1) [OF g2(3)] st1 by simp
  then obtain g3 where g3: "andThen (CreateReadWriteCoherenceEdges n g2) (CreateWriteWriteCoherenceEdges n) = Ret g3"
    "grows g2 g3" "others_ok g3 n" "store_covered g3 n" "mo g2 \<subseteq> mo g3" "mo g3 \<subseteq> mo g2 \<union> ({..<length (g_events g2)} - {n}) \<times> {n}"
    using store_scans [OF g2(2)] by blast
  have p3: "placed n ?g1 g3" by (rule placed_trans [OF g2(3) placed_grows [OF g3(2) others_okD(5) [OF g2(2)] g3(5,6)]])
  have ev: "evolves n ?g1 g3" using p3 by (simp add: placed_def)
  have "mo g3 \<subseteq> mo g \<union> {..<n} \<times> {n}" using p3 by (auto simp: placed_def n_def less_Suc_eq)
  then have "acyclic (mo g3)" using mo_events [OF s(1)] by (intro acyclic_into [OF s(2)]) (auto simp: n_def)
  moreover have "\<not> inSnapshotMode g3" "snapshotEdges g3 = {}" using ev m1 by (simp_all add: evolves_def)
  moreover have "IsWrite (event_at g3 n)" using placed_event(3) [OF p3] by (simp add: n1 f IsWrite_def)
  ultimately have "wmm_inv g3" using finish_store [OF g3(3) _ g3(4)] by blast
  moreover have "AddWriteEvent loc t ord v g = Ret g3"
    unfolding AddWriteEvent_def Let_def n_def [symmetric] CreatePoEdgeToEvent_Ret [OF s(1) e] andThen.simps g2(1) by (rule g3(1))
  moreover have "\<forall>i<n. skeleton (event_at g3 i) = skeleton (event_at g i)"
    using ev extended_old [OF s(1) e] by (simp add: evolves_def n_def)
  moreover have "lastSeqCstWriteEvents g3 = last'" using grows_graph(2) [OF g3(2)] g2(4) by simp
  moreover have "length (g_events g3) = Suc n" "g_nThreads g3 = g_nThreads g" using ev by (simp_all add: evolves_def n_def)
  ultimately show ?thesis
    using placed_event [OF p3] by (intro exI [of _ g3]) (simp add: n1 f last'_def)
qed

section \<open>Reads and read-modify-writes\<close>

definition candidate :: "'v wmm_graph \<Rightarrow> nat \<Rightarrow> nat \<Rightarrow> bool" where
  "candidate g r w \<longleftrightarrow> w < length (g_events g) \<and> w \<noteq> r \<and> is_store (event_at g w) \<and> same_loc g w r"

lemma reader_frame_trans:
  assumes "reader_frame r a b" "reader_frame r b c"
  shows "reader_frame r a c"
  using assms same_kind_trans by (fastforce simp: reader_frame_def same_others_def)

lemma reader_frame_candidate:
  assumes "reader_frame r g g'" "candidate g r w"
  shows "candidate g' r w"
proof -
  have e: "skeleton (event_at g' w) = skeleton (event_at g w)" using assms by (simp add: reader_frame_def same_others_def candidate_def)
  then have "same_event g g' w" by (simp add: same_event_def)
  from same_event_fields(1,7) [OF this] show ?thesis
    using assms by (simp add: candidate_def reader_frame_def same_others_def)
qed

lemma try_candidates_spec:
  assumes "building g r" "IsReadOrRMW (event_at g r)" "\<forall>w\<in>set ws. candidate g r w"
    "lastSeqCstWriteEvents g (location (event_at g r)) \<noteq> None"
  shows "\<exists>g'. try_candidates ws r g = Ret g' \<and> reader_frame r g g' \<and>
    ((wmm_inv g' \<and> (\<exists>w. reads_from g' r w)) \<or> building g' r)"
  using assms
proof (induction ws arbitrary: g)
  case Nil
  then show ?case by (auto simp: reader_frame_def same_others_def)
next
  case (Cons w ws)
  obtain l where l: "lastSeqCstWriteEvents g (location (event_at g r)) = Some l" using Cons.prems(4) by blast
  have w: "w < length (g_events g)" "w \<noteq> r" "is_store (event_at g w)" "same_loc g w r"
    using Cons.prems(3) by (simp_all add: candidate_def)
  obtain ok g' where g': "TryCreateRfEdge w r g = Ret (ok, g')" "reader_frame r g g'"
    "if ok then wmm_inv g' \<and> reads_from g' r w else building g' r"
    using TryCreateRfEdge_spec [OF Cons.prems(1,2) w l] by (elim exE conjE)
  show ?case
  proof (cases ok)
    case True
    then show ?thesis using g' by auto
  next
    case False
    have "IsReadOrRMW (event_at g' r)"
      using g'(2) Cons.prems(2) by (simp add: reader_frame_def IsReadOrRMW_def IsRead_def IsRMW_def)
    moreover have "\<forall>w\<in>set ws. candidate g' r w" using Cons.prems(3) reader_frame_candidate [OF g'(2)] by simp
    moreover have "lastSeqCstWriteEvents g' (location (event_at g' r)) \<noteq> None"
      using g'(2) l by (simp add: reader_frame_def)
    ultimately obtain g'' where g'': "try_candidates ws r g' = Ret g''" "reader_frame r g' g''"
      "(wmm_inv g'' \<and> (\<exists>w. reads_from g'' r w)) \<or> building g'' r"
      using Cons.IH [of g'] g'(3) False by auto
    moreover have "try_candidates (w # ws) r g = Ret g''" using g'(1) g''(1) False by simp
    ultimately show ?thesis using reader_frame_trans [OF g'(2) g''(2)] by blast
  qed
qed

lemma read_value:
  assumes "wmm_inv g" "reads_from g r w"
  shows "\<exists>v. GetReadValue (event_at g) (event_at g r) = Ret v \<and> GetWrittenValue (event_at g w) = Ret v"
proof -
  have s: "struct_ok g" "settled g r" and b: "r < length (g_events g)" "w < length (g_events g)" "is_store (event_at g w)"
    and r: "IsReadOrRMW (event_at g r)" "readFrom (event_at g r) = Some w"
    using assms by (auto simp: wmm_inv_def reads_from_def)
  obtain v where v: "GetWrittenValue (event_at g w) = Ret v" using store_value [OF s(1) b(2,3)] by blast
  have "GetReadValue (event_at g) (event_at g r) = Ret v"
    using reader_payload [OF s(1) b(1) r(1)] r v s(2)
    by (cases "payload (event_at g r)")
      (auto simp: GetReadValue_def read_through_def UnconditionalRMW_GetReadValue_def settled_def resolved_def)
  then show ?thesis using v by blast
qed

text \<open>Reordering the candidates keeps them.\<close>

definition shuffles :: "(nat list \<Rightarrow> nat list) \<Rightarrow> bool" where
  "shuffles f \<longleftrightarrow> (\<forall>xs. mset (f xs) = mset xs)"

lemma candidates_set:
  assumes "shuffles shuffle"
  shows "set (GetShuffledReadFromCandidates shuffle r g) = {w. candidate g r w}"
proof -
  have "set (shuffle xs) = set xs" for xs using assms by (intro mset_eq_setD) (simp add: shuffles_def)
  then show ?thesis by (auto simp only: GetShuffledReadFromCandidates_def candidate_def is_store_def set_filter set_upt atLeastLessThan_iff)
qed

lemma read_event_spec:
  fixes g :: "'w::len word wmm_graph"
  assumes inv: "wmm_inv g" and e: "new_event g e" and rd: "IsReadOrRMW e" and l: "lastSeqCstWriteEvents g (location e) \<noteq> None"
    and sh: "shuffles shuffle"
  defines "n \<equiv> length (g_events g)"
  shows "read_event shuffle e g = Exn AssertionFailure \<or>
    (\<exists>v g' w. read_event shuffle e g = Ret (v, g') \<and> wmm_inv g' \<and> reads_from g' n w \<and> GetWrittenValue (event_at g' w) = Ret v \<and>
       length (g_events g') = Suc n \<and> g_nThreads g' = g_nThreads g \<and>
       (\<forall>i<n. skeleton (event_at g' i) = skeleton (event_at g i)) \<and>
       location (event_at g' n) = location e \<and> same_kind (payload e) (payload (event_at g' n)) \<and>
       (\<forall>x. (lastSeqCstWriteEvents g' x = None) = (lastSeqCstWriteEvents g x = None)))"
proof -
  let ?g1 = "extended e g" and ?ws = "GetShuffledReadFromCandidates shuffle n (extended e g)"
  have s: "struct_ok g" using inv by (simp add: wmm_inv_def)
  have b: "building ?g1 n" using extended_building [OF inv e] by (simp add: n_def)
  have n1: "event_at ?g1 n = e\<lparr>clock := next_clock g (threadId e)\<rparr>" by (simp add: n_def)
  have "IsReadOrRMW (event_at ?g1 n)" "lastSeqCstWriteEvents ?g1 (location (event_at ?g1 n)) \<noteq> None"
    using rd l by (simp_all add: n1 IsReadOrRMW_def IsRead_def IsRMW_def)
  moreover have "\<forall>w\<in>set ?ws. candidate ?g1 n w"
    unfolding candidates_set [OF sh] by simp
  ultimately obtain g' where g': "try_candidates ?ws n ?g1 = Ret g'" "reader_frame n ?g1 g'"
    "(wmm_inv g' \<and> (\<exists>w. reads_from g' n w)) \<or> building g' n"
    using try_candidates_spec [OF b] by blast
  have id: "ev_id e = n" using e by (simp add: new_event_def n_def)
  have eq: "read_event shuffle e g = (case readFrom (event_at g' n) of
       None \<Rightarrow> Exn AssertionFailure
     | Some w \<Rightarrow>
         andThen (cpp_assert (IsWrite (event_at g' w) \<or> IsModifyRMW (event_at g' w))) (\<lambda>_.
         andThen (GetReadValue (event_at g') (event_at g' n)) (\<lambda>v. Ret (v, g'))))"
    unfolding read_event_def CreatePoEdgeToEvent_Ret [OF s e] andThen.simps id g'(1) ..
  from g'(3) show ?thesis
  proof (elim disjE conjE exE)
    fix w assume a: "wmm_inv g'" "reads_from g' n w"
    obtain v where v: "GetReadValue (event_at g') (event_at g' n) = Ret v" "GetWrittenValue (event_at g' w) = Ret v"
      using read_value [OF a] by blast
    have "read_event shuffle e g = Ret (v, g')" unfolding eq using a(2) v(1) by (simp add: reads_from_def is_store_def)
    moreover have "length (g_events g') = Suc n" "g_nThreads g' = g_nThreads g"
      using g'(2) by (simp_all add: reader_frame_def same_others_def n_def)
    moreover have "\<forall>i<n. skeleton (event_at g' i) = skeleton (event_at g i)"
      using g'(2) extended_old [OF s e] by (simp add: reader_frame_def same_others_def n_def)
    moreover have "location (event_at g' n) = location e" "same_kind (payload e) (payload (event_at g' n))"
      "\<forall>x. (lastSeqCstWriteEvents g' x = None) = (lastSeqCstWriteEvents g x = None)"
      using g'(2) by (simp_all add: reader_frame_def n1)
    ultimately show ?thesis using a v(2) by blast
  next
    assume "building g' n"
    then have "read_event shuffle e g = Exn AssertionFailure" unfolding eq by (simp add: building_def pending_def)
    then show ?thesis ..
  qed
qed

end
