(* ===== verification/Wmm_Safety.thy ===== *)
theory Wmm_Safety
imports Wmm_Execution
begin

text \<open>
  Every execution graph that the operations of \<open>ExecutionGraph\<close> (src/runtime/include/wmm/wmm.h) build is
  coherent and has an acyclic modification order; what loads, compare-exchanges and fetch operations return; and
  two runs in which the rules of graph.h are weaker, or stricter, than the memory model they implement.
\<close>

section \<open>Reset\<close>

definition reset_graph :: "nat \<Rightarrow> nat \<Rightarrow> 'v wmm_graph \<Rightarrow> 'v wmm_graph" where
  "reset_graph n k g = g\<lparr>g_edges := [], g_events := map (\<lambda>t. new_DummyEvent t n t) [0..<k],
     eventsPerThread := map (\<lambda>t. if t < k then [t] else []) [0..<n], lastSeqCstWriteEvents := Map.empty, g_nThreads := n\<rparr>"

lemma init_threads_fold:
  "k \<le> n \<Longrightarrow> fold (init_thread n) [0..<k] (reset_graph n 0 g) = reset_graph n k g"
proof (induction k)
  case (Suc k)
  have "(map (\<lambda>t. if t < k then [t] else []) [0..<n])[k := [k]] = map (\<lambda>t. if t < Suc k then [t] else []) [0..<n]"
    using Suc.prems by (intro nth_equalityI) (auto simp: nth_list_update)
  then show ?case using Suc by (simp add: init_thread_def reset_graph_def)
qed simp

lemma graph_Reset_eq: "graph_Reset n g = reset_graph n n g"
proof -
  have "(Clean g)\<lparr>g_nThreads := n, eventsPerThread := take n (eventsPerThread (Clean g) @ replicate n [])\<rparr> = reset_graph n 0 g"
    by (simp add: Clean_def reset_graph_def map_replicate_const)
  then show ?thesis using init_threads_fold [of n n g] by (simp add: graph_Reset_def InitThreads_def)
qed

lemma graph_Reset_inv:
  fixes g :: "'w::len word wmm_graph"
  assumes "\<not> inSnapshotMode g" "snapshotEdges g = {}"
  shows "wmm_inv (graph_Reset n g)"
proof -
  let ?g = "reset_graph n n g"
  have e: "event_at ?g i = new_DummyEvent i n i" if "i < n" for i using that by (simp add: reset_graph_def event_at_def)
  note f = new_DummyEvent_def Event_def
  have l: "length (g_events ?g) = n" "g_edges ?g = []" "g_nThreads ?g = n" "mo ?g = {}" "lastSeqCstWriteEvents ?g = Map.empty"
    "eventsPerThread ?g = map (\<lambda>t. [t]) [0..<n]" by (simp_all add: reset_graph_def mo_def)
  have nr: "\<not> IsReadOrRMW (event_at ?g i)" "\<not> is_store (event_at ?g i)" if "i < n" for i
    using that by (simp_all add: e f IsReadOrRMW_def IsRead_def IsRMW_def is_store_def IsWrite_def IsModifyRMW_def)
  have ge: "g_events ?g ! i = event_at ?g i" for i by (simp add: event_at_def)
  have "adjacency_ok ?g" by (simp add: adjacency_ok_def l ge e) (simp add: f)
  moreover have "threads_ok ?g" using e by (auto simp: threads_ok_def l) (simp_all add: f)
  moreover have "types_ok ?g" by (simp add: types_ok_def l e) (simp add: f new_clock_def)
  ultimately have "struct_ok ?g" by (simp add: struct_ok_def last_ok_def l)
  moreover have "clocks_ok ?g" by (auto simp: clocks_ok_def l e) (simp_all add: f)
  moreover have "settled ?g i" if "i < n" for i
    using nr [OF that] e [OF that] by (simp add: settled_def complete_def resolved_def f)
  moreover have "coherent ?g {..<n}"
    using nr by (auto simp: coherent_def CoWW_def CoWR_def CoRW_def CoRR_def CoRmw_def reads_from_def)
  moreover have "typed_mo ?g" "acyclic (mo ?g)" by (simp_all add: typed_mo_def l acyclic_def)
  moreover have "\<not> inSnapshotMode ?g" "snapshotEdges ?g = {}" using assms by (simp_all add: reset_graph_def)
  ultimately show ?thesis by (simp add: graph_Reset_eq wmm_inv_def l)
qed

section \<open>The graphs the operations build\<close>

text \<open>
  An access names a thread of the graph and a registered location. A run may reset the graph, register locations
  and access them in any order, with any outcome of the random choices.
\<close>

definition valid_access :: "nat \<Rightarrow> int \<Rightarrow> 'v exec_graph \<Rightarrow> bool" where
  "valid_access t loc x \<longleftrightarrow> t < x_nThreads x \<and> 0 \<le> loc \<and> loc < nextLocationId x"

inductive wmm_step :: "'w::len word exec_graph \<Rightarrow> 'w word exec_graph \<Rightarrow> bool" where
  reset: "0 < n \<Longrightarrow> wmm_step x (exec_Reset n x)"
| register: "0 < x_nThreads x \<Longrightarrow> RegisterLocation v x = Ret (loc, x') \<Longrightarrow> wmm_step x x'"
| load: "valid_access t loc x \<Longrightarrow> shuffles f \<Longrightarrow> Load f loc t ord x = Ret (v, x') \<Longrightarrow> wmm_step x x'"
| store: "valid_access t loc x \<Longrightarrow> Store loc t ord v x = Ret x' \<Longrightarrow> wmm_step x x'"
| cas: "valid_access t loc x \<Longrightarrow> shuffles f \<Longrightarrow>
    ReadModifyWrite f loc t expct des success failure x = Ret (res, left, x') \<Longrightarrow> wmm_step x x'"
| fetch: "valid_access t loc x \<Longrightarrow> shuffles f \<Longrightarrow>
    UnconditionalReadModifyWrite f loc t oper arg ord x = Ret (v, x') \<Longrightarrow> wmm_step x x'"

inductive wmm_reachable :: "'w::len word exec_graph \<Rightarrow> bool" where
  start: "wmm_reachable ExecutionGraph"
| step: "wmm_reachable x \<Longrightarrow> wmm_step x x' \<Longrightarrow> wmm_reachable x'"

inductive_cases wmm_stepE: "wmm_step x x'"

definition exec_inv :: "'w::len word exec_graph \<Rightarrow> bool" where
  "exec_inv x \<longleftrightarrow> wmm_inv (x_graph x) \<and> g_nThreads (x_graph x) = x_nThreads x \<and>
     (\<forall>loc. 0 \<le> loc \<and> loc < nextLocationId x \<longrightarrow> lastSeqCstWriteEvents (x_graph x) loc \<noteq> None)"

lemma exec_inv_start: "exec_inv (ExecutionGraph :: 'w::len word exec_graph)"
proof -
  have "wmm_inv (graph_Reset 0 (Graph :: 'w word wmm_graph))" by (rule graph_Reset_inv) (simp_all add: Graph_def)
  moreover have "graph_Reset 0 (Graph :: 'w word wmm_graph) = Graph" by (simp add: graph_Reset_eq reset_graph_def Graph_def)
  ultimately show ?thesis by (simp add: exec_inv_def ExecutionGraph_def Graph_def)
qed

lemma exec_inv_reset:
  assumes "exec_inv x"
  shows "exec_inv (exec_Reset n x)"
proof -
  have "wmm_inv (graph_Reset n (x_graph x))" using assms by (intro graph_Reset_inv) (auto simp: exec_inv_def wmm_inv_def)
  then show ?thesis by (simp add: exec_inv_def exec_Reset_def graph_Reset_eq reset_graph_def)
qed

lemma RegisterLocation_spec:
  assumes x: "exec_inv x" "0 < x_nThreads x"
  shows "\<exists>x'. RegisterLocation v x = Ret (nextLocationId x, x') \<and> exec_inv x' \<and> nextLocationId x' = nextLocationId x + 1"
proof -
  obtain g' where "AddWriteEvent (nextLocationId x) INIT_THREAD_ID SeqCst v (x_graph x) = Ret g'" "wmm_inv g'"
    "g_nThreads g' = g_nThreads (x_graph x)"
    "lastSeqCstWriteEvents g' = (lastSeqCstWriteEvents (x_graph x))(nextLocationId x \<mapsto> length (g_events (x_graph x)))"
    using AddWriteEvent_spec [of "x_graph x" INIT_THREAD_ID "nextLocationId x" SeqCst v] x
    by (auto simp: exec_inv_def INIT_THREAD_ID_def)
  then show ?thesis using x(1) by (auto simp: RegisterLocation_def exec_inv_def Let_def)
qed

lemma Store_spec:
  assumes x: "exec_inv x" "valid_access t loc x"
  shows "\<exists>x'. Store loc t ord v x = Ret x' \<and> exec_inv x'"
proof -
  obtain g' where "AddWriteEvent loc t ord v (x_graph x) = Ret g'" "wmm_inv g'" "g_nThreads g' = g_nThreads (x_graph x)"
    "lastSeqCstWriteEvents g' = (if ord = SeqCst then (lastSeqCstWriteEvents (x_graph x))(loc \<mapsto> length (g_events (x_graph x)))
      else lastSeqCstWriteEvents (x_graph x))"
    using AddWriteEvent_spec [of "x_graph x" t loc ord v] x by (auto simp: exec_inv_def valid_access_def)
  then show ?thesis using x(1) by (simp add: Store_def exec_inv_def)
qed

lemma new_events:
  assumes "t < g_nThreads g"
  shows "new_event g (new_ReadEvent (length (g_events g)) n loc t ord)"
    "new_event g (new_CASRMWEvent (length (g_events g)) n loc t expct des success failure)"
    "new_event g (new_UnconditionalRMWEvent (length (g_events g)) n loc t oper arg ord)"
  using assms
  by (simp_all add: new_event_def new_ReadEvent_def new_CASRMWEvent_def new_UnconditionalRMWEvent_def Event_def pending_def)

text \<open>
  What a reading operation of thread \<open>t\<close> establishes: its event reads a store of the location that no store the
  reader knows of has overwritten, and the value is that of the store.
\<close>

definition read_ok :: "'w::len word exec_graph \<Rightarrow> 'w word exec_graph \<Rightarrow> int \<Rightarrow> 'w word \<Rightarrow> nat \<Rightarrow> bool" where
  "read_ok x x' loc v w \<longleftrightarrow>
     (let g = x_graph x'; r = length (g_events (x_graph x)) in
      reads_from g r w \<and> location (event_at g w) = loc \<and> GetWrittenValue (event_at g w) = Ret v \<and>
      (\<forall>i<length (g_events g). is_store (event_at g i) \<and> location (event_at g i) = loc \<and> i \<noteq> r \<and> hb g i r \<longrightarrow>
         (w, i) \<notin> (mo g)\<^sup>+))"

lemma not_overwritten:
  assumes "wmm_inv g" "reads_from g r w" "i < length (g_events g)" "is_store (event_at g i)" "same_loc g i r" "i \<noteq> r" "hb g i r"
  shows "(w, i) \<notin> (mo g)\<^sup>+"
proof
  assume a: "(w, i) \<in> (mo g)\<^sup>+"
  have ac: "acyclic (mo g)" and co: "CoWR g {..<length (g_events g)}" using assms(1) by (simp_all add: wmm_inv_def coherent_def)
  show False
  proof (cases "i = w")
    case False
    then have "(i, w) \<in> (mo g)\<^sup>+" using co assms(2-) by (auto simp: CoWR_def reads_from_def)
    then show False using a ac trancl_trans [of i w "mo g" i] by (auto simp: acyclic_def)
  qed (use a ac in \<open>auto simp: acyclic_def\<close>)
qed

lemma reading_spec:
  fixes x :: "'w::len word exec_graph"
  assumes x: "exec_inv x" "valid_access t loc x" and sh: "shuffles f"
    and e: "new_event (x_graph x) e" "IsReadOrRMW e" "location e = loc"
  defines "n \<equiv> length (g_events (x_graph x))"
  shows "read_event f e (x_graph x) = Exn AssertionFailure \<or>
    (\<exists>v g' w. read_event f e (x_graph x) = Ret (v, g') \<and> exec_inv (x\<lparr>x_graph := g'\<rparr>) \<and> read_ok x (x\<lparr>x_graph := g'\<rparr>) loc v w \<and>
       length (g_events g') = Suc n \<and> same_kind (payload e) (payload (event_at g' n)))"
proof -
  have inv: "wmm_inv (x_graph x)" "lastSeqCstWriteEvents (x_graph x) (location e) \<noteq> None"
    using x e(3) by (simp_all add: exec_inv_def valid_access_def)
  from read_event_spec [OF inv(1) e(1,2) inv(2) sh, folded n_def] show ?thesis
  proof (elim disjE exE conjE)
    fix v g' w assume a: "read_event f e (x_graph x) = Ret (v, g')" "wmm_inv g'" "reads_from g' n w"
      "GetWrittenValue (event_at g' w) = Ret v" "length (g_events g') = Suc n" "g_nThreads g' = g_nThreads (x_graph x)"
      "location (event_at g' n) = location e" "same_kind (payload e) (payload (event_at g' n))"
      "\<forall>y. (lastSeqCstWriteEvents g' y = None) = (lastSeqCstWriteEvents (x_graph x) y = None)"
    have "exec_inv (x\<lparr>x_graph := g'\<rparr>)" using x(1) a(2,6,9) by (simp add: exec_inv_def)
    moreover have "read_ok x (x\<lparr>x_graph := g'\<rparr>) loc v w"
      unfolding read_ok_def Let_def using a e(3) not_overwritten [OF a(2,3)] by (simp add: reads_from_def n_def)
    ultimately show ?thesis using a(1,5,8) by blast
  qed simp
qed

lemma reader_events:
  "IsReadOrRMW (new_ReadEvent m n loc t ord)" "location (new_ReadEvent m n loc t ord) = loc"
  "IsReadOrRMW (new_CASRMWEvent m n loc t expct des success failure)"
  "location (new_CASRMWEvent m n loc t expct des success failure) = loc"
  "payload (new_CASRMWEvent m n loc t expct des success failure) = CASRMWEvent expct expct expct des failure"
  "IsReadOrRMW (new_UnconditionalRMWEvent m n loc t oper arg ord)"
  "location (new_UnconditionalRMWEvent m n loc t oper arg ord) = loc"
  "payload (new_UnconditionalRMWEvent m n loc t oper arg ord) = UnconditionalRMWEvent oper arg 0 0"
  by (simp_all add: new_ReadEvent_def new_CASRMWEvent_def new_UnconditionalRMWEvent_def Event_def IsReadOrRMW_def IsRead_def IsRMW_def)

lemma Load_spec:
  assumes x: "exec_inv x" "valid_access t loc x" and sh: "shuffles f"
  shows "Load f loc t ord x = Exn AssertionFailure \<or>
    (\<exists>v x' w. Load f loc t ord x = Ret (v, x') \<and> exec_inv x' \<and> read_ok x x' loc v w)"
proof -
  have t: "t < g_nThreads (x_graph x)" using x by (simp add: exec_inv_def valid_access_def)
  from reading_spec [OF x sh new_events(1) [OF t] reader_events(1,2), of "g_nThreads (x_graph x)" ord] show ?thesis
    by (auto simp: Load_def AddReadEvent_def)
qed

text \<open>The store a read-modify-write makes.\<close>

definition wrote :: "'w::len word exec_graph \<Rightarrow> 'w word exec_graph \<Rightarrow> nat \<Rightarrow> 'w word \<Rightarrow> bool" where
  "wrote x x' w v \<longleftrightarrow> (let g = x_graph x'; r = length (g_events (x_graph x)) in
     is_store (event_at g r) \<and> GetWrittenValue (event_at g r) = Ret v \<and> (w, r) \<in> mo g)"

lemma rmw_store:
  assumes "wmm_inv g" "reads_from g r w" "is_store (event_at g r)"
  shows "(w, r) \<in> mo g"
  using assms by (auto simp: wmm_inv_def coherent_def CoRmw_def reads_from_def)

lemma ReadModifyWrite_spec:
  assumes x: "exec_inv x" "valid_access t loc x" and sh: "shuffles f"
  shows "ReadModifyWrite f loc t expct des success failure x = Exn AssertionFailure \<or>
    (\<exists>v x' w. ReadModifyWrite f loc t expct des success failure x = Ret ((v = expct, v), v, x') \<and> exec_inv x' \<and>
       read_ok x x' loc v w \<and> (if v = expct then wrote x x' w des
         else \<not> is_store (event_at (x_graph x') (length (g_events (x_graph x))))))"
proof -
  have t: "t < g_nThreads (x_graph x)" using x by (simp add: exec_inv_def valid_access_def)
  let ?n = "length (g_events (x_graph x))"
  let ?e = "new_CASRMWEvent ?n (g_nThreads (x_graph x)) loc t expct des success failure"
  from reading_spec [OF x sh new_events(2) [OF t] reader_events(3,4), of "g_nThreads (x_graph x)" expct des success failure]
  show ?thesis
  proof (elim disjE exE conjE)
    assume "read_event f ?e (x_graph x) = Exn AssertionFailure"
    then show ?thesis by (simp add: ReadModifyWrite_def AddRMWEvent_def Let_def)
  next
    fix v g' w assume a: "read_event f ?e (x_graph x) = Ret (v, g')" "exec_inv (x\<lparr>x_graph := g'\<rparr>)"
      "read_ok x (x\<lparr>x_graph := g'\<rparr>) loc v w" "length (g_events g') = Suc ?n" "same_kind (payload ?e) (payload (event_at g' ?n))"
    have inv: "wmm_inv g'" and rf: "reads_from g' ?n w" and v: "GetWrittenValue (event_at g' w) = Ret v"
      using a(2,3) by (simp_all add: exec_inv_def read_ok_def Let_def)
    have st: "settled g' ?n" and s: "struct_ok g'" using inv a(4) by (simp_all add: wmm_inv_def)
    obtain c k where p: "payload (event_at g' ?n) = CASRMWEvent expct c k des failure"
      using a(5) by (cases "payload (event_at g' ?n)") (auto simp: reader_events)
    have k: "k = v" and r: "rmw_state (event_at g' ?n) = (if v = expct then MODIFY else RMW_READ)"
      using st p v rf by (auto simp: settled_def resolved_def reads_from_def)
    have ty: "ev_type (event_at g' ?n) = RMW" using s a(4) p by (simp add: struct_ok_def types_ok_def)
    have m: "IsModifyRMW (event_at g' ?n) = (v = expct)" "is_store (event_at g' ?n) = (v = expct)"
      using p r ty by (simp_all add: IsModifyRMW_def CASRMW_IsModifyRMW_def is_store_def IsWrite_def)
    have "wrote x (x\<lparr>x_graph := g'\<rparr>) w des" if "v = expct"
      using that m(2) rmw_store [OF inv rf] p r ty
      by (simp add: wrote_def Let_def GetWrittenValue_def IsWriteOrRMW_def IsRMW_def CASRMW_GetWrittenValue_def)
    then show ?thesis
      using a m p k by (intro disjI2 exI [of _ v] exI [of _ "x\<lparr>x_graph := g'\<rparr>"] exI [of _ w])
        (simp add: ReadModifyWrite_def AddRMWEvent_def Let_def)
  qed
qed

lemma Unconditional_spec:
  assumes x: "exec_inv x" "valid_access t loc x" and sh: "shuffles f"
  shows "UnconditionalReadModifyWrite f loc t oper arg ord x = Exn AssertionFailure \<or>
    (\<exists>v x' w. UnconditionalReadModifyWrite f loc t oper arg ord x = Ret (v, x') \<and> exec_inv x' \<and>
       read_ok x x' loc v w \<and> wrote x x' w (ApplyAtomicRmwOp oper v arg))"
proof -
  have t: "t < g_nThreads (x_graph x)" using x by (simp add: exec_inv_def valid_access_def)
  let ?n = "length (g_events (x_graph x))"
  let ?e = "new_UnconditionalRMWEvent ?n (g_nThreads (x_graph x)) loc t oper arg ord"
  from reading_spec [OF x sh new_events(3) [OF t] reader_events(6,7), of "g_nThreads (x_graph x)" oper arg ord]
  show ?thesis
  proof (elim disjE exE conjE)
    assume "read_event f ?e (x_graph x) = Exn AssertionFailure"
    then show ?thesis by (simp add: UnconditionalReadModifyWrite_def AddUnconditionalRMWEvent_def)
  next
    fix v g' w assume a: "read_event f ?e (x_graph x) = Ret (v, g')" "exec_inv (x\<lparr>x_graph := g'\<rparr>)"
      "read_ok x (x\<lparr>x_graph := g'\<rparr>) loc v w" "length (g_events g') = Suc ?n" "same_kind (payload ?e) (payload (event_at g' ?n))"
    have inv: "wmm_inv g'" and rf: "reads_from g' ?n w" and v: "GetWrittenValue (event_at g' w) = Ret v"
      using a(2,3) by (simp_all add: exec_inv_def read_ok_def Let_def)
    have st: "settled g' ?n" and s: "struct_ok g'" using inv a(4) by (simp_all add: wmm_inv_def)
    obtain c k where p: "payload (event_at g' ?n) = UnconditionalRMWEvent oper arg c k"
      using a(5) by (cases "payload (event_at g' ?n)") (auto simp: reader_events)
    have k: "k = ApplyAtomicRmwOp oper v arg" and r: "rmw_state (event_at g' ?n) = MODIFY"
      using st p v rf by (auto simp: settled_def resolved_def reads_from_def)
    have ty: "ev_type (event_at g' ?n) = RMW" using s a(4) p by (simp add: struct_ok_def types_ok_def)
    have m: "is_store (event_at g' ?n)" using p r ty by (simp add: IsModifyRMW_def UnconditionalRMW_IsModifyRMW_def is_store_def)
    have "wrote x (x\<lparr>x_graph := g'\<rparr>) w (ApplyAtomicRmwOp oper v arg)"
      using m rmw_store [OF inv rf m] p r ty k
      by (simp add: wrote_def Let_def GetWrittenValue_def IsWriteOrRMW_def IsRMW_def UnconditionalRMW_GetWrittenValue_def)
    then show ?thesis using a by (auto simp: UnconditionalReadModifyWrite_def AddUnconditionalRMWEvent_def)
  qed
qed

lemma exec_inv_step:
  assumes "wmm_step x x'" "exec_inv x"
  shows "exec_inv x'"
  using assms
proof (cases rule: wmm_step.cases)
  case (reset n)
  then show ?thesis using exec_inv_reset [OF assms(2)] by simp
next
  case (register v loc)
  then show ?thesis using RegisterLocation_spec [OF assms(2), of v] by auto
next
  case (load t loc f ord v)
  then show ?thesis using Load_spec [OF assms(2) load(1,2), of ord] by auto
next
  case (store t loc ord v)
  then show ?thesis using Store_spec [OF assms(2) store(1), of ord v] by auto
next
  case (cas t loc f expct des success failure res left)
  then show ?thesis using ReadModifyWrite_spec [OF assms(2) cas(1,2), of expct des success failure] by auto
next
  case (fetch t loc f oper arg ord v)
  then show ?thesis using Unconditional_spec [OF assms(2) fetch(1,2), of oper arg ord] by auto
qed

lemma exec_inv_reachable: "wmm_reachable x \<Longrightarrow> exec_inv x"
  by (induction rule: wmm_reachable.induct) (auto intro: exec_inv_start exec_inv_step)

section \<open>Properties\<close>

lemma shuffles_rotate: "shuffles rotate1" "shuffles (\<lambda>xs. xs)"
proof -
  have "mset (rotate1 xs) = mset xs" for xs :: "nat list" by (cases xs) simp_all
  then show "shuffles rotate1" "shuffles (\<lambda>xs. xs)" by (simp_all add: shuffles_def)
qed

text \<open>A graph of two threads with one registered location.\<close>

lemma registered_example:
  "\<exists>x :: 8 word exec_graph. wmm_reachable x \<and> valid_access 1 0 x \<and> length (g_events (x_graph x)) = 3"
proof -
  let ?x = "exec_Reset 2 (ExecutionGraph :: 8 word exec_graph)"
  have r: "wmm_reachable ?x" by (rule wmm_reachable.step [OF wmm_reachable.start wmm_step.reset]) simp
  have n: "0 < x_nThreads ?x" "nextLocationId ?x = 0" "x_nThreads ?x = 2" by (simp_all add: exec_Reset_def)
  obtain x' where x': "RegisterLocation 7 ?x = Ret (0, x')" "nextLocationId x' = 1"
    using RegisterLocation_spec [OF exec_inv_reachable [OF r] n(1), of 7] n(2) by auto
  have "x_nThreads x' = 2" using x'(1) n(3) by (auto simp: RegisterLocation_def Let_def andThen_eq_Ret)
  moreover have "length (g_events (x_graph x')) = 3"
  proof -
    have "g_nThreads (x_graph ?x) = 2" "wmm_inv (x_graph ?x)" "length (g_events (x_graph ?x)) = 2"
      using exec_inv_reachable [OF r] n(3) by (simp_all add: exec_inv_def exec_Reset_def graph_Reset_eq reset_graph_def)
    with AddWriteEvent_spec [of "x_graph ?x" INIT_THREAD_ID 0 SeqCst 7] show ?thesis
      using x'(1) n(2) by (auto simp: RegisterLocation_def Let_def andThen_eq_Ret INIT_THREAD_ID_def)
  qed
  ultimately show ?thesis
    using wmm_reachable.step [OF r wmm_step.register [OF n(1) x'(1)]] x'(2) by (auto simp: valid_access_def)
qed

text \<open>
  C8. Every execution graph that resets, registrations, loads, stores, compare-exchanges and fetch operations
  build, with any outcome of the random choices, has an acyclic modification order and is coherent: stores, reads
  and read-modify-writes of one location that happen before each other agree with the modification order.
\<close>

theorem wmm_graph_coherent:
  assumes "wmm_reachable x"
  shows "acyclic (mo (x_graph x)) \<and> coherent (x_graph x) {..<length (g_events (x_graph x))}"
  using exec_inv_reachable [OF assms] by (simp add: exec_inv_def wmm_inv_def)

theorem wmm_graph_coherent_witness:
  "\<exists>x :: 8 word exec_graph. wmm_reachable x \<and> length (g_events (x_graph x)) = 3 \<and> acyclic (mo (x_graph x)) \<and>
     coherent (x_graph x) {..<3}"
  using registered_example wmm_graph_coherent by (metis (no_types, lifting))

text \<open>
  C33. A load of a registered location by a thread of the graph either finds no consistent store and fails its
  assertion, or returns the value of a store of that location which no store that happens before the load has
  overwritten.
\<close>

theorem load_reads_current_store:
  assumes "wmm_reachable x" "valid_access t loc x" "shuffles f"
  shows "Load f loc t ord x = Exn AssertionFailure \<or>
    (\<exists>v x' w. Load f loc t ord x = Ret (v, x') \<and> wmm_reachable x' \<and> read_ok x x' loc v w)"
  using Load_spec [OF exec_inv_reachable [OF assms(1)] assms(2,3), of ord]
    wmm_reachable.step [OF assms(1) wmm_step.load [OF assms(2,3)]] by blast

theorem load_reads_current_store_witness:
  "\<exists>x :: 8 word exec_graph. wmm_reachable x \<and> valid_access 1 0 x \<and>
    (Load rotate1 0 1 Acquire x = Exn AssertionFailure \<or>
     (\<exists>v x' w. Load rotate1 0 1 Acquire x = Ret (v, x') \<and> wmm_reachable x' \<and> read_ok x x' 0 v w))"
  using registered_example load_reads_current_store [OF _ _ shuffles_rotate(1)] by meson

text \<open>
  C34. A compare-exchange that returns reports the value read, leaves it in the caller's variable, and succeeds
  exactly when it is the expected value; then its event stores the desired value directly after the store read,
  and otherwise it stores nothing.
\<close>

theorem compare_exchange_result:
  assumes "wmm_reachable x" "valid_access t loc x" "shuffles f"
  shows "ReadModifyWrite f loc t expct des success failure x = Exn AssertionFailure \<or>
    (\<exists>v x' w. ReadModifyWrite f loc t expct des success failure x = Ret ((v = expct, v), v, x') \<and> wmm_reachable x' \<and>
       read_ok x x' loc v w \<and> (if v = expct then wrote x x' w des
         else \<not> is_store (event_at (x_graph x') (length (g_events (x_graph x))))))"
  using ReadModifyWrite_spec [OF exec_inv_reachable [OF assms(1)] assms(2,3), of expct des success failure]
    wmm_reachable.step [OF assms(1) wmm_step.cas [OF assms(2,3)]] by blast

theorem compare_exchange_result_witness:
  "\<exists>x :: 8 word exec_graph. wmm_reachable x \<and> valid_access 1 0 x \<and>
    (ReadModifyWrite rotate1 0 1 7 9 SeqCst Relaxed x = Exn AssertionFailure \<or>
     (\<exists>v x' w. ReadModifyWrite rotate1 0 1 7 9 SeqCst Relaxed x = Ret ((v = 7, v), v, x') \<and> wmm_reachable x' \<and>
       read_ok x x' 0 v w \<and> (if v = 7 then wrote x x' w 9
         else \<not> is_store (event_at (x_graph x') (length (g_events (x_graph x)))))))"
  using registered_example compare_exchange_result [OF _ _ shuffles_rotate(1)] by meson

text \<open>
  The rules for read-modify-writes do not make them atomic. Thread 0, thread 1 and thread 0 again each add one to
  a location that holds zero, and the random choices let the third addition read the store the second one read:
  the additions return 0, 1 and 1.
\<close>

definition three_fetch_adds :: "(32 word \<times> 32 word \<times> 32 word) res" where
  "three_fetch_adds =
     andThen (RegisterLocation 0 (exec_Reset 2 ExecutionGraph)) (\<lambda>(loc, x).
     andThen (UnconditionalReadModifyWrite rotate1 loc 0 FetchAdd 1 Relaxed x) (\<lambda>(a, x).
     andThen (UnconditionalReadModifyWrite rotate1 loc 1 FetchAdd 1 Relaxed x) (\<lambda>(b, x).
     andThen (UnconditionalReadModifyWrite rotate1 loc 0 FetchAdd 1 Relaxed x) (\<lambda>(c, x).
     Ret (a, b, c)))))"

lemma fetch_add_loses_update:
  "shuffles rotate1 \<and> three_fetch_adds = Ret (0, 1, 1)"
  by (rule conjI [OF shuffles_rotate(1)]) code_simp

text \<open>
  The initialization of a location happens before no event of another thread, so it may be placed after a store in the
  modification order: a thread that has stored 5 loads it, and then loads the initial value.
\<close>

lemma initial_value_after_own_store:
  "andThen (RegisterLocation (0 :: 32 word) (exec_Reset 2 ExecutionGraph)) (\<lambda>(l, x).
   andThen (Store l 1 Relaxed 5 x) (\<lambda>x.
   andThen (Load rotate1 l 1 Relaxed x) (\<lambda>(v, x).
   andThen (Load (\<lambda>ws. ws) l 1 Relaxed x) (\<lambda>(w, x). Ret (v, w))))) = Ret (5, 0)"
  by code_simp

end
