(* ===== verification/Latomic.thy ===== *)
theory Latomic
imports Wmm_Safety
begin

text \<open>
  \<open>latomic\<close> (src/runtime/include/latomic.h), the replacement of \<open>std::atomic\<close>: every operation acts on a real
  atomic, and on the execution graph when the weak memory model is enabled and a coroutine of a thread runs. The
  overloads for volatile objects forward to the others. \<open>noexcept\<close> turns the exception of an unsupported memory
  order into termination, which is the error here; the orders that \<open>std::atomic\<close> forbids for an access are not
  told apart, since the real atomic has only one thread.
\<close>

unbundle bit_operations_syntax

section \<open>State\<close>

record 'v latomic =
  atomicValue :: 'v
  locationId :: int

text \<open>The globals an operation reads: the flag, whether a coroutine runs, its thread, and the graph.\<close>

record 'v runtime =
  wmm_enabled :: bool
  this_coro :: bool
  this_thread_id :: int
  wmmGraph :: "'v exec_graph"

definition IsWmmEnabled :: "'v latomic \<Rightarrow> 'v runtime \<Rightarrow> bool" where
  "IsWmmEnabled a c \<longleftrightarrow> wmm_enabled c \<and> this_coro c \<and> locationId a \<ge> 0 \<and> this_thread_id c \<ge> 0"

definition new_latomic :: "'w::len word \<Rightarrow> 'w word runtime \<Rightarrow> ('w word latomic \<times> 'w word runtime) res" where
  "new_latomic des c =
     (if wmm_enabled c then
        andThen (RegisterLocation des (wmmGraph c)) (\<lambda>(loc, x).
        Ret (\<lparr>atomicValue = des, locationId = loc\<rparr>, c\<lparr>wmmGraph := x\<rparr>))
      else Ret (\<lparr>atomicValue = des, locationId = -1\<rparr>, c))"

definition default_latomic :: "'w::len word runtime \<Rightarrow> ('w word latomic \<times> 'w word runtime) res" where
  "default_latomic c = new_latomic 0 c"

section \<open>Loads and stores\<close>

definition store :: "'w::len word \<Rightarrow> std_memory_order \<Rightarrow> 'w word latomic \<Rightarrow> 'w word runtime \<Rightarrow> ('w word latomic \<times> 'w word runtime) res" where
  "store des order a c =
     (let a = a\<lparr>atomicValue := des\<rparr> in
      if IsWmmEnabled a c then
        andThen (OrderFromStd order) (\<lambda>ord.
        andThen (Store (locationId a) (nat (this_thread_id c)) ord des (wmmGraph c)) (\<lambda>x.
        Ret (a, c\<lparr>wmmGraph := x\<rparr>)))
      else Ret (a, c))"

definition assign :: "'w::len word \<Rightarrow> 'w word latomic \<Rightarrow> 'w word runtime \<Rightarrow> ('w word \<times> 'w word latomic \<times> 'w word runtime) res" where
  "assign des a c = andThen (store des memory_order_seq_cst a c) (\<lambda>(a, c). Ret (des, a, c))"

definition load ::
    "(nat list \<Rightarrow> nat list) \<Rightarrow> std_memory_order \<Rightarrow> 'w::len word latomic \<Rightarrow> 'w word runtime \<Rightarrow> ('w word \<times> 'w word runtime) res" where
  "load shuffle order a c =
     (if IsWmmEnabled a c then
        andThen (OrderFromStd order) (\<lambda>ord.
        andThen (Load shuffle (locationId a) (nat (this_thread_id c)) ord (wmmGraph c)) (\<lambda>(v, x).
        Ret (v, c\<lparr>wmmGraph := x\<rparr>)))
      else Ret (atomicValue a, c))"

definition as_value ::
    "(nat list \<Rightarrow> nat list) \<Rightarrow> 'w::len word latomic \<Rightarrow> 'w word runtime \<Rightarrow> ('w word \<times> 'w word runtime) res" where
  "as_value shuffle a c = load shuffle memory_order_seq_cst a c"

section \<open>Read-modify-writes\<close>

text \<open>
  The shape that \<open>exchange\<close> and the fetch operations share: the real atomic is updated first, and the value
  returned is that of the graph when it is enabled.
\<close>

definition fetch_op ::
    "AtomicRmwOp \<Rightarrow> (nat list \<Rightarrow> nat list) \<Rightarrow> 'w::len word \<Rightarrow> std_memory_order \<Rightarrow> 'w word latomic \<Rightarrow> 'w word runtime \<Rightarrow>
     ('w word \<times> 'w word latomic \<times> 'w word runtime) res" where
  "fetch_op oper shuffle arg order a c =
     (let prev = atomicValue a; a = a\<lparr>atomicValue := ApplyAtomicRmwOp oper prev arg\<rparr> in
      if IsWmmEnabled a c then
        andThen (OrderFromStd order) (\<lambda>ord.
        andThen (UnconditionalReadModifyWrite shuffle (locationId a) (nat (this_thread_id c)) oper arg ord (wmmGraph c)) (\<lambda>(v, x).
        Ret (v, a, c\<lparr>wmmGraph := x\<rparr>)))
      else Ret (prev, a, c))"

definition exchange ::
    "(nat list \<Rightarrow> nat list) \<Rightarrow> 'w::len word \<Rightarrow> std_memory_order \<Rightarrow> 'w word latomic \<Rightarrow> 'w word runtime \<Rightarrow>
     ('w word \<times> 'w word latomic \<times> 'w word runtime) res" where
  "exchange = fetch_op Exchange"

definition fetch_add ::
    "(nat list \<Rightarrow> nat list) \<Rightarrow> 'w::len word \<Rightarrow> std_memory_order \<Rightarrow> 'w word latomic \<Rightarrow> 'w word runtime \<Rightarrow>
     ('w word \<times> 'w word latomic \<times> 'w word runtime) res" where
  "fetch_add = fetch_op FetchAdd"

definition fetch_sub ::
    "(nat list \<Rightarrow> nat list) \<Rightarrow> 'w::len word \<Rightarrow> std_memory_order \<Rightarrow> 'w word latomic \<Rightarrow> 'w word runtime \<Rightarrow>
     ('w word \<times> 'w word latomic \<times> 'w word runtime) res" where
  "fetch_sub = fetch_op FetchSub"

definition fetch_max ::
    "(nat list \<Rightarrow> nat list) \<Rightarrow> 'w::len word \<Rightarrow> std_memory_order \<Rightarrow> 'w word latomic \<Rightarrow> 'w word runtime \<Rightarrow>
     ('w word \<times> 'w word latomic \<times> 'w word runtime) res" where
  "fetch_max = fetch_op FetchMax"

definition fetch_min ::
    "(nat list \<Rightarrow> nat list) \<Rightarrow> 'w::len word \<Rightarrow> std_memory_order \<Rightarrow> 'w word latomic \<Rightarrow> 'w word runtime \<Rightarrow>
     ('w word \<times> 'w word latomic \<times> 'w word runtime) res" where
  "fetch_min = fetch_op FetchMin"

definition fetch_and ::
    "(nat list \<Rightarrow> nat list) \<Rightarrow> 'w::len word \<Rightarrow> std_memory_order \<Rightarrow> 'w word latomic \<Rightarrow> 'w word runtime \<Rightarrow>
     ('w word \<times> 'w word latomic \<times> 'w word runtime) res" where
  "fetch_and = fetch_op FetchAnd"

definition fetch_or ::
    "(nat list \<Rightarrow> nat list) \<Rightarrow> 'w::len word \<Rightarrow> std_memory_order \<Rightarrow> 'w word latomic \<Rightarrow> 'w word runtime \<Rightarrow>
     ('w word \<times> 'w word latomic \<times> 'w word runtime) res" where
  "fetch_or = fetch_op FetchOr"

definition fetch_xor ::
    "(nat list \<Rightarrow> nat list) \<Rightarrow> 'w::len word \<Rightarrow> std_memory_order \<Rightarrow> 'w word latomic \<Rightarrow> 'w word runtime \<Rightarrow>
     ('w word \<times> 'w word latomic \<times> 'w word runtime) res" where
  "fetch_xor = fetch_op FetchXor"

definition add_assign ::
    "(nat list \<Rightarrow> nat list) \<Rightarrow> 'w::len word \<Rightarrow> 'w word latomic \<Rightarrow> 'w word runtime \<Rightarrow>
     ('w word \<times> 'w word latomic \<times> 'w word runtime) res" where
  "add_assign shuffle arg a c = andThen (fetch_add shuffle arg memory_order_seq_cst a c) (\<lambda>(v, a, c). Ret (v + arg, a, c))"

definition sub_assign ::
    "(nat list \<Rightarrow> nat list) \<Rightarrow> 'w::len word \<Rightarrow> 'w word latomic \<Rightarrow> 'w word runtime \<Rightarrow>
     ('w word \<times> 'w word latomic \<times> 'w word runtime) res" where
  "sub_assign shuffle arg a c = andThen (fetch_sub shuffle arg memory_order_seq_cst a c) (\<lambda>(v, a, c). Ret (v - arg, a, c))"

definition and_assign ::
    "(nat list \<Rightarrow> nat list) \<Rightarrow> 'w::len word \<Rightarrow> 'w word latomic \<Rightarrow> 'w word runtime \<Rightarrow>
     ('w word \<times> 'w word latomic \<times> 'w word runtime) res" where
  "and_assign shuffle arg a c = andThen (fetch_and shuffle arg memory_order_seq_cst a c) (\<lambda>(v, a, c). Ret (v AND arg, a, c))"

definition or_assign ::
    "(nat list \<Rightarrow> nat list) \<Rightarrow> 'w::len word \<Rightarrow> 'w word latomic \<Rightarrow> 'w word runtime \<Rightarrow>
     ('w word \<times> 'w word latomic \<times> 'w word runtime) res" where
  "or_assign shuffle arg a c = andThen (fetch_or shuffle arg memory_order_seq_cst a c) (\<lambda>(v, a, c). Ret (v OR arg, a, c))"

definition xor_assign ::
    "(nat list \<Rightarrow> nat list) \<Rightarrow> 'w::len word \<Rightarrow> 'w word latomic \<Rightarrow> 'w word runtime \<Rightarrow>
     ('w word \<times> 'w word latomic \<times> 'w word runtime) res" where
  "xor_assign shuffle arg a c = andThen (fetch_xor shuffle arg memory_order_seq_cst a c) (\<lambda>(v, a, c). Ret (v XOR arg, a, c))"

definition pre_increment ::
    "(nat list \<Rightarrow> nat list) \<Rightarrow> 'w::len word latomic \<Rightarrow> 'w word runtime \<Rightarrow>
     ('w word \<times> 'w word latomic \<times> 'w word runtime) res" where
  "pre_increment shuffle a c = andThen (fetch_add shuffle 1 memory_order_seq_cst a c) (\<lambda>(v, a, c). Ret (v + 1, a, c))"

definition post_increment ::
    "(nat list \<Rightarrow> nat list) \<Rightarrow> 'w::len word latomic \<Rightarrow> 'w word runtime \<Rightarrow>
     ('w word \<times> 'w word latomic \<times> 'w word runtime) res" where
  "post_increment shuffle a c = fetch_add shuffle 1 memory_order_seq_cst a c"

definition pre_decrement ::
    "(nat list \<Rightarrow> nat list) \<Rightarrow> 'w::len word latomic \<Rightarrow> 'w word runtime \<Rightarrow>
     ('w word \<times> 'w word latomic \<times> 'w word runtime) res" where
  "pre_decrement shuffle a c = andThen (fetch_sub shuffle 1 memory_order_seq_cst a c) (\<lambda>(v, a, c). Ret (v - 1, a, c))"

definition post_decrement ::
    "(nat list \<Rightarrow> nat list) \<Rightarrow> 'w::len word latomic \<Rightarrow> 'w word runtime \<Rightarrow>
     ('w word \<times> 'w word latomic \<times> 'w word runtime) res" where
  "post_decrement shuffle a c = fetch_sub shuffle 1 memory_order_seq_cst a c"

text \<open>
  A compare-exchange returns whether it succeeded and what it leaves in the caller's variable. The real atomic
  works on a copy of that variable; the weak form may fail although the values agree, which a parameter decides.
\<close>

definition real_compare_exchange :: "bool \<Rightarrow> 'v \<Rightarrow> 'v \<Rightarrow> 'v latomic \<Rightarrow> (bool \<times> 'v) \<times> 'v latomic" where
  "real_compare_exchange spurious expct des a =
     (if atomicValue a = expct \<and> \<not> spurious then ((True, expct), a\<lparr>atomicValue := des\<rparr>)
      else ((False, atomicValue a), a))"

definition compare_exchange_weak ::
    "(nat list \<Rightarrow> nat list) \<Rightarrow> bool \<Rightarrow> 'w::len word \<Rightarrow> 'w word \<Rightarrow> std_memory_order \<Rightarrow> std_memory_order \<Rightarrow>
     'w word latomic \<Rightarrow> 'w word runtime \<Rightarrow> ((bool \<times> 'w word) \<times> 'w word latomic \<times> 'w word runtime) res" where
  "compare_exchange_weak shuffle spurious expct des success failure a c =
     (case real_compare_exchange spurious expct des a of ((val, myExpected), a) \<Rightarrow>
      if IsWmmEnabled a c then
        andThen (OrderFromStd success) (\<lambda>s.
        andThen (OrderFromStd failure) (\<lambda>f.
        andThen (ReadModifyWrite shuffle (locationId a) (nat (this_thread_id c)) expct des s f (wmmGraph c)) (\<lambda>((rmwSuccess, readValue), left, x).
        Ret ((rmwSuccess, left), a, c\<lparr>wmmGraph := x\<rparr>))))
      else Ret ((val, myExpected), a, c))"

definition compare_exchange_strong ::
    "(nat list \<Rightarrow> nat list) \<Rightarrow> 'w::len word \<Rightarrow> 'w word \<Rightarrow> std_memory_order \<Rightarrow> std_memory_order \<Rightarrow>
     'w word latomic \<Rightarrow> 'w word runtime \<Rightarrow> ((bool \<times> 'w word) \<times> 'w word latomic \<times> 'w word runtime) res" where
  "compare_exchange_strong shuffle expct des success failure a c =
     (case real_compare_exchange False expct des a of ((val, myExpected), a) \<Rightarrow>
      if IsWmmEnabled a c then
        andThen (OrderFromStd success) (\<lambda>s.
        andThen (OrderFromStd failure) (\<lambda>f.
        andThen (ReadModifyWrite shuffle (locationId a) (nat (this_thread_id c)) expct des s f (wmmGraph c)) (\<lambda>((rmwSuccess, readValue), left, x).
        Ret ((rmwSuccess, left), a, c\<lparr>wmmGraph := x\<rparr>))))
      else Ret ((val, myExpected), a, c))"

text \<open>The overloads with one order use sequential consistency for a failure.\<close>

definition compare_exchange_weak_order ::
    "(nat list \<Rightarrow> nat list) \<Rightarrow> bool \<Rightarrow> 'w::len word \<Rightarrow> 'w word \<Rightarrow> std_memory_order \<Rightarrow>
     'w word latomic \<Rightarrow> 'w word runtime \<Rightarrow> ((bool \<times> 'w word) \<times> 'w word latomic \<times> 'w word runtime) res" where
  "compare_exchange_weak_order shuffle spurious expct des order a c =
     compare_exchange_weak shuffle spurious expct des order memory_order_seq_cst a c"

definition compare_exchange_strong_order ::
    "(nat list \<Rightarrow> nat list) \<Rightarrow> 'w::len word \<Rightarrow> 'w word \<Rightarrow> std_memory_order \<Rightarrow>
     'w word latomic \<Rightarrow> 'w word runtime \<Rightarrow> ((bool \<times> 'w word) \<times> 'w word latomic \<times> 'w word runtime) res" where
  "compare_exchange_strong_order shuffle expct des order a c =
     compare_exchange_strong shuffle expct des order memory_order_seq_cst a c"

end
