(* ===== verification/Coro_Runtime.thy ===== *)
theory Coro_Runtime
imports History "HOL-Library.Word"
begin

text \<open>
  The state of a coroutine and of the manager of blocked coroutines (src/runtime/include/block_manager.h,
  block_state.h, lib.h and src/runtime/lib.cpp). A pointer to a coroutine is a number; what a coroutine executes
  between two yields is code of the target and a parameter.
\<close>

section \<open>The block manager\<close>

record block_state =
  bs_addr :: int
  bs_value :: int

definition CanBeBlocked :: "(int \<Rightarrow> 32 word) \<Rightarrow> block_state \<Rightarrow> bool" where
  "CanBeBlocked memory s \<longleftrightarrow> uint (memory (bs_addr s)) = bs_value s"

text \<open>For each address the coroutines that wait on it, first come first.\<close>

type_synonym block_manager = "int \<rightharpoonup> nat list"

definition queue_at :: "block_manager \<Rightarrow> int \<Rightarrow> nat list" where
  "queue_at q a = (case q a of None \<Rightarrow> [] | Some cs \<Rightarrow> cs)"

definition BlockOn :: "block_state \<Rightarrow> nat \<Rightarrow> block_manager \<Rightarrow> block_manager" where
  "BlockOn s coro q =
     (let q = (if q (bs_addr s) = None then q(bs_addr s \<mapsto> []) else q) in
      q(bs_addr s \<mapsto> queue_at q (bs_addr s) @ [coro]))"

text \<open>The query creates an empty queue for an address it has not seen.\<close>

definition manager_IsBlocked :: "block_state \<Rightarrow> nat \<Rightarrow> block_manager \<Rightarrow> bool \<times> block_manager" where
  "manager_IsBlocked s coro q =
     (if bs_addr s = 0 then (False, q)
      else (coro \<in> set (queue_at q (bs_addr s)), q(bs_addr s \<mapsto> queue_at q (bs_addr s))))"

fun wake_loop :: "nat \<Rightarrow> nat \<Rightarrow> nat list \<Rightarrow> nat \<times> nat list" where
  "wake_loop wakes max_wakes queue =
     (if wakes < max_wakes then
        case queue of [] \<Rightarrow> (wakes, []) | c # cs \<Rightarrow> wake_loop (Suc wakes) max_wakes cs
      else (wakes, queue))"

declare wake_loop.simps [simp del]

definition UnblockOn :: "int \<Rightarrow> nat \<Rightarrow> block_manager \<Rightarrow> nat \<times> block_manager" where
  "UnblockOn a max_wakes q =
     (case q a of
        None \<Rightarrow> (0, q)
      | Some queue \<Rightarrow> (case wake_loop 0 max_wakes queue of (wakes, queue) \<Rightarrow> (wakes, q(a \<mapsto> queue))))"

definition UnblockAllOn :: "int \<Rightarrow> block_manager \<Rightarrow> block_manager" where
  "UnblockAllOn a q = (case q a of None \<Rightarrow> q | Some _ \<Rightarrow> q(a \<mapsto> []))"

definition UnblockAll :: "block_manager \<Rightarrow> block_manager" where
  "UnblockAll q = Map.empty"

lemma queue_BlockOn [simp]:
  "queue_at (BlockOn s c q) a = (if a = bs_addr s then queue_at q a @ [c] else queue_at q a)"
  by (simp add: BlockOn_def queue_at_def)

lemma queue_manager_IsBlocked [simp]: "queue_at (snd (manager_IsBlocked s c q)) a = queue_at q a"
  by (simp add: manager_IsBlocked_def queue_at_def)

lemma fst_manager_IsBlocked:
  "fst (manager_IsBlocked s c q) \<longleftrightarrow> bs_addr s \<noteq> 0 \<and> c \<in> set (queue_at q (bs_addr s))"
  by (simp add: manager_IsBlocked_def)

lemma wake_loop_eq: "wake_loop w n cs = (w + min (n - w) (length cs), drop (n - w) cs)"
proof (induction w n cs rule: wake_loop.induct)
  case (1 w n cs)
  show ?case
  proof (cases "w < n")
    case True
    then have "n - w = Suc (n - Suc w)" by simp
    then show ?thesis using True 1 by (cases cs) (simp_all add: wake_loop.simps [of w])
  qed (simp add: wake_loop.simps [of w])
qed

lemma queue_UnblockOn [simp]:
  "queue_at (snd (UnblockOn a n q)) b = (if b = a then drop n (queue_at q a) else queue_at q b)"
  by (simp add: UnblockOn_def queue_at_def wake_loop_eq split: option.split)

lemma wakes_UnblockOn: "fst (UnblockOn a n q) = min n (length (queue_at q a))"
  by (simp add: UnblockOn_def queue_at_def wake_loop_eq split: option.split)

lemma queue_UnblockAllOn [simp]: "queue_at (UnblockAllOn a q) b = (if b = a then [] else queue_at q b)"
  by (simp add: UnblockAllOn_def queue_at_def split: option.split)

lemma queue_UnblockAll [simp]: "queue_at (UnblockAll q) a = []"
  by (simp add: UnblockAll_def queue_at_def)

section \<open>Coroutines\<close>

datatype DualEventKind = RequestResponseKind | FollowUpInvokeKind | FollowUpResponseKind

record DualEvent =
  de_kind :: DualEventKind
  de_seqno :: "64 word"
  de_result :: value_wrapper

text \<open>
  \<open>CoroBase\<close> beyond what the checkers read. A wake-up condition is evaluated on an environment; \<open>coro_ctx\<close> says
  whether the fiber still has a context.
\<close>

record ('a, 'e) coro = "'a task" +
  wakeup_condition :: "('e \<Rightarrow> bool) option"
  fstate :: block_state
  coro_ctx :: bool
  is_dual_task :: bool
  pending_dual_events :: "DualEvent list"

definition no_block_state :: block_state where
  "no_block_state = \<lparr>bs_addr = 0, bs_value = 0\<rparr>"

definition New :: "nat \<Rightarrow> nat \<Rightarrow> 'a \<Rightarrow> string \<Rightarrow> int \<Rightarrow> ('a, 'e) coro" where
  "New slot addr args name ident =
     \<lparr>task_slot = slot, task_get = addr, task_id = ident, task_name = name, task_args = args, task_returned = False,
      task_ret = empty_wrapper, wakeup_condition = None, fstate = no_block_state, coro_ctx = True,
      is_dual_task = False, pending_dual_events = []\<rparr>"

definition SetDual :: "bool \<Rightarrow> ('a, 'e) coro \<Rightarrow> ('a, 'e) coro" where
  "SetDual v c = c\<lparr>is_dual_task := v\<rparr>"

definition Restart :: "nat \<Rightarrow> ('a, 'e) coro \<Rightarrow> ('a, 'e) coro res" where
  "Restart addr c =
     andThen (cpp_assert (task_returned c)) (\<lambda>_.
     Ret (SetDual (is_dual_task c) (New (task_slot c) addr (task_args c) (task_name c) (task_id c))))"

definition SetBlocked :: "block_state \<Rightarrow> ('a, 'e) coro \<Rightarrow> block_manager \<Rightarrow> ('a, 'e) coro \<times> block_manager" where
  "SetBlocked s c q = (c\<lparr>fstate := s\<rparr>, BlockOn s (task_get c) q)"

definition setWakeupCondition :: "('e \<Rightarrow> bool) \<Rightarrow> ('a, 'e) coro \<Rightarrow> ('a, 'e) coro" where
  "setWakeupCondition cond c = c\<lparr>wakeup_condition := Some cond\<rparr>"

definition clearWakeupCondition :: "('a, 'e) coro \<Rightarrow> ('a, 'e) coro" where
  "clearWakeupCondition c = c\<lparr>wakeup_condition := None\<rparr>"

definition hasWakeupCondition :: "('a, 'e) coro \<Rightarrow> bool" where
  "hasWakeupCondition c \<longleftrightarrow> wakeup_condition c \<noteq> None"

definition checkWakeupCondition :: "'e \<Rightarrow> ('a, 'e) coro \<Rightarrow> bool" where
  "checkWakeupCondition env c = (case wakeup_condition c of None \<Rightarrow> False | Some cond \<Rightarrow> cond env)"

definition IsBlocked :: "'e \<Rightarrow> ('a, 'e) coro \<Rightarrow> block_manager \<Rightarrow> bool \<times> block_manager" where
  "IsBlocked env c q =
     (case manager_IsBlocked (fstate c) (task_get c) q of (blocked, q) \<Rightarrow>
      if \<not> blocked then (False, q)
      else if hasWakeupCondition c then (\<not> checkWakeupCondition env c, q)
      else (True, q))"

definition DestroyContext :: "('a, 'e) coro \<Rightarrow> ('a, 'e) coro" where
  "DestroyContext c = c\<lparr>coro_ctx := False\<rparr>"

definition Terminate :: "('a, 'e) coro \<Rightarrow> ('a, 'e) coro" where
  "Terminate c = DestroyContext (clearWakeupCondition (c\<lparr>task_returned := True, fstate := no_block_state\<rparr>))"

definition DiscardRoundResults :: "('a, 'e) coro \<Rightarrow> ('a, 'e) coro" where
  "DiscardRoundResults c = c\<lparr>task_ret := empty_wrapper, pending_dual_events := []\<rparr>"

definition TerminateWith :: "value_wrapper \<Rightarrow> ('a, 'e) coro \<Rightarrow> ('a, 'e) coro" where
  "TerminateWith v c = (Terminate c)\<lparr>task_ret := v\<rparr>"

definition destroy_coro :: "('a, 'e) coro \<Rightarrow> unit res" where
  "destroy_coro c = cpp_assert (task_returned c)"

text \<open>The numbers of dual events come from one counter of the process.\<close>

definition EmitDualEvent ::
    "DualEventKind \<Rightarrow> value_wrapper \<Rightarrow> ('a, 'e) coro \<Rightarrow> 64 word \<Rightarrow> ('a, 'e) coro \<times> 64 word" where
  "EmitDualEvent kind result c counter =
     (c\<lparr>pending_dual_events := pending_dual_events c @ [\<lparr>de_kind = kind, de_seqno = counter, de_result = result\<rparr>]\<rparr>,
      counter + 1)"

definition DrainDualEvents :: "('a, 'e) coro \<Rightarrow> DualEvent list \<times> ('a, 'e) coro" where
  "DrainDualEvents c = (pending_dual_events c, c\<lparr>pending_dual_events := []\<rparr>)"

definition HasDualEvents :: "('a, 'e) coro \<Rightarrow> bool" where
  "HasDualEvents c \<longleftrightarrow> pending_dual_events c \<noteq> []"

text \<open>
  A resumed coroutine runs to its next yield; \<open>run\<close> is what the fiber executes on the thread, on the coroutine and
  the rest of the world.
\<close>

definition Resume ::
    "(nat \<Rightarrow> ('a, 'e) coro \<Rightarrow> 'w \<Rightarrow> ('a, 'e) coro \<times> 'w) \<Rightarrow> nat \<Rightarrow> ('a, 'e) coro \<Rightarrow> 'w \<Rightarrow> (('a, 'e) coro \<times> 'w) res" where
  "Resume run thread c w = andThen (cpp_assert (\<not> task_returned c \<and> coro_ctx c)) (\<lambda>_. Ret (run thread c w))"

section \<open>Test failures\<close>

record test_failure =
  test_failed :: bool
  test_failure_message :: string

definition SetTestFailure :: "string \<Rightarrow> test_failure \<Rightarrow> test_failure" where
  "SetTestFailure message f = f\<lparr>test_failure_message := message, test_failed := True\<rparr>"

definition HasTestFailure :: "test_failure \<Rightarrow> bool" where
  "HasTestFailure f = test_failed f"

definition GetTestFailureMessage :: "test_failure \<Rightarrow> string" where
  "GetTestFailureMessage f = test_failure_message f"

definition ClearTestFailure :: "test_failure \<Rightarrow> test_failure" where
  "ClearTestFailure f = f\<lparr>test_failed := False, test_failure_message := []\<rparr>"

text \<open>
  The end of a fiber: the value of the operation, a reported test failure, or another exception, which is thrown on
  and ends the process as a failed assertion does.
\<close>

datatype body_outcome = Returns value_wrapper | ThrowsTestFailure string | ThrowsOther

fun fiber_exit :: "body_outcome \<Rightarrow> ('a, 'e) coro \<Rightarrow> test_failure \<Rightarrow> (('a, 'e) coro \<times> test_failure) res" where
  "fiber_exit (Returns v) c f = Ret (c\<lparr>task_ret := v, task_returned := True\<rparr>, f)"
| "fiber_exit (ThrowsTestFailure msg) c f = Ret (c\<lparr>task_ret := void_v, task_returned := True\<rparr>, SetTestFailure msg f)"
| "fiber_exit ThrowsOther c f = Exn AssertionFailure"

end
