(* ===== verification/Blocking_Primitives.thy ===== *)
theory Blocking_Primitives
imports Coro_Runtime
begin

text \<open>
  The locks that replace those of the standard library in a tested program
  (src/runtime/include/blocking_primitives.h): \<open>mutex\<close>, \<open>condition_variable\<close>, \<open>shared_mutex_r\<close> and \<open>shared_mutex\<close>.
  Their operations run without interruption except at the calls of \<open>CoroYield\<close> they contain; a function below is
  what an operation executes from one such point to the next.
\<close>

section \<open>The coroutines a lock acts on\<close>

record ('a, 'e) coro_world =
  coro_at :: "nat \<Rightarrow> ('a, 'e) coro"
  queues :: block_manager

definition block_coro :: "block_state \<Rightarrow> nat \<Rightarrow> ('a, 'e) coro_world \<Rightarrow> ('a, 'e) coro_world" where
  "block_coro s c w =
     (case SetBlocked s (coro_at w c) (queues w) of (coro, q) \<Rightarrow> w\<lparr>coro_at := (coro_at w)(c := coro), queues := q\<rparr>)"

definition wake_all :: "int \<Rightarrow> ('a, 'e) coro_world \<Rightarrow> ('a, 'e) coro_world" where
  "wake_all a w = w\<lparr>queues := UnblockAllOn a (queues w)\<rparr>"

definition wake_one :: "int \<Rightarrow> ('a, 'e) coro_world \<Rightarrow> ('a, 'e) coro_world" where
  "wake_one a w = w\<lparr>queues := snd (UnblockOn a 1 (queues w))\<rparr>"

definition coro_blocked :: "'e \<Rightarrow> nat \<Rightarrow> ('a, 'e) coro_world \<Rightarrow> bool" where
  "coro_blocked env c w = fst (IsBlocked env (coro_at w c) (queues w))"

definition ask_blocked :: "'e \<Rightarrow> nat \<Rightarrow> ('a, 'e) coro_world \<Rightarrow> ('a, 'e) coro_world" where
  "ask_blocked env c w = w\<lparr>queues := snd (IsBlocked env (coro_at w c) (queues w))\<rparr>"

text \<open>What a coroutine does until it gives the control back: it yields inside the operation, or the call returns.\<close>

datatype 'p segment = Yields 'p | Acquired | Refused

section \<open>The mutex\<close>

record mutex =
  mutex_locked :: int

datatype mutex_pc = Lock | TryLock | TryLockYielded

definition mutex_state :: "int \<Rightarrow> mutex \<Rightarrow> block_state" where
  "mutex_state a m = \<lparr>bs_addr = a, bs_value = mutex_locked m\<rparr>"

definition mutex_lock ::
    "int \<Rightarrow> nat \<Rightarrow> mutex \<Rightarrow> ('a, 'e) coro_world \<Rightarrow> mutex_pc segment \<times> mutex \<times> ('a, 'e) coro_world" where
  "mutex_lock a c m w =
     (if mutex_locked m \<noteq> 0 then (Yields Lock, m, block_coro (mutex_state a m) c w)
      else (Acquired, m\<lparr>mutex_locked := 1\<rparr>, w))"

definition mutex_try_lock ::
    "mutex \<Rightarrow> ('a, 'e) coro_world \<Rightarrow> mutex_pc segment \<times> mutex \<times> ('a, 'e) coro_world" where
  "mutex_try_lock m w =
     (if mutex_locked m \<noteq> 0 then (Yields TryLockYielded, m, w) else (Acquired, m\<lparr>mutex_locked := 1\<rparr>, w))"

fun mutex_enter ::
    "int \<Rightarrow> mutex_pc \<Rightarrow> nat \<Rightarrow> mutex \<Rightarrow> ('a, 'e) coro_world \<Rightarrow> mutex_pc segment \<times> mutex \<times> ('a, 'e) coro_world" where
  "mutex_enter a Lock c m w = mutex_lock a c m w"
| "mutex_enter a TryLock c m w = mutex_try_lock m w"
| "mutex_enter a TryLockYielded c m w = (Refused, m, w)"

definition mutex_unlock :: "int \<Rightarrow> mutex \<Rightarrow> ('a, 'e) coro_world \<Rightarrow> mutex \<times> ('a, 'e) coro_world" where
  "mutex_unlock a m w = (m\<lparr>mutex_locked := 0\<rparr>, wake_all a w)"

section \<open>The condition variable\<close>

text \<open>The part of \<open>wait\<close> before it yields; when the coroutine is resumed it locks the mutex.\<close>

definition cv_wait ::
    "int \<Rightarrow> int \<Rightarrow> nat \<Rightarrow> mutex \<Rightarrow> ('a, 'e) coro_world \<Rightarrow> mutex \<times> ('a, 'e) coro_world" where
  "cv_wait mutex_addr cv_addr c m w =
     (case mutex_unlock mutex_addr m w of (m, w) \<Rightarrow> (m, block_coro \<lparr>bs_addr = cv_addr, bs_value = 1\<rparr> c w))"

definition notify_one :: "int \<Rightarrow> ('a, 'e) coro_world \<Rightarrow> ('a, 'e) coro_world" where
  "notify_one cv_addr w = wake_one cv_addr w"

definition notify_all :: "int \<Rightarrow> ('a, 'e) coro_world \<Rightarrow> ('a, 'e) coro_world" where
  "notify_all cv_addr w = wake_all cv_addr w"

section \<open>The simple shared mutex\<close>

record shared_mutex_r =
  smr_locked :: int

datatype smr_pc = SmrLock | SmrLockShared

definition smr_state :: "int \<Rightarrow> shared_mutex_r \<Rightarrow> block_state" where
  "smr_state a m = \<lparr>bs_addr = a, bs_value = smr_locked m\<rparr>"

definition smr_lock ::
    "int \<Rightarrow> nat \<Rightarrow> shared_mutex_r \<Rightarrow> ('a, 'e) coro_world \<Rightarrow> smr_pc segment \<times> shared_mutex_r \<times> ('a, 'e) coro_world" where
  "smr_lock a c m w =
     (if smr_locked m \<noteq> 0 then (Yields SmrLock, m, block_coro (smr_state a m) c w)
      else (Acquired, m\<lparr>smr_locked := - 1\<rparr>, w))"

definition smr_lock_shared ::
    "int \<Rightarrow> nat \<Rightarrow> shared_mutex_r \<Rightarrow> ('a, 'e) coro_world \<Rightarrow> smr_pc segment \<times> shared_mutex_r \<times> ('a, 'e) coro_world" where
  "smr_lock_shared a c m w =
     (if smr_locked m = - 1 then (Yields SmrLockShared, m, block_coro (smr_state a m) c w)
      else (Acquired, m\<lparr>smr_locked := smr_locked m + 1\<rparr>, w))"

fun smr_enter ::
    "int \<Rightarrow> smr_pc \<Rightarrow> nat \<Rightarrow> shared_mutex_r \<Rightarrow> ('a, 'e) coro_world
      \<Rightarrow> smr_pc segment \<times> shared_mutex_r \<times> ('a, 'e) coro_world" where
  "smr_enter a SmrLock c m w = smr_lock a c m w"
| "smr_enter a SmrLockShared c m w = smr_lock_shared a c m w"

definition smr_unlock :: "int \<Rightarrow> shared_mutex_r \<Rightarrow> ('a, 'e) coro_world \<Rightarrow> shared_mutex_r \<times> ('a, 'e) coro_world" where
  "smr_unlock a m w = (m\<lparr>smr_locked := 0\<rparr>, wake_all a w)"

definition smr_unlock_shared ::
    "int \<Rightarrow> shared_mutex_r \<Rightarrow> ('a, 'e) coro_world \<Rightarrow> shared_mutex_r \<times> ('a, 'e) coro_world" where
  "smr_unlock_shared a m w = (m\<lparr>smr_locked := smr_locked m - 1\<rparr>, wake_all a w)"

section \<open>The shared mutex\<close>

record shared_mutex =
  reader_count :: int
  write_holder :: "64 word"
  sm_mutex :: mutex

text \<open>The addresses of its three parts.\<close>

record sm_layout =
  mutex_addr :: int
  write_entered :: int
  no_readers :: int

definition new_shared_mutex :: shared_mutex where
  "new_shared_mutex = \<lparr>reader_count = 0, write_holder = - 1, sm_mutex = \<lparr>mutex_locked = 0\<rparr>\<rparr>"

definition has_write :: "shared_mutex \<Rightarrow> bool" where
  "has_write s \<longleftrightarrow> write_holder s \<noteq> - 1"

text \<open>
  Where a coroutine stands in \<open>lock\<close> or \<open>lock_shared\<close>: at its start, in the wait for the writer to leave, or in the
  wait for the readers to leave.
\<close>

datatype sm_pc = SmLock | SmLockWriter | SmLockReaders | SmShared | SmSharedWriter

definition sm_wait ::
    "sm_layout \<Rightarrow> int \<Rightarrow> sm_pc \<Rightarrow> nat \<Rightarrow> shared_mutex \<Rightarrow> ('a, 'e) coro_world
      \<Rightarrow> sm_pc segment \<times> shared_mutex \<times> ('a, 'e) coro_world" where
  "sm_wait l cv pc c s w =
     (case cv_wait (mutex_addr l) cv c (sm_mutex s) w of (m, w) \<Rightarrow> (Yields pc, s\<lparr>sm_mutex := m\<rparr>, w))"

definition sm_release ::
    "sm_layout \<Rightarrow> shared_mutex \<Rightarrow> ('a, 'e) coro_world \<Rightarrow> shared_mutex \<times> ('a, 'e) coro_world" where
  "sm_release l s w = (case mutex_unlock (mutex_addr l) (sm_mutex s) w of (m, w) \<Rightarrow> (s\<lparr>sm_mutex := m\<rparr>, w))"

definition sm_wait_readers ::
    "sm_layout \<Rightarrow> nat \<Rightarrow> shared_mutex \<Rightarrow> ('a, 'e) coro_world \<Rightarrow> sm_pc segment \<times> shared_mutex \<times> ('a, 'e) coro_world" where
  "sm_wait_readers l c s w =
     (if 0 < reader_count s then sm_wait l (no_readers l) SmLockReaders c s w else (Acquired, sm_release l s w))"

definition sm_lock_body ::
    "sm_layout \<Rightarrow> nat \<Rightarrow> nat \<Rightarrow> shared_mutex \<Rightarrow> ('a, 'e) coro_world
      \<Rightarrow> sm_pc segment \<times> shared_mutex \<times> ('a, 'e) coro_world" where
  "sm_lock_body l thread c s w =
     (if has_write s then sm_wait l (write_entered l) SmLockWriter c s w
      else sm_wait_readers l c (s\<lparr>write_holder := of_nat thread\<rparr>) w)"

definition sm_lock_shared_body ::
    "sm_layout \<Rightarrow> nat \<Rightarrow> shared_mutex \<Rightarrow> ('a, 'e) coro_world \<Rightarrow> sm_pc segment \<times> shared_mutex \<times> ('a, 'e) coro_world" where
  "sm_lock_shared_body l c s w =
     (if has_write s then sm_wait l (write_entered l) SmSharedWriter c s w
      else (Acquired, sm_release l (s\<lparr>reader_count := reader_count s + 1\<rparr>) w))"

text \<open>
  Every entry and every wait that ends starts by locking the inner mutex; when that yields, the coroutine stays where
  it is.
\<close>

fun sm_continue ::
    "sm_layout \<Rightarrow> nat \<Rightarrow> sm_pc \<Rightarrow> nat \<Rightarrow> shared_mutex \<Rightarrow> ('a, 'e) coro_world
      \<Rightarrow> sm_pc segment \<times> shared_mutex \<times> ('a, 'e) coro_world" where
  "sm_continue l thread SmLock c s w = sm_lock_body l thread c s w"
| "sm_continue l thread SmLockWriter c s w = sm_lock_body l thread c s w"
| "sm_continue l thread SmLockReaders c s w = sm_wait_readers l c s w"
| "sm_continue l thread SmShared c s w = sm_lock_shared_body l c s w"
| "sm_continue l thread SmSharedWriter c s w = sm_lock_shared_body l c s w"

definition sm_enter ::
    "sm_layout \<Rightarrow> nat \<Rightarrow> sm_pc \<Rightarrow> nat \<Rightarrow> shared_mutex \<Rightarrow> ('a, 'e) coro_world
      \<Rightarrow> sm_pc segment \<times> shared_mutex \<times> ('a, 'e) coro_world" where
  "sm_enter l thread pc c s w =
     (case mutex_lock (mutex_addr l) c (sm_mutex s) w of (outcome, m, w) \<Rightarrow>
      if outcome = Acquired then sm_continue l thread pc c (s\<lparr>sm_mutex := m\<rparr>) w
      else (Yields pc, s\<lparr>sm_mutex := m\<rparr>, w))"

text \<open>
  \<open>unlock\<close>, which \<open>unlock_shared\<close> calls; it would yield where the inner mutex is held, and None says that it does.
\<close>

definition sm_unlock_body ::
    "sm_layout \<Rightarrow> nat \<Rightarrow> shared_mutex \<Rightarrow> ('a, 'e) coro_world \<Rightarrow> shared_mutex \<times> ('a, 'e) coro_world" where
  "sm_unlock_body l thread s w =
     (if write_holder s = of_nat thread then (s\<lparr>write_holder := - 1\<rparr>, notify_all (write_entered l) w)
      else
        let s = s\<lparr>reader_count := reader_count s - 1\<rparr> in
        if has_write s \<and> reader_count s = 0 then (s, notify_one (no_readers l) w) else (s, w))"

definition sm_unlock ::
    "sm_layout \<Rightarrow> nat \<Rightarrow> nat \<Rightarrow> shared_mutex \<Rightarrow> ('a, 'e) coro_world \<Rightarrow> (shared_mutex \<times> ('a, 'e) coro_world) option" where
  "sm_unlock l thread c s w =
     (case mutex_lock (mutex_addr l) c (sm_mutex s) w of (outcome, m, w) \<Rightarrow>
      if outcome = Acquired then
        (case sm_unlock_body l thread (s\<lparr>sm_mutex := m\<rparr>) w of (s, w) \<Rightarrow> Some (sm_release l s w))
      else None)"

definition sm_unlock_shared ::
    "sm_layout \<Rightarrow> nat \<Rightarrow> nat \<Rightarrow> shared_mutex \<Rightarrow> ('a, 'e) coro_world \<Rightarrow> (shared_mutex \<times> ('a, 'e) coro_world) option" where
  "sm_unlock_shared l thread c s w = sm_unlock l thread c s w"

end
