(* ===== verification/Lock_Protocol.thy ===== *)
theory Lock_Protocol
imports Blocking_Primitives
begin

text \<open>
  Coroutines that use one lock of blocking_primitives.h, scheduled in any order between their yields, and the contract
  of a lock: one writer excludes everyone, no wake-up is lost, and a release never has to wait. The locale proves the
  contract of every reachable state from an invariant of the lock; the three locks interpret it.
\<close>

section \<open>Coroutines that use a lock\<close>

text \<open>
  What the three locks have in common: entry points of a call in a mode, the segments of a call, and the release,
  which is None where it would have to yield.
\<close>

datatype lock_mode = Exclusive | Shared

record ('s, 'p, 'a, 'e) lock_ops =
  lock_start :: "(lock_mode \<times> 'p) list"
  lock_enter :: "'p \<Rightarrow> nat \<Rightarrow> 's \<Rightarrow> ('a, 'e) coro_world \<Rightarrow> 'p segment \<times> 's \<times> ('a, 'e) coro_world"
  lock_leave :: "lock_mode \<Rightarrow> nat \<Rightarrow> 's \<Rightarrow> ('a, 'e) coro_world \<Rightarrow> ('s \<times> ('a, 'e) coro_world) option"

definition mutex_ops :: "int \<Rightarrow> (mutex, mutex_pc, 'a, 'e) lock_ops" where
  "mutex_ops a =
     \<lparr>lock_start = [(Exclusive, Lock), (Exclusive, TryLock)], lock_enter = mutex_enter a,
      lock_leave = \<lambda>mode c m w. Some (mutex_unlock a m w)\<rparr>"

definition smr_ops :: "int \<Rightarrow> (shared_mutex_r, smr_pc, 'a, 'e) lock_ops" where
  "smr_ops a =
     \<lparr>lock_start = [(Exclusive, SmrLock), (Shared, SmrLockShared)], lock_enter = smr_enter a,
      lock_leave = \<lambda>mode c m w. Some (case mode of Exclusive \<Rightarrow> smr_unlock a m w | Shared \<Rightarrow> smr_unlock_shared a m w)\<rparr>"

definition sm_ops :: "sm_layout \<Rightarrow> (nat \<Rightarrow> nat) \<Rightarrow> (shared_mutex, sm_pc, 'a, 'e) lock_ops" where
  "sm_ops l thread =
     \<lparr>lock_start = [(Exclusive, SmLock), (Shared, SmShared)], lock_enter = \<lambda>pc c. sm_enter l (thread c) pc c,
      lock_leave = \<lambda>mode c s w.
        (case mode of Exclusive \<Rightarrow> sm_unlock l (thread c) c s w | Shared \<Rightarrow> sm_unlock_shared l (thread c) c s w)\<rparr>"

text \<open>A coroutine is outside, waits inside a call for the lock, or has the lock.\<close>

datatype 'p lock_status = Outside | Waiting lock_mode 'p | Inside lock_mode

record ('s, 'p, 'a, 'e) lock_config =
  lock_object :: 's
  lock_world :: "('a, 'e) coro_world"
  lock_status :: "nat \<Rightarrow> 'p lock_status"

fun status_after :: "lock_mode \<Rightarrow> 'p segment \<Rightarrow> 'p lock_status" where
  "status_after mode (Yields p) = Waiting mode p"
| "status_after mode Acquired = Inside mode"
| "status_after mode Refused = Outside"

definition run_segment ::
    "('s, 'p, 'a, 'e) lock_ops \<Rightarrow> nat \<Rightarrow> lock_mode \<Rightarrow> 'p \<Rightarrow> ('s, 'p, 'a, 'e) lock_config \<Rightarrow> ('s, 'p, 'a, 'e) lock_config" where
  "run_segment ops c mode p k =
     (case lock_enter ops p c (lock_object k) (lock_world k) of (outcome, s, w) \<Rightarrow>
      \<lparr>lock_object = s, lock_world = w, lock_status = (lock_status k)(c := status_after mode outcome)\<rparr>)"

text \<open>
  A step of one of the coroutines \<open>C\<close>: it calls the lock, is resumed in a call because the scheduler finds that it is
  not blocked, or releases the lock.
\<close>

inductive lock_step ::
    "('s, 'p, 'a, 'e) lock_ops \<Rightarrow> nat set \<Rightarrow> ('s, 'p, 'a, 'e) lock_config \<Rightarrow> ('s, 'p, 'a, 'e) lock_config \<Rightarrow> bool"
  for ops :: "('s, 'p, 'a, 'e) lock_ops" and C :: "nat set" where
  call: "c \<in> C \<Longrightarrow> lock_status k c = Outside \<Longrightarrow> (mode, p) \<in> set (lock_start ops) \<Longrightarrow>
    lock_step ops C k (run_segment ops c mode p k)"
| resume: "c \<in> C \<Longrightarrow> lock_status k c = Waiting mode p \<Longrightarrow> \<not> coro_blocked env c (lock_world k) \<Longrightarrow>
    lock_step ops C k (run_segment ops c mode p (k\<lparr>lock_world := ask_blocked env c (lock_world k)\<rparr>))"
| release: "c \<in> C \<Longrightarrow> lock_status k c = Inside mode \<Longrightarrow>
    lock_leave ops mode c (lock_object k) (lock_world k) = Some (s, w) \<Longrightarrow>
    lock_step ops C k \<lparr>lock_object = s, lock_world = w, lock_status = (lock_status k)(c := Outside)\<rparr>"

text \<open>
  A new lock, no coroutine in a call, and no coroutine blocked. The locks set no wake-up condition, and none is set
  by a coroutine that calls them.
\<close>

definition world_ok :: "('a, 'e) coro_world \<Rightarrow> bool" where
  "world_ok w \<longleftrightarrow> (\<forall>c. task_get (coro_at w c) = c \<and> \<not> hasWakeupCondition (coro_at w c))"

definition lock_init :: "'s \<Rightarrow> ('a, 'e) coro_world \<Rightarrow> ('s, 'p, 'a, 'e) lock_config" where
  "lock_init s w = \<lparr>lock_object = s, lock_world = w\<lparr>queues := UnblockAll (queues w)\<rparr>, lock_status = \<lambda>_. Outside\<rparr>"

inductive lock_reachable ::
    "('s, 'p, 'a, 'e) lock_ops \<Rightarrow> nat set \<Rightarrow> 's \<Rightarrow> ('s, 'p, 'a, 'e) lock_config \<Rightarrow> bool"
  for ops :: "('s, 'p, 'a, 'e) lock_ops" and C :: "nat set" and s :: 's where
  init: "world_ok w \<Longrightarrow> lock_reachable ops C s (lock_init s w)"
| step: "lock_reachable ops C s k \<Longrightarrow> lock_step ops C k k' \<Longrightarrow> lock_reachable ops C s k'"

definition holders :: "lock_mode \<Rightarrow> ('s, 'p, 'a, 'e) lock_config \<Rightarrow> nat set" where
  "holders mode k = {c. lock_status k c = Inside mode}"

definition waiting :: "('s, 'p, 'a, 'e) lock_config \<Rightarrow> nat set" where
  "waiting k = {c. \<exists>mode p. lock_status k c = Waiting mode p}"

text \<open>The contract: one writer excludes everyone, and when no one has the lock some waiting call can end.\<close>

definition exclusive_access :: "('s, 'p, 'a, 'e) lock_config \<Rightarrow> bool" where
  "exclusive_access k \<longleftrightarrow> (\<forall>c\<in>holders Exclusive k. holders Exclusive k = {c} \<and> holders Shared k = {})"

definition call_ends :: "('s, 'p, 'a, 'e) lock_ops \<Rightarrow> nat \<Rightarrow> ('s, 'p, 'a, 'e) lock_config \<Rightarrow> bool" where
  "call_ends ops c k \<longleftrightarrow>
     (\<exists>mode p. lock_status k c = Waiting mode p \<and> (\<forall>env. \<not> coro_blocked env c (lock_world k)) \<and>
       (\<forall>env. lock_status (run_segment ops c mode p (k\<lparr>lock_world := ask_blocked env c (lock_world k)\<rparr>)) c
          \<in> {Inside mode, Outside}))"

definition releasable :: "('s, 'p, 'a, 'e) lock_ops \<Rightarrow> ('s, 'p, 'a, 'e) lock_config \<Rightarrow> bool" where
  "releasable ops k \<longleftrightarrow>
     (\<forall>c mode. lock_status k c = Inside mode \<longrightarrow> lock_leave ops mode c (lock_object k) (lock_world k) \<noteq> None)"

lemma blocked_iff:
  "world_ok w \<Longrightarrow>
    coro_blocked env c w \<longleftrightarrow> bs_addr (fstate (coro_at w c)) \<noteq> 0 \<and> c \<in> set (queue_at (queues w) (bs_addr (fstate (coro_at w c))))"
  by (simp add: coro_blocked_def IsBlocked_def world_ok_def case_prod_beta fst_manager_IsBlocked)

lemma queue_ask [simp]: "queue_at (queues (ask_blocked env c w)) a = queue_at (queues w) a"
  by (simp add: ask_blocked_def IsBlocked_def case_prod_beta)

lemma coro_ask [simp]: "coro_at (ask_blocked env c w) = coro_at w"
  by (simp add: ask_blocked_def)

lemma blocked_ask: "coro_blocked env c (ask_blocked env' d w) = coro_blocked env c w"
  by (simp add: coro_blocked_def IsBlocked_def case_prod_beta fst_manager_IsBlocked)

lemma world_ok_ask [simp]: "world_ok (ask_blocked env c w) = world_ok w"
  by (simp add: world_ok_def)

lemma world_ok_block [simp]: "world_ok w \<Longrightarrow> world_ok (block_coro s c w)"
  by (simp add: world_ok_def block_coro_def SetBlocked_def hasWakeupCondition_def)

lemma world_ok_wake [simp]: "world_ok (wake_all a w) = world_ok w" "world_ok (wake_one a w) = world_ok w"
  by (simp_all add: world_ok_def wake_all_def wake_one_def)

lemma queue_block [simp]:
  "world_ok w \<Longrightarrow>
    queue_at (queues (block_coro s c w)) a = (if a = bs_addr s then queue_at (queues w) a @ [c] else queue_at (queues w) a)"
  by (simp add: world_ok_def block_coro_def SetBlocked_def)

lemma fstate_block [simp]: "fstate (coro_at (block_coro s c w) d) = (if d = c then s else fstate (coro_at w d))"
  by (simp add: block_coro_def SetBlocked_def)

lemma queue_wake [simp]:
  "queue_at (queues (wake_all a w)) b = (if b = a then [] else queue_at (queues w) b)"
  "queue_at (queues (wake_one a w)) b = (if b = a then tl (queue_at (queues w) a) else queue_at (queues w) b)"
  by (simp_all add: wake_all_def wake_one_def drop_Suc)

lemma coro_wake [simp]: "coro_at (wake_all a w) = coro_at w" "coro_at (wake_one a w) = coro_at w"
  by (simp_all add: wake_all_def wake_one_def)

section \<open>The contract from an invariant\<close>

locale blocking_lock =
  fixes ops :: "('s, 'p, 'a, 'e) lock_ops" and C :: "nat set" and s\<^sub>0 :: 's
    and inv :: "('s, 'p, 'a, 'e) lock_config \<Rightarrow> bool"
  assumes inv_init: "world_ok w \<Longrightarrow> inv (lock_init s\<^sub>0 w)"
    and inv_ask: "inv k \<Longrightarrow> inv (k\<lparr>lock_world := ask_blocked env c (lock_world k)\<rparr>)"
    and inv_call: "inv k \<Longrightarrow> c \<in> C \<Longrightarrow> lock_status k c = Outside \<Longrightarrow> (mode, p) \<in> set (lock_start ops) \<Longrightarrow>
      inv (run_segment ops c mode p k)"
    and inv_resume: "inv k \<Longrightarrow> c \<in> C \<Longrightarrow> lock_status k c = Waiting mode p \<Longrightarrow> \<not> coro_blocked env c (lock_world k) \<Longrightarrow>
      inv (run_segment ops c mode p k)"
    and inv_release: "inv k \<Longrightarrow> c \<in> C \<Longrightarrow> lock_status k c = Inside mode \<Longrightarrow>
      lock_leave ops mode c (lock_object k) (lock_world k) = Some (s, w) \<Longrightarrow>
      inv \<lparr>lock_object = s, lock_world = w, lock_status = (lock_status k)(c := Outside)\<rparr>"
    and inv_exclusive: "inv k \<Longrightarrow> exclusive_access k"
    and inv_progress: "inv k \<Longrightarrow> holders Exclusive k = {} \<Longrightarrow> holders Shared k = {} \<Longrightarrow> c \<in> waiting k \<Longrightarrow>
      \<exists>d\<in>C. call_ends ops d k"
    and inv_releasable: "inv k \<Longrightarrow> releasable ops k"
begin

lemma reachable_inv: "lock_reachable ops C s\<^sub>0 k \<Longrightarrow> inv k"
proof (induction rule: lock_reachable.induct)
  case (step k k')
  from step.hyps(2) step.IH show ?case
    by (cases rule: lock_step.cases) (auto intro: inv_call inv_release inv_resume inv_ask simp: blocked_ask)
qed (rule inv_init)

lemma reachable_exclusive: "lock_reachable ops C s\<^sub>0 k \<Longrightarrow> exclusive_access k"
  by (rule inv_exclusive [OF reachable_inv])

lemma reachable_releasable: "lock_reachable ops C s\<^sub>0 k \<Longrightarrow> releasable ops k"
  by (rule inv_releasable [OF reachable_inv])

lemma reachable_progress:
  "lock_reachable ops C s\<^sub>0 k \<Longrightarrow> holders Exclusive k = {} \<Longrightarrow> holders Shared k = {} \<Longrightarrow> waiting k \<noteq> {} \<Longrightarrow>
    \<exists>d\<in>C. call_ends ops d k"
  using inv_progress [OF reachable_inv] by auto

end

end
