(* ===== verification/Lock_Safety.thy ===== *)
theory Lock_Safety
imports Lock_Protocol
begin

text \<open>
  The invariants of the three locks of blocking_primitives.h and their contracts: \<open>mutex\<close>, \<open>shared_mutex_r\<close> and
  \<open>shared_mutex\<close> interpret the locale of a blocking lock.
\<close>

section \<open>Holders after a step\<close>

lemma holders_status:
  "holders mode (k\<lparr>lock_status := (lock_status k)(c := st)\<rparr>) =
    (if st = Inside mode then insert c (holders mode k) else holders mode k - {c})"
  by (auto simp: holders_def)

lemma holders_make:
  "holders mode \<lparr>lock_object = s, lock_world = w, lock_status = (lock_status k)(c := st)\<rparr> =
    (if st = Inside mode then insert c (holders mode k) else holders mode k - {c})"
  by (auto simp: holders_def)

lemma holders_world [simp]: "holders mode (k\<lparr>lock_world := w\<rparr>) = holders mode k"
  by (simp add: holders_def)

lemma holders_init [simp]: "holders mode (lock_init s w) = {}"
  by (simp add: holders_def lock_init_def)

lemma not_holder: "lock_status k c \<noteq> Inside mode \<Longrightarrow> c \<notin> holders mode k"
  by (simp add: holders_def)

lemma world_ok_init [simp]: "world_ok w \<Longrightarrow> world_ok (w\<lparr>queues := q\<rparr>)"
  by (simp add: world_ok_def)

lemma not_blocked: "world_ok w \<Longrightarrow> \<forall>a. c \<notin> set (queue_at (queues w) a) \<Longrightarrow> \<not> coro_blocked env c w"
  by (simp add: blocked_iff)

lemma card_pred: "finite A \<Longrightarrow> c \<in> A \<Longrightarrow> int (card A - Suc 0) = int (card A) - 1"
  by (cases "card A") auto

section \<open>The mutex\<close>

definition mutex_inv :: "int \<Rightarrow> nat set \<Rightarrow> (mutex, mutex_pc, 'a, 'e) lock_config \<Rightarrow> bool" where
  "mutex_inv a C k \<longleftrightarrow>
     world_ok (lock_world k) \<and>
     (\<forall>b. b \<noteq> a \<longrightarrow> queue_at (queues (lock_world k)) b = []) \<and>
     (mutex_locked (lock_object k) = 0 \<and> holders Exclusive k = {} \<and> queue_at (queues (lock_world k)) a = [] \<or>
      mutex_locked (lock_object k) = 1 \<and> (\<exists>c. holders Exclusive k = {c})) \<and>
     holders Shared k = {} \<and>
     (\<forall>c. lock_status k c \<in> {Outside, Inside Exclusive, Waiting Exclusive Lock, Waiting Exclusive TryLockYielded}) \<and>
     (\<forall>c. lock_status k c \<noteq> Outside \<longrightarrow> c \<in> C)"

lemmas mutex_defs =
  mutex_inv_def mutex_ops_def run_segment_def mutex_lock_def mutex_try_lock_def mutex_unlock_def holders_make

lemma mutex_waiting:
  assumes "mutex_inv a C k" and s: "lock_status k c = Waiting mode p"
  shows "c \<in> C" "mode = Exclusive" "p = Lock \<or> p = TryLockYielded"
proof -
  have "lock_status k c \<in> {Outside, Inside Exclusive, Waiting Exclusive Lock, Waiting Exclusive TryLockYielded}"
    and "lock_status k c \<noteq> Outside \<longrightarrow> c \<in> C"
    using assms(1) unfolding mutex_inv_def by blast+
  with s show "c \<in> C" "mode = Exclusive" "p = Lock \<or> p = TryLockYielded" by auto
qed

lemma mutex_inv_enter:
  assumes inv: "mutex_inv a C k" and "c \<in> C" "\<forall>m. lock_status k c \<noteq> Inside m"
  shows "mutex_inv a C (run_segment (mutex_ops a) c Exclusive p k)"
proof -
  have "c \<notin> holders Exclusive k" "c \<notin> holders Shared k" using assms(3) by (simp_all add: holders_def)
  then show ?thesis
    using assms(1,2) by (cases p) (auto simp: mutex_defs mutex_state_def)
qed

interpretation mutex_lock: blocking_lock "mutex_ops a" C "\<lparr>mutex_locked = 0\<rparr>" "mutex_inv a C" for a C
proof
  fix k :: "(mutex, mutex_pc, 'a, 'e) lock_config" and c d env mode p
  assume inv: "mutex_inv a C k"
  show "mutex_inv a C (k\<lparr>lock_world := ask_blocked env c (lock_world k)\<rparr>)"
    using inv by (simp add: mutex_inv_def)
  show "exclusive_access k" using inv by (auto simp: mutex_inv_def exclusive_access_def)
  show "releasable (mutex_ops a) k" by (simp add: releasable_def mutex_ops_def)
  {
    assume "c \<in> C" "lock_status k c = Outside" "(mode, p) \<in> set (lock_start (mutex_ops a))"
    then show "mutex_inv a C (run_segment (mutex_ops a) c mode p k)"
      using mutex_inv_enter [OF inv, of c p] by (auto simp: mutex_ops_def)
  next
    assume s: "c \<in> C" "lock_status k c = Waiting mode p"
    then show "mutex_inv a C (run_segment (mutex_ops a) c mode p k)"
      using mutex_inv_enter [OF inv, of c p] mutex_waiting [OF inv s(2)] by simp
  next
    fix s w
    assume "c \<in> C" "lock_status k c = Inside mode"
      and l: "lock_leave (mutex_ops a) mode c (lock_object k) (lock_world k) = Some (s, w)"
    then have "c \<in> holders Exclusive k" using inv by (cases mode) (auto simp: mutex_inv_def holders_def)
    then show "mutex_inv a C \<lparr>lock_object = s, lock_world = w, lock_status = (lock_status k)(c := Outside)\<rparr>"
      using inv l by (auto simp: mutex_defs)
  next
    assume h: "holders Exclusive k = {}" "c \<in> waiting k"
    from h(2) obtain mode p where s: "lock_status k c = Waiting mode p" by (auto simp: waiting_def)
    note p = mutex_waiting [OF inv s]
    have q: "queue_at (queues (lock_world k)) b = []" for b using inv h(1) by (cases "b = a") (auto simp: mutex_inv_def)
    have "mutex_locked (lock_object k) = 0" using inv h(1) by (auto simp: mutex_inv_def)
    then have "call_ends (mutex_ops a) c k"
      using s p q inv by (auto simp: call_ends_def blocked_iff mutex_defs)
    with p(1) show "\<exists>d\<in>C. call_ends (mutex_ops a) d k" by blast
  }
next
  fix w :: "('a, 'e) coro_world"
  assume "world_ok w"
  then show "mutex_inv a C (lock_init \<lparr>mutex_locked = 0\<rparr> w)"
    by (auto simp: mutex_inv_def) (simp_all add: lock_init_def)
qed

section \<open>The simple shared mutex\<close>

definition smr_inv :: "int \<Rightarrow> nat set \<Rightarrow> (shared_mutex_r, smr_pc, 'a, 'e) lock_config \<Rightarrow> bool" where
  "smr_inv a C k \<longleftrightarrow>
     world_ok (lock_world k) \<and>
     (\<forall>b. b \<noteq> a \<longrightarrow> queue_at (queues (lock_world k)) b = []) \<and>
     (smr_locked (lock_object k) = 0 \<longrightarrow> queue_at (queues (lock_world k)) a = []) \<and>
     (smr_locked (lock_object k) = - 1 \<and> (\<exists>c. holders Exclusive k = {c}) \<and> holders Shared k = {} \<or>
      smr_locked (lock_object k) = int (card (holders Shared k)) \<and> finite (holders Shared k) \<and> holders Exclusive k = {}) \<and>
     (\<forall>c mode p. lock_status k c = Waiting mode p \<longrightarrow> (mode, p) \<in> {(Exclusive, SmrLock), (Shared, SmrLockShared)}) \<and>
     (\<forall>c. lock_status k c \<noteq> Outside \<longrightarrow> c \<in> C)"

lemmas smr_defs = smr_inv_def smr_ops_def run_segment_def smr_lock_def smr_lock_shared_def
  smr_unlock_def smr_unlock_shared_def smr_state_def holders_make

lemma smr_waiting:
  assumes "smr_inv a C k" and s: "lock_status k c = Waiting mode p"
  shows "c \<in> C" "mode = Exclusive \<and> p = SmrLock \<or> mode = Shared \<and> p = SmrLockShared"
proof -
  have "lock_status k c \<noteq> Outside \<longrightarrow> c \<in> C"
    and "(mode, p) \<in> {(Exclusive, SmrLock), (Shared, SmrLockShared)}"
    using assms unfolding smr_inv_def by blast+
  with s show "c \<in> C" "mode = Exclusive \<and> p = SmrLock \<or> mode = Shared \<and> p = SmrLockShared" by auto
qed

lemma smr_inv_enter:
  assumes inv: "smr_inv a C k" and "c \<in> C" "\<forall>m. lock_status k c \<noteq> Inside m"
    and p: "mode = Exclusive \<and> p = SmrLock \<or> mode = Shared \<and> p = SmrLockShared"
  shows "smr_inv a C (run_segment (smr_ops a) c mode p k)"
proof -
  have "c \<notin> holders Exclusive k" "c \<notin> holders Shared k" using assms(3) by (simp_all add: holders_def)
  then show ?thesis
    using assms(1,2) p by (elim disjE) (auto simp: smr_defs)
qed

lemma smr_inv_leave:
  assumes inv: "smr_inv a C k" and s: "lock_status k c = Inside mode"
    and l: "lock_leave (smr_ops a) mode c (lock_object k) (lock_world k) = Some (s, w)"
  shows "smr_inv a C \<lparr>lock_object = s, lock_world = w, lock_status = (lock_status k)(c := Outside)\<rparr>"
proof (cases mode)
  case Exclusive
  then have "c \<in> holders Exclusive k" using s by (simp add: holders_def)
  then show ?thesis using inv l Exclusive by (auto simp: smr_defs)
next
  case Shared
  then have "c \<in> holders Shared k" using s by (simp add: holders_def)
  then show ?thesis using inv l Shared by (auto simp: smr_defs card_pred)
qed

interpretation smr_lock: blocking_lock "smr_ops a" C "\<lparr>smr_locked = 0\<rparr>" "smr_inv a C" for a C
proof
  fix k :: "(shared_mutex_r, smr_pc, 'a, 'e) lock_config" and c d env mode p
  assume inv: "smr_inv a C k"
  show "smr_inv a C (k\<lparr>lock_world := ask_blocked env c (lock_world k)\<rparr>)"
    using inv by (simp add: smr_inv_def)
  show "exclusive_access k" using inv by (auto simp: smr_inv_def exclusive_access_def)
  show "releasable (smr_ops a) k" by (simp add: releasable_def smr_ops_def)
  {
    assume "c \<in> C" "lock_status k c = Outside" "(mode, p) \<in> set (lock_start (smr_ops a))"
    then show "smr_inv a C (run_segment (smr_ops a) c mode p k)"
      using smr_inv_enter [OF inv, of c mode p] by (simp add: smr_ops_def)
  next
    assume s: "c \<in> C" "lock_status k c = Waiting mode p"
    then show "smr_inv a C (run_segment (smr_ops a) c mode p k)"
      using smr_inv_enter [OF inv, of c mode p] smr_waiting [OF inv s(2)] by simp
  next
    fix s w
    assume "lock_status k c = Inside mode" "lock_leave (smr_ops a) mode c (lock_object k) (lock_world k) = Some (s, w)"
    with inv show "smr_inv a C \<lparr>lock_object = s, lock_world = w, lock_status = (lock_status k)(c := Outside)\<rparr>"
      by (rule smr_inv_leave)
  next
    assume h: "holders Exclusive k = {}" "holders Shared k = {}" "c \<in> waiting k"
    from h(3) obtain mode p where s: "lock_status k c = Waiting mode p" by (auto simp: waiting_def)
    note p = smr_waiting [OF inv s]
    have l: "smr_locked (lock_object k) = 0" using inv h by (auto simp: smr_inv_def)
    with inv have q: "queue_at (queues (lock_world k)) b = []" for b by (cases "b = a") (auto simp: smr_inv_def)
    have "call_ends (smr_ops a) c k"
      using p(2) s q inv l by (elim disjE conjE) (simp_all add: call_ends_def blocked_iff smr_defs)
    with p(1) show "\<exists>d\<in>C. call_ends (smr_ops a) d k" by blast
  }
next
  fix w :: "('a, 'e) coro_world"
  assume "world_ok w"
  then show "smr_inv a C (lock_init \<lparr>smr_locked = 0\<rparr> w)"
    by (auto simp: smr_inv_def) (simp_all add: lock_init_def)
qed

section \<open>The shared mutex\<close>

text \<open>The coroutine that has the lock as a writer or has announced itself and waits for the readers to leave.\<close>

definition writers :: "('s, sm_pc, 'a, 'e) lock_config \<Rightarrow> nat set" where
  "writers k = {c. lock_status k c \<in> {Inside Exclusive, Waiting Exclusive SmLockReaders}}"

definition layout_ok :: "sm_layout \<Rightarrow> bool" where
  "layout_ok l \<longleftrightarrow> distinct [0, mutex_addr l, write_entered l, no_readers l]"

text \<open>Each of the coroutines runs on a thread of its own, whose number is a nonnegative \<open>int\<close>.\<close>

definition threads_ok :: "(nat \<Rightarrow> nat) \<Rightarrow> nat set \<Rightarrow> bool" where
  "threads_ok thread C \<longleftrightarrow> inj_on thread C \<and> (\<forall>c\<in>C. thread c < 2 ^ 31)"

text \<open>The invariant in four parts: the inner mutex and the readers, the writer, who is woken, and who is where.\<close>

definition sm_readers :: "sm_layout \<Rightarrow> (shared_mutex, sm_pc, 'a, 'e) lock_config \<Rightarrow> bool" where
  "sm_readers l k \<longleftrightarrow>
     world_ok (lock_world k) \<and> mutex_locked (sm_mutex (lock_object k)) = 0 \<and>
     (\<forall>b. b \<noteq> write_entered l \<and> b \<noteq> no_readers l \<longrightarrow> queue_at (queues (lock_world k)) b = []) \<and>
     finite (holders Shared k) \<and> reader_count (lock_object k) = int (card (holders Shared k))"

definition sm_writer :: "sm_layout \<Rightarrow> (nat \<Rightarrow> nat) \<Rightarrow> nat set \<Rightarrow> (shared_mutex, sm_pc, 'a, 'e) lock_config \<Rightarrow> bool" where
  "sm_writer l thread C k \<longleftrightarrow>
     (if writers k = {} then \<not> has_write (lock_object k) \<and> queue_at (queues (lock_world k)) (write_entered l) = []
      else \<exists>c\<in>C. writers k = {c} \<and> write_holder (lock_object k) = of_nat (thread c)) \<and>
     (holders Exclusive k = {} \<or> holders Shared k = {})"

definition sm_woken :: "sm_layout \<Rightarrow> (shared_mutex, sm_pc, 'a, 'e) lock_config \<Rightarrow> bool" where
  "sm_woken l k \<longleftrightarrow>
     (queue_at (queues (lock_world k)) (no_readers l) = [] \<or>
      holders Shared k \<noteq> {} \<and>
      (\<exists>c. lock_status k c = Waiting Exclusive SmLockReaders \<and> queue_at (queues (lock_world k)) (no_readers l) = [c])) \<and>
     (\<forall>c. lock_status k c = Waiting Exclusive SmLockReaders \<longrightarrow> bs_addr (fstate (coro_at (lock_world k) c)) = no_readers l)"

definition sm_places :: "nat set \<Rightarrow> (shared_mutex, sm_pc, 'a, 'e) lock_config \<Rightarrow> bool" where
  "sm_places C k \<longleftrightarrow>
     (\<forall>c. lock_status k c \<in> {Outside, Inside Exclusive, Inside Shared, Waiting Exclusive SmLockWriter,
        Waiting Exclusive SmLockReaders, Waiting Shared SmSharedWriter}) \<and>
     (\<forall>c. lock_status k c \<noteq> Outside \<longrightarrow> c \<in> C)"

definition sm_inv ::
    "sm_layout \<Rightarrow> (nat \<Rightarrow> nat) \<Rightarrow> nat set \<Rightarrow> (shared_mutex, sm_pc, 'a, 'e) lock_config \<Rightarrow> bool" where
  "sm_inv l thread C k \<longleftrightarrow> sm_readers l k \<and> sm_writer l thread C k \<and> sm_woken l k \<and> sm_places C k"

lemma writers_make:
  "writers \<lparr>lock_object = s, lock_world = w, lock_status = (lock_status k)(c := st)\<rparr> =
    (if st \<in> {Inside Exclusive, Waiting Exclusive SmLockReaders} then insert c (writers k) else writers k - {c})"
  by (auto simp: writers_def)

lemma writers_world [simp]: "writers (k\<lparr>lock_world := w\<rparr>) = writers k"
  by (simp add: writers_def)

lemma holders_writers: "holders Exclusive k \<subseteq> writers k"
  by (auto simp: holders_def writers_def)

lemma thread_not_free: "threads_ok thread C \<Longrightarrow> c \<in> C \<Longrightarrow> (of_nat (thread c) :: 64 word) \<noteq> - 1"
proof
  assume t: "threads_ok thread C" "c \<in> C" and "(of_nat (thread c) :: 64 word) = - 1"
  then have "unat (of_nat (thread c) :: 64 word) = unat (- 1 :: 64 word)" by simp
  moreover have "thread c < 2 ^ 31" using t by (auto simp: threads_ok_def)
  ultimately show False by (simp add: unat_of_nat unsigned_minus_1_eq_mask mask_eq_exp_minus_1)
qed

lemma thread_inj:
  "threads_ok thread C \<Longrightarrow> c \<in> C \<Longrightarrow> d \<in> C \<Longrightarrow> (of_nat (thread c) :: 64 word) = of_nat (thread d) \<Longrightarrow> c = d"
proof -
  assume t: "threads_ok thread C" "c \<in> C" "d \<in> C" and "(of_nat (thread c) :: 64 word) = of_nat (thread d)"
  then have "unat (of_nat (thread c) :: 64 word) = unat (of_nat (thread d) :: 64 word)" by simp
  moreover have "thread c < 2 ^ 31" "thread d < 2 ^ 31" using t by (auto simp: threads_ok_def)
  ultimately have "thread c = thread d" by (simp add: unat_of_nat)
  then show "c = d" using t by (auto simp: threads_ok_def inj_on_def)
qed

lemmas sm_defs =
  sm_ops_def run_segment_def sm_enter_def mutex_lock_def sm_lock_body_def sm_lock_shared_body_def sm_wait_readers_def
  sm_wait_def cv_wait_def sm_release_def mutex_unlock_def sm_unlock_def sm_unlock_shared_def sm_unlock_body_def notify_all_def notify_one_def
  Let_def

lemma sm_waiting:
  assumes "sm_inv l thread C k" and s: "lock_status k c = Waiting mode p"
  shows "c \<in> C" "(mode, p) \<in> {(Exclusive, SmLockWriter), (Exclusive, SmLockReaders), (Shared, SmSharedWriter)}"
proof -
  have "lock_status k c \<in> {Outside, Inside Exclusive, Inside Shared, Waiting Exclusive SmLockWriter,
      Waiting Exclusive SmLockReaders, Waiting Shared SmSharedWriter}" and "lock_status k c \<noteq> Outside \<longrightarrow> c \<in> C"
    using assms(1) unfolding sm_inv_def sm_places_def by blast+
  with s show "c \<in> C" "(mode, p) \<in> {(Exclusive, SmLockWriter), (Exclusive, SmLockReaders), (Shared, SmSharedWriter)}"
    by auto
qed

lemma sm_has_write:
  assumes "sm_inv l thread C k" "threads_ok thread C"
  shows "has_write (lock_object k) \<longleftrightarrow> writers k \<noteq> {}"
proof (cases "writers k = {}")
  case False
  then obtain c where "c \<in> C" "write_holder (lock_object k) = of_nat (thread c)"
    using assms(1) by (auto simp: sm_inv_def sm_writer_def)
  then show ?thesis using False thread_not_free [OF assms(2), of c] by (simp add: has_write_def)
qed (use assms(1) in \<open>simp add: sm_inv_def sm_writer_def\<close>)

lemma sm_writer_is:
  assumes "sm_inv l thread C k" "c \<in> writers k"
  shows "writers k = {c}" "write_holder (lock_object k) = of_nat (thread c)"
  using assms by (auto simp: sm_inv_def sm_writer_def split: if_splits)

lemma waiting_writer: "lock_status k c = Waiting Exclusive SmLockReaders \<Longrightarrow> c \<in> writers k"
  by (simp add: writers_def)

lemmas sm_inv_parts = sm_inv_def sm_readers_def sm_writer_def sm_woken_def sm_places_def

lemma sm_inv_wait_writer:
  assumes inv: "sm_inv l thread C k" and l: "layout_ok l" and w: "writers k \<noteq> {}"
    and c: "c \<in> C" "c \<notin> holders Exclusive k" "c \<notin> holders Shared k" "c \<notin> writers k"
    and p: "(mode, p) \<in> {(Exclusive, SmLockWriter), (Shared, SmSharedWriter)}"
  shows "sm_inv l thread C
    \<lparr>lock_object = lock_object k,
     lock_world = block_coro \<lparr>bs_addr = write_entered l, bs_value = 1\<rparr> c (wake_all (mutex_addr l) (lock_world k)),
     lock_status = (lock_status k)(c := Waiting mode p)\<rparr>" (is "sm_inv l thread C ?k")
proof -
  have x: "lock_status k e = Waiting Exclusive SmLockReaders \<Longrightarrow> e \<noteq> c" for e using c(4) by (auto simp: writers_def)
  have h: "holders mode' ?k = holders mode' k" for mode' using c(2,3) by (cases mode') (simp_all add: holders_make)
  have r: "writers ?k = writers k" using c(4) p by (auto simp: writers_make)
  have ok: "world_ok (lock_world k)" using inv by (simp add: sm_inv_parts)
  have "sm_readers l ?k" using inv l ok by (simp add: sm_inv_def sm_readers_def h layout_ok_def)
  moreover have "sm_writer l thread C ?k" using inv w by (simp add: sm_inv_def sm_writer_def h r)
  moreover have "sm_woken l ?k"
    using inv l ok p x by (auto simp: sm_inv_def sm_woken_def h layout_ok_def)
  moreover have "sm_places C ?k" using inv c(1) p by (auto simp: sm_inv_def sm_places_def)
  ultimately show ?thesis by (simp only: sm_inv_def)
qed

lemma sm_inv_wait_readers:
  assumes inv: "sm_inv l thread C k" and l: "layout_ok l" and w: "writers k \<subseteq> {c}" and r: "0 < reader_count (lock_object k)"
    and c: "c \<in> C" "c \<notin> holders Exclusive k" "c \<notin> holders Shared k"
    and q: "queue_at (queues (lock_world k)) (no_readers l) = []"
  shows "sm_inv l thread C
    \<lparr>lock_object = (lock_object k)\<lparr>write_holder := of_nat (thread c)\<rparr>,
     lock_world = block_coro \<lparr>bs_addr = no_readers l, bs_value = 1\<rparr> c (wake_all (mutex_addr l) (lock_world k)),
     lock_status = (lock_status k)(c := Waiting Exclusive SmLockReaders)\<rparr>" (is "sm_inv l thread C ?k")
proof -
  have h: "holders mode' ?k = holders mode' k" for mode' using c(2,3) by (cases mode') (simp_all add: holders_make)
  have r': "writers ?k = {c}" using w by (auto simp: writers_make)
  have ok: "world_ok (lock_world k)" using inv by (simp add: sm_inv_parts)
  have s: "holders Shared k \<noteq> {}" using inv r by (auto simp: sm_inv_def sm_readers_def)
  have "sm_readers l ?k" using inv l ok by (simp add: sm_inv_def sm_readers_def h layout_ok_def)
  moreover have "sm_writer l thread C ?k" using inv c(1) by (simp add: sm_inv_def sm_writer_def h r')
  moreover have "sm_woken l ?k"
    using inv l ok s q by (auto simp: sm_inv_def sm_woken_def h layout_ok_def)
  moreover have "sm_places C ?k" using inv c(1) by (auto simp: sm_inv_def sm_places_def)
  ultimately show ?thesis by (simp only: sm_inv_def)
qed

lemma sm_inv_acquire:
  assumes inv: "sm_inv l thread C k" and l: "layout_ok l" and w: "writers k \<subseteq> {c}" and r: "\<not> 0 < reader_count (lock_object k)"
    and c: "c \<in> C"
  shows "sm_inv l thread C
    \<lparr>lock_object = (lock_object k)\<lparr>write_holder := of_nat (thread c)\<rparr>, lock_world = wake_all (mutex_addr l) (lock_world k),
     lock_status = (lock_status k)(c := Inside Exclusive)\<rparr>" (is "sm_inv l thread C ?k")
proof -
  have r': "writers ?k = {c}" using w by (auto simp: writers_make)
  have s: "holders Shared k = {}" using inv r by (auto simp: sm_inv_def sm_readers_def)
  then have h: "holders Shared ?k = {}" by (simp add: holders_make)
  have "sm_readers l ?k" using inv l s by (simp add: sm_inv_def sm_readers_def h layout_ok_def)
  moreover have "sm_writer l thread C ?k" using inv c by (simp add: sm_inv_def sm_writer_def h r')
  moreover have "sm_woken l ?k"
    using inv l s by (auto simp: sm_inv_def sm_woken_def h layout_ok_def)
  moreover have "sm_places C ?k" using inv c by (auto simp: sm_inv_def sm_places_def)
  ultimately show ?thesis by (simp only: sm_inv_def)
qed

lemma sm_inv_acquire_shared:
  assumes inv: "sm_inv l thread C k" and l: "layout_ok l" and w: "writers k = {}" and c: "c \<in> C" "c \<notin> holders Shared k"
  shows "sm_inv l thread C
    \<lparr>lock_object = (lock_object k)\<lparr>reader_count := reader_count (lock_object k) + 1\<rparr>,
     lock_world = wake_all (mutex_addr l) (lock_world k), lock_status = (lock_status k)(c := Inside Shared)\<rparr>"
    (is "sm_inv l thread C ?k")
proof -
  have r': "writers ?k = {}" using w by (auto simp: writers_make)
  then have h: "holders Exclusive ?k = {}" using holders_writers [of ?k] by simp
  have x: "lock_status k e \<noteq> Waiting Exclusive SmLockReaders" for e using w by (auto simp: writers_def)
  have "sm_readers l ?k" using inv l c(2) by (auto simp: sm_inv_def sm_readers_def layout_ok_def holders_make)
  moreover have "sm_writer l thread C ?k"
    using inv l w unfolding sm_inv_def sm_writer_def h r' by (simp add: layout_ok_def has_write_def)
  moreover have "sm_woken l ?k"
    using inv l x by (auto simp: sm_inv_def sm_woken_def layout_ok_def)
  moreover have "sm_places C ?k" using inv c(1) by (auto simp: sm_inv_def sm_places_def)
  ultimately show ?thesis by (simp only: sm_inv_def)
qed

lemma sm_inv_leave:
  assumes inv: "sm_inv l thread C k" and l: "layout_ok l" and s: "lock_status k c = Inside Exclusive"
  shows "sm_inv l thread C
    \<lparr>lock_object = (lock_object k)\<lparr>write_holder := - 1\<rparr>,
     lock_world = wake_all (mutex_addr l) (wake_all (write_entered l) (lock_world k)),
     lock_status = (lock_status k)(c := Outside)\<rparr>" (is "sm_inv l thread C ?k")
proof -
  have n: "c \<in> holders Exclusive k" "c \<in> writers k" "c \<notin> holders Shared k" using s by (simp_all add: holders_def writers_def)
  note w = sm_writer_is [OF inv n(2)]
  have r': "writers ?k = {}" using w by (auto simp: writers_make)
  then have h: "holders Exclusive ?k = {}" using holders_writers [of ?k] by simp
  have h': "holders Shared ?k = holders Shared k" using n(3) by (simp add: holders_make)
  have x: "lock_status k e \<noteq> Waiting Exclusive SmLockReaders" for e
    using w(1) s waiting_writer [of k e] by auto
  have "sm_readers l ?k" using inv l by (auto simp: sm_inv_def sm_readers_def layout_ok_def h')
  moreover have "sm_writer l thread C ?k" using l unfolding sm_writer_def h r' by (simp add: layout_ok_def has_write_def)
  moreover have "sm_woken l ?k" using inv l x by (auto simp: sm_inv_def sm_woken_def layout_ok_def)
  moreover have "sm_places C ?k" using inv by (auto simp: sm_inv_def sm_places_def)
  ultimately show ?thesis by (simp only: sm_inv_def)
qed

lemma sm_inv_leave_shared:
  assumes inv: "sm_inv l thread C k" and l: "layout_ok l" and s: "lock_status k c = Inside Shared"
    and w: "w = (if has_write (lock_object k) \<and> reader_count (lock_object k) = 1 then wake_one (no_readers l) (lock_world k) else lock_world k)"
    and t: "threads_ok thread C"
  shows "sm_inv l thread C
    \<lparr>lock_object = (lock_object k)\<lparr>reader_count := reader_count (lock_object k) - 1\<rparr>,
     lock_world = wake_all (mutex_addr l) w, lock_status = (lock_status k)(c := Outside)\<rparr>" (is "sm_inv l thread C ?k")
proof -
  have n: "c \<in> holders Shared k" "c \<notin> writers k" "c \<notin> holders Exclusive k" using s by (simp_all add: holders_def writers_def)
  have r': "writers ?k = writers k" using n by (simp add: writers_make)
  have h: "holders Exclusive ?k = holders Exclusive k" using n by (simp add: holders_make)
  have h': "holders Shared ?k = holders Shared k - {c}" by (simp add: holders_make)
  have x: "e \<noteq> c" if "lock_status k e = Waiting Exclusive SmLockReaders" for e using that s by auto
  have f: "finite (holders Shared k)" "reader_count (lock_object k) = int (card (holders Shared k))"
    using inv by (simp_all add: sm_inv_def sm_readers_def)
  then have one: "holders Shared k - {c} = {} \<longleftrightarrow> reader_count (lock_object k) = 1"
    using n(1) by (auto simp: card_1_singleton_iff)
  have "sm_readers l ?k" using inv l w n(1) by (auto simp: sm_inv_def sm_readers_def layout_ok_def holders_make card_pred)
  moreover have "sm_writer l thread C ?k"
    using inv l w h n(1) unfolding sm_inv_def sm_writer_def h h' r' by (auto simp: layout_ok_def has_write_def)
  moreover have "sm_woken l ?k"
    using inv l x one w sm_has_write [OF inv t] unfolding sm_inv_def sm_woken_def h'
    by (auto simp: layout_ok_def dest: waiting_writer)
  moreover have "sm_places C ?k" using inv by (auto simp: sm_inv_def sm_places_def)
  ultimately show ?thesis by (simp only: sm_inv_def)
qed

lemma sm_free: "sm_inv l thread C k \<Longrightarrow> (lock_object k)\<lparr>sm_mutex := (sm_mutex (lock_object k))\<lparr>mutex_locked := 0\<rparr>\<rparr> = lock_object k"
  by (simp add: sm_inv_def sm_readers_def)

lemma has_write_upd [simp]:
  "has_write (s\<lparr>sm_mutex := m\<rparr>) = has_write s" "has_write (s\<lparr>reader_count := n\<rparr>) = has_write s"
  by (simp_all add: has_write_def)

lemma sm_free_more:
  assumes "sm_inv l thread C k"
  shows "mutex_locked (sm_mutex (lock_object k)) = 0"
    "(lock_object k)\<lparr>write_holder := v, sm_mutex := (sm_mutex (lock_object k))\<lparr>mutex_locked := 0\<rparr>\<rparr> = (lock_object k)\<lparr>write_holder := v\<rparr>"
    "(lock_object k)\<lparr>reader_count := n, sm_mutex := (sm_mutex (lock_object k))\<lparr>mutex_locked := 0\<rparr>\<rparr> = (lock_object k)\<lparr>reader_count := n\<rparr>"
  using assms by (simp_all add: sm_inv_def sm_readers_def)

lemma sm_enter_lock:
  assumes inv: "sm_inv l thread C k" and l: "layout_ok l" and t: "threads_ok thread C" and c: "c \<in> C"
    and s: "lock_status k c \<in> {Outside, Waiting Exclusive SmLockWriter}" and p: "p = SmLock \<or> p = SmLockWriter"
  shows "sm_inv l thread C (run_segment (sm_ops l thread) c Exclusive p k)"
proof -
  have n: "c \<notin> holders Exclusive k" "c \<notin> holders Shared k" "c \<notin> writers k"
    using s by (auto simp: holders_def writers_def)
  note h = sm_has_write [OF inv t]
  note f = sm_free [OF inv] sm_free_more [OF inv]
  consider "has_write (lock_object k)" | "\<not> has_write (lock_object k)" "0 < reader_count (lock_object k)"
    | "\<not> has_write (lock_object k)" "\<not> 0 < reader_count (lock_object k)" by blast
  then show ?thesis
  proof cases
    case 1
    then have "writers k \<noteq> {}" using h by blast
    from sm_inv_wait_writer [OF inv l this c n, of Exclusive SmLockWriter] show ?thesis
      using p 1 by (elim disjE) (simp_all add: sm_defs f)
  next
    case 2
    have "queue_at (queues (lock_world k)) (no_readers l) = []"
      using inv 2(1) h waiting_writer [of k] by (auto simp: sm_inv_def sm_woken_def)
    with sm_inv_wait_readers [OF inv l _ 2(2) c n(1,2)] show ?thesis
      using p 2 h by (elim disjE) (simp_all add: sm_defs f)
  next
    case 3
    with sm_inv_acquire [OF inv l _ 3(2) c] show ?thesis
      using p h by (elim disjE) (simp_all add: sm_defs f)
  qed
qed

lemma sm_enter_readers:
  assumes inv: "sm_inv l thread C k" and l: "layout_ok l" and c: "c \<in> C"
    and s: "lock_status k c = Waiting Exclusive SmLockReaders" and b: "\<not> coro_blocked env c (lock_world k)"
  shows "sm_inv l thread C (run_segment (sm_ops l thread) c Exclusive SmLockReaders k)"
proof -
  have n: "c \<notin> holders Exclusive k" "c \<notin> holders Shared k" "c \<in> writers k"
    using s by (auto simp: holders_def writers_def)
  note d = sm_writer_is [OF inv n(3)]
  have e: "(lock_object k)\<lparr>write_holder := of_nat (thread c)\<rparr> = lock_object k"
    unfolding d(2) [symmetric] by simp
  note f = sm_free [OF inv] sm_free_more [OF inv]
  have ok: "world_ok (lock_world k)" using inv by (simp add: sm_inv_parts)
  have x: "e = c" if "lock_status k e = Waiting Exclusive SmLockReaders" for e
    using waiting_writer [OF that] d(1) by simp
  have "bs_addr (fstate (coro_at (lock_world k) c)) = no_readers l" using inv s by (simp add: sm_inv_def sm_woken_def)
  with b l have "c \<notin> set (queue_at (queues (lock_world k)) (no_readers l))" by (simp add: blocked_iff [OF ok] layout_ok_def)
  moreover have "queue_at (queues (lock_world k)) (no_readers l) \<in> {[], [c]}"
    using inv x unfolding sm_inv_def sm_woken_def by blast
  ultimately have q: "queue_at (queues (lock_world k)) (no_readers l) = []" by auto
  show ?thesis
  proof (cases "0 < reader_count (lock_object k)")
    case True
    with sm_inv_wait_readers [OF inv l _ True c n(1,2) q] d(1) show ?thesis by (simp add: sm_defs f e)
  next
    case False
    with sm_inv_acquire [OF inv l _ False c] d(1) show ?thesis by (simp add: sm_defs f e)
  qed
qed

lemma sm_enter_shared:
  assumes inv: "sm_inv l thread C k" and l: "layout_ok l" and t: "threads_ok thread C" and c: "c \<in> C"
    and s: "lock_status k c \<in> {Outside, Waiting Shared SmSharedWriter}" and p: "p = SmShared \<or> p = SmSharedWriter"
  shows "sm_inv l thread C (run_segment (sm_ops l thread) c Shared p k)"
proof -
  have n: "c \<notin> holders Exclusive k" "c \<notin> holders Shared k" "c \<notin> writers k"
    using s by (auto simp: holders_def writers_def)
  note h = sm_has_write [OF inv t]
  note f = sm_free [OF inv] sm_free_more [OF inv]
  show ?thesis
  proof (cases "has_write (lock_object k)")
    case True
    then have "writers k \<noteq> {}" using h by blast
    from sm_inv_wait_writer [OF inv l this c n, of Shared SmSharedWriter] show ?thesis
      using p True by (elim disjE) (simp_all add: sm_defs f)
  next
    case False
    then have "writers k = {}" using h by blast
    from sm_inv_acquire_shared [OF inv l this c n(2)] show ?thesis
      using p False by (elim disjE) (simp_all add: sm_defs f)
  qed
qed

lemma sm_leave:
  assumes inv: "sm_inv l thread C k" and l: "layout_ok l" and t: "threads_ok thread C" and c: "c \<in> C"
    and s: "lock_status k c = Inside mode"
    and u: "sm_unlock l (thread c) c (lock_object k) (lock_world k) = Some (s, w)"
  shows "sm_inv l thread C \<lparr>lock_object = s, lock_world = w, lock_status = (lock_status k)(c := Outside)\<rparr>"
proof (cases mode)
  case Exclusive
  then have "c \<in> writers k" using s by (simp add: writers_def)
  from sm_writer_is [OF inv this] show ?thesis
    using sm_inv_leave [OF inv l, of c] s u Exclusive by (auto simp: sm_defs sm_free [OF inv] sm_free_more [OF inv])
next
  case Shared
  have "write_holder (lock_object k) \<noteq> of_nat (thread c)"
  proof
    assume a: "write_holder (lock_object k) = of_nat (thread c)"
    then have "writers k \<noteq> {}" using sm_has_write [OF inv t] thread_not_free [OF t c] by (simp add: has_write_def)
    then obtain d where d: "d \<in> C" "d \<in> writers k" using inv by (auto simp: sm_inv_def sm_writer_def)
    then have "c = d" using sm_writer_is [OF inv d(2)] a thread_inj [OF t c d(1)] by simp
    with d s Shared show False by (simp add: writers_def)
  qed
  then show ?thesis
    using sm_inv_leave_shared [OF inv l, of c] s u t Shared
    by (auto simp: sm_defs sm_free [OF inv] sm_free_more [OF inv] split: if_splits)
qed

lemma sm_progress:
  assumes inv: "sm_inv l thread C k" and l: "layout_ok l" and t: "threads_ok thread C"
    and h: "holders Exclusive k = {}" "holders Shared k = {}" and c: "c \<in> waiting k"
  shows "\<exists>d\<in>C. call_ends (sm_ops l thread) d k"
proof -
  have ok: "world_ok (lock_world k)" and r: "reader_count (lock_object k) = 0"
    and q: "\<And>b. b \<noteq> write_entered l \<Longrightarrow> queue_at (queues (lock_world k)) b = []"
    using inv h(2) by (auto simp: sm_inv_def sm_readers_def sm_woken_def)
  note m = sm_has_write [OF inv t] sm_free_more(1) [OF inv]
  show ?thesis
  proof (cases "writers k = {}")
    case True
    then have "queue_at (queues (lock_world k)) b = []" for b
      using inv q by (cases "b = write_entered l") (auto simp: sm_inv_def sm_writer_def)
    moreover obtain mode p where s: "lock_status k c = Waiting mode p" using c by (auto simp: waiting_def)
    moreover note p = sm_waiting [OF inv s]
    ultimately have "call_ends (sm_ops l thread) c k"
      using m True r ok by (auto simp: call_ends_def blocked_iff sm_defs)
    with p(1) show ?thesis by blast
  next
    case False
    then obtain d where d: "d \<in> writers k" by blast
    then have s: "lock_status k d = Waiting Exclusive SmLockReaders" using h(1) by (auto simp: writers_def holders_def)
    then have "bs_addr (fstate (coro_at (lock_world k) d)) = no_readers l" using inv by (simp add: sm_inv_def sm_woken_def)
    with q l ok s m r have "call_ends (sm_ops l thread) d k"
      by (simp add: call_ends_def blocked_iff sm_defs layout_ok_def)
    with sm_waiting(1) [OF inv s] show ?thesis by blast
  qed
qed

lemma sm_blocking_lock:
  assumes l: "layout_ok l" and t: "threads_ok thread C"
  shows "blocking_lock (sm_ops l thread) C new_shared_mutex (sm_inv l thread C)"
proof
  fix k :: "(shared_mutex, sm_pc, 'a, 'e) lock_config" and c d env mode p
  assume inv: "sm_inv l thread C k"
  show "sm_inv l thread C (k\<lparr>lock_world := ask_blocked env c (lock_world k)\<rparr>)"
    using inv by (simp add: sm_inv_parts)
  have "holders Exclusive k = {c} \<and> holders Shared k = {}" if "c \<in> holders Exclusive k" for c
    using that sm_writer_is(1) [OF inv, of c] holders_writers [of k] inv by (auto simp: sm_inv_def sm_writer_def)
  then show "exclusive_access k" by (simp add: exclusive_access_def)
  show "releasable (sm_ops l thread) k"
    using sm_free_more(1) [OF inv] by (simp add: releasable_def sm_ops_def sm_unlock_def sm_unlock_shared_def mutex_lock_def case_prod_beta split: lock_mode.split)
  {
    assume c: "c \<in> C" "lock_status k c = Outside" "(mode, p) \<in> set (lock_start (sm_ops l thread))"
    then show "sm_inv l thread C (run_segment (sm_ops l thread) c mode p k)"
      using sm_enter_lock [OF inv l t c(1), of p] sm_enter_shared [OF inv l t c(1), of p] by (auto simp: sm_ops_def)
  next
    assume s: "c \<in> C" "lock_status k c = Waiting mode p" "\<not> coro_blocked env c (lock_world k)"
    then show "sm_inv l thread C (run_segment (sm_ops l thread) c mode p k)"
      using sm_enter_lock [OF inv l t s(1), of p] sm_enter_shared [OF inv l t s(1), of p]
        sm_enter_readers [OF inv l s(1), of env] sm_waiting(2) [OF inv s(2)] by auto
  next
    fix s w
    assume "c \<in> C" "lock_status k c = Inside mode"
      and "lock_leave (sm_ops l thread) mode c (lock_object k) (lock_world k) = Some (s, w)"
    with sm_leave [OF inv l t]
    show "sm_inv l thread C \<lparr>lock_object = s, lock_world = w, lock_status = (lock_status k)(c := Outside)\<rparr>"
      by (cases mode) (simp_all add: sm_ops_def sm_unlock_shared_def)
  next
    assume "holders Exclusive k = {}" "holders Shared k = {}" "c \<in> waiting k"
    with inv l t show "\<exists>d\<in>C. call_ends (sm_ops l thread) d k" by (rule sm_progress)
  }
next
  fix w :: "('a, 'e) coro_world"
  assume w: "world_ok w"
  have "writers (lock_init new_shared_mutex w) = {}" by (simp add: writers_def lock_init_def)
  with w show "sm_inv l thread C (lock_init new_shared_mutex w)"
    by (auto simp: sm_inv_parts has_write_def) (simp_all add: lock_init_def new_shared_mutex_def)
qed

lemma sm_reader_count: "sm_inv l thread C k \<Longrightarrow> reader_count (lock_object k) = int (card (holders Shared k))"
  by (simp add: sm_inv_def sm_readers_def)

section \<open>What the locks guarantee\<close>

definition example_world :: "(unit, unit) coro_world" where
  "example_world = \<lparr>coro_at = \<lambda>c. New c c () [] 0, queues = Map.empty\<rparr>"

definition example_layout :: sm_layout where
  "example_layout = \<lparr>mutex_addr = 8, write_entered = 16, no_readers = 24\<rparr>"

abbreviation example_sm :: "(shared_mutex, sm_pc, unit, unit) lock_ops" where
  "example_sm \<equiv> sm_ops example_layout id"

abbreviation example_mutex :: "(mutex, mutex_pc, unit, unit) lock_ops" where
  "example_mutex \<equiv> mutex_ops 8"

text \<open>Functions that make the steps of a given run.\<close>

definition resume_call :: "('s, 'p, 'a, 'e) lock_ops \<Rightarrow> 'e \<Rightarrow> nat \<Rightarrow> ('s, 'p, 'a, 'e) lock_config \<Rightarrow> ('s, 'p, 'a, 'e) lock_config" where
  "resume_call ops env c k =
     (case lock_status k c of
        Waiting mode p \<Rightarrow> if coro_blocked env c (lock_world k) then k
          else run_segment ops c mode p (k\<lparr>lock_world := ask_blocked env c (lock_world k)\<rparr>)
      | _ \<Rightarrow> k)"

definition release_lock :: "('s, 'p, 'a, 'e) lock_ops \<Rightarrow> nat \<Rightarrow> ('s, 'p, 'a, 'e) lock_config \<Rightarrow> ('s, 'p, 'a, 'e) lock_config" where
  "release_lock ops c k =
     (case lock_status k c of
        Inside mode \<Rightarrow> (case lock_leave ops mode c (lock_object k) (lock_world k) of
            None \<Rightarrow> k
          | Some (s, w) \<Rightarrow> \<lparr>lock_object = s, lock_world = w, lock_status = (lock_status k)(c := Outside)\<rparr>)
      | _ \<Rightarrow> k)"

lemma reachable_resume: "lock_reachable ops C s k \<Longrightarrow> c \<in> C \<Longrightarrow> lock_reachable ops C s (resume_call ops env c k)"
  by (auto simp: resume_call_def split: lock_status.split intro: lock_reachable.step lock_step.resume)

lemma reachable_release: "lock_reachable ops C s k \<Longrightarrow> c \<in> C \<Longrightarrow> lock_reachable ops C s (release_lock ops c k)"
  by (auto simp: release_lock_def split: lock_status.split option.split intro: lock_reachable.step lock_step.release)

lemma reachable_call:
  "lock_reachable ops C s k \<Longrightarrow> c \<in> C \<Longrightarrow> lock_status k c = Outside \<Longrightarrow> (mode, p) \<in> set (lock_start ops) \<Longrightarrow>
    lock_reachable ops C s (run_segment ops c mode p k)"
  by (rule lock_reachable.step [OF _ lock_step.call])

lemma example_init: "lock_reachable ops C s (lock_init s example_world)"
  by (rule lock_reachable.init) (simp add: world_ok_def example_world_def New_def hasWakeupCondition_def)

lemma example_ok: "layout_ok example_layout" "threads_ok id {0, 1, 2}"
  by (simp_all add: layout_ok_def example_layout_def threads_ok_def)

text \<open>A reader has the lock and a writer waits for it; then the reader leaves.\<close>

definition reader_and_writer :: "(shared_mutex, sm_pc, unit, unit) lock_config" where
  "reader_and_writer =
     run_segment example_sm 1 Exclusive SmLock
       (run_segment example_sm 0 Shared SmShared (lock_init new_shared_mutex example_world))"

definition writer_left :: "(shared_mutex, sm_pc, unit, unit) lock_config" where
  "writer_left = release_lock example_sm 0 reader_and_writer"

lemmas example_defs =
  reader_and_writer_def writer_left_def run_segment_def release_lock_def resume_call_def sm_defs lock_init_def new_shared_mutex_def has_write_def
  example_layout_def

lemma reader_and_writer_status:
  "lock_status reader_and_writer 0 = Inside Shared" "lock_status reader_and_writer 1 = Waiting Exclusive SmLockReaders"
  "c \<notin> {0, 1} \<Longrightarrow> lock_status reader_and_writer c = Outside"
  by (simp_all add: example_defs)

lemma reader_and_writer_reachable: "lock_reachable example_sm {0, 1, 2} new_shared_mutex reader_and_writer"
  unfolding reader_and_writer_def
  by (intro reachable_call example_init) (simp_all add: example_defs)

lemma writer_left_reachable: "lock_reachable example_sm {0, 1, 2} new_shared_mutex writer_left"
  unfolding writer_left_def by (rule reachable_release [OF reader_and_writer_reachable]) simp

lemma writer_left_status:
  "lock_status writer_left 1 = Waiting Exclusive SmLockReaders" "c \<noteq> 1 \<Longrightarrow> lock_status writer_left c = Outside"
  by (simp_all add: example_defs)

text \<open>
  C9. \<open>shared_mutex\<close> is a reader-writer lock: however the coroutines that use it are interleaved, a coroutine that has
  it exclusively is the only one that has it, \<open>reader_count_\<close> is the number of coroutines that share it, and no release
  has to wait for the inner mutex. The coroutines run on different threads.
\<close>

theorem shared_mutex_exclusive:
  assumes "layout_ok l" "threads_ok thread C" "lock_reachable (sm_ops l thread) C new_shared_mutex k"
  shows "exclusive_access k \<and> releasable (sm_ops l thread) k \<and>
    reader_count (lock_object k) = int (card (holders Shared k))"
  using blocking_lock.reachable_exclusive [OF sm_blocking_lock [OF assms(1,2)] assms(3)]
    blocking_lock.reachable_releasable [OF sm_blocking_lock [OF assms(1,2)] assms(3)]
    sm_reader_count [OF blocking_lock.reachable_inv [OF sm_blocking_lock [OF assms(1,2)] assms(3)]]
  by blast

theorem shared_mutex_exclusive_witness:
  "lock_status reader_and_writer 0 = Inside Shared \<and> exclusive_access reader_and_writer \<and>
   releasable example_sm reader_and_writer \<and>
   reader_count (lock_object reader_and_writer) = int (card (holders Shared reader_and_writer))"
  using shared_mutex_exclusive [OF example_ok reader_and_writer_reachable] reader_and_writer_status(1) by blast

text \<open>
  C10. \<open>shared_mutex\<close> loses no wake-up: whenever coroutines wait for it and none has it, one of those that wait is not
  blocked, and its call returns the next time it is resumed.
\<close>

theorem shared_mutex_no_lost_wakeup:
  assumes "layout_ok l" "threads_ok thread C" "lock_reachable (sm_ops l thread) C new_shared_mutex k"
    and "holders Exclusive k = {}" "holders Shared k = {}" "waiting k \<noteq> {}"
  shows "\<exists>c\<in>C. call_ends (sm_ops l thread) c k"
  by (rule blocking_lock.reachable_progress [OF sm_blocking_lock [OF assms(1,2)] assms(3-6)])

theorem shared_mutex_no_lost_wakeup_witness:
  "waiting writer_left = {1} \<and> (\<exists>c\<in>{0, 1, 2}. call_ends example_sm c writer_left)"
proof -
  have h: "holders mode writer_left = {}" for mode
    using writer_left_status by (auto simp: holders_def) (metis lock_status.distinct(3,5))
  have w: "waiting writer_left = {1}"
    using writer_left_status by (auto simp: waiting_def) (metis lock_status.distinct(1))
  show ?thesis
    using shared_mutex_no_lost_wakeup [OF example_ok writer_left_reachable h h] w by simp
qed

text \<open>
  C35. \<open>mutex\<close>: however the coroutines that call \<open>lock\<close>, \<open>try_lock\<close> and \<open>unlock\<close> are interleaved, at most one has
  the mutex, and whenever some call waits and no coroutine has the mutex, a call that waits can be resumed and returns.
\<close>

theorem mutex_correct:
  assumes "lock_reachable (mutex_ops a) C \<lparr>mutex_locked = 0\<rparr> k"
  shows "exclusive_access k \<and> (holders Exclusive k = {} \<and> holders Shared k = {} \<and> waiting k \<noteq> {} \<longrightarrow> (\<exists>c\<in>C. call_ends (mutex_ops a) c k))"
  using mutex_lock.reachable_exclusive [OF assms] mutex_lock.reachable_progress [OF assms] by blast

definition mutex_waiter :: "(mutex, mutex_pc, unit, unit) lock_config" where
  "mutex_waiter =
     release_lock example_mutex 0
       (run_segment example_mutex 1 Exclusive Lock
         (run_segment example_mutex 0 Exclusive TryLock (lock_init \<lparr>mutex_locked = 0\<rparr> example_world)))"

lemmas mutex_waiter_defs = mutex_waiter_def release_lock_def lock_init_def mutex_state_def mutex_defs

lemma mutex_waiter_status:
  "lock_status mutex_waiter 1 = Waiting Exclusive Lock" "c \<noteq> 1 \<Longrightarrow> lock_status mutex_waiter c = Outside"
  by (simp_all add: mutex_waiter_defs)

lemma mutex_waiter_reachable: "lock_reachable example_mutex {0, 1} \<lparr>mutex_locked = 0\<rparr> mutex_waiter"
  unfolding mutex_waiter_def
  by (intro reachable_release reachable_call example_init) (simp_all add: mutex_waiter_defs)

theorem mutex_correct_witness:
  "lock_status mutex_waiter 1 = Waiting Exclusive Lock \<and> (\<exists>c\<in>{0, 1}. call_ends example_mutex c mutex_waiter)"
proof -
  have h: "holders mode mutex_waiter = {}" for mode
    using mutex_waiter_status by (auto simp: holders_def) (metis lock_status.distinct(3,5))
  have w: "waiting mutex_waiter \<noteq> {}"
    using mutex_waiter_status(1) by (auto simp: waiting_def)
  show ?thesis
    using mutex_correct [OF mutex_waiter_reachable] h w mutex_waiter_status(1) by simp
qed

text \<open>The simple shared mutex keeps the same contract.\<close>

lemma shared_mutex_r_correct:
  assumes "lock_reachable (smr_ops a) C \<lparr>smr_locked = 0\<rparr> k"
  shows "exclusive_access k \<and> (holders Exclusive k = {} \<and> holders Shared k = {} \<and> waiting k \<noteq> {} \<longrightarrow> (\<exists>c\<in>C. call_ends (smr_ops a) c k))"
  using smr_lock.reachable_exclusive [OF assms] smr_lock.reachable_progress [OF assms] by blast

text \<open>
  The writers of \<open>shared_mutex\<close> are not served in the order of their calls: the coroutine 1 waits for the lock, the
  coroutine 2 calls it later, and when the owner leaves, the coroutine 2 gets it.
\<close>

definition second_overtakes :: "(shared_mutex, sm_pc, unit, unit) lock_config \<Rightarrow> (shared_mutex, sm_pc, unit, unit) lock_config" where
  "second_overtakes k = resume_call example_sm () 2 (release_lock example_sm 0 k)"

definition two_waiting :: "(shared_mutex, sm_pc, unit, unit) lock_config" where
  "two_waiting =
     run_segment example_sm 2 Exclusive SmLock
       (run_segment example_sm 1 Exclusive SmLock
         (run_segment example_sm 0 Exclusive SmLock (lock_init new_shared_mutex example_world)))"

lemma two_waiting_reachable: "lock_reachable example_sm {0, 1, 2} new_shared_mutex two_waiting"
  unfolding two_waiting_def
  by (intro reachable_call example_init) (simp_all add: example_defs)

lemma shared_mutex_not_fifo:
  "lock_reachable example_sm {0, 1, 2} new_shared_mutex (second_overtakes two_waiting) \<and>
   lock_status (second_overtakes two_waiting) 1 = Waiting Exclusive SmLockWriter \<and>
   lock_status (second_overtakes two_waiting) 2 = Inside Exclusive"
proof (intro conjI)
  show "lock_reachable example_sm {0, 1, 2} new_shared_mutex (second_overtakes two_waiting)"
    unfolding second_overtakes_def by (intro reachable_resume reachable_release two_waiting_reachable) simp_all
  show "lock_status (second_overtakes two_waiting) 1 = Waiting Exclusive SmLockWriter"
    "lock_status (second_overtakes two_waiting) 2 = Inside Exclusive"
    by code_simp+
qed

end
