(* ===== verification/Strategy_State.thy ===== *)
theory Strategy_State
imports Coro_Runtime Strategy_Verifier Wmm_Graph
begin

text \<open>
  The state every strategy shares (src/runtime/include/scheduler.h: \<open>Strategy\<close> and \<open>BaseStrategyWithThreads\<close>) and
  the simulation of the operating system it inherits (src/runtime/os_simulator.cpp). What the tested program does,
  the construction of a target and the random numbers are parameters.
\<close>

section \<open>The machine a coroutine runs on\<close>

text \<open>
  A request of the running coroutine to the simulated system. The function of a new thread is the argument of the
  coroutine that runs it; the pointer for the result of a join is a number, zero for null.
\<close>

datatype 'a thread_request = CreatedThreadInfo 'a string | JoinThreadInfo nat nat

record ('a, 'v, 'm) machine =
  blocked_queues :: block_manager
  graph_enabled :: bool
  execution_graph :: "'v exec_graph"
  thread_info :: "'a thread_request option"
  current_max_thread_id :: nat
  failure :: test_failure
  memory :: 'm

type_synonym ('a, 'v, 'm) sched_task = "('a, ('a, 'v, 'm) machine) coro"

text \<open>
  A task builder (lib.h) as the macros of verifying_macro.h make them: the name of the method, the generator of its
  arguments, and whether its tasks are dual. The number of the new cell and of the new coroutine is given.
\<close>

record ('a, 'v, 'm) TaskBuilder =
  builder_name :: string
  builder_gen :: "nat \<Rightarrow> ('a, 'v, 'm) machine \<Rightarrow> 'a \<times> ('a, 'v, 'm) machine"
  builder_dual :: bool

definition Build ::
    "nat \<Rightarrow> ('a, 'v, 'm) TaskBuilder \<Rightarrow> nat \<Rightarrow> int \<Rightarrow> ('a, 'v, 'm) machine \<Rightarrow> ('a, 'v, 'm) sched_task \<times> ('a, 'v, 'm) machine" where
  "Build addr b thread ident m =
     (case builder_gen b thread m of (args, m) \<Rightarrow>
      (SetDual (builder_dual b) (New addr addr args (builder_name b) ident), m))"

text \<open>
  What the model takes from outside: the verifier of the strategy and its progress methods, whether it is the verifier
  for one task per thread, the construction of a target, the release of what the simulated system holds, the fiber of
  a coroutine, and the random numbers of the standard library.
\<close>

record ('b, 'a, 'v, 'm, 'r) environment =
  verifier :: "('b, 'a) base_verifier"
  verifier_progress :: "string \<Rightarrow> string list"
  one_task_per_thread :: bool
  target_factory :: "('a, 'v, 'm) machine \<Rightarrow> ('a, 'v, 'm) machine"
  release_system :: "'m \<Rightarrow> 'm"
  run_fiber :: "nat \<Rightarrow> ('a, 'v, 'm) sched_task \<Rightarrow> ('a, 'v, 'm) machine \<Rightarrow> ('a, 'v, 'm) sched_task \<times> ('a, 'v, 'm) machine"
  random_permutation :: "nat \<Rightarrow> 'r \<Rightarrow> nat list \<times> 'r"
  random_discrete :: "int list \<Rightarrow> 'r \<Rightarrow> nat \<times> 'r"
  random_uniform :: "nat \<Rightarrow> nat \<Rightarrow> 'r \<Rightarrow> nat \<times> 'r"

section \<open>The state of a strategy\<close>

text \<open>
  \<open>threads\<close> are the task queues of \<open>BaseStrategyWithThreads\<close>; \<open>os_threads\<close> are those of its base class
  \<open>OSSimulator\<close>, a member of the same name that the strategy hides. \<open>next_address\<close> numbers cells and coroutines, and
  \<open>policy\<close> is what a derived strategy adds.
\<close>

record ('b, 'a, 'v, 'm, 'r, 'p) strategy =
  machine :: "('a, 'v, 'm) machine"
  threads :: "('a, 'v, 'm) sched_task list list"
  threads_count :: nat
  constructors :: "('a, 'v, 'm) TaskBuilder list"
  sched_checker :: 'b
  new_task_id :: int
  removed_tasks :: "int set"
  round_schedule :: "int list"
  allow_new_tasks :: bool
  os_threads :: "('a, 'v, 'm) sched_task list list"
  join_pairs :: "nat \<rightharpoonup> nat \<times> nat"
  next_address :: nat
  rng :: 'r
  policy :: 'p

text \<open>A reference to a task is the number of its cell.\<close>

definition all_tasks :: "('b, 'a, 'v, 'm, 'r, 'p) strategy \<Rightarrow> ('a, 'v, 'm) sched_task list" where
  "all_tasks s = concat (threads s @ os_threads s)"

definition task_at :: "nat \<Rightarrow> ('b, 'a, 'v, 'm, 'r, 'p) strategy \<Rightarrow> ('a, 'v, 'm) sched_task res" where
  "task_at slot s = (case find (\<lambda>c. task_slot c = slot) (all_tasks s) of None \<Rightarrow> Exn Undefined | Some c \<Rightarrow> Ret c)"

definition map_task ::
    "nat \<Rightarrow> (('a, 'v, 'm) sched_task \<Rightarrow> ('a, 'v, 'm) sched_task) \<Rightarrow> ('b, 'a, 'v, 'm, 'r, 'p) strategy \<Rightarrow> ('b, 'a, 'v, 'm, 'r, 'p) strategy" where
  "map_task slot f s =
     s\<lparr>threads := map (map (\<lambda>c. if task_slot c = slot then f c else c)) (threads s),
       os_threads := map (map (\<lambda>c. if task_slot c = slot then f c else c)) (os_threads s)\<rparr>"

text \<open>The query of the block manager may create an empty queue, which no operation tells from none.\<close>

definition task_blocked :: "('a, 'v, 'm) sched_task \<Rightarrow> ('b, 'a, 'v, 'm, 'r, 'p) strategy \<Rightarrow> bool" where
  "task_blocked c s = fst (IsBlocked (machine s) c (blocked_queues (machine s)))"

definition IsTaskRemoved :: "int \<Rightarrow> ('b, 'a, 'v, 'm, 'r, 'p) strategy \<Rightarrow> bool" where
  "IsTaskRemoved ident s \<longleftrightarrow> ident \<in> removed_tasks s"

definition SetTaskRemoved :: "int \<Rightarrow> bool \<Rightarrow> ('b, 'a, 'v, 'm, 'r, 'p) strategy \<Rightarrow> ('b, 'a, 'v, 'm, 'r, 'p) strategy" where
  "SetTaskRemoved ident is_removed s =
     s\<lparr>removed_tasks := (if is_removed then insert ident (removed_tasks s) else removed_tasks s - {ident})\<rparr>"

definition SetAllowNewTasks :: "bool \<Rightarrow> ('b, 'a, 'v, 'm, 'r, 'p) strategy \<Rightarrow> ('b, 'a, 'v, 'm, 'r, 'p) strategy" where
  "SetAllowNewTasks v s = s\<lparr>allow_new_tasks := v\<rparr>"

definition ResetWmmGraph :: "nat \<Rightarrow> ('b, 'a, 'v, 'm, 'r, 'p) strategy \<Rightarrow> ('b, 'a, 'v, 'm, 'r, 'p) strategy" where
  "ResetWmmGraph n s =
     (if graph_enabled (machine s)
      then s\<lparr>machine := (machine s)\<lparr>execution_graph := exec_Reset n (execution_graph (machine s))\<rparr>\<rparr> else s)"

definition ResetTargetState ::
    "('b, 'a, 'v, 'm, 'r) environment \<Rightarrow> ('b, 'a, 'v, 'm, 'r, 'p) strategy \<Rightarrow> ('b, 'a, 'v, 'm, 'r, 'p) strategy" where
  "ResetTargetState E s = s\<lparr>machine := target_factory E (machine s)\<rparr>"

section \<open>The simulated operating system\<close>

definition ResetOSState ::
    "('b, 'a, 'v, 'm, 'r) environment \<Rightarrow> ('b, 'a, 'v, 'm, 'r, 'p) strategy \<Rightarrow> ('b, 'a, 'v, 'm, 'r, 'p) strategy" where
  "ResetOSState E s =
     s\<lparr>machine := (machine s)\<lparr>blocked_queues := UnblockAll (blocked_queues (machine s)),
         memory := release_system E (memory (machine s)), current_max_thread_id := 0\<rparr>,
       join_pairs := Map.empty\<rparr>"

text \<open>
  When the joined task has returned, the entry of the join is erased and then read through the iterator, which the
  language leaves undefined.
\<close>

definition CanThreadContinue :: "nat \<Rightarrow> ('b, 'a, 'v, 'm, 'r, 'p) strategy \<Rightarrow> bool res" where
  "CanThreadContinue thread s =
     (case join_pairs s thread of
        None \<Rightarrow> Ret True
      | Some (joined, retval) \<Rightarrow>
          if joined < length (os_threads s) \<and> os_threads s ! joined \<noteq> [] then
            (if task_returned (last (os_threads s ! joined)) then Exn Undefined else Ret False)
          else Exn Undefined)"

text \<open>A created thread is resumed once; the event of its start and its entry in the full history are returned.\<close>

definition UpdateOSState ::
    "('b, 'a, 'v, 'm, 'r) environment \<Rightarrow> nat \<Rightarrow> ('b, 'a, 'v, 'm, 'r, 'p) strategy
      \<Rightarrow> ((nat \<times> nat) list \<times> ('b, 'a, 'v, 'm, 'r, 'p) strategy) res" where
  "UpdateOSState E thread s =
     (case thread_info (machine s) of
        None \<Rightarrow> Ret ([], s)
      | Some (JoinThreadInfo joined retval) \<Rightarrow>
          Ret ([], s\<lparr>join_pairs := (join_pairs s)(thread \<mapsto> (joined, retval)),
                    machine := (machine s)\<lparr>thread_info := None\<rparr>\<rparr>)
      | Some (CreatedThreadInfo fn name) \<Rightarrow>
          let slot = next_address s; coro = New slot slot fn name (- 1) in
          andThen (Resume (run_fiber E) (length (os_threads s)) coro (machine s)) (\<lambda>(coro, m).
          Ret ([(slot, current_max_thread_id m)],
               s\<lparr>os_threads := os_threads s @ [[coro]], next_address := Suc slot, machine := m\<lparr>thread_info := None\<rparr>\<rparr>)))"

section \<open>Tasks and builders\<close>

fun get_task_loop :: "int \<Rightarrow> nat \<Rightarrow> ('a, 'v, 'm) sched_task list list \<Rightarrow> (nat \<times> nat) option" where
  "get_task_loop ident thread [] = None"
| "get_task_loop ident thread (tasks # rest) =
     (case find (\<lambda>c. task_id c = ident) tasks of
        Some c \<Rightarrow> Some (task_slot c, thread)
      | None \<Rightarrow> get_task_loop ident (Suc thread) rest)"

definition strategy_GetTask :: "int \<Rightarrow> ('b, 'a, 'v, 'm, 'r, 'p) strategy \<Rightarrow> (nat \<times> nat) option" where
  "strategy_GetTask ident s = get_task_loop ident 0 (threads s)"

definition HasTaskBuilder :: "string \<Rightarrow> ('b, 'a, 'v, 'm, 'r, 'p) strategy \<Rightarrow> bool" where
  "HasTaskBuilder name s \<longleftrightarrow> list_ex (\<lambda>b. builder_name b = name) (constructors s)"

text \<open>A new task with the next identifier, in a new cell at the end of its thread.\<close>

definition append_task ::
    "('a, 'v, 'm) TaskBuilder \<Rightarrow> nat \<Rightarrow> ('b, 'a, 'v, 'm, 'r, 'p) strategy \<Rightarrow> ('a, 'v, 'm) sched_task \<times> ('b, 'a, 'v, 'm, 'r, 'p) strategy" where
  "append_task b thread s =
     (case Build (next_address s) b thread (new_task_id s) (machine s) of (c, m) \<Rightarrow>
      (c, s\<lparr>machine := m, new_task_id := new_task_id s + 1, next_address := Suc (next_address s),
            threads := (threads s)[thread := threads s ! thread @ [c]]\<rparr>))"

definition AppendTaskForReplay ::
    "string \<Rightarrow> nat \<Rightarrow> ('b, 'a, 'v, 'm, 'r, 'p) strategy \<Rightarrow> int option \<times> ('b, 'a, 'v, 'm, 'r, 'p) strategy" where
  "AppendTaskForReplay name thread s =
     (if length (threads s) \<le> thread then (None, s)
      else case find (\<lambda>b. builder_name b = name) (constructors s) of
        None \<Rightarrow> (None, s)
      | Some b \<Rightarrow> (case append_task b thread s of (c, s) \<Rightarrow> (Some (task_id c), s)))"

text \<open>Removing the last task of a thread destroys its coroutine.\<close>

definition RemoveLastTaskForReplay ::
    "nat \<Rightarrow> int \<Rightarrow> ('b, 'a, 'v, 'm, 'r, 'p) strategy \<Rightarrow> (bool \<times> ('b, 'a, 'v, 'm, 'r, 'p) strategy) res" where
  "RemoveLastTaskForReplay thread ident s =
     (if length (threads s) \<le> thread \<or> threads s ! thread = [] then Ret (False, s)
      else if task_id (last (threads s ! thread)) \<noteq> ident then Ret (False, s)
      else
        andThen (destroy_coro (last (threads s ! thread))) (\<lambda>_.
        Ret (True, SetTaskRemoved ident False (s\<lparr>threads := (threads s)[thread := butlast (threads s ! thread)]\<rparr>))))"

definition GetValidTasksCount :: "('b, 'a, 'v, 'm, 'r, 'p) strategy \<Rightarrow> nat" where
  "GetValidTasksCount s = length (filter (\<lambda>c. \<not> IsTaskRemoved (task_id c) s) (concat (threads s)))"

definition GetTotalTasksCount :: "('b, 'a, 'v, 'm, 'r, 'p) strategy \<Rightarrow> nat" where
  "GetTotalTasksCount s = sum_list (map length (threads s))"

definition GetThreadsCount :: "('b, 'a, 'v, 'm, 'r, 'p) strategy \<Rightarrow> nat" where
  "GetThreadsCount s = length (threads s)"

section \<open>The verifier of a strategy\<close>

definition thread_arg :: "nat \<Rightarrow> size_t" where
  "thread_arg thread = of_nat thread"

definition OnVerifierTaskFinish ::
    "('b, 'a, 'v, 'm, 'r) environment \<Rightarrow> ('a, 'v, 'm) sched_task \<Rightarrow> nat \<Rightarrow> ('b, 'a, 'v, 'm, 'r, 'p) strategy \<Rightarrow> ('b, 'a, 'v, 'm, 'r, 'p) strategy res" where
  "OnVerifierTaskFinish E c thread s =
     andThen (base_OnFinished (verifier E) (task.truncate c) (thread_arg thread) (sched_checker s)) (\<lambda>b.
     Ret (s\<lparr>sched_checker := b\<rparr>))"

definition VerifyMethodStart ::
    "('b, 'a, 'v, 'm, 'r) environment \<Rightarrow> string \<Rightarrow> nat \<Rightarrow> start_context \<Rightarrow> ('b, 'a, 'v, 'm, 'r, 'p) strategy
      \<Rightarrow> (bool \<times> ('b, 'a, 'v, 'm, 'r, 'p) strategy) res" where
  "VerifyMethodStart E name thread ctx s =
     (case base_VerifyStart (verifier E) name (thread_arg thread) ctx (sched_checker s) of (ok, b) \<Rightarrow>
      if \<not> ok then Ret (False, s\<lparr>sched_checker := b\<rparr>)
      else andThen (base_Verify (verifier E) name (thread_arg thread) True b) (\<lambda>(ok, b). Ret (ok, s\<lparr>sched_checker := b\<rparr>)))"

definition VerifyTaskStart ::
    "('b, 'a, 'v, 'm, 'r) environment \<Rightarrow> ('a, 'v, 'm) sched_task \<Rightarrow> nat \<Rightarrow> start_context \<Rightarrow> ('b, 'a, 'v, 'm, 'r, 'p) strategy
      \<Rightarrow> (bool \<times> ('b, 'a, 'v, 'm, 'r, 'p) strategy) res" where
  "VerifyTaskStart E c thread ctx s = VerifyMethodStart E (task_name c) thread ctx s"

definition OnVerifierTaskStart ::
    "('b, 'a, 'v, 'm, 'r) environment \<Rightarrow> ('a, 'v, 'm) sched_task \<Rightarrow> nat \<Rightarrow> ('b, 'a, 'v, 'm, 'r, 'p) strategy \<Rightarrow> ('b, 'a, 'v, 'm, 'r, 'p) strategy" where
  "OnVerifierTaskStart E c thread s =
     s\<lparr>sched_checker := base_OnTaskStarted (verifier E) (task_name c) (thread_arg thread) (task_id c) (sched_checker s)\<rparr>"

definition VerifyExistingTask ::
    "('b, 'a, 'v, 'm, 'r) environment \<Rightarrow> ('a, 'v, 'm) sched_task \<Rightarrow> nat \<Rightarrow> ('b, 'a, 'v, 'm, 'r, 'p) strategy
      \<Rightarrow> (bool \<times> ('b, 'a, 'v, 'm, 'r, 'p) strategy) res" where
  "VerifyExistingTask E c thread s =
     andThen (base_VerifyExisting (verifier E) (task.truncate c) (thread_arg thread) (sched_checker s)) (\<lambda>(ok, b).
     Ret (ok, s\<lparr>sched_checker := b\<rparr>))"

definition reset_checker ::
    "('b, 'a, 'v, 'm, 'r) environment \<Rightarrow> ('b, 'a, 'v, 'm, 'r, 'p) strategy \<Rightarrow> ('b, 'a, 'v, 'm, 'r, 'p) strategy" where
  "reset_checker E s = s\<lparr>sched_checker := base_Reset (verifier E) (sched_checker s)\<rparr>"

definition start_checker ::
    "('b, 'a, 'v, 'm, 'r) environment \<Rightarrow> nat \<Rightarrow> ('b, 'a, 'v, 'm, 'r, 'p) strategy \<Rightarrow> ('b, 'a, 'v, 'm, 'r, 'p) strategy" where
  "start_checker E n s = s\<lparr>sched_checker := base_OnRoundStart (verifier E) (of_nat n) (sched_checker s)\<rparr>"

end
