(* ===== verification/Strategy_Rounds.thy ===== *)
theory Strategy_Rounds
imports Strategy_State
begin

text \<open>
  The operations of \<open>BaseStrategyWithThreads\<close> (src/runtime/include/scheduler.h) on a round: how it starts, is reset,
  restarted and set by the user, how the next task of a thread is found, and how a thread is given a new task.
\<close>

section \<open>Resetting a round\<close>

definition terminate_task :: "('a, 'v, 'm) sched_task \<Rightarrow> ('a, 'v, 'm) sched_task" where
  "terminate_task c = DiscardRoundResults (if task_returned c then c else Terminate c)"

definition TerminateRunningTasks :: "('b, 'a, 'v, 'm, 'r, 'p) strategy \<Rightarrow> ('b, 'a, 'v, 'm, 'r, 'p) strategy" where
  "TerminateRunningTasks s = s\<lparr>threads := map (map terminate_task) (threads s)\<rparr>"

definition TerminateTasks ::
    "('b, 'a, 'v, 'm, 'r) environment \<Rightarrow> ('b, 'a, 'v, 'm, 'r, 'p) strategy \<Rightarrow> ('b, 'a, 'v, 'm, 'r, 'p) strategy" where
  "TerminateTasks E s =
     (let s = reset_checker E (TerminateRunningTasks s) in ResetTargetState E (ResetWmmGraph (length (threads s)) s))"

definition resize_schedule :: "nat \<Rightarrow> int list \<Rightarrow> int list" where
  "resize_schedule n xs = take n xs @ replicate (n - length xs) (- 1)"

fun destroy_tasks :: "('a, 'v, 'm) sched_task list \<Rightarrow> unit res" where
  "destroy_tasks [] = Ret ()"
| "destroy_tasks (c # cs) = andThen (destroy_coro c) (\<lambda>_. destroy_tasks cs)"

text \<open>The constructor of \<open>BaseStrategyWithThreads\<close>.\<close>

definition BaseStrategyWithThreads ::
    "('b, 'a, 'v, 'm, 'r) environment \<Rightarrow> nat \<Rightarrow> ('a, 'v, 'm) TaskBuilder list \<Rightarrow> 'b \<Rightarrow> ('a, 'v, 'm) machine \<Rightarrow> 'r \<Rightarrow> 'p
      \<Rightarrow> ('b, 'a, 'v, 'm, 'r, 'p) strategy" where
  "BaseStrategyWithThreads E n ctors b m r p =
     start_checker E n
       ((ResetTargetState E
          (ResetWmmGraph n
            \<lparr>machine = m, threads = [], threads_count = n, constructors = ctors, sched_checker = b, new_task_id = 0,
             removed_tasks = {}, round_schedule = replicate n (- 1), allow_new_tasks = True, os_threads = [],
             join_pairs = Map.empty, next_address = 0, rng = r, policy = p\<rparr>))
        \<lparr>threads := replicate n []\<rparr>)"

text \<open>
  A new round starts with no task: the tasks of the last one are terminated, and then their coroutines are destroyed.
\<close>

definition StartNextRound ::
    "('b, 'a, 'v, 'm, 'r) environment \<Rightarrow> ('b, 'a, 'v, 'm, 'r, 'p) strategy \<Rightarrow> ('b, 'a, 'v, 'm, 'r, 'p) strategy res" where
  "StartNextRound E s =
     (let s = reset_checker E (TerminateRunningTasks ((SetAllowNewTasks True s)\<lparr>new_task_id := 0\<rparr>));
          s = ResetTargetState E (ResetOSState E (ResetWmmGraph (length (threads s)) s)) in
      andThen (destroy_tasks (concat (threads s))) (\<lambda>_.
      Ret (start_checker E (threads_count s)
        (s\<lparr>threads := (if length (threads s) \<noteq> threads_count s then replicate (threads_count s) [] else map (\<lambda>_. []) (threads s)),
           round_schedule := resize_schedule (threads_count s) (round_schedule s)\<rparr>))))"

text \<open>Every task that is not removed is replaced by a new coroutine with the same operation.\<close>

fun restart_tasks :: "int set \<Rightarrow> nat \<Rightarrow> ('a, 'v, 'm) sched_task list \<Rightarrow> (('a, 'v, 'm) sched_task list \<times> nat) res" where
  "restart_tasks removed addr [] = Ret ([], addr)"
| "restart_tasks removed addr (c # cs) =
     (if task_id c \<in> removed then
        andThen (restart_tasks removed addr cs) (\<lambda>(cs, addr). Ret (c # cs, addr))
      else
        andThen (Restart addr c) (\<lambda>c'.
        andThen (destroy_coro c) (\<lambda>_.
        andThen (restart_tasks removed (Suc addr) cs) (\<lambda>(cs, addr). Ret (c' # cs, addr)))))"

fun restart_threads :: "int set \<Rightarrow> nat \<Rightarrow> ('a, 'v, 'm) sched_task list list \<Rightarrow> (('a, 'v, 'm) sched_task list list \<times> nat) res" where
  "restart_threads removed addr [] = Ret ([], addr)"
| "restart_threads removed addr (t # ts) =
     andThen (restart_tasks removed addr t) (\<lambda>(t, addr).
     andThen (restart_threads removed addr ts) (\<lambda>(ts, addr). Ret (t # ts, addr)))"

definition restart_round :: "('b, 'a, 'v, 'm, 'r, 'p) strategy \<Rightarrow> ('b, 'a, 'v, 'm, 'r, 'p) strategy res" where
  "restart_round s =
     andThen (restart_threads (removed_tasks s) (next_address s) (threads s)) (\<lambda>(ts, addr).
     Ret (s\<lparr>threads := ts, next_address := addr\<rparr>))"

definition ResetCurrentRound ::
    "('b, 'a, 'v, 'm, 'r) environment \<Rightarrow> ('b, 'a, 'v, 'm, 'r, 'p) strategy \<Rightarrow> ('b, 'a, 'v, 'm, 'r, 'p) strategy res" where
  "ResetCurrentRound E s =
     (let s = SetAllowNewTasks True s;
          s = s\<lparr>round_schedule := map (\<lambda>_. - 1) (round_schedule s)\<rparr>;
          s = reset_checker E (TerminateRunningTasks s);
          s = ResetTargetState E (ResetOSState E (ResetWmmGraph (length (threads s)) s)) in
      restart_round (start_checker E (threads_count s) s))"

definition ResetExplorationState ::
    "('b, 'a, 'v, 'm, 'r) environment \<Rightarrow> ('b, 'a, 'v, 'm, 'r, 'p) strategy \<Rightarrow> ('b, 'a, 'v, 'm, 'r, 'p) strategy res" where
  "ResetExplorationState E s =
     (let s = ResetOSState E (TerminateRunningTasks s);
          s = SetAllowNewTasks True (s\<lparr>round_schedule := map (\<lambda>_. - 1) (round_schedule s)\<rparr>);
          s = ResetTargetState E (ResetWmmGraph (length (threads s)) (reset_checker E s)) in
      restart_round (start_checker E (threads_count s) s))"

section \<open>Rounds of the user\<close>

type_synonym ('a, 'v, 'm) custom_round = "('a, 'v, 'm) TaskBuilder list list"

fun append_all ::
    "('a, 'v, 'm) TaskBuilder list \<Rightarrow> nat \<Rightarrow> ('b, 'a, 'v, 'm, 'r, 'p) strategy \<Rightarrow> ('b, 'a, 'v, 'm, 'r, 'p) strategy" where
  "append_all [] thread s = s"
| "append_all (b # bs) thread s = append_all bs thread (snd (append_task b thread s))"

fun custom_threads ::
    "nat \<Rightarrow> ('a, 'v, 'm) custom_round \<Rightarrow> ('b, 'a, 'v, 'm, 'r, 'p) strategy \<Rightarrow> ('b, 'a, 'v, 'm, 'r, 'p) strategy" where
  "custom_threads i [] s = s"
| "custom_threads i (bs # rest) s =
     custom_threads (Suc i) rest (append_all bs i (s\<lparr>threads := (threads s)[i := []]\<rparr>))"

text \<open>
  The move assignment of a thread drops its old tasks without destroying them; the threads that the smaller round cuts
  off are destroyed.
\<close>

definition SetCustomRound ::
    "('b, 'a, 'v, 'm, 'r) environment \<Rightarrow> ('a, 'v, 'm) custom_round \<Rightarrow> ('b, 'a, 'v, 'm, 'r, 'p) strategy
      \<Rightarrow> ('b, 'a, 'v, 'm, 'r, 'p) strategy res" where
  "SetCustomRound E custom_round s =
     (let n = length custom_round in
      andThen (destroy_tasks (concat (drop n (threads s)))) (\<lambda>_.
      let s = s\<lparr>threads := take n (threads s) @ replicate (n - length (threads s)) [],
                round_schedule := resize_schedule n (round_schedule s)\<rparr>;
          s = ResetTargetState E (ResetWmmGraph n (reset_checker E s)) in
      Ret (start_checker E n (custom_threads 0 custom_round s))))"

section \<open>The next task\<close>

function next_index :: "(('a, 'v, 'm) sched_task \<Rightarrow> bool) \<Rightarrow> ('a, 'v, 'm) sched_task list \<Rightarrow> int \<Rightarrow> int" where
  "next_index done thread i =
     (if i < int (length thread) \<and> (i = - 1 \<or> done (thread ! nat i)) then next_index done thread (i + 1) else i)"
  by pat_completeness auto

termination
  by (relation "measure (\<lambda>(d, thread, i). nat (int (length thread) - i))") auto

declare next_index.simps [simp del]

definition task_over :: "('b, 'a, 'v, 'm, 'r, 'p) strategy \<Rightarrow> ('a, 'v, 'm) sched_task \<Rightarrow> bool" where
  "task_over s c \<longleftrightarrow> task_returned c \<or> IsTaskRemoved (task_id c) s"

definition GetNextTaskInThread :: "nat \<Rightarrow> ('b, 'a, 'v, 'm, 'r, 'p) strategy \<Rightarrow> int" where
  "GetNextTaskInThread thread s = next_index (task_over s) (threads s ! thread) (round_schedule s ! thread)"

definition thread_free :: "('a, 'v, 'm) sched_task list \<Rightarrow> bool" where
  "thread_free thread \<longleftrightarrow> thread = [] \<or> task_returned (last thread)"

definition NewTaskAreEnabled :: "('b, 'a, 'v, 'm, 'r) environment \<Rightarrow> nat \<Rightarrow> ('b, 'a, 'v, 'm, 'r, 'p) strategy \<Rightarrow> bool" where
  "NewTaskAreEnabled E thread s \<longleftrightarrow>
     \<not> (one_task_per_thread E \<and> thread_free (threads s ! thread) \<and> threads s ! thread \<noteq> [])"

datatype schedule_failure = DEADLOCK | NEED_REPLAY | EXHAUSTED_INTERLEAVINGS

text \<open>\<open>TaskWithMetaData\<close>: the task, whether it is new, and its thread.\<close>

datatype next_result = NextFailure schedule_failure | NextTask nat bool nat

definition count_method :: "string \<Rightarrow> (string \<rightharpoonup> int) \<Rightarrow> (string \<rightharpoonup> int)" where
  "count_method name m = m(name \<mapsto> (case m name of None \<Rightarrow> 0 | Some n \<Rightarrow> n) + 1)"

fun start_context_of ::
    "('b, 'a, 'v, 'm, 'r, 'p) strategy \<Rightarrow> ('a, 'v, 'm) sched_task list list \<Rightarrow> start_context \<Rightarrow> start_context" where
  "start_context_of s [] ctx = ctx"
| "start_context_of s (t # ts) ctx =
     start_context_of s ts
       (if thread_free t then ctx\<lparr>free_threads := free_threads ctx + 1\<rparr>
        else
          let ctx = ctx\<lparr>active_by_method := count_method (task_name (last t)) (active_by_method ctx)\<rparr> in
          if task_blocked (last t) s
          then ctx\<lparr>blocked_by_method := count_method (task_name (last t)) (blocked_by_method ctx)\<rparr> else ctx)"

definition empty_context :: "nat \<Rightarrow> start_context" where
  "empty_context n = \<lparr>ctx_threads = of_nat n, free_threads = 0, active_by_method = Map.empty, blocked_by_method = Map.empty\<rparr>"

fun choose_constructor ::
    "('b, 'a, 'v, 'm, 'r) environment \<Rightarrow> nat \<Rightarrow> start_context \<Rightarrow> ('a, 'v, 'm) TaskBuilder list \<Rightarrow> ('b, 'a, 'v, 'm, 'r, 'p) strategy
      \<Rightarrow> (('a, 'v, 'm) TaskBuilder option \<times> ('b, 'a, 'v, 'm, 'r, 'p) strategy) res" where
  "choose_constructor E thread ctx [] s = Ret (None, s)"
| "choose_constructor E thread ctx (b # bs) s =
     andThen (VerifyMethodStart E (builder_name b) thread ctx s) (\<lambda>(ok, s).
     if ok then Ret (Some b, s) else choose_constructor E thread ctx bs s)"

definition shuffle_constructors ::
    "('b, 'a, 'v, 'm, 'r) environment \<Rightarrow> ('b, 'a, 'v, 'm, 'r, 'p) strategy \<Rightarrow> ('b, 'a, 'v, 'm, 'r, 'p) strategy" where
  "shuffle_constructors E s =
     (case random_permutation E (length (constructors s)) (rng s) of (p, r) \<Rightarrow>
      s\<lparr>constructors := map (\<lambda>i. constructors s ! i) p, rng := r\<rparr>)"

definition start_new_task ::
    "('b, 'a, 'v, 'm, 'r) environment \<Rightarrow> nat \<Rightarrow> ('b, 'a, 'v, 'm, 'r, 'p) strategy
      \<Rightarrow> (next_result \<times> ('b, 'a, 'v, 'm, 'r, 'p) strategy) res" where
  "start_new_task E thread s =
     (let ctx = start_context_of s (threads s) (empty_context (length (threads s))); s = shuffle_constructors E s in
      andThen (choose_constructor E thread ctx (constructors s) s) (\<lambda>(chosen, s).
      case chosen of
        None \<Rightarrow> Ret (NextFailure DEADLOCK, s)
      | Some b \<Rightarrow>
          (case append_task b thread s of (c, s) \<Rightarrow>
           Ret (NextTask (task_slot c) True thread, OnVerifierTaskStart E c thread s))))"

definition NextVerifiedFor ::
    "('b, 'a, 'v, 'm, 'r) environment \<Rightarrow> nat option \<Rightarrow> ('b, 'a, 'v, 'm, 'r, 'p) strategy
      \<Rightarrow> (next_result \<times> ('b, 'a, 'v, 'm, 'r, 'p) strategy) res" where
  "NextVerifiedFor E opt_thread s =
     (case opt_thread of
        None \<Rightarrow> Ret (NextFailure DEADLOCK, s)
      | Some thread \<Rightarrow>
          if length (threads s) \<le> thread then Exn Undefined
          else if thread_free (threads s ! thread) then start_new_task E thread s
          else Ret (NextTask (task_slot (last (threads s ! thread))) False thread, s))"

end
