(* ===== verification/Strategies.thy ===== *)
theory Strategies
imports Strategy_Rounds
begin

text \<open>
  The strategies that choose the next thread: random with weights (random_strategy.h), round robin
  (round_robin_strategy.h) and probabilistic concurrency testing (pct_strategy.h), and the interface through which the
  schedulers use them.
\<close>

section \<open>The interface\<close>

record ('b, 'a, 'v, 'm, 'r, 'p) strategy_ops =
  op_Next :: "('b, 'a, 'v, 'm, 'r, 'p) strategy \<Rightarrow> (next_result \<times> ('b, 'a, 'v, 'm, 'r, 'p) strategy) res"
  op_NextSchedule :: "('b, 'a, 'v, 'm, 'r, 'p) strategy \<Rightarrow> (next_result \<times> ('b, 'a, 'v, 'm, 'r, 'p) strategy) res"
  op_StartNextRound :: "('b, 'a, 'v, 'm, 'r, 'p) strategy \<Rightarrow> ('b, 'a, 'v, 'm, 'r, 'p) strategy res"
  op_ResetCurrentRound :: "('b, 'a, 'v, 'm, 'r, 'p) strategy \<Rightarrow> ('b, 'a, 'v, 'm, 'r, 'p) strategy res"
  op_ResetExplorationState :: "('b, 'a, 'v, 'm, 'r, 'p) strategy \<Rightarrow> ('b, 'a, 'v, 'm, 'r, 'p) strategy res"
  op_SetCustomRound :: "('a, 'v, 'm) custom_round \<Rightarrow> ('b, 'a, 'v, 'm, 'r, 'p) strategy \<Rightarrow> ('b, 'a, 'v, 'm, 'r, 'p) strategy res"
  op_UpdateSimulatorState ::
    "nat \<Rightarrow> ('b, 'a, 'v, 'm, 'r, 'p) strategy \<Rightarrow> ((nat \<times> nat) list \<times> ('b, 'a, 'v, 'm, 'r, 'p) strategy) res"

section \<open>Eligible threads\<close>

text \<open>The conditions in the order of the random strategy: the verifier is asked before the simulated system.\<close>

definition eligible ::
    "('b, 'a, 'v, 'm, 'r) environment \<Rightarrow> nat \<Rightarrow> ('b, 'a, 'v, 'm, 'r, 'p) strategy
      \<Rightarrow> (bool \<times> ('b, 'a, 'v, 'm, 'r, 'p) strategy) res" where
  "eligible E i s =
     (let t = threads s ! i; is_free = thread_free t in
      if \<not> allow_new_tasks s \<and> is_free then Ret (False, s)
      else if t \<noteq> [] \<and> task_blocked (last t) s then Ret (False, s)
      else
        andThen (if is_free then Ret (True, s) else VerifyExistingTask E (last t) i s) (\<lambda>(ok, s).
        if \<not> ok then Ret (False, s)
        else andThen (CanThreadContinue i s) (\<lambda>ok. Ret (ok \<and> NewTaskAreEnabled E i s, s))))"

text \<open>The same conditions in the order of the round robin: the verifier is asked last.\<close>

definition eligible_in_turn ::
    "('b, 'a, 'v, 'm, 'r) environment \<Rightarrow> nat \<Rightarrow> ('b, 'a, 'v, 'm, 'r, 'p) strategy
      \<Rightarrow> (bool \<times> ('b, 'a, 'v, 'm, 'r, 'p) strategy) res" where
  "eligible_in_turn E i s =
     (let t = threads s ! i; is_free = thread_free t in
      if \<not> allow_new_tasks s \<and> is_free then Ret (False, s)
      else if t \<noteq> [] \<and> task_blocked (last t) s then Ret (False, s)
      else
        andThen (CanThreadContinue i s) (\<lambda>ok.
        if \<not> ok \<or> \<not> NewTaskAreEnabled E i s then Ret (False, s)
        else if is_free then Ret (True, s) else VerifyExistingTask E (last t) i s))"

text \<open>A thread of a round that is replayed: its next task exists, is not blocked, and may run.\<close>

definition eligible_to_replay ::
    "('b, 'a, 'v, 'm, 'r) environment \<Rightarrow> nat \<Rightarrow> ('b, 'a, 'v, 'm, 'r, 'p) strategy
      \<Rightarrow> (bool \<times> ('b, 'a, 'v, 'm, 'r, 'p) strategy) res" where
  "eligible_to_replay E i s =
     (let t = threads s ! i; k = GetNextTaskInThread i s in
      if k = int (length t) then Ret (False, s)
      else if task_blocked (t ! nat k) s then Ret (False, s)
      else VerifyExistingTask E (t ! nat k) i s)"

text \<open>The task of a picked thread, in a round that is replayed.\<close>

definition schedule_thread ::
    "nat \<Rightarrow> ('b, 'a, 'v, 'm, 'r, 'p) strategy \<Rightarrow> next_result \<times> ('b, 'a, 'v, 'm, 'r, 'p) strategy" where
  "schedule_thread thread s =
     (let k = GetNextTaskInThread thread s in
      (NextTask (task_slot (threads s ! thread ! nat k)) (round_schedule s ! thread \<noteq> k) thread,
       s\<lparr>round_schedule := (round_schedule s)[thread := k]\<rparr>))"

definition pick_NextSchedule ::
    "(('b, 'a, 'v, 'm, 'r, 'p) strategy \<Rightarrow> (nat option \<times> ('b, 'a, 'v, 'm, 'r, 'p) strategy) res)
      \<Rightarrow> ('b, 'a, 'v, 'm, 'r, 'p) strategy \<Rightarrow> (next_result \<times> ('b, 'a, 'v, 'm, 'r, 'p) strategy) res" where
  "pick_NextSchedule PickSchedule s =
     andThen (PickSchedule s) (\<lambda>(picked, s).
     case picked of None \<Rightarrow> Ret (NextFailure DEADLOCK, s) | Some thread \<Rightarrow> Ret (schedule_thread thread s))"

section \<open>The random strategy\<close>

text \<open>The weights of the eligible threads, and the eligible thread with a given number; both ask every thread again.\<close>

fun eligible_weights ::
    "(nat \<Rightarrow> 's \<Rightarrow> (bool \<times> 's) res) \<Rightarrow> int list \<Rightarrow> nat list \<Rightarrow> 's \<Rightarrow> (int list \<times> 's) res" where
  "eligible_weights el weights [] s = Ret ([], s)"
| "eligible_weights el weights (i # is) s =
     andThen (el i s) (\<lambda>(ok, s).
     if \<not> ok then eligible_weights el weights is s
     else if length weights \<le> i then Exn Undefined
     else andThen (eligible_weights el weights is s) (\<lambda>(ws, s). Ret (weights ! i # ws, s)))"

fun eligible_number :: "(nat \<Rightarrow> 's \<Rightarrow> (bool \<times> 's) res) \<Rightarrow> nat \<Rightarrow> nat list \<Rightarrow> 's \<Rightarrow> (nat option \<times> 's) res" where
  "eligible_number el num [] s = Ret (None, s)"
| "eligible_number el num (i # is) s =
     andThen (el i s) (\<lambda>(ok, s).
     if \<not> ok then eligible_number el num is s
     else if num = 0 then Ret (Some i, s)
     else eligible_number el (num - 1) is s)"

definition weighted_pick ::
    "('b, 'a, 'v, 'm, 'r) environment \<Rightarrow> (nat \<Rightarrow> ('b, 'a, 'v, 'm, 'r, int list) strategy \<Rightarrow> (bool \<times> ('b, 'a, 'v, 'm, 'r, int list) strategy) res)
      \<Rightarrow> ('b, 'a, 'v, 'm, 'r, int list) strategy \<Rightarrow> (nat option \<times> ('b, 'a, 'v, 'm, 'r, int list) strategy) res" where
  "weighted_pick E el s =
     (let is = [0..<length (threads s)] in
      andThen (eligible_weights el (policy s) is s) (\<lambda>(ws, s).
      if ws = [] then Ret (None, s)
      else case random_discrete E ws (rng s) of (num, r) \<Rightarrow> eligible_number el num is (s\<lparr>rng := r\<rparr>)))"

definition random_Pick ::
    "('b, 'a, 'v, 'm, 'r) environment \<Rightarrow> ('b, 'a, 'v, 'm, 'r, int list) strategy
      \<Rightarrow> (nat option \<times> ('b, 'a, 'v, 'm, 'r, int list) strategy) res" where
  "random_Pick E s = weighted_pick E (eligible E) s"

definition random_PickSchedule ::
    "('b, 'a, 'v, 'm, 'r) environment \<Rightarrow> ('b, 'a, 'v, 'm, 'r, int list) strategy
      \<Rightarrow> (nat option \<times> ('b, 'a, 'v, 'm, 'r, int list) strategy) res" where
  "random_PickSchedule E s = weighted_pick E (eligible_to_replay E) s"

definition random_SetCustomRound ::
    "('b, 'a, 'v, 'm, 'r) environment \<Rightarrow> ('a, 'v, 'm) custom_round \<Rightarrow> ('b, 'a, 'v, 'm, 'r, int list) strategy
      \<Rightarrow> ('b, 'a, 'v, 'm, 'r, int list) strategy res" where
  "random_SetCustomRound E custom_round s =
     andThen (SetCustomRound E custom_round s) (\<lambda>s.
     let n = length custom_round in
     Ret (s\<lparr>policy := take n (policy s) @ replicate (n - length (policy s)) 1\<rparr>))"

definition RandomStrategy :: "('b, 'a, 'v, 'm, 'r) environment \<Rightarrow> ('b, 'a, 'v, 'm, 'r, int list) strategy_ops" where
  "RandomStrategy E =
     \<lparr>op_Next = \<lambda>s. andThen (random_Pick E s) (\<lambda>(picked, s). NextVerifiedFor E picked s),
      op_NextSchedule = pick_NextSchedule (random_PickSchedule E), op_StartNextRound = StartNextRound E,
      op_ResetCurrentRound = ResetCurrentRound E, op_ResetExplorationState = ResetExplorationState E,
      op_SetCustomRound = random_SetCustomRound E, op_UpdateSimulatorState = UpdateOSState E\<rparr>"

section \<open>Round robin\<close>

text \<open>At most as many attempts as there are threads, from the thread the counter points at.\<close>

fun in_turn ::
    "(nat \<Rightarrow> ('b, 'a, 'v, 'm, 'r, size_t) strategy \<Rightarrow> (bool \<times> ('b, 'a, 'v, 'm, 'r, size_t) strategy) res) \<Rightarrow> nat
      \<Rightarrow> ('b, 'a, 'v, 'm, 'r, size_t) strategy \<Rightarrow> (nat option \<times> ('b, 'a, 'v, 'm, 'r, size_t) strategy) res" where
  "in_turn el 0 s = Ret (None, s)"
| "in_turn el (Suc attempts) s =
     (let cur = unat (policy s) mod length (threads s) in
      andThen (el cur (s\<lparr>policy := policy s + 1\<rparr>)) (\<lambda>(ok, s).
      if ok then Ret (Some cur, s) else in_turn el attempts s))"

definition rr_Pick ::
    "('b, 'a, 'v, 'm, 'r) environment \<Rightarrow> ('b, 'a, 'v, 'm, 'r, size_t) strategy
      \<Rightarrow> (nat option \<times> ('b, 'a, 'v, 'm, 'r, size_t) strategy) res" where
  "rr_Pick E s = in_turn (eligible_in_turn E) (length (threads s)) s"

definition rr_PickSchedule ::
    "('b, 'a, 'v, 'm, 'r) environment \<Rightarrow> ('b, 'a, 'v, 'm, 'r, size_t) strategy
      \<Rightarrow> (nat option \<times> ('b, 'a, 'v, 'm, 'r, size_t) strategy) res" where
  "rr_PickSchedule E s = in_turn (eligible_to_replay E) (length (threads s)) s"

definition RoundRobinStrategy :: "('b, 'a, 'v, 'm, 'r) environment \<Rightarrow> ('b, 'a, 'v, 'm, 'r, size_t) strategy_ops" where
  "RoundRobinStrategy E =
     \<lparr>op_Next = \<lambda>s. andThen (rr_Pick E s) (\<lambda>(picked, s). NextVerifiedFor E picked s),
      op_NextSchedule = pick_NextSchedule (rr_PickSchedule E), op_StartNextRound = StartNextRound E,
      op_ResetCurrentRound = ResetCurrentRound E, op_ResetExplorationState = ResetExplorationState E,
      op_SetCustomRound = SetCustomRound E, op_UpdateSimulatorState = UpdateOSState E\<rparr>"

section \<open>Probabilistic concurrency testing\<close>

text \<open>\<open>pct_rng\<close> is the generator the strategy declares itself, which hides the seeded one of the base class.\<close>

record 'r pct =
  k_statistics :: "nat list"
  current_depth :: nat
  current_schedule_length :: nat
  count_chosen_same :: nat
  last_chosen :: nat
  fair_start :: nat
  fair_stage :: nat
  priorities :: "int list"
  priority_change_points :: "nat list"
  pct_rng :: 'r

definition pct_upd :: "('r pct \<Rightarrow> 'r pct) \<Rightarrow> ('b, 'a, 'v, 'm, 'r, 'r pct) strategy \<Rightarrow> ('b, 'a, 'v, 'm, 'r, 'r pct) strategy" where
  "pct_upd f s = s\<lparr>policy := f (policy s)\<rparr>"

fun draw_points :: "('b, 'a, 'v, 'm, 'r) environment \<Rightarrow> nat \<Rightarrow> nat \<Rightarrow> 'r \<Rightarrow> nat list \<times> 'r" where
  "draw_points E 0 k r = ([], r)"
| "draw_points E (Suc n) k r =
     (case random_uniform E 1 k r of (x, r) \<Rightarrow> (case draw_points E n k r of (xs, r) \<Rightarrow> (x # xs, r)))"

text \<open>A uniform distribution needs a lower bound that is at most the upper one.\<close>

definition PrepareForDepth ::
    "('b, 'a, 'v, 'm, 'r) environment \<Rightarrow> nat \<Rightarrow> nat \<Rightarrow> ('b, 'a, 'v, 'm, 'r, 'r pct) strategy \<Rightarrow> ('b, 'a, 'v, 'm, 'r, 'r pct) strategy res" where
  "PrepareForDepth E depth k s =
     (let n = length (threads s); p = policy s in
      case random_permutation E n (pct_rng p) of (perm, r) \<Rightarrow>
      if k < 1 then Exn Undefined
      else case draw_points E (depth - 1) k r of (points, r) \<Rightarrow>
        Ret (s\<lparr>policy := p\<lparr>priorities := map (\<lambda>i. int (current_depth p + i)) perm, priority_change_points := points,
          pct_rng := r\<rparr>\<rparr>))"

definition UpdateStatistics ::
    "('b, 'a, 'v, 'm, 'r) environment \<Rightarrow> ('b, 'a, 'v, 'm, 'r, 'r pct) strategy \<Rightarrow> ('b, 'a, 'v, 'm, 'r, 'r pct) strategy res" where
  "UpdateStatistics E s =
     (let p = policy s; depth = min 50 (current_depth p + 1); ks = k_statistics p @ [current_schedule_length p] in
      PrepareForDepth E depth (sum_list ks div length ks)
        (s\<lparr>policy := p\<lparr>current_depth := depth, k_statistics := ks, current_schedule_length := 0, count_chosen_same := 0,
           fair_stage := 0\<rparr>\<rparr>))"

text \<open>The eligible thread with the highest priority; of several, the last.\<close>

fun highest_priority ::
    "(nat \<Rightarrow> ('b, 'a, 'v, 'm, 'r, 'r pct) strategy \<Rightarrow> (bool \<times> ('b, 'a, 'v, 'm, 'r, 'r pct) strategy) res) \<Rightarrow> nat list
      \<Rightarrow> int \<times> nat \<Rightarrow> ('b, 'a, 'v, 'm, 'r, 'r pct) strategy \<Rightarrow> ((int \<times> nat) \<times> ('b, 'a, 'v, 'm, 'r, 'r pct) strategy) res" where
  "highest_priority el [] best s = Ret (best, s)"
| "highest_priority el (i # is) best s =
     andThen (el i s) (\<lambda>(ok, s).
     if \<not> ok then highest_priority el is best s
     else if length (priorities (policy s)) \<le> i then Exn Undefined
     else highest_priority el is (if fst best \<le> priorities (policy s) ! i then (priorities (policy s) ! i, i) else best) s)"

text \<open>In the fair stage the next eligible thread after the last chosen one replaces it.\<close>

fun fair_turn ::
    "(nat \<Rightarrow> ('b, 'a, 'v, 'm, 'r, 'r pct) strategy \<Rightarrow> (bool \<times> ('b, 'a, 'v, 'm, 'r, 'r pct) strategy) res) \<Rightarrow> nat
      \<Rightarrow> int \<times> nat \<Rightarrow> ('b, 'a, 'v, 'm, 'r, 'r pct) strategy \<Rightarrow> ((int \<times> nat) \<times> ('b, 'a, 'v, 'm, 'r, 'r pct) strategy) res" where
  "fair_turn el 0 best s = Ret (best, s)"
| "fair_turn el (Suc attempts) best s =
     (let s = pct_upd (\<lambda>p. p\<lparr>last_chosen := last_chosen p + 1\<rparr>) s; i = last_chosen (policy s) mod length (threads s) in
      andThen (el i s) (\<lambda>(ok, s).
      if \<not> ok then fair_turn el attempts best s
      else if length (priorities (policy s)) \<le> i then Exn Undefined
      else Ret ((priorities (policy s) ! i, i), s)))"

definition AvoidLivelock ::
    "(nat \<Rightarrow> ('b, 'a, 'v, 'm, 'r, 'r pct) strategy \<Rightarrow> (bool \<times> ('b, 'a, 'v, 'm, 'r, 'r pct) strategy) res)
      \<Rightarrow> int \<times> nat \<Rightarrow> ('b, 'a, 'v, 'm, 'r, 'r pct) strategy \<Rightarrow> ((int \<times> nat) \<times> ('b, 'a, 'v, 'm, 'r, 'r pct) strategy) res" where
  "AvoidLivelock el best s =
     andThen
       (if 0 < fair_stage (policy s) then
          andThen (fair_turn el (length (threads s)) best s) (\<lambda>((prior, index), s).
          Ret ((prior, index),
               if fair_start (policy s) = index then pct_upd (\<lambda>p. p\<lparr>fair_stage := fair_stage p - 1\<rparr>) s else s))
        else Ret (best, s)) (\<lambda>((prior, index), s).
     let s = (if count_chosen_same (policy s) = 1000 \<and> index = last_chosen (policy s)
              then pct_upd (\<lambda>p. p\<lparr>fair_stage := 5, fair_start := index\<rparr>) s else s);
         s = pct_upd (\<lambda>p. p\<lparr>count_chosen_same := (if index = last_chosen p then count_chosen_same p + 1 else 1)\<rparr>) s in
     Ret ((prior, index), s))"

definition change_priority :: "nat \<Rightarrow> 'r pct \<Rightarrow> 'r pct" where
  "change_priority index p =
     (let p = p\<lparr>current_schedule_length := current_schedule_length p + 1\<rparr> in
      fold (\<lambda>(i, point) p. if current_schedule_length p = point
              then p\<lparr>priorities := (priorities p)[index := int (current_depth p) - int i]\<rparr> else p)
        (enumerate 0 (priority_change_points p)) p)"

text \<open>The common part: no thread has been found when the highest priority is still the least number.\<close>

definition pct_choose ::
    "(nat \<Rightarrow> ('b, 'a, 'v, 'm, 'r, 'r pct) strategy \<Rightarrow> (bool \<times> ('b, 'a, 'v, 'm, 'r, 'r pct) strategy) res)
      \<Rightarrow> (nat \<Rightarrow> ('b, 'a, 'v, 'm, 'r, 'r pct) strategy \<Rightarrow> (bool \<times> ('b, 'a, 'v, 'm, 'r, 'r pct) strategy) res)
      \<Rightarrow> ('b, 'a, 'v, 'm, 'r, 'r pct) strategy \<Rightarrow> (nat option \<times> ('b, 'a, 'v, 'm, 'r, 'r pct) strategy) res" where
  "pct_choose el fair_el s =
     andThen (highest_priority el [0..<length (threads s)] (0, 0) s) (\<lambda>(best, s).
     andThen (AvoidLivelock fair_el best s) (\<lambda>((prior, index), s).
     if prior = 0 then Ret (None, s)
     else Ret (Some index, pct_upd (\<lambda>p. (change_priority index p)\<lparr>last_chosen := index\<rparr>) s)))"

definition pct_NextThreadId ::
    "('b, 'a, 'v, 'm, 'r) environment \<Rightarrow> ('b, 'a, 'v, 'm, 'r, 'r pct) strategy
      \<Rightarrow> (nat option \<times> ('b, 'a, 'v, 'm, 'r, 'r pct) strategy) res" where
  "pct_NextThreadId E s = pct_choose (eligible_in_turn E) (eligible E) s"

definition pct_NextSchedule ::
    "('b, 'a, 'v, 'm, 'r) environment \<Rightarrow> ('b, 'a, 'v, 'm, 'r, 'r pct) strategy
      \<Rightarrow> (next_result \<times> ('b, 'a, 'v, 'm, 'r, 'r pct) strategy) res" where
  "pct_NextSchedule E s =
     andThen (pct_choose (eligible_to_replay E) (eligible_to_replay E) s) (\<lambda>(chosen, s).
     case chosen of None \<Rightarrow> Ret (NextFailure DEADLOCK, s) | Some thread \<Rightarrow> Ret (schedule_thread thread s))"

definition pct_UpdateSimulatorState ::
    "('b, 'a, 'v, 'm, 'r) environment \<Rightarrow> nat \<Rightarrow> ('b, 'a, 'v, 'm, 'r, 'r pct) strategy
      \<Rightarrow> ((nat \<times> nat) list \<times> ('b, 'a, 'v, 'm, 'r, 'r pct) strategy) res" where
  "pct_UpdateSimulatorState E thread s =
     andThen (UpdateOSState E thread s) (\<lambda>(started, s).
     let p = policy s; ks = k_statistics p in
     if length (priorities p) < length (threads s) then
       andThen (PrepareForDepth E (current_depth p) (if ks = [] then 1 else sum_list ks div length ks) s) (\<lambda>s. Ret (started, s))
     else Ret (started, s))"

definition PctStrategy :: "('b, 'a, 'v, 'm, 'r) environment \<Rightarrow> ('b, 'a, 'v, 'm, 'r, 'r pct) strategy_ops" where
  "PctStrategy E =
     \<lparr>op_Next = \<lambda>s. andThen (pct_NextThreadId E s) (\<lambda>(picked, s). NextVerifiedFor E picked s),
      op_NextSchedule = pct_NextSchedule E,
      op_StartNextRound = \<lambda>s. andThen (StartNextRound E s) (\<lambda>s. andThen (UpdateStatistics E s) (\<lambda>s.
        Ret (start_checker E (threads_count s) s))),
      op_ResetCurrentRound = \<lambda>s. andThen (ResetCurrentRound E s) (UpdateStatistics E),
      op_ResetExplorationState = ResetExplorationState E,
      op_SetCustomRound = \<lambda>round s. andThen (SetCustomRound E round s) (UpdateStatistics E),
      op_UpdateSimulatorState = pct_UpdateSimulatorState E\<rparr>"

definition new_pct :: "'r \<Rightarrow> 'r pct" where
  "new_pct r =
     \<lparr>k_statistics = [], current_depth = 1, current_schedule_length = 0, count_chosen_same = 0, last_chosen = 0,
      fair_start = 0, fair_stage = 0, priorities = [], priority_change_points = [], pct_rng = r\<rparr>"

definition new_PctStrategy ::
    "('b, 'a, 'v, 'm, 'r) environment \<Rightarrow> nat \<Rightarrow> ('a, 'v, 'm) TaskBuilder list \<Rightarrow> 'b \<Rightarrow> ('a, 'v, 'm) machine \<Rightarrow> 'r \<Rightarrow> 'r
      \<Rightarrow> ('b, 'a, 'v, 'm, 'r, 'r pct) strategy res" where
  "new_PctStrategy E n ctors b m r r' = PrepareForDepth E 1 1 (BaseStrategyWithThreads E n ctors b m r (new_pct r'))"

end
