(* ===== verification/Tla_Strategy.thy ===== *)
theory Tla_Strategy
imports Strategies
begin

text \<open>
  The strategy that enumerates the executions of a round one after the other (src/runtime/include/tla_strategy.h): a
  stack of frames records the steps of the current execution, and the next round changes its last one.
\<close>

record Frame =
  frame_thread :: nat
  frame_constr_id :: nat
  frame_task_index :: nat
  frame_is_new :: bool

record tla =
  frame_counter :: nat
  at_task_creation :: bool
  start_thread_id :: nat
  start_constr_id :: nat
  frames :: "Frame list"
  is_exhausted :: bool

definition tla_upd :: "(tla \<Rightarrow> tla) \<Rightarrow> ('b, 'a, 'v, 'm, 'r, tla) strategy \<Rightarrow> ('b, 'a, 'v, 'm, 'r, tla) strategy" where
  "tla_upd f s = s\<lparr>policy := f (policy s)\<rparr>"

definition new_tla :: tla where
  "new_tla = \<lparr>frame_counter = 0, at_task_creation = False, start_thread_id = 0, start_constr_id = 0, frames = [],
     is_exhausted = False\<rparr>"

definition tla_NextSchedule ::
    "('b, 'a, 'v, 'm, 'r, tla) strategy \<Rightarrow> (next_result \<times> ('b, 'a, 'v, 'm, 'r, tla) strategy) res" where
  "tla_NextSchedule s =
     (let p = policy s in
      if length (frames p) \<le> frame_counter p then Ret (NextFailure DEADLOCK, s)
      else
        let frame = frames p ! frame_counter p; s = tla_upd (\<lambda>p. p\<lparr>frame_counter := frame_counter p + 1\<rparr>) s in
        if length (threads s) \<le> frame_thread frame then Exn Undefined
        else if length (threads s ! frame_thread frame) \<le> frame_task_index frame then Ret (NextFailure DEADLOCK, s)
        else Ret (NextTask (task_slot (threads s ! frame_thread frame ! frame_task_index frame)) (frame_is_new frame) (frame_thread frame), s))"

definition tla_verify ::
    "('b, 'a, 'v, 'm, 'r) environment \<Rightarrow> string \<Rightarrow> nat \<Rightarrow> bool \<Rightarrow> ('b, 'a, 'v, 'm, 'r, tla) strategy
      \<Rightarrow> (bool \<times> ('b, 'a, 'v, 'm, 'r, tla) strategy) res" where
  "tla_verify E name thread new s =
     andThen (base_Verify (verifier E) name (thread_arg thread) new (sched_checker s)) (\<lambda>(ok, b).
     Ret (ok, s\<lparr>sched_checker := b\<rparr>))"

text \<open>The first part of \<open>Next\<close>: a recorded step is made again.\<close>

definition tla_replay_step ::
    "('b, 'a, 'v, 'm, 'r) environment \<Rightarrow> Frame \<Rightarrow> ('b, 'a, 'v, 'm, 'r, tla) strategy
      \<Rightarrow> (next_result \<times> ('b, 'a, 'v, 'm, 'r, tla) strategy) res" where
  "tla_replay_step E frame s =
     (let thread = frame_thread frame in
      andThen (CanThreadContinue thread s) (\<lambda>os_status.
      andThen (cpp_assert os_status) (\<lambda>_.
      if length (threads s) \<le> thread \<or> (frame_is_new frame \<and> length (constructors s) \<le> frame_constr_id frame) then Exn Undefined
      else
        let s = (if frame_is_new frame then snd (append_task (constructors s ! frame_constr_id frame) thread s) else s) in
        andThen (cpp_assert (frame_task_index frame < length (threads s ! thread))) (\<lambda>_.
        let c = threads s ! thread ! frame_task_index frame in
        andThen (tla_verify E (task_name c) thread (frame_is_new frame) s) (\<lambda>(ok, s).
        andThen (cpp_assert ok) (\<lambda>_. Ret (NextTask (task_slot c) (frame_is_new frame) thread, s)))))))"

definition push_frame :: "Frame \<Rightarrow> tla \<Rightarrow> tla" where
  "push_frame frame p =
     p\<lparr>frames := frames p @ [frame], start_constr_id := 0, start_thread_id := 0, at_task_creation := False,
       frame_counter := frame_counter p + 1\<rparr>"

text \<open>The constructors from \<open>start_constr_id\<close> on: the first the verifier allows starts a task.\<close>

fun tla_new_task ::
    "('b, 'a, 'v, 'm, 'r) environment \<Rightarrow> nat \<Rightarrow> nat list \<Rightarrow> ('b, 'a, 'v, 'm, 'r, tla) strategy
      \<Rightarrow> (next_result option \<times> ('b, 'a, 'v, 'm, 'r, tla) strategy) res" where
  "tla_new_task E i [] s = Ret (None, s)"
| "tla_new_task E i (k # ks) s =
     andThen (tla_verify E (builder_name (constructors s ! k)) i True s) (\<lambda>(ok, s).
     if \<not> ok then tla_new_task E i ks s
     else
       let index = length (threads s ! i) in
       case append_task (constructors s ! k) i s of (c, s) \<Rightarrow>
       Ret (Some (NextTask (task_slot c) True i),
            tla_upd (push_frame \<lparr>frame_thread = i, frame_constr_id = k, frame_task_index = index, frame_is_new = True\<rparr>) s))"

fun tla_search ::
    "('b, 'a, 'v, 'm, 'r) environment \<Rightarrow> nat list \<Rightarrow> ('b, 'a, 'v, 'm, 'r, tla) strategy
      \<Rightarrow> (next_result \<times> ('b, 'a, 'v, 'm, 'r, tla) strategy) res" where
  "tla_search E [] s =
     (if frames (policy s) = [] then Ret (NextFailure EXHAUSTED_INTERLEAVINGS, tla_upd (\<lambda>p. p\<lparr>is_exhausted := True\<rparr>) s)
      else Ret (NextFailure NEED_REPLAY, s))"
| "tla_search E (i # is) s =
     andThen (CanThreadContinue i s) (\<lambda>ok.
     if \<not> ok then tla_search E is s
     else
       let tasks = threads s ! i in
       if tasks \<noteq> [] \<and> \<not> task_returned (last tasks) \<and> (\<not> at_task_creation (policy s) \<or> \<not> allow_new_tasks s) then
         (if task_blocked (last tasks) s then tla_search E is s
          else
            andThen (tla_verify E (task_name (last tasks)) i False s) (\<lambda>(ok, s).
            if \<not> ok then tla_search E is s
            else Ret (NextTask (task_slot (last tasks)) False i,
              tla_upd (push_frame \<lparr>frame_thread = i, frame_constr_id = 0, frame_task_index = length tasks - 1, frame_is_new = False\<rparr>) s)))
       else if \<not> allow_new_tasks s then tla_search E is s
       else
         andThen (tla_new_task E i [start_constr_id (policy s)..<length (constructors s)] s) (\<lambda>(started, s).
         case started of
           Some r \<Rightarrow> Ret (r, s)
         | None \<Rightarrow> tla_search E is
             (tla_upd (\<lambda>p. p\<lparr>at_task_creation := False, start_thread_id := i + 1, start_constr_id := 0\<rparr>) s)))"

definition tla_Next ::
    "('b, 'a, 'v, 'm, 'r) environment \<Rightarrow> ('b, 'a, 'v, 'm, 'r, tla) strategy
      \<Rightarrow> (next_result \<times> ('b, 'a, 'v, 'm, 'r, tla) strategy) res" where
  "tla_Next E s =
     (let p = policy s in
      if frame_counter p < length (frames p) then
        tla_replay_step E (frames p ! frame_counter p) (tla_upd (\<lambda>p. p\<lparr>frame_counter := frame_counter p + 1\<rparr>) s)
      else tla_search E [start_thread_id p..<length (threads s)] s)"

definition tla_next_frame :: "nat \<Rightarrow> tla \<Rightarrow> tla" where
  "tla_next_frame n p =
     (if frames p = [] then p\<lparr>is_exhausted := True\<rparr>
      else
        let frame = last (frames p) in
        (if \<not> frame_is_new frame then
           p\<lparr>at_task_creation := True, start_thread_id := frame_thread frame, start_constr_id := 0\<rparr>
         else if start_constr_id p + 1 = n then
           p\<lparr>start_thread_id := frame_thread frame + 1, start_constr_id := 0, at_task_creation := False\<rparr>
         else
           p\<lparr>at_task_creation := True, start_thread_id := frame_thread frame, start_constr_id := frame_constr_id frame + 1\<rparr>)
        \<lparr>frames := butlast (frames p)\<rparr>)"

definition tla_StartNextRound ::
    "('b, 'a, 'v, 'm, 'r) environment \<Rightarrow> ('b, 'a, 'v, 'm, 'r, tla) strategy \<Rightarrow> ('b, 'a, 'v, 'm, 'r, tla) strategy res" where
  "tla_StartNextRound E s =
     andThen (StartNextRound E s) (\<lambda>s.
     Ret (tla_upd (\<lambda>p. tla_next_frame (length (constructors s)) (p\<lparr>frame_counter := 0\<rparr>)) s))"

definition TLAStrategy :: "('b, 'a, 'v, 'm, 'r) environment \<Rightarrow> ('b, 'a, 'v, 'm, 'r, tla) strategy_ops" where
  "TLAStrategy E =
     \<lparr>op_Next = tla_Next E, op_NextSchedule = tla_NextSchedule, op_StartNextRound = tla_StartNextRound E,
      op_ResetCurrentRound = ResetCurrentRound E,
      op_ResetExplorationState = \<lambda>s. andThen (ResetExplorationState E s) (\<lambda>s. Ret (tla_upd (\<lambda>p. p\<lparr>frame_counter := 0\<rparr>) s)),
      op_SetCustomRound = SetCustomRound E, op_UpdateSimulatorState = UpdateOSState E\<rparr>"

end
