(* ===== verification/Scheduler_Rounds.thy ===== *)
theory Scheduler_Rounds
imports Tla_Strategy
begin

text \<open>
  The scheduler of ordinary histories (src/runtime/include/scheduler.h: \<open>StrategyScheduler\<close>): a round that is
  generated while it runs, the exploration of other interleavings of a round, and the replay of a given order of
  steps. The histories refer to the tasks of the strategy; what a checker sees is their state when it is called.
\<close>

section \<open>Histories that refer to tasks\<close>

datatype seq_event = SeqInvoke nat nat | SeqResponse nat value_wrapper nat

fun event_slot :: "seq_event \<Rightarrow> nat" where
  "event_slot (SeqInvoke slot _) = slot"
| "event_slot (SeqResponse slot _ _) = slot"

fun event_of :: "('b, 'a, 'v, 'm, 'r, 'p) strategy \<Rightarrow> seq_event \<Rightarrow> 'a history_event res" where
  "event_of s (SeqInvoke slot thread) = andThen (task_at slot s) (\<lambda>c. Ret (Invoke (task.truncate c) (int thread)))"
| "event_of s (SeqResponse slot v thread) = andThen (task_at slot s) (\<lambda>c. Ret (Response (task.truncate c) v (int thread)))"

fun history_of :: "('b, 'a, 'v, 'm, 'r, 'p) strategy \<Rightarrow> seq_event list \<Rightarrow> 'a history_event list res" where
  "history_of s [] = Ret []"
| "history_of s (e # es) = andThen (event_of s e) (\<lambda>e. andThen (history_of s es) (\<lambda>es. Ret (e # es)))"

datatype nonlinear_reason = ASSERT_FAILURE | DEADLOCK_FOUND | NON_LINEARIZABLE_HISTORY

record 'ev NonLinearizableHistory =
  nl_full :: "nat list"
  nl_seq :: "'ev list"
  nl_reason :: nonlinear_reason

datatype DeadlockPolicy = Fail | CheckHistory | Explore | Rollback

datatype ReplayMode = CompleteOnLast | NoForceComplete

record 'a scheduler_config =
  cfg_check :: "'a history_event list \<Rightarrow> bool res"
  max_tasks :: nat
  max_rounds :: nat
  exploration_runs :: nat
  deadlock_policy :: DeadlockPolicy

definition check_seq :: "'a scheduler_config \<Rightarrow> seq_event list \<Rightarrow> ('b, 'a, 'v, 'm, 'r, 'p) strategy \<Rightarrow> bool res" where
  "check_seq cfg seq s = andThen (history_of s seq) (cfg_check cfg)"

text \<open>The full history of a round keeps a thread with each task.\<close>

definition ConvFullHistWithThreadToFullHist :: "(nat \<times> nat) list \<Rightarrow> nat list" where
  "ConvFullHistWithThreadToFullHist full = map fst full"

section \<open>Questions about a round\<close>

fun unfinished_and_runnable ::
    "('b, 'a, 'v, 'm, 'r, 'p) strategy \<Rightarrow> int set option \<Rightarrow> bool \<Rightarrow> ('a, 'v, 'm) sched_task list \<Rightarrow> bool \<times> bool" where
  "unfinished_and_runnable s allowed unfinished [] = (unfinished, False)"
| "unfinished_and_runnable s allowed unfinished (c # cs) =
     (if (case allowed of None \<Rightarrow> False | Some ids \<Rightarrow> task_id c \<notin> ids) \<or> IsTaskRemoved (task_id c) s \<or> task_returned c
      then unfinished_and_runnable s allowed unfinished cs
      else if \<not> task_blocked c s then (True, True)
      else unfinished_and_runnable s allowed True cs)"

definition GetUnfinishedAndRunnable :: "('b, 'a, 'v, 'm, 'r, 'p) strategy \<Rightarrow> int set option \<Rightarrow> bool \<times> bool" where
  "GetUnfinishedAndRunnable s allowed = unfinished_and_runnable s allowed False (concat (threads s))"

text \<open>The tasks of a thread that have started, are not removed and have not returned.\<close>

definition active_started :: "('b, 'a, 'v, 'm, 'r, 'p) strategy \<Rightarrow> int set \<Rightarrow> ('a, 'v, 'm) sched_task list \<Rightarrow> ('a, 'v, 'm) sched_task list" where
  "active_started s started tasks =
     filter (\<lambda>c. task_id c \<in> started \<and> \<not> IsTaskRemoved (task_id c) s \<and> \<not> task_returned c) tasks"

definition count_active ::
    "('b, 'a, 'v, 'm, 'r, 'p) strategy \<Rightarrow> ('a, 'v, 'm) sched_task \<Rightarrow> start_context \<Rightarrow> start_context" where
  "count_active s c ctx =
     (let ctx = ctx\<lparr>active_by_method := count_method (task_name c) (active_by_method ctx)\<rparr> in
      if task_blocked c s then ctx\<lparr>blocked_by_method := count_method (task_name c) (blocked_by_method ctx)\<rparr> else ctx)"

definition BuildReplayStartContext :: "('b, 'a, 'v, 'm, 'r, 'p) strategy \<Rightarrow> int set \<Rightarrow> start_context" where
  "BuildReplayStartContext s started =
     fold (\<lambda>tasks ctx.
        let active = active_started s started tasks; ctx = fold (count_active s) active ctx in
        if active = [] then ctx\<lparr>free_threads := free_threads ctx + 1\<rparr> else ctx)
       (threads s) (empty_context (length (threads s)))"

text \<open>A deadlock is reported when the history has an operation that started and has not finished.\<close>

definition HasAnyStartedOp :: "'a history_event list \<Rightarrow> bool" where
  "HasAnyStartedOp h \<longleftrightarrow> list_ex is_invoke_event h"

definition HasPendingVisibleOp :: "'a history_event list \<Rightarrow> bool" where
  "HasPendingVisibleOp h \<longleftrightarrow>
     list_ex (\<lambda>e. is_invoke_event e \<and>
       \<not> list_ex (\<lambda>e'. \<not> is_invoke_event e' \<and> task_id (GetTask e') = task_id (GetTask e)) h) h"

definition IsReportableDeadlockHistory :: "'a history_event list \<Rightarrow> bool" where
  "IsReportableDeadlockHistory h \<longleftrightarrow> HasAnyStartedOp h \<and> HasPendingVisibleOp h"

section \<open>One step of a task\<close>

definition resume_task ::
    "('b, 'a, 'v, 'm, 'r) environment \<Rightarrow> nat \<Rightarrow> nat \<Rightarrow> ('b, 'a, 'v, 'm, 'r, 'p) strategy \<Rightarrow> ('b, 'a, 'v, 'm, 'r, 'p) strategy res" where
  "resume_task E slot thread s =
     andThen (task_at slot s) (\<lambda>c.
     andThen (Resume (run_fiber E) thread c (machine s)) (\<lambda>(c, m).
     Ret ((map_task slot (\<lambda>_. c) s)\<lparr>machine := m\<rparr>)))"

text \<open>A task that has returned is reported to the verifier, and its response is recorded.\<close>

definition finish_task ::
    "('b, 'a, 'v, 'm, 'r) environment \<Rightarrow> nat \<Rightarrow> nat \<Rightarrow> ('b, 'a, 'v, 'm, 'r, 'p) strategy
      \<Rightarrow> (seq_event list \<times> ('b, 'a, 'v, 'm, 'r, 'p) strategy) res" where
  "finish_task E slot thread s =
     andThen (task_at slot s) (\<lambda>c.
     if \<not> task_returned c then Ret ([], s)
     else
       andThen (OnVerifierTaskFinish E c thread s) (\<lambda>s.
       andThen (GetRetVal (task.truncate c)) (\<lambda>v. Ret ([SeqResponse slot v thread], s))))"

section \<open>Generating a round\<close>

datatype ('b, 'a, 'v, 'm, 'r, 'p) round_end =
    RoundOver bool "seq_event list" "(nat \<times> nat) list" "('b, 'a, 'v, 'm, 'r, 'p) strategy"
  | RoundExhausted "('b, 'a, 'v, 'm, 'r, 'p) strategy"

text \<open>
  The loop of \<open>RunRound\<close>. The outcome \<open>RoundOver\<close> says whether a deadlock was detected; the number of started tasks is
  kept when the strategy asks for a restart. The bound on the steps stands for a round that does not end.
\<close>

fun run_loop ::
    "('b, 'a, 'v, 'm, 'r, 'p) strategy_ops \<Rightarrow> ('b, 'a, 'v, 'm, 'r) environment \<Rightarrow> 'a scheduler_config \<Rightarrow> nat \<Rightarrow> nat \<Rightarrow>
      seq_event list \<Rightarrow> (nat \<times> nat) list \<Rightarrow> ('b, 'a, 'v, 'm, 'r, 'p) strategy \<Rightarrow> ('b, 'a, 'v, 'm, 'r, 'p) round_end res" where
  "run_loop Q E cfg 0 started seq full s = OutOfFuel"
| "run_loop Q E cfg (Suc fuel) started seq full s =
     (let s = (if max_tasks cfg \<le> started then SetAllowNewTasks False s else s);
          (unfinished, runnable) = GetUnfinishedAndRunnable s None in
      if max_tasks cfg \<le> started \<and> \<not> unfinished then Ret (RoundOver False seq full s)
      else if max_tasks cfg \<le> started \<and> \<not> runnable then Ret (RoundOver True seq full s)
      else
        andThen (op_Next Q s) (\<lambda>(t, s).
        case t of
          NextFailure DEADLOCK \<Rightarrow> Ret (RoundOver True seq full s)
        | NextFailure NEED_REPLAY \<Rightarrow>
            andThen (op_StartNextRound Q s) (\<lambda>s. run_loop Q E cfg fuel started [] [] s)
        | NextFailure EXHAUSTED_INTERLEAVINGS \<Rightarrow> Ret (RoundExhausted s)
        | NextTask slot is_new thread \<Rightarrow>
            let s = map_task slot clearWakeupCondition s;
                seq = (if is_new then seq @ [SeqInvoke slot thread] else seq) in
            andThen (resume_task E slot thread s) (\<lambda>s.
            andThen (op_UpdateSimulatorState Q thread s) (\<lambda>(created, s).
            andThen (finish_task E slot thread s) (\<lambda>(responses, s).
            run_loop Q E cfg fuel (if is_new then Suc started else started)
              (seq @ map (\<lambda>(slot, t). SeqInvoke slot t) created @ responses)
              (full @ map (\<lambda>(slot, t). (slot, t)) created) s)))))"

section \<open>Exploring a round\<close>

text \<open>The loop of \<open>ExploreRound\<close> over the tasks that are still to run.\<close>

fun explore_loop ::
    "('b, 'a, 'v, 'm, 'r, 'p) strategy_ops \<Rightarrow> ('b, 'a, 'v, 'm, 'r) environment \<Rightarrow> nat \<Rightarrow> nat \<Rightarrow> int set \<Rightarrow>
      seq_event list \<Rightarrow> nat list \<Rightarrow> ('b, 'a, 'v, 'm, 'r, 'p) strategy
      \<Rightarrow> (bool \<times> seq_event list \<times> nat list \<times> ('b, 'a, 'v, 'm, 'r, 'p) strategy) res" where
  "explore_loop Q E fuel 0 started seq full s = Ret (False, seq, full, s)"
| "explore_loop Q E 0 (Suc to_run) started seq full s = OutOfFuel"
| "explore_loop Q E (Suc fuel) (Suc to_run) started seq full s =
     andThen (op_NextSchedule Q s) (\<lambda>(t, s).
     case t of
       NextFailure f \<Rightarrow> if f = DEADLOCK then Ret (True, seq, full, s) else Exn BadVariantAccess
     | NextTask slot _ thread \<Rightarrow>
         andThen (task_at slot s) (\<lambda>c.
         let first = task_id c \<notin> started in
         andThen
           (if first then VerifyTaskStart E c thread (BuildReplayStartContext s started) s
            else if \<not> task_returned c then VerifyExistingTask E c thread s else Ret (True, s)) (\<lambda>(ok, s).
         if \<not> ok then Ret (True, seq, full, s)
         else
           let s = (if first then OnVerifierTaskStart E c thread s else s);
               started = (if first then insert (task_id c) started else started);
               seq = (if first then seq @ [SeqInvoke slot thread] else seq) in
           andThen (resume_task E slot thread s) (\<lambda>s.
           andThen (finish_task E slot thread s) (\<lambda>(responses, s).
           explore_loop Q E fuel (if responses = [] then Suc to_run else to_run) started (seq @ responses) (full @ [slot]) s)))))"

text \<open>What a history of an interleaving that ended is worth: Some history when it is to be reported.\<close>

definition verdict ::
    "'a scheduler_config \<Rightarrow> bool \<Rightarrow> nat list \<Rightarrow> seq_event list \<Rightarrow> ('b, 'a, 'v, 'm, 'r, 'p) strategy
      \<Rightarrow> seq_event NonLinearizableHistory option res" where
  "verdict cfg deadlock full seq s =
     (if deadlock \<and> deadlock_policy cfg = Fail then
        andThen (history_of s seq) (\<lambda>h.
        Ret (if IsReportableDeadlockHistory h then Some \<lparr>nl_full = full, nl_seq = seq, nl_reason = DEADLOCK_FOUND\<rparr> else None))
      else
        andThen (check_seq cfg seq s) (\<lambda>ok.
        Ret (if ok then None else Some \<lparr>nl_full = full, nl_seq = seq, nl_reason = NON_LINEARIZABLE_HISTORY\<rparr>)))"

fun ExploreRound ::
    "('b, 'a, 'v, 'm, 'r, 'p) strategy_ops \<Rightarrow> ('b, 'a, 'v, 'm, 'r) environment \<Rightarrow> 'a scheduler_config \<Rightarrow> nat \<Rightarrow> nat
      \<Rightarrow> ('b, 'a, 'v, 'm, 'r, 'p) strategy
      \<Rightarrow> (seq_event NonLinearizableHistory option \<times> ('b, 'a, 'v, 'm, 'r, 'p) strategy) res" where
  "ExploreRound Q E cfg fuel 0 s = Ret (None, s)"
| "ExploreRound Q E cfg fuel (Suc runs) s =
     andThen (op_ResetCurrentRound Q s) (\<lambda>s.
     andThen (explore_loop Q E fuel (GetValidTasksCount s) {} [] [] s) (\<lambda>(deadlock, seq, full, s).
     andThen (verdict cfg deadlock full seq s) (\<lambda>bad.
     case bad of None \<Rightarrow> ExploreRound Q E cfg fuel runs s | Some b \<Rightarrow> Ret (Some b, s))))"

text \<open>\<open>RunRound\<close>: a deadlock of a correct partial history is explored further when the policy asks for it.\<close>

definition RunRound ::
    "('b, 'a, 'v, 'm, 'r, 'p) strategy_ops \<Rightarrow> ('b, 'a, 'v, 'm, 'r) environment \<Rightarrow> 'a scheduler_config \<Rightarrow> nat
      \<Rightarrow> ('b, 'a, 'v, 'm, 'r, 'p) strategy
      \<Rightarrow> (seq_event NonLinearizableHistory option \<times> ('b, 'a, 'v, 'm, 'r, 'p) strategy) res" where
  "RunRound Q E cfg fuel s =
     andThen (run_loop Q E cfg fuel 0 [] [] (SetAllowNewTasks True s)) (\<lambda>r.
     case r of
       RoundExhausted s \<Rightarrow> Ret (None, s)
     | RoundOver deadlock seq full s \<Rightarrow>
         andThen (verdict cfg deadlock (ConvFullHistWithThreadToFullHist full) seq s) (\<lambda>bad.
         if bad = None \<and> deadlock \<and> deadlock_policy cfg \<in> {Explore, Rollback}
         then ExploreRound Q E cfg fuel (exploration_runs cfg) s else Ret (bad, s)))"

section \<open>Replaying an order of steps\<close>

text \<open>
  One step for each identifier of the order. A thread whose task may not run is cut off; with \<open>CompleteOnLast\<close> the
  last step of a task terminates it, and then no response is recorded.
\<close>

fun replay_loop ::
    "('b, 'a, 'v, 'm, 'r) environment \<Rightarrow> ReplayMode \<Rightarrow> int list \<Rightarrow> int set \<Rightarrow> nat set \<Rightarrow> seq_event list \<Rightarrow> nat list
      \<Rightarrow> ('b, 'a, 'v, 'm, 'r, 'p) strategy \<Rightarrow> (seq_event list \<times> nat list \<times> ('b, 'a, 'v, 'm, 'r, 'p) strategy) res" where
  "replay_loop E mode [] started cutoff seq full s = Ret (seq, full, s)"
| "replay_loop E mode (ident # rest) started cutoff seq full s =
     (case strategy_GetTask ident s of
        None \<Rightarrow> Exn (RuntimeError ''Invalid task id'')
      | Some (slot, thread) \<Rightarrow>
          if thread \<in> cutoff then replay_loop E mode rest started cutoff seq full s
          else
            andThen (task_at slot s) (\<lambda>c.
            let first = ident \<notin> started in
            andThen
              (if first then VerifyTaskStart E c thread (BuildReplayStartContext s started) s
               else if \<not> task_returned c then VerifyExistingTask E c thread s else Ret (True, s)) (\<lambda>(ok, s).
            if \<not> ok then replay_loop E mode rest started (insert thread cutoff) seq full s
            else
              let s = (if first then OnVerifierTaskStart E c thread s else s);
                  started = (if first then insert ident started else started);
                  s = map_task slot clearWakeupCondition s;
                  seq = (if first then seq @ [SeqInvoke slot thread] else seq);
                  full = full @ [slot] in
              if task_returned c then replay_loop E mode rest started cutoff seq full s
              else if mode = CompleteOnLast \<and> ident \<notin> set rest then
                let s = map_task slot Terminate s in
                andThen (task_at slot s) (\<lambda>c.
                andThen (OnVerifierTaskFinish E c thread s) (\<lambda>s. replay_loop E mode rest started cutoff seq full s))
              else
                andThen (resume_task E slot thread s) (\<lambda>s.
                andThen (finish_task E slot thread s) (\<lambda>(responses, s).
                replay_loop E mode rest started cutoff (seq @ responses) full s)))))"

definition ReplayRound ::
    "('b, 'a, 'v, 'm, 'r, 'p) strategy_ops \<Rightarrow> ('b, 'a, 'v, 'm, 'r) environment \<Rightarrow> 'a scheduler_config \<Rightarrow> ReplayMode \<Rightarrow> int list
      \<Rightarrow> ('b, 'a, 'v, 'm, 'r, 'p) strategy
      \<Rightarrow> (seq_event NonLinearizableHistory option \<times> ('b, 'a, 'v, 'm, 'r, 'p) strategy) res" where
  "ReplayRound Q E cfg mode order s =
     andThen (op_ResetCurrentRound Q s) (\<lambda>s.
     andThen (replay_loop E mode order {} {} [] [] s) (\<lambda>(seq, full, s).
     andThen (check_seq cfg seq s) (\<lambda>ok.
     if \<not> ok then Ret (Some \<lparr>nl_full = full, nl_seq = seq, nl_reason = NON_LINEARIZABLE_HISTORY\<rparr>, s)
     else
       let (unfinished, runnable) = GetUnfinishedAndRunnable s (Some (set order)) in
       if mode = NoForceComplete \<and> unfinished \<and> \<not> runnable \<and> deadlock_policy cfg = Fail then
         andThen (history_of s seq) (\<lambda>h.
         Ret (if IsReportableDeadlockHistory h
              then Some \<lparr>nl_full = full, nl_seq = seq, nl_reason = DEADLOCK_FOUND\<rparr> else None, s))
       else Ret (None, s))))"

section \<open>All rounds\<close>

text \<open>\<open>Run\<close> up to the point where a history has been found: rounds of the user first, then generated ones.\<close>

fun find_round ::
    "('b, 'a, 'v, 'm, 'r, 'p) strategy_ops \<Rightarrow> ('b, 'a, 'v, 'm, 'r) environment \<Rightarrow> 'a scheduler_config \<Rightarrow> nat
      \<Rightarrow> ('a, 'v, 'm) custom_round list \<Rightarrow> nat \<Rightarrow> ('b, 'a, 'v, 'm, 'r, 'p) strategy
      \<Rightarrow> (seq_event NonLinearizableHistory option \<times> ('b, 'a, 'v, 'm, 'r, 'p) strategy) res" where
  "find_round Q E cfg fuel (round # rounds) n s =
     andThen (op_SetCustomRound Q round s) (\<lambda>s.
     andThen (ExploreRound Q E cfg fuel (exploration_runs cfg) s) (\<lambda>(bad, s).
     case bad of
       Some b \<Rightarrow> Ret (Some b, s)
     | None \<Rightarrow> andThen (op_StartNextRound Q s) (\<lambda>s. find_round Q E cfg fuel rounds n s)))"
| "find_round Q E cfg fuel [] (Suc n) s =
     andThen (RunRound Q E cfg fuel s) (\<lambda>(bad, s).
     case bad of
       Some b \<Rightarrow> Ret (Some b, s)
     | None \<Rightarrow> andThen (op_StartNextRound Q s) (\<lambda>s. find_round Q E cfg fuel [] n s))"
| "find_round Q E cfg fuel [] 0 s = Ret (None, s)"

end
