(* ===== verification/Scheduler_Safety.thy ===== *)
theory Scheduler_Safety
imports Scheduler_Rounds "HOL-Library.Multiset"
begin

text \<open>
  What a scheduler reports: the histories it records are well formed, whatever the strategy, the verifier and the
  tested program do, and a history is reported as not linearizable only when the checker rejects it.
\<close>

section \<open>Events and the tasks they refer to\<close>

fun seq_inv_key :: "seq_event \<Rightarrow> nat option" where
  "seq_inv_key (SeqInvoke slot _) = Some slot"
| "seq_inv_key (SeqResponse _ _ _) = None"

fun seq_rsp_key :: "seq_event \<Rightarrow> nat option" where
  "seq_rsp_key (SeqInvoke _ _) = None"
| "seq_rsp_key (SeqResponse slot _ _) = Some slot"

abbreviation seq_matched :: "seq_event list \<Rightarrow> bool" where
  "seq_matched seq \<equiv> well_matched seq_inv_key seq_rsp_key seq"

definition invoked :: "seq_event list \<Rightarrow> nat set" where
  "invoked seq = {slot. \<exists>e\<in>set seq. seq_inv_key e = Some slot}"

definition responded :: "seq_event list \<Rightarrow> nat set" where
  "responded seq = {slot. \<exists>e\<in>set seq. seq_rsp_key e = Some slot}"

lemma invoked_simps [simp]:
  "invoked [] = {}" "invoked (seq @ es) = invoked seq \<union> invoked es"
  "invoked [SeqInvoke slot t] = {slot}" "invoked [SeqResponse slot v t] = {}"
  by (auto simp: invoked_def)

lemma responded_simps [simp]:
  "responded [] = {}" "responded (seq @ es) = responded seq \<union> responded es"
  "responded [SeqInvoke slot t] = {}" "responded [SeqResponse slot v t] = {slot}"
  by (auto simp: responded_def)

lemma seq_matched_Nil [simp]: "seq_matched []"
  by (simp add: well_matched_def distinct_keys_def)

lemma distinct_keys_snoc:
  assumes "distinct_keys f h" "f e \<noteq> None \<Longrightarrow> \<forall>x\<in>set h. f x \<noteq> f e"
  shows "distinct_keys f (h @ [e])"
  unfolding distinct_keys_def
proof (intro allI impI)
  fix i j
  assume ij: "i < length (h @ [e])" "j < i" "f ((h @ [e]) ! i) \<noteq> None"
  show "f ((h @ [e]) ! j) \<noteq> f ((h @ [e]) ! i)"
  proof (cases "i < length h")
    case True
    then show ?thesis using assms(1) ij by (simp add: distinct_keys_def nth_append)
  next
    case False
    then have "i = length h" using ij(1) by simp
    then show ?thesis using assms(2) ij by (simp add: nth_append)
  qed
qed

lemma well_matched_snoc:
  assumes wm: "well_matched ik rk h" and e: "(ik e = None) \<noteq> (rk e = None)"
    and i: "ik e \<noteq> None \<Longrightarrow> \<forall>x\<in>set h. ik x \<noteq> ik e"
    and r: "rk e \<noteq> None \<Longrightarrow> (\<forall>x\<in>set h. rk x \<noteq> rk e) \<and> (\<exists>x\<in>set h. ik x = rk e)"
  shows "well_matched ik rk (h @ [e])"
  unfolding well_matched_def
proof (intro conjI allI impI)
  show "distinct_keys ik (h @ [e])" "distinct_keys rk (h @ [e])"
    using wm i r by (auto simp: well_matched_def intro!: distinct_keys_snoc)
next
  fix n
  assume "n < length (h @ [e])"
  then show "(ik ((h @ [e]) ! n) = None) \<noteq> (rk ((h @ [e]) ! n) = None)"
    using wm e by (cases "n < length h") (auto simp: well_matched_def nth_append less_Suc_eq)
next
  fix n
  assume n: "n < length (h @ [e])" "rk ((h @ [e]) ! n) \<noteq> None"
  show "\<exists>k<n. ik ((h @ [e]) ! k) = rk ((h @ [e]) ! n)"
  proof (cases "n < length h")
    case True
    then have "rk (h ! n) \<noteq> None" using n by (simp add: nth_append)
    then obtain k where "k < n" "ik (h ! k) = rk (h ! n)" using wm True unfolding well_matched_def by blast
    then show ?thesis using True by (intro exI [of _ k]) (simp add: nth_append)
  next
    case False
    then have l: "n = length h" using n(1) by simp
    then obtain x where "x \<in> set h" "ik x = rk e" using r n(2) by auto
    then show ?thesis using l by (auto simp: in_set_conv_nth nth_append)
  qed
qed

lemma seq_matched_invoke:
  "seq_matched seq \<Longrightarrow> slot \<notin> invoked seq \<Longrightarrow> seq_matched (seq @ [SeqInvoke slot t])"
  by (rule well_matched_snoc) (auto simp: invoked_def)

lemma seq_matched_response:
  "seq_matched seq \<Longrightarrow> slot \<in> invoked seq \<Longrightarrow> slot \<notin> responded seq \<Longrightarrow> seq_matched (seq @ [SeqResponse slot v t])"
  by (rule well_matched_snoc) (auto simp: invoked_def responded_def)

section \<open>The cells of a strategy\<close>

definition cells :: "('b, 'a, 'v, 'm, 'r, 'p) strategy \<Rightarrow> nat set" where
  "cells s = task_slot ` set (all_tasks s)"

text \<open>Cells and coroutines have different numbers, below the next one to be given.\<close>

definition cells_ok :: "('b, 'a, 'v, 'm, 'r, 'p) strategy \<Rightarrow> bool" where
  "cells_ok s \<longleftrightarrow>
     distinct (map task_slot (all_tasks s)) \<and> distinct (map task_get (all_tasks s)) \<and>
     set (map task_slot (all_tasks s)) \<subseteq> {..<next_address s} \<and> set (map task_get (all_tasks s)) \<subseteq> {..<next_address s}"

definition same_cells :: "('b, 'a, 'v, 'm, 'r, 'p) strategy \<Rightarrow> ('b, 'a, 'v, 'm, 'r, 'p) strategy \<Rightarrow> bool" where
  "same_cells s s' \<longleftrightarrow>
     threads s' = threads s \<and> os_threads s' = os_threads s \<and> next_address s' = next_address s \<and>
     new_task_id s' = new_task_id s \<and> length (round_schedule s') = length (round_schedule s)"

lemma same_cells_refl [simp]: "same_cells s s"
  by (simp add: same_cells_def)

lemma same_cells_trans: "same_cells s t \<Longrightarrow> same_cells t u \<Longrightarrow> same_cells s u"
  by (simp add: same_cells_def)

lemma same_cells_all: "same_cells s s' \<Longrightarrow> all_tasks s' = all_tasks s"
  by (simp add: same_cells_def all_tasks_def)

lemma same_cells_cells: "same_cells s s' \<Longrightarrow> cells s' = cells s"
  by (simp add: cells_def same_cells_all)

lemma same_cells_ok: "same_cells s s' \<Longrightarrow> cells_ok s' = cells_ok s"
  by (simp add: cells_ok_def same_cells_all) (simp add: same_cells_def)

lemma same_cells_task: "same_cells s s' \<Longrightarrow> task_at slot s' = task_at slot s"
  by (simp add: task_at_def same_cells_all)

lemma find_Some_mem: "find P xs = Some x \<Longrightarrow> x \<in> set xs \<and> P x"
  by (auto simp: find_Some_iff)

lemma task_at_Ret:
  assumes "cells_ok s"
  shows "task_at slot s = Ret c \<longleftrightarrow> c \<in> set (all_tasks s) \<and> task_slot c = slot"
proof
  assume "task_at slot s = Ret c"
  then show "c \<in> set (all_tasks s) \<and> task_slot c = slot"
    by (auto simp: task_at_def split: option.splits dest: find_Some_mem)
next
  assume c: "c \<in> set (all_tasks s) \<and> task_slot c = slot"
  then have "find (\<lambda>c. task_slot c = slot) (all_tasks s) \<noteq> None" by (auto simp: find_None_iff)
  then obtain d where d: "find (\<lambda>c. task_slot c = slot) (all_tasks s) = Some d" by blast
  then have "d \<in> set (all_tasks s)" "task_slot d = slot" by (auto dest: find_Some_mem)
  with c assms have "d = c" by (auto simp: cells_ok_def distinct_map inj_on_def)
  then show "task_at slot s = Ret c" using d by (simp add: task_at_def)
qed

lemma task_at_cell: "cells_ok s \<Longrightarrow> slot \<in> cells s \<Longrightarrow> \<exists>c. task_at slot s = Ret c"
  by (auto simp: task_at_Ret cells_def)

definition thread_cells :: "('b, 'a, 'v, 'm, 'r, 'p) strategy \<Rightarrow> nat set" where
  "thread_cells s = task_slot ` set (concat (threads s))"

lemma thread_cells_sub: "thread_cells s \<subseteq> cells s"
  by (auto simp: thread_cells_def cells_def all_tasks_def)

lemma same_cells_thread: "same_cells s s' \<Longrightarrow> thread_cells s' = thread_cells s"
  by (simp add: thread_cells_def same_cells_def)

text \<open>The tasks of the threads by their cells and identifiers; the identifiers of a round are different.\<close>

definition thread_tasks :: "('b, 'a, 'v, 'm, 'r, 'p) strategy \<Rightarrow> (nat \<times> int) list list" where
  "thread_tasks s = map (map (\<lambda>c. (task_slot c, task_id c))) (threads s)"

lemma thread_cells_tasks: "thread_cells s = fst ` set (concat (thread_tasks s))"
  by (simp add: thread_cells_def thread_tasks_def image_UN image_image)

lemma same_cells_tasks: "same_cells s s' \<Longrightarrow> thread_tasks s' = thread_tasks s"
  by (simp add: thread_tasks_def same_cells_def)

definition shape_ok :: "('b, 'a, 'v, 'm, 'r, 'p) strategy \<Rightarrow> bool" where
  "shape_ok s \<longleftrightarrow>
     distinct (map snd (concat (thread_tasks s))) \<and> (\<forall>t\<in>set (concat (thread_tasks s)). snd t < new_task_id s) \<and>
     length (round_schedule s) = length (thread_tasks s)"

lemma same_cells_shape: "same_cells s s' \<Longrightarrow> shape_ok s' = shape_ok s"
  by (simp add: shape_ok_def same_cells_tasks) (simp add: same_cells_def)

text \<open>What a change of a coroutine keeps: the numbers of its cell and of itself, and its identifier.\<close>

definition same_task :: "('a, 'e) coro \<Rightarrow> ('a, 'e) coro \<Rightarrow> bool" where
  "same_task c d \<longleftrightarrow> task_slot d = task_slot c \<and> task_get d = task_get c \<and> task_id d = task_id c"

lemma all_tasks_map: "all_tasks (map_task slot f s) = map (\<lambda>c. if task_slot c = slot then f c else c) (all_tasks s)"
  by (simp add: all_tasks_def map_task_def map_concat)

lemma map_task_fields [simp]:
  "next_address (map_task slot f s) = next_address s" "machine (map_task slot f s) = machine s"
  "round_schedule (map_task slot f s) = round_schedule s" "new_task_id (map_task slot f s) = new_task_id s"
  by (simp_all add: map_task_def)

lemma map_task_cells:
  assumes "\<forall>c\<in>set (all_tasks s). task_slot c = slot \<longrightarrow> same_task c (f c)"
  shows "cells (map_task slot f s) = cells s" "cells_ok (map_task slot f s) = cells_ok s"
    "thread_tasks (map_task slot f s) = thread_tasks s"
proof -
  let ?g = "\<lambda>c. if task_slot c = slot then f c else c"
  have g: "task_slot (?g c) = task_slot c" "task_get (?g c) = task_get c" "task_id (?g c) = task_id c"
    if "c \<in> set (all_tasks s)" for c
    using assms that by (auto simp: same_task_def)
  have m: "map task_slot (map ?g (all_tasks s)) = map task_slot (all_tasks s)"
    "map task_get (map ?g (all_tasks s)) = map task_get (all_tasks s)"
    unfolding map_map comp_def by (rule map_cong [OF refl], rule g, assumption)+
  have "cells (map_task slot f s) = set (map task_slot (map ?g (all_tasks s)))"
    by (simp only: cells_def all_tasks_map set_map)
  then show "cells (map_task slot f s) = cells s" unfolding m(1) by (simp add: cells_def)
  show "cells_ok (map_task slot f s) = cells_ok s"
    by (simp only: cells_ok_def all_tasks_map m map_task_fields)
  have "(task_slot (?g c), task_id (?g c)) = (task_slot c, task_id c)" if "c \<in> set t" "t \<in> set (threads s)" for c t
  proof -
    have "c \<in> set (all_tasks s)" using that by (auto simp: all_tasks_def)
    then show ?thesis by (simp only: g)
  qed
  then have "map (\<lambda>t. map (\<lambda>c. (task_slot (?g c), task_id (?g c))) t) (threads s) = thread_tasks s"
    unfolding thread_tasks_def by (intro map_cong refl)
  then show "thread_tasks (map_task slot f s) = thread_tasks s"
    unfolding map_task_def by (simp add: thread_tasks_def comp_def)
qed

section \<open>The recorded history\<close>

definition hist_inv :: "seq_event list \<Rightarrow> ('b, 'a, 'v, 'm, 'r, 'p) strategy \<Rightarrow> bool" where
  "hist_inv seq s \<longleftrightarrow>
     cells_ok s \<and> seq_matched seq \<and> invoked seq \<subseteq> cells s \<and>
     responded seq \<subseteq> {task_slot c | c. c \<in> set (all_tasks s) \<and> task_returned c}"

lemma hist_inv_same: "hist_inv seq s \<Longrightarrow> same_cells s s' \<Longrightarrow> hist_inv seq s'"
  by (simp add: hist_inv_def same_cells_ok same_cells_cells same_cells_all)

lemma hist_inv_invoke: "hist_inv seq s \<Longrightarrow> slot \<in> cells s \<Longrightarrow> slot \<notin> invoked seq \<Longrightarrow> hist_inv (seq @ [SeqInvoke slot t]) s"
  by (simp add: hist_inv_def seq_matched_invoke)

lemma not_responded:
  assumes "hist_inv seq s" "task_at slot s = Ret c" "\<not> task_returned c"
  shows "slot \<notin> responded seq"
proof
  assume "slot \<in> responded seq"
  then obtain d where d: "d \<in> set (all_tasks s)" "task_slot d = slot" "task_returned d"
    using assms(1) by (auto simp: hist_inv_def)
  then have "task_at slot s = Ret d" using assms(1) by (simp add: task_at_Ret hist_inv_def)
  with assms(2,3) d(3) show False by simp
qed

lemma hist_inv_map:
  assumes inv: "hist_inv seq s"
    and f: "\<forall>c\<in>set (all_tasks s). task_slot c = slot \<longrightarrow> same_task c (f c)"
    and r: "\<forall>c\<in>set (all_tasks s). task_slot c = slot \<longrightarrow> task_returned c \<longrightarrow> task_returned (f c)"
  shows "hist_inv seq (map_task slot f s)"
proof -
  have "\<exists>d\<in>set (all_tasks (map_task slot f s)). task_slot d = x \<and> task_returned d" if "x \<in> responded seq" for x
  proof -
    have "x \<in> {task_slot c | c. c \<in> set (all_tasks s) \<and> task_returned c}" using inv that unfolding hist_inv_def by blast
    then obtain c where c: "c \<in> set (all_tasks s)" "task_slot c = x" "task_returned c" by blast
    let ?c = "if task_slot c = slot then f c else c"
    have "?c \<in> set (all_tasks (map_task slot f s))" unfolding all_tasks_map set_map using c(1) by (rule imageI)
    moreover have "task_slot ?c = x" "task_returned ?c" using c f r by (auto simp: same_task_def)
    ultimately show ?thesis by blast
  qed
  then show ?thesis
    using inv map_task_cells [OF f] by (auto simp: hist_inv_def)
qed

text \<open>The fiber of a coroutine changes neither where it is nor what it is.\<close>

definition fiber_keeps_task :: "('b, 'a, 'v, 'm, 'r) environment \<Rightarrow> bool" where
  "fiber_keeps_task E \<longleftrightarrow>
     (\<forall>thread c m. same_task c (fst (run_fiber E thread c m)))"

text \<open>The operations of a round: what every task of every thread calls. The name of a coroutine and its arguments are
  set when it is made, and a fiber does not change them.\<close>

definition round_calls :: "('b, 'a, 'v, 'm, 'r, 'p) strategy \<Rightarrow> (int \<times> string \<times> 'a) list list" where
  "round_calls s = map (map (\<lambda>c. (task_id c, task_name c, task_args c))) (threads s @ os_threads s)"

definition fiber_keeps_call :: "('b, 'a, 'v, 'm, 'r) environment \<Rightarrow> bool" where
  "fiber_keeps_call E \<longleftrightarrow>
     (\<forall>thread c m. task_name (fst (run_fiber E thread c m)) = task_name c \<and> task_args (fst (run_fiber E thread c m)) = task_args c)"

lemma round_calls_fields [simp]:
  "round_calls (s\<lparr>machine := m\<rparr>) = round_calls s" "round_calls (s\<lparr>sched_checker := b\<rparr>) = round_calls s"
  by (simp_all add: round_calls_def)

lemma same_cells_calls: "same_cells s s' \<Longrightarrow> round_calls s' = round_calls s"
  by (simp add: same_cells_def round_calls_def)

lemma map_task_calls:
  assumes "\<And>c. c \<in> set (all_tasks s) \<Longrightarrow> task_slot c = slot \<Longrightarrow>
    task_id (f c) = task_id c \<and> task_name (f c) = task_name c \<and> task_args (f c) = task_args c"
  shows "round_calls (map_task slot f s) = round_calls s"
  unfolding round_calls_def map_task_def using assms by (auto simp: all_tasks_def)

lemma hist_inv_machine [simp]: "hist_inv seq (s\<lparr>machine := m\<rparr>) = hist_inv seq s"
  "cells (s\<lparr>machine := m\<rparr>) = cells s" "thread_tasks (s\<lparr>machine := m\<rparr>) = thread_tasks s"
  by (simp_all add: hist_inv_def cells_ok_def cells_def all_tasks_def thread_tasks_def)

lemma resume_task_spec:
  assumes "hist_inv seq s" "fiber_keeps_task E" "resume_task E slot thread s = Ret s'"
  shows "hist_inv seq s'" "slot \<notin> responded seq" "thread_tasks s' = thread_tasks s"
    "new_task_id s' = new_task_id s" "round_schedule s' = round_schedule s"
    "fiber_keeps_call E \<longrightarrow> round_calls s' = round_calls s"
proof -
  obtain c where c: "task_at slot s = Ret c" "\<not> task_returned c"
    and s': "s' = (map_task slot (\<lambda>_. fst (run_fiber E thread c (machine s))) s)\<lparr>machine := snd (run_fiber E thread c (machine s))\<rparr>"
    using assms(3)
    by (auto simp: resume_task_def Resume_def cpp_assert_def andThen_eq_Ret case_prod_beta split: if_splits)
  have d: "d = c" if "d \<in> set (all_tasks s)" "task_slot d = slot" for d
    using that c(1) assms(1) by (auto simp: hist_inv_def task_at_Ret cells_ok_def distinct_map inj_on_def)
  have k: "\<forall>d\<in>set (all_tasks s). task_slot d = slot \<longrightarrow>
      same_task d (fst (run_fiber E thread c (machine s)))"
    using d assms(2) by (auto simp: fiber_keeps_task_def)
  show "slot \<notin> responded seq" by (rule not_responded [OF assms(1) c])
  show "hist_inv seq s'" unfolding s' hist_inv_machine
    by (rule hist_inv_map [OF assms(1) k]) (use d c(2) in auto)
  show "thread_tasks s' = thread_tasks s" unfolding s' hist_inv_machine by (rule map_task_cells(3) [OF k])
  show "new_task_id s' = new_task_id s" "round_schedule s' = round_schedule s" by (simp_all add: s')
  show "fiber_keeps_call E \<longrightarrow> round_calls s' = round_calls s"
    unfolding s' round_calls_fields using d assms(2)
    by (intro impI map_task_calls) (auto simp: fiber_keeps_call_def fiber_keeps_task_def same_task_def)
qed

lemma finish_task_spec:
  assumes "hist_inv seq s" "slot \<in> invoked seq" "slot \<notin> responded seq" "finish_task E slot thread s = Ret (es, s')"
  shows "hist_inv (seq @ es) s'" "\<exists>b. s' = s\<lparr>sched_checker := b\<rparr>" "invoked es = {}"
proof -
  obtain c where c: "task_at slot s = Ret c"
    and es: "\<not> task_returned c \<and> es = [] \<and> s' = s \<or>
      task_returned c \<and> es = [SeqResponse slot (task_ret c) thread] \<and> (\<exists>b. s' = s\<lparr>sched_checker := b\<rparr>)"
    using assms(4)
    by (auto simp: finish_task_def OnVerifierTaskFinish_def GetRetVal_def cpp_assert_def andThen_eq_Ret task.truncate_def
        split: if_splits)
  then show sc: "\<exists>b. s' = s\<lparr>sched_checker := b\<rparr>" by (metis strategy.surjective strategy.update_convs(5))
  then have same: "same_cells s s'" by (auto simp: same_cells_def)
  have "c \<in> set (all_tasks s)" "task_slot c = slot" using c assms(1) by (auto simp: hist_inv_def task_at_Ret)
  then have "hist_inv (seq @ es) s"
    using es assms(1-3) by (auto simp: hist_inv_def seq_matched_response)
  then show "hist_inv (seq @ es) s'" by (rule hist_inv_same) (rule same)
  show "invoked es = {}" using es by auto
qed

section \<open>New cells\<close>

definition adds_cell ::
    "('b, 'a, 'v, 'm, 'r, 'p) strategy \<Rightarrow> nat \<Rightarrow> ('b, 'a, 'v, 'm, 'r, 'p) strategy \<Rightarrow> bool" where
  "adds_cell s slot s' \<longleftrightarrow>
     slot = next_address s \<and> next_address s' = Suc (next_address s) \<and>
     (\<exists>c. task_slot c = slot \<and> task_get c = slot \<and> mset (all_tasks s') = add_mset c (mset (all_tasks s)))"

lemma distinct_mset_map: "mset ys = add_mset c (mset xs) \<Longrightarrow> distinct (map f ys) = distinct (map f (c # xs))"
  by (rule mset_eq_imp_distinct_iff) simp

lemma adds_cell_spec:
  assumes "adds_cell s slot s'" "cells_ok s"
  shows "cells_ok s'" "cells s' = insert slot (cells s)" "slot \<notin> cells s" "set (all_tasks s) \<subseteq> set (all_tasks s')"
proof -
  obtain c where c: "task_slot c = slot" "task_get c = slot" "mset (all_tasks s') = add_mset c (mset (all_tasks s))"
    and a: "slot = next_address s" "next_address s' = Suc (next_address s)"
    using assms(1) by (auto simp: adds_cell_def)
  have e: "set (all_tasks s') = insert c (set (all_tasks s))"
    using arg_cong [OF c(3), of set_mset] by simp
  show n: "slot \<notin> cells s" using assms(2) a(1) by (auto simp: cells_ok_def cells_def)
  have g: "slot \<notin> task_get ` set (all_tasks s)" using assms(2) a(1) by (auto simp: cells_ok_def)
  show "cells_ok s'"
    unfolding cells_ok_def distinct_mset_map [OF c(3)] using n g assms(2) a c(1,2) e by (auto simp: cells_ok_def cells_def)
  show "cells s' = insert slot (cells s)" using e c(1) by (simp add: cells_def)
  show "set (all_tasks s) \<subseteq> set (all_tasks s')" using e by auto
qed

lemma hist_inv_add:
  assumes "hist_inv seq s" "adds_cell s slot s'"
  shows "hist_inv (seq @ [SeqInvoke slot t]) s'"
proof -
  have ok: "cells_ok s" using assms(1) by (simp add: hist_inv_def)
  note a = adds_cell_spec [OF assms(2) ok]
  have "slot \<notin> invoked seq" using assms(1) a(3) by (auto simp: hist_inv_def)
  moreover have "responded seq \<subseteq> {task_slot c | c. c \<in> set (all_tasks s') \<and> task_returned c}"
    using assms(1) a(4) unfolding hist_inv_def by blast
  ultimately show ?thesis
    using assms(1) a by (auto simp: hist_inv_def seq_matched_invoke)
qed

lemma mset_concat_append:
  "i < length xss \<Longrightarrow> mset (concat (xss[i := xss ! i @ [c]])) = add_mset c (mset (concat xss))"
proof (induction xss arbitrary: i)
  case (Cons xs xss)
  then show ?case by (cases i) auto
qed simp

end
