(* ===== verification/Round_Reports.thy ===== *)
theory Round_Reports
imports Scheduler_Safety
begin

text \<open>
  What the scheduler relies on in a strategy, and what it reports of a round that it generates or explores: the history
  is well formed, and it is one that the checker rejects or, where a deadlock is a failure, one with a pending
  operation.
\<close>

section \<open>What a strategy gives the scheduler\<close>

text \<open>The next task is a new one in a new cell of a thread, or one of a thread.\<close>

definition next_ok ::
    "('b, 'a, 'v, 'm, 'r, 'p) strategy \<Rightarrow> next_result \<Rightarrow> ('b, 'a, 'v, 'm, 'r, 'p) strategy \<Rightarrow> bool" where
  "next_ok s r s' \<longleftrightarrow>
     (case r of
        NextFailure _ \<Rightarrow> same_cells s s'
      | NextTask slot new thread \<Rightarrow>
          if new then adds_cell s slot s' \<and> thread_cells s' = insert slot (thread_cells s) \<and> (shape_ok s \<longrightarrow> shape_ok s')
          else same_cells s s' \<and> slot \<in> thread_cells s)"

definition simulated ::
    "('b, 'a, 'v, 'm, 'r, 'p) strategy \<Rightarrow> (nat \<times> nat) list \<Rightarrow> ('b, 'a, 'v, 'm, 'r, 'p) strategy \<Rightarrow> bool" where
  "simulated s created s' \<longleftrightarrow>
     created = [] \<and> same_cells s s' \<or>
     (\<exists>slot t. created = [(slot, t)] \<and> adds_cell s slot s' \<and> thread_cells s' = thread_cells s \<and> (shape_ok s \<longrightarrow> shape_ok s'))"

definition round_started :: "('b, 'a, 'v, 'm, 'r, 'p) strategy \<Rightarrow> ('b, 'a, 'v, 'm, 'r, 'p) strategy \<Rightarrow> bool" where
  "round_started s s' \<longleftrightarrow>
     concat (threads s') = [] \<and> os_threads s' = os_threads s \<and> next_address s' = next_address s \<and>
     length (round_schedule s') = length (threads s')"

text \<open>In a round that is replayed the schedule points into the threads.\<close>

definition sched_ok :: "('b, 'a, 'v, 'm, 'r, 'p) strategy \<Rightarrow> bool" where
  "sched_ok s \<longleftrightarrow>
     length (round_schedule s) = length (thread_tasks s) \<and>
     (\<forall>i<length (thread_tasks s). - 1 \<le> round_schedule s ! i \<and> round_schedule s ! i \<le> int (length (thread_tasks s ! i)))"

definition scheduled ::
    "('b, 'a, 'v, 'm, 'r, 'p) strategy \<Rightarrow> next_result \<Rightarrow> ('b, 'a, 'v, 'm, 'r, 'p) strategy \<Rightarrow> bool" where
  "scheduled s r s' \<longleftrightarrow>
     same_cells s s' \<and> sched_ok s' \<and> (case r of NextFailure _ \<Rightarrow> True | NextTask slot _ _ \<Rightarrow> slot \<in> thread_cells s)"

lemma round_started_ok:
  assumes "round_started s s'" "cells_ok s"
  shows "cells_ok s'" "thread_cells s' = {}" "shape_ok s'"
proof -
  have e: "concat (threads s') = []" "os_threads s' = os_threads s" "next_address s' = next_address s"
    "length (round_schedule s') = length (threads s')"
    using assms(1) unfolding round_started_def by blast+
  then have "all_tasks s' = concat (os_threads s)" unfolding all_tasks_def concat_append e(1,2) by simp
  then show "cells_ok s'"
    using assms(2) unfolding cells_ok_def e(3) by (simp add: all_tasks_def)
  show "thread_cells s' = {}" unfolding thread_cells_def e(1) by simp
  have "concat (thread_tasks s') = []"
    unfolding thread_tasks_def map_concat [symmetric] e(1) by simp
  then show "shape_ok s'" unfolding shape_ok_def using e(4) by (simp only:) (simp add: thread_tasks_def)
qed

section \<open>A round that is generated\<close>

text \<open>The invariant of a round that is generated: every task of a thread has been invoked.\<close>

definition run_inv :: "seq_event list \<Rightarrow> ('b, 'a, 'v, 'm, 'r, 'p) strategy \<Rightarrow> bool" where
  "run_inv seq s \<longleftrightarrow> hist_inv seq s \<and> thread_cells s \<subseteq> invoked seq \<and> shape_ok s"

lemma run_inv_same: "run_inv seq s \<Longrightarrow> same_cells s s' \<Longrightarrow> run_inv seq s'"
  using hist_inv_same [of seq s s'] by (simp add: run_inv_def same_cells_thread same_cells_shape)

lemma run_inv_cells: "run_inv seq s \<Longrightarrow> cells_ok s"
  by (simp add: run_inv_def hist_inv_def)

lemma run_inv_shape: "run_inv seq s \<Longrightarrow> shape_ok s"
  by (simp add: run_inv_def)

lemma run_inv_next:
  assumes "run_inv seq s" "next_ok s (NextTask slot new thread) s'"
  shows "run_inv (if new then seq @ [SeqInvoke slot thread] else seq) s' \<and>
    slot \<in> invoked (if new then seq @ [SeqInvoke slot thread] else seq)"
proof (cases new)
  case True
  then show ?thesis using assms hist_inv_add [of seq s slot s' thread] by (auto simp: run_inv_def next_ok_def)
next
  case False
  then show ?thesis
    using assms run_inv_same [of seq s s'] by (auto simp: run_inv_def next_ok_def)
qed

lemma run_inv_map:
  assumes "run_inv seq s" "\<And>c. same_task c (f c)" "\<And>c. task_returned c \<Longrightarrow> task_returned (f c)"
  shows "run_inv seq (map_task slot f s)"
  using assms hist_inv_map [of seq s slot f] map_task_cells [of s slot f]
  by (simp add: run_inv_def thread_cells_tasks shape_ok_def)

lemma run_inv_simulated:
  assumes "run_inv seq s" "simulated s created s'"
  shows "run_inv (seq @ map (\<lambda>(slot, t). SeqInvoke slot t) created) s'"
  using assms run_inv_same [of seq s s'] hist_inv_add [of seq s _ s']
  by (auto simp: run_inv_def simulated_def)

lemma simulated_responded: "simulated s created s' \<Longrightarrow> responded (map (\<lambda>(slot, t). SeqInvoke slot t) created) = {}"
  by (auto simp: simulated_def)

lemma run_inv_start: "round_started s s' \<Longrightarrow> cells_ok s \<Longrightarrow> run_inv [] s'"
  using round_started_ok [of s s'] by (simp add: run_inv_def hist_inv_def)

lemma same_clear [simp]: "same_task c (clearWakeupCondition c)" "task_returned (clearWakeupCondition c) = task_returned c"
  by (simp_all add: same_task_def clearWakeupCondition_def)

section \<open>A round that is explored\<close>

text \<open>The invariant of an interleaving: the started identifiers are those of the invoked tasks.\<close>

definition explore_inv :: "int set \<Rightarrow> seq_event list \<Rightarrow> ('b, 'a, 'v, 'm, 'r, 'p) strategy \<Rightarrow> bool" where
  "explore_inv started seq s \<longleftrightarrow>
     hist_inv seq s \<and> shape_ok s \<and> sched_ok s \<and>
     (\<forall>(slot, ident)\<in>set (concat (thread_tasks s)). ident \<in> started \<longleftrightarrow> slot \<in> invoked seq)"

lemma sched_ok_tasks:
  "thread_tasks s' = thread_tasks s \<Longrightarrow> round_schedule s' = round_schedule s \<Longrightarrow> sched_ok s' = sched_ok s"
  by (simp add: sched_ok_def)

lemma checker_fields [simp]:
  "same_cells s (s\<lparr>sched_checker := b\<rparr>)" "sched_ok (s\<lparr>sched_checker := b\<rparr>) = sched_ok s"
  by (simp_all add: same_cells_def sched_ok_def thread_tasks_def)

lemma explore_inv_same: "explore_inv started seq s \<Longrightarrow> same_cells s s' \<Longrightarrow> sched_ok s' \<Longrightarrow> explore_inv started seq s'"
  using hist_inv_same [of seq s s'] by (simp add: explore_inv_def same_cells_tasks same_cells_shape)

lemma explore_inv_checker [simp]:
  assumes "explore_inv started seq s"
  shows "explore_inv started seq (s\<lparr>sched_checker := b\<rparr>)"
  by (rule explore_inv_same [OF assms]) (use assms in \<open>simp_all add: explore_inv_def\<close>)

lemma VerifyMethodStart_checker: "VerifyMethodStart E name thread ctx s = Ret (ok, s') \<Longrightarrow> \<exists>b. s' = s\<lparr>sched_checker := b\<rparr>"
  by (auto simp: VerifyMethodStart_def andThen_eq_Ret split: prod.splits if_splits)

lemma VerifyExistingTask_checker: "VerifyExistingTask E c thread s = Ret (ok, s') \<Longrightarrow> \<exists>b. s' = s\<lparr>sched_checker := b\<rparr>"
  by (auto simp: VerifyExistingTask_def andThen_eq_Ret)

lemma distinct_pairs:
  assumes "distinct (map fst xs)" "distinct (map snd xs)" "(x, y) \<in> set xs" "(a, b) \<in> set xs"
  shows "x = a \<longleftrightarrow> y = b"
  using inj_onD [of fst "set xs" "(x, y)" "(a, b)"] inj_onD [of snd "set xs" "(x, y)" "(a, b)"] assms
  by (auto simp: distinct_map)

lemma explore_inv_invoke:
  assumes inv: "explore_inv started seq s" and c: "(slot, ident) \<in> set (concat (thread_tasks s))"
  shows "explore_inv (insert ident started) (if ident \<notin> started then seq @ [SeqInvoke slot t] else seq) s"
proof (cases "ident \<in> started")
  case True
  then show ?thesis using inv by (simp add: insert_absorb)
next
  case False
  then have n: "slot \<notin> invoked seq" using inv c by (auto simp: explore_inv_def)
  have "slot \<in> thread_cells s" unfolding thread_cells_tasks using c by force
  then have cell: "slot \<in> cells s" using thread_cells_sub by blast
  have d: "distinct (map snd (concat (thread_tasks s)))" using inv by (simp only: explore_inv_def shape_ok_def)
  have "map fst (concat (thread_tasks s)) = map task_slot (concat (threads s))"
    by (simp add: thread_tasks_def map_concat comp_def)
  moreover have "distinct (map task_slot (concat (threads s)))"
    using inv by (simp add: explore_inv_def hist_inv_def cells_ok_def all_tasks_def)
  ultimately have "distinct (map fst (concat (thread_tasks s)))" by (simp only:)
  note inj = distinct_pairs [OF this d _ c]
  have "\<forall>(x, y)\<in>set (concat (thread_tasks s)). y \<in> insert ident started \<longleftrightarrow> x \<in> invoked (seq @ [SeqInvoke slot t])"
  proof (intro ballI, clarify)
    fix x y
    assume xy: "(x, y) \<in> set (concat (thread_tasks s))"
    then have "y \<in> started \<longleftrightarrow> x \<in> invoked seq" using inv unfolding explore_inv_def by blast
    then show "y \<in> insert ident started \<longleftrightarrow> x \<in> invoked (seq @ [SeqInvoke slot t])" using inj [OF xy] by simp
  qed
  then show ?thesis
    using inv False hist_inv_invoke [OF _ cell n, of t] by (simp only: explore_inv_def if_True not_False_eq_True simp_thms)
qed

section \<open>What is reported\<close>

text \<open>A history that may be reported, with the reason.\<close>

definition reportable ::
    "'a scheduler_config \<Rightarrow> seq_event NonLinearizableHistory \<Rightarrow> ('b, 'a, 'v, 'm, 'r, 'p) strategy \<Rightarrow> bool" where
  "reportable cfg bad s \<longleftrightarrow>
     (\<exists>h. history_of s (nl_seq bad) = Ret h \<and> well_formed task_slot h \<and> well_formed task_get h \<and>
       (case nl_reason bad of
          NON_LINEARIZABLE_HISTORY \<Rightarrow> cfg_check cfg h = Ret False
        | DEADLOCK_FOUND \<Rightarrow> deadlock_policy cfg = Fail \<and> HasPendingVisibleOp h
        | ASSERT_FAILURE \<Rightarrow> False))"

lemma history_of_Ret:
  assumes "cells_ok s" "event_slot ` set seq \<subseteq> cells s"
  shows "\<exists>h. history_of s seq = Ret h"
  using assms(2)
proof (induction seq)
  case (Cons e seq)
  then obtain h where h: "history_of s seq = Ret h" by auto
  have "event_slot e \<in> cells s" using Cons.prems by simp
  then obtain c where "task_at (event_slot e) s = Ret c" using task_at_cell [OF assms(1)] by blast
  then have "\<exists>x. event_of s e = Ret x" by (cases e) auto
  then show ?case using h by auto
qed simp

lemma history_of_nth:
  assumes "history_of s seq = Ret h"
  shows "length h = length seq \<and> (\<forall>i<length seq. event_of s (seq ! i) = Ret (h ! i))"
  using assms
proof (induction seq arbitrary: h)
  case (Cons e seq)
  then obtain x g where x: "event_of s e = Ret x" "history_of s seq = Ret g" "h = x # g" by (auto simp: andThen_eq_Ret)
  then show ?case using Cons.IH [OF x(2)] by (auto simp: nth_Cons split: nat.splits)
qed simp

lemma map_option_inj:
  assumes "inj_on f A" "set_option x \<subseteq> A" "set_option y \<subseteq> A" "map_option f x = map_option f y"
  shows "x = y"
  using assms by (cases x; cases y) (auto simp: inj_on_def)

lemma distinct_keys_transfer:
  assumes "distinct_keys k h" "length g = length h" "inj_on f A"
    and k: "\<And>n. n < length h \<Longrightarrow> k' (g ! n) = map_option f (k (h ! n))" "\<And>n. n < length h \<Longrightarrow> set_option (k (h ! n)) \<subseteq> A"
  shows "distinct_keys k' g"
  unfolding distinct_keys_def
proof (intro allI impI)
  fix i j
  assume ij: "i < length g" "j < i" "k' (g ! i) \<noteq> None"
  then have l: "i < length h" "j < length h" using assms(2) by auto
  then have "k (h ! j) \<noteq> k (h ! i)" using assms(1) ij k(1) by (simp add: distinct_keys_def)
  then show "k' (g ! j) \<noteq> k' (g ! i)"
    using map_option_inj [OF assms(3) k(2) [OF l(2)] k(2) [OF l(1)]] k(1) l by auto
qed

lemma well_matched_transfer:
  assumes wm: "well_matched ik rk h" and len: "length g = length h" and inj: "inj_on f A"
    and i: "\<And>n. n < length h \<Longrightarrow> ik' (g ! n) = map_option f (ik (h ! n))" "\<And>n. n < length h \<Longrightarrow> set_option (ik (h ! n)) \<subseteq> A"
    and r: "\<And>n. n < length h \<Longrightarrow> rk' (g ! n) = map_option f (rk (h ! n))" "\<And>n. n < length h \<Longrightarrow> set_option (rk (h ! n)) \<subseteq> A"
  shows "well_matched ik' rk' g"
  unfolding well_matched_def len
proof (intro conjI allI impI)
  fix n assume "n < length h"
  then show "(ik' (g ! n) = None) \<noteq> (rk' (g ! n) = None)" using wm i(1) r(1) by (simp add: well_matched_def)
next
  have d: "distinct_keys ik h" "distinct_keys rk h" using wm by (simp_all add: well_matched_def)
  show "distinct_keys ik' g" by (rule distinct_keys_transfer [where k = ik and h = h, OF d(1) len inj]) (fact i)+
  show "distinct_keys rk' g" by (rule distinct_keys_transfer [where k = rk and h = h, OF d(2) len inj]) (fact r)+
next
  fix n assume n: "n < length h" "rk' (g ! n) \<noteq> None"
  then have "rk (h ! n) \<noteq> None" using r(1) by simp
  then obtain k where "k < n" "ik (h ! k) = rk (h ! n)" using wm n(1) unfolding well_matched_def by blast
  then show "\<exists>k<n. ik' (g ! k) = rk' (g ! n)" using i(1) r(1) n(1) by (intro exI [of _ k]) simp
qed

lemma event_of_Ret:
  assumes "cells_ok s" "event_of s e = Ret x"
  shows "\<exists>c\<in>set (all_tasks s). event_slot e = task_slot c \<and>
    (\<exists>n m v. x = Invoke (task.truncate c) n \<and> e = SeqInvoke (task_slot c) m \<or>
       x = Response (task.truncate c) v n \<and> e = SeqResponse (task_slot c) v m)"
  using assms(2) by (cases e) (auto simp: andThen_eq_Ret task_at_Ret [OF assms(1)])

text \<open>A recorded history is well formed for every numbering of tasks that tells the tasks of the strategy apart.\<close>

lemma history_of_well_formed:
  assumes inv: "hist_inv seq s" and h: "history_of s seq = Ret h"
    and key: "\<And>c. key (task.truncate c) = task_key c" and d: "distinct (map task_key (all_tasks s))"
  shows "well_formed key h"
proof -
  have ok: "cells_ok s" and m: "seq_matched seq" using inv by (simp_all add: hist_inv_def)
  let ?f = "\<lambda>slot. case task_at slot s of Ret c \<Rightarrow> task_key c"
  have at: "?f (task_slot c) = task_key c" if "c \<in> set (all_tasks s)" for c
    using that ok by (simp add: task_at_Ret [OF ok, THEN iffD2])
  have inj: "inj_on ?f (cells s)"
  proof (rule inj_onI)
    fix x y
    assume xy: "x \<in> cells s" "y \<in> cells s" "?f x = ?f y"
    then obtain c c' where c: "c \<in> set (all_tasks s)" "x = task_slot c" "c' \<in> set (all_tasks s)" "y = task_slot c'"
      by (auto simp: cells_def)
    then have "task_key c = task_key c'" using xy(3) at by metis
    then have "c = c'" using d c(1,3) by (simp add: distinct_map inj_on_def)
    then show "x = y" using c by simp
  qed
  have len: "length h = length seq" using history_of_nth [OF h] by simp
  have ev: "event_of s (seq ! n) = Ret (h ! n)" if "n < length seq" for n
    using history_of_nth [OF h] that by simp
  have e: "inv_key key (h ! n) = map_option ?f (seq_inv_key (seq ! n)) \<and> rsp_key key (h ! n) = map_option ?f (seq_rsp_key (seq ! n)) \<and>
      event_slot (seq ! n) \<in> cells s" if n: "n < length seq" for n
  proof -
    obtain c where c: "c \<in> set (all_tasks s)" "event_slot (seq ! n) = task_slot c"
      "\<exists>k m v. h ! n = Invoke (task.truncate c) k \<and> seq ! n = SeqInvoke (task_slot c) m \<or>
         h ! n = Response (task.truncate c) v k \<and> seq ! n = SeqResponse (task_slot c) v m"
      using event_of_Ret [OF ok ev [OF n]] by blast
    then have "event_slot (seq ! n) \<in> cells s" by (simp add: cells_def)
    then show ?thesis using c(3) at [OF c(1)] by (elim exE disjE conjE) (simp_all add: key)
  qed
  have sub: "set_option (seq_inv_key (seq ! n)) \<subseteq> cells s" "set_option (seq_rsp_key (seq ! n)) \<subseteq> cells s"
    if "n < length seq" for n
    using e [OF that] by (cases "seq ! n"; simp)+
  show ?thesis
    by (rule well_matched_transfer [where h = seq and f = ?f, OF m len inj]) (simp_all only: e sub)
qed

text \<open>A verdict on a recorded history is right.\<close>

lemma event_slots_matched: "seq_matched seq \<Longrightarrow> event_slot ` set seq \<subseteq> invoked seq"
proof
  fix x
  assume m: "seq_matched seq" and "x \<in> event_slot ` set seq"
  then obtain n where n: "n < length seq" "x = event_slot (seq ! n)" by (auto simp: in_set_conv_nth)
  show "x \<in> invoked seq"
  proof (cases "seq ! n")
    case (SeqInvoke slot t)
    then have "seq_inv_key (seq ! n) = Some x" using n(2) by simp
    then show ?thesis using nth_mem [OF n(1)] unfolding invoked_def by blast
  next
    case (SeqResponse slot v t)
    then obtain k where "k < n" "seq_inv_key (seq ! k) = Some slot" using m n(1) by (force simp: well_matched_def)
    then show ?thesis using n SeqResponse unfolding invoked_def by (auto intro!: bexI [of _ "seq ! k"])
  qed
qed

lemma verdict_reportable:
  assumes inv: "hist_inv seq s" and v: "verdict cfg deadlock full seq s = Ret (Some bad)"
  shows "reportable cfg bad s"
proof -
  have ok: "cells_ok s" and m: "seq_matched seq" and c: "invoked seq \<subseteq> cells s" using inv by (simp_all add: hist_inv_def)
  have bad: "nl_seq bad = seq" using v by (auto simp: verdict_def andThen_eq_Ret split: if_splits)
  obtain h where h: "history_of s seq = Ret h" using history_of_Ret [OF ok] event_slots_matched [OF m] c by blast
  have "well_formed task_slot h"
    by (rule history_of_well_formed [OF inv h, where task_key = task_slot]) (use ok in \<open>simp_all add: cells_ok_def task.truncate_def\<close>)
  moreover have "well_formed task_get h"
    by (rule history_of_well_formed [OF inv h, where task_key = task_get]) (use ok in \<open>simp_all add: cells_ok_def task.truncate_def\<close>)
  moreover have "case nl_reason bad of NON_LINEARIZABLE_HISTORY \<Rightarrow> cfg_check cfg h = Ret False
      | DEADLOCK_FOUND \<Rightarrow> deadlock_policy cfg = Fail \<and> HasPendingVisibleOp h | ASSERT_FAILURE \<Rightarrow> False"
    using v h by (auto simp: verdict_def andThen_eq_Ret check_seq_def IsReportableDeadlockHistory_def split: if_splits)
  ultimately show ?thesis using h bad by (auto simp: reportable_def)
qed

lemma run_loop_step:
  assumes "run_loop Q E cfg (Suc fuel) started seq full s = Ret e"
    and "t = (if max_tasks cfg \<le> started then SetAllowNewTasks False s else s)"
  shows "(\<exists>d. e = RoundOver d seq full t) \<or>
    (\<exists>u. op_Next Q t = Ret (NextFailure DEADLOCK, u) \<and> e = RoundOver True seq full u) \<or>
    (\<exists>u. op_Next Q t = Ret (NextFailure EXHAUSTED_INTERLEAVINGS, u) \<and> e = RoundExhausted u) \<or>
    (\<exists>u v. op_Next Q t = Ret (NextFailure NEED_REPLAY, u) \<and> op_StartNextRound Q u = Ret v \<and>
       run_loop Q E cfg fuel started [] [] v = Ret e) \<or>
    (\<exists>slot new thread u s1 created s2 es s3 started' full1.
       op_Next Q t = Ret (NextTask slot new thread, u) \<and>
       resume_task E slot thread (map_task slot clearWakeupCondition u) = Ret s1 \<and>
       op_UpdateSimulatorState Q thread s1 = Ret (created, s2) \<and> finish_task E slot thread s2 = Ret (es, s3) \<and>
       run_loop Q E cfg fuel started'
         ((if new then seq @ [SeqInvoke slot thread] else seq) @ map (\<lambda>(slot, t). SeqInvoke slot t) created @ es) full1 s3 =
       Ret e)"
proof (cases "GetUnfinishedAndRunnable t None")
  case (Pair unfinished runnable)
  show ?thesis
  proof (cases "max_tasks cfg \<le> started \<and> \<not> (unfinished \<and> runnable)")
    case True
    then show ?thesis using assms Pair by (auto simp: Let_def split: if_splits)
  next
    case False
    then obtain r u where u: "op_Next Q t = Ret (r, u)"
      using assms(1) Pair unfolding run_loop.simps assms(2) [symmetric] by (auto simp: andThen_eq_Ret split: if_splits)
    show ?thesis
      using assms(1) Pair False u unfolding run_loop.simps assms(2) [symmetric] Let_def
      by (cases r) (auto simp: andThen_eq_Ret split: schedule_failure.splits if_splits)
  qed
qed

lemma explore_started:
  assumes inv: "explore_inv started seq s" and slot: "slot \<in> thread_cells s" and c: "task_at slot s = Ret c"
  shows "explore_inv (insert (task_id c) started) (if task_id c \<notin> started then seq @ [SeqInvoke slot t] else seq) s"
    "slot \<in> invoked (if task_id c \<notin> started then seq @ [SeqInvoke slot t] else seq)"
proof -
  have ok: "cells_ok s" using inv by (simp add: explore_inv_def hist_inv_def)
  obtain x where x: "x \<in> set (concat (threads s))" "task_slot x = slot" using slot by (auto simp: thread_cells_def)
  then have "x \<in> set (all_tasks s)" by (auto simp: all_tasks_def)
  then have "x = c" using c x(2) by (simp add: task_at_Ret [OF ok, THEN iffD2])
  then have p: "(slot, task_id c) \<in> set (concat (thread_tasks s))" using x by (auto simp: thread_tasks_def)
  show "explore_inv (insert (task_id c) started) (if task_id c \<notin> started then seq @ [SeqInvoke slot t] else seq) s"
    by (rule explore_inv_invoke [OF inv p])
  have "task_id c \<in> started \<longrightarrow> slot \<in> invoked seq" using inv p unfolding explore_inv_def by blast
  then show "slot \<in> invoked (if task_id c \<notin> started then seq @ [SeqInvoke slot t] else seq)" by simp
qed

lemma explore_loop_step:
  assumes "explore_loop Q E (Suc fuel) (Suc k) started seq full s = Ret (d, seq', full', s')"
  shows "(\<exists>r u. op_NextSchedule Q s = Ret (r, u) \<and> seq' = seq \<and> s' = u) \<or>
    (\<exists>slot new thread u b. op_NextSchedule Q s = Ret (NextTask slot new thread, u) \<and> seq' = seq \<and> s' = u\<lparr>sched_checker := b\<rparr>) \<or>
    (\<exists>slot new thread u c b s1 es s2 to_run' full1.
       op_NextSchedule Q s = Ret (NextTask slot new thread, u) \<and> task_at slot u = Ret c \<and>
       resume_task E slot thread (u\<lparr>sched_checker := b\<rparr>) = Ret s1 \<and> finish_task E slot thread s1 = Ret (es, s2) \<and>
       explore_loop Q E fuel to_run' (insert (task_id c) started)
         ((if task_id c \<notin> started then seq @ [SeqInvoke slot thread] else seq) @ es) full1 s2 = Ret (d, seq', full', s'))"
proof -
  obtain r u where u: "op_NextSchedule Q s = Ret (r, u)" using assms by (auto simp: andThen_eq_Ret)
  show ?thesis
  proof (cases r)
    case (NextFailure f)
    then show ?thesis using assms u by (auto split: if_splits)
  next
    case (NextTask slot new thread)
    then obtain c where c: "task_at slot u = Ret c" using assms u by (auto simp: andThen_eq_Ret)
    let ?verify = "if task_id c \<notin> started then VerifyTaskStart E c thread (BuildReplayStartContext u started) u
       else if \<not> task_returned c then VerifyExistingTask E c thread u else Ret (True, u)"
    obtain ok v where v: "?verify = Ret (ok, v)" using assms u NextTask c by (auto simp: andThen_eq_Ret Let_def)
    have "\<exists>b. v = u\<lparr>sched_checker := b\<rparr>"
      using v VerifyMethodStart_checker VerifyExistingTask_checker
      by (auto simp: VerifyTaskStart_def split: if_splits intro: exI [of _ "sched_checker u"])
    then obtain b where b: "v = u\<lparr>sched_checker := b\<rparr>" by blast
    show ?thesis
    proof (cases ok)
      case True
      define w where "w = (if task_id c \<notin> started then OnVerifierTaskStart E c thread v else v)"
      have "\<exists>b'. w = u\<lparr>sched_checker := b'\<rparr>" using b by (auto simp: w_def OnVerifierTaskStart_def)
      then obtain b' where b': "w = u\<lparr>sched_checker := b'\<rparr>" by blast
      have started: "(if task_id c \<notin> started then insert (task_id c) started else started) = insert (task_id c) started"
        by auto
      have "andThen (resume_task E slot thread w) (\<lambda>s. andThen (finish_task E slot thread s) (\<lambda>(responses, s).
          explore_loop Q E fuel (if responses = [] then Suc k else k) (insert (task_id c) started)
            ((if task_id c \<notin> started then seq @ [SeqInvoke slot thread] else seq) @ responses) (full @ [slot]) s)) =
        Ret (d, seq', full', s')"
        using assms u NextTask c v True unfolding w_def by (simp add: Let_def started cong: if_cong)
      then obtain s1 es s2 where "resume_task E slot thread w = Ret s1" "finish_task E slot thread s1 = Ret (es, s2)"
        "explore_loop Q E fuel (if es = [] then Suc k else k) (insert (task_id c) started)
            ((if task_id c \<notin> started then seq @ [SeqInvoke slot thread] else seq) @ es) (full @ [slot]) s2 =
          Ret (d, seq', full', s')"
        by (auto simp: andThen_eq_Ret)
      then show ?thesis using u NextTask c unfolding b' by blast
    next
      case False
      then show ?thesis using assms u NextTask c v b by (auto simp: Let_def)
    qed
  qed
qed

definition round_end_ok :: "('b, 'a, 'v, 'm, 'r, 'p) round_end \<Rightarrow> bool" where
  "round_end_ok e \<longleftrightarrow> (case e of RoundOver _ seq _ s \<Rightarrow> run_inv seq s | RoundExhausted s \<Rightarrow> cells_ok s \<and> shape_ok s)"

text \<open>What holds of a result: the tasks are still apart, and what is reported may be reported.\<close>

definition outcome_ok ::
    "'a scheduler_config \<Rightarrow> seq_event NonLinearizableHistory option \<Rightarrow> ('b, 'a, 'v, 'm, 'r, 'p) strategy \<Rightarrow> bool" where
  "outcome_ok cfg bad s \<longleftrightarrow> cells_ok s \<and> shape_ok s \<and> (case bad of None \<Rightarrow> True | Some b \<Rightarrow> reportable cfg b s)"

locale round_strategy =
  fixes Q :: "('b, 'a, 'v, 'm, 'r, 'p) strategy_ops" and E :: "('b, 'a, 'v, 'm, 'r) environment"
  assumes next_task: "op_Next Q s = Ret (r, s') \<Longrightarrow> next_ok s r s'"
    and start_round: "op_StartNextRound Q s = Ret s' \<Longrightarrow> round_started s s'"
    and simulate: "op_UpdateSimulatorState Q thread s = Ret (created, s') \<Longrightarrow> fiber_keeps_task E \<Longrightarrow> simulated s created s'"
    and reset_round: "op_ResetCurrentRound Q s = Ret s' \<Longrightarrow> cells_ok s \<Longrightarrow> shape_ok s \<Longrightarrow>
      cells_ok s' \<and> shape_ok s' \<and> sched_ok s' \<and> round_calls s' = round_calls s"
    and custom_round: "op_SetCustomRound Q rounds s = Ret s' \<Longrightarrow> cells_ok s \<Longrightarrow> shape_ok s \<Longrightarrow> cells_ok s' \<and> shape_ok s'"
    and next_scheduled: "op_NextSchedule Q s = Ret (r, s') \<Longrightarrow> sched_ok s \<Longrightarrow> scheduled s r s'"
begin

lemma run_step:
  assumes inv: "run_inv seq s" and f: "fiber_keeps_task E" and slot: "slot \<in> invoked seq"
    and r: "resume_task E slot thread s = Ret s1" and u: "op_UpdateSimulatorState Q thread s1 = Ret (created, s2)"
    and fin: "finish_task E slot thread s2 = Ret (es, s3)"
  shows "run_inv (seq @ map (\<lambda>(slot, t). SeqInvoke slot t) created @ es) s3"
proof -
  have h: "hist_inv seq s" using inv by (simp add: run_inv_def)
  note 1 = resume_task_spec [OF h f r]
  have i1: "run_inv seq s1" using 1 inv by (simp add: run_inv_def thread_cells_tasks shape_ok_def)
  note sim = simulate [OF u f]
  let ?seq = "seq @ map (\<lambda>(slot, t). SeqInvoke slot t) created"
  have i2: "run_inv ?seq s2" by (rule run_inv_simulated [OF i1 sim])
  then have h2: "hist_inv ?seq s2" by (simp add: run_inv_def)
  have "slot \<in> invoked ?seq" "slot \<notin> responded ?seq" using slot 1(2) simulated_responded [OF sim] by auto
  note 3 = finish_task_spec [OF h2 this fin]
  obtain b where b: "s3 = s2\<lparr>sched_checker := b\<rparr>" using 3(2) by blast
  have "run_inv ?seq s3" unfolding b by (rule run_inv_same [OF i2]) simp
  then show ?thesis using 3(1,3) by (simp add: run_inv_def)
qed

lemma run_loop_inv:
  assumes "fiber_keeps_task E" "run_inv seq s" "run_loop Q E cfg fuel started seq full s = Ret e"
  shows "round_end_ok e"
  using assms(2,3)
proof (induction fuel arbitrary: started seq full s)
  case (Suc fuel)
  define t where "t = (if max_tasks cfg \<le> started then SetAllowNewTasks False s else s)"
  have "same_cells s t" by (simp add: t_def same_cells_def SetAllowNewTasks_def)
  then have inv: "run_inv seq t" by (rule run_inv_same [OF Suc.prems(1)])
  have failed: "run_inv seq u" if "op_Next Q t = Ret (NextFailure f, u)" for f u
    using run_inv_same [OF inv] next_task [OF that] by (simp add: next_ok_def)
  show ?case
    using run_loop_step [OF Suc.prems(2) t_def]
  proof (elim disjE exE conjE)
    fix u v
    assume u: "op_Next Q t = Ret (NextFailure NEED_REPLAY, u)" "op_StartNextRound Q u = Ret v"
      and rest: "run_loop Q E cfg fuel started [] [] v = Ret e"
    have "run_inv [] v"
      using run_inv_start [OF start_round [OF u(2)]] failed [OF u(1)] by (simp add: run_inv_def hist_inv_def)
    then show ?thesis using rest by (rule Suc.IH)
  next
    fix slot new thread u s1 created s2 es s3 started' full1
    let ?seq = "if new then seq @ [SeqInvoke slot thread] else seq"
    assume u: "op_Next Q t = Ret (NextTask slot new thread, u)" "resume_task E slot thread (map_task slot clearWakeupCondition u) = Ret s1"
      "op_UpdateSimulatorState Q thread s1 = Ret (created, s2)" "finish_task E slot thread s2 = Ret (es, s3)"
      and rest: "run_loop Q E cfg fuel started' (?seq @ map (\<lambda>(slot, t). SeqInvoke slot t) created @ es) full1 s3 = Ret e"
    note n = run_inv_next [OF inv next_task [OF u(1)]]
    then have "run_inv ?seq (map_task slot clearWakeupCondition u)" by (intro run_inv_map) simp_all
    from run_step [OF this assms(1) conjunct2 [OF n] u(2-4)] rest show ?thesis by (rule Suc.IH)
  qed (auto simp: round_end_ok_def inv intro: failed run_inv_cells [OF failed] run_inv_shape [OF failed])
qed simp

lemma explore_step:
  assumes inv: "explore_inv started seq s" and f: "fiber_keeps_task E" and slot: "slot \<in> invoked seq"
    and r: "resume_task E slot thread s = Ret s1" and fin: "finish_task E slot thread s1 = Ret (es, s2)"
  shows "explore_inv started (seq @ es) s2" "fiber_keeps_call E \<longrightarrow> round_calls s2 = round_calls s"
proof -
  have h: "hist_inv seq s" using inv by (simp add: explore_inv_def)
  note 1 = resume_task_spec [OF h f r]
  have i1: "explore_inv started seq s1" using 1 inv by (simp add: explore_inv_def shape_ok_def sched_ok_def)
  note 2 = finish_task_spec [OF 1(1) slot 1(2) fin]
  obtain b where b: "s2 = s1\<lparr>sched_checker := b\<rparr>" using 2(2) by blast
  have "explore_inv started seq s2" unfolding b by (rule explore_inv_checker [OF i1])
  then show "explore_inv started (seq @ es) s2" using 2(1,3) by (simp add: explore_inv_def)
  show "fiber_keeps_call E \<longrightarrow> round_calls s2 = round_calls s" using 1(6) by (simp add: b)
qed

lemma explore_loop_inv:
  assumes f: "fiber_keeps_task E"
  shows "explore_inv started seq s \<Longrightarrow> explore_loop Q E fuel to_run started seq full s = Ret (d, seq', full', s') \<Longrightarrow>
    hist_inv seq' s' \<and> shape_ok s' \<and> (fiber_keeps_call E \<longrightarrow> round_calls s' = round_calls s)"
proof (induction fuel arbitrary: to_run started seq full s)
  case 0
  then show ?case by (cases to_run) (auto simp: explore_inv_def)
next
  case (Suc fuel)
  show ?case
  proof (cases to_run)
    case 0
    then show ?thesis using Suc.prems by (auto simp: explore_inv_def)
  next
    case (Suc k)
    have "explore_loop Q E (Suc fuel) (Suc k) started seq full s = Ret (d, seq', full', s')"
      using Suc.prems(2) Suc by simp
    from explore_loop_step [OF this] show ?thesis
    proof (elim disjE exE conjE)
      fix r u
      assume u: "op_NextSchedule Q s = Ret (r, u)" "seq' = seq" and s': "s' = u"
      have sch: "scheduled s r u" using next_scheduled [OF u(1)] Suc.prems(1) by (simp add: explore_inv_def)
      then have "explore_inv started seq u" using explore_inv_same [OF Suc.prems(1)] by (simp add: scheduled_def)
      then show ?thesis using u s' sch same_cells_calls [of s u] by (simp add: explore_inv_def scheduled_def)
    next
      fix slot new thread u b
      assume u: "op_NextSchedule Q s = Ret (NextTask slot new thread, u)" "seq' = seq" and s': "s' = u\<lparr>sched_checker := b\<rparr>"
      have sch: "scheduled s (NextTask slot new thread) u" using next_scheduled [OF u(1)] Suc.prems(1) by (simp add: explore_inv_def)
      then have "explore_inv started seq u" using explore_inv_same [OF Suc.prems(1)] by (simp add: scheduled_def)
      then have "explore_inv started seq s'" unfolding s' by (rule explore_inv_checker)
      then show ?thesis using u s' sch same_cells_calls [of s u] by (simp add: explore_inv_def scheduled_def)
    next
      fix slot new thread u b s1 es s2 to_run' full1 and c :: "('a, 'v, 'm) sched_task"
      let ?seq = "if task_id c \<notin> started then seq @ [SeqInvoke slot thread] else seq"
      assume u: "op_NextSchedule Q s = Ret (NextTask slot new thread, u)" "task_at slot u = Ret c"
        "resume_task E slot thread (u\<lparr>sched_checker := b\<rparr>) = Ret s1" "finish_task E slot thread s1 = Ret (es, s2)"
        and rest: "explore_loop Q E fuel to_run' (insert (task_id c) started) (?seq @ es) full1 s2 = Ret (d, seq', full', s')"
      have sch: "scheduled s (NextTask slot new thread) u"
        using next_scheduled [OF u(1)] Suc.prems(1) by (simp add: explore_inv_def)
      then have i: "explore_inv started seq u" using explore_inv_same [OF Suc.prems(1)] by (simp add: scheduled_def)
      have "slot \<in> thread_cells u" using sch same_cells_thread [of s u] by (simp add: scheduled_def)
      note inv = explore_started [OF i this u(2)]
      note step = explore_step [OF explore_inv_checker [OF inv(1)] f inv(2) u(3,4)]
      have "round_calls u = round_calls s" using sch same_cells_calls [of s u] by (simp add: scheduled_def)
      then show ?thesis using Suc.IH [OF step(1) rest] step(2) by simp
    qed
  qed
qed

lemma explore_round_spec:
  assumes "fiber_keeps_task E"
  shows "cells_ok s \<Longrightarrow> shape_ok s \<Longrightarrow> ExploreRound Q E cfg fuel runs s = Ret (bad, s') \<Longrightarrow>
    outcome_ok cfg bad s' \<and> (fiber_keeps_call E \<longrightarrow> round_calls s' = round_calls s)"
proof (induction runs arbitrary: s)
  case 0
  then show ?case by (auto simp: outcome_ok_def)
next
  case (Suc runs)
  then obtain t d seq full u v where t: "op_ResetCurrentRound Q s = Ret t"
      "explore_loop Q E fuel (GetValidTasksCount t) {} [] [] t = Ret (d, seq, full, u)" "verdict cfg d full seq u = Ret v"
    and rest: "(case v of None \<Rightarrow> ExploreRound Q E cfg fuel runs u | Some b \<Rightarrow> Ret (Some b, u)) = Ret (bad, s')"
    by (auto simp: andThen_eq_Ret)
  note reset = reset_round [OF t(1) Suc.prems(1,2)]
  have "explore_inv {} [] t" using reset by (simp add: explore_inv_def hist_inv_def)
  from explore_loop_inv [OF assms this t(2)] have inv: "hist_inv seq u" "shape_ok u"
    and calls: "fiber_keeps_call E \<longrightarrow> round_calls u = round_calls s" using reset by simp_all
  have ok: "cells_ok u" using inv(1) by (simp add: hist_inv_def)
  show ?case
  proof (cases v)
    case None
    then show ?thesis using Suc.IH [OF ok inv(2)] rest calls by simp
  next
    case (Some b)
    then show ?thesis using verdict_reportable [OF inv(1)] t(3) rest ok inv(2) calls by (auto simp: outcome_ok_def)
  qed
qed

lemma explore_round_ok:
  "fiber_keeps_task E \<Longrightarrow> cells_ok s \<Longrightarrow> shape_ok s \<Longrightarrow> ExploreRound Q E cfg fuel runs s = Ret (bad, s') \<Longrightarrow> outcome_ok cfg bad s'"
  using explore_round_spec by blast

lemma run_round_ok:
  assumes f: "fiber_keeps_task E" and s: "cells_ok s" "shape_ok s" "thread_cells s = {}"
    and r: "RunRound Q E cfg fuel s = Ret (bad, s')"
  shows "outcome_ok cfg bad s'"
proof -
  have "same_cells s (SetAllowNewTasks True s)" by (simp add: same_cells_def SetAllowNewTasks_def)
  moreover have "run_inv [] s" using s by (simp add: run_inv_def hist_inv_def)
  ultimately have i: "run_inv [] (SetAllowNewTasks True s)" by (rule run_inv_same [rotated])
  obtain e where e: "run_loop Q E cfg fuel 0 [] [] (SetAllowNewTasks True s) = Ret e"
    using r by (auto simp: RunRound_def andThen_eq_Ret)
  note ok = run_loop_inv [OF f i e]
  show ?thesis
  proof (cases e)
    case (RoundExhausted u)
    then show ?thesis using r e ok by (auto simp: RunRound_def round_end_ok_def outcome_ok_def)
  next
    case (RoundOver d seq full u)
    obtain v where v: "verdict cfg d (ConvFullHistWithThreadToFullHist full) seq u = Ret v"
      and rest: "(if v = None \<and> d \<and> deadlock_policy cfg \<in> {Explore, Rollback}
        then ExploreRound Q E cfg fuel (exploration_runs cfg) u else Ret (v, u)) = Ret (bad, s')"
      using r e RoundOver by (auto simp: RunRound_def andThen_eq_Ret)
    have inv: "hist_inv seq u" "cells_ok u" "shape_ok u"
      using ok RoundOver by (simp_all add: round_end_ok_def run_inv_def hist_inv_def)
    show ?thesis
    proof (cases "v = None \<and> d \<and> deadlock_policy cfg \<in> {Explore, Rollback}")
      case True
      then show ?thesis using rest explore_round_ok [OF f inv(2,3)] by simp
    next
      case False
      then have "bad = v" "s' = u" using rest by (auto split: if_splits)
      then show ?thesis using v inv verdict_reportable [OF inv(1)] by (auto simp: outcome_ok_def split: option.splits)
    qed
  qed
qed

text \<open>All rounds, those of the user and the generated ones.\<close>

lemma started_round:
  assumes "outcome_ok cfg bad s" "op_StartNextRound Q s = Ret s'"
  shows "cells_ok s'" "shape_ok s'" "thread_cells s' = {}"
  using round_started_ok [OF start_round [OF assms(2)]] assms(1) by (simp_all add: outcome_ok_def)

lemma generated_rounds_ok:
  assumes f: "fiber_keeps_task E"
  shows "cells_ok s \<Longrightarrow> shape_ok s \<Longrightarrow> thread_cells s = {} \<Longrightarrow> find_round Q E cfg fuel [] n s = Ret (bad, s') \<Longrightarrow>
    outcome_ok cfg bad s'"
proof (induction n arbitrary: s)
  case 0
  then show ?case by (auto simp: outcome_ok_def)
next
  case (Suc n)
  then obtain b t where t: "RunRound Q E cfg fuel s = Ret (b, t)"
    and rest: "(case b of Some b \<Rightarrow> Ret (Some b, t)
      | None \<Rightarrow> andThen (op_StartNextRound Q t) (\<lambda>s. find_round Q E cfg fuel [] n s)) = Ret (bad, s')"
    by (auto simp: andThen_eq_Ret)
  note ok = run_round_ok [OF f Suc.prems(1-3) t]
  show ?case
  proof (cases b)
    case None
    then obtain u where u: "op_StartNextRound Q t = Ret u" "find_round Q E cfg fuel [] n u = Ret (bad, s')"
      using rest by (auto simp: andThen_eq_Ret)
    show ?thesis by (rule Suc.IH [OF started_round [OF ok u(1)] u(2)])
  next
    case (Some b')
    then show ?thesis using rest ok by simp
  qed
qed

lemma find_round_ok:
  assumes f: "fiber_keeps_task E"
  shows "cells_ok s \<Longrightarrow> shape_ok s \<Longrightarrow> thread_cells s = {} \<Longrightarrow> find_round Q E cfg fuel rounds n s = Ret (bad, s') \<Longrightarrow>
    outcome_ok cfg bad s'"
proof (induction rounds arbitrary: s)
  case Nil
  then show ?case by (rule generated_rounds_ok [OF f])
next
  case (Cons round rounds)
  then obtain t b u where t: "op_SetCustomRound Q round s = Ret t" "ExploreRound Q E cfg fuel (exploration_runs cfg) t = Ret (b, u)"
    and rest: "(case b of Some b \<Rightarrow> Ret (Some b, u)
      | None \<Rightarrow> andThen (op_StartNextRound Q u) (\<lambda>s. find_round Q E cfg fuel rounds n s)) = Ret (bad, s')"
    by (auto simp: andThen_eq_Ret)
  have c: "cells_ok t" "shape_ok t" using custom_round [OF t(1) Cons.prems(1,2)] by simp_all
  note ok = explore_round_ok [OF f c t(2)]
  show ?case
  proof (cases b)
    case None
    then obtain v where v: "op_StartNextRound Q u = Ret v" "find_round Q E cfg fuel rounds n v = Ret (bad, s')"
      using rest by (auto simp: andThen_eq_Ret)
    show ?thesis by (rule Cons.IH [OF started_round [OF ok v(1)] v(2)])
  next
    case (Some b')
    then show ?thesis using rest ok by simp
  qed
qed

end

end
