(* ===== verification/Strategy_Contracts.thy ===== *)
theory Strategy_Contracts
imports Round_Reports
begin

text \<open>
  The random, the round robin and the probabilistic strategy give the scheduler what it relies on
  (\<open>round_strategy\<close>): they only pick threads that may run, and they keep the tasks apart.
\<close>

section \<open>Operations that leave the round as it is\<close>

definition quiet :: "('b, 'a, 'v, 'm, 'r, 'p) strategy \<Rightarrow> ('b, 'a, 'v, 'm, 'r, 'p) strategy \<Rightarrow> bool" where
  "quiet s s' \<longleftrightarrow> (\<exists>b r p. s' = s\<lparr>sched_checker := b, rng := r, policy := p\<rparr>)"

lemma quiet_update: "quiet s (s\<lparr>sched_checker := b, rng := r, policy := p\<rparr>)"
  by (auto simp: quiet_def)

lemma quietI:
  "quiet s s" "quiet s (s\<lparr>sched_checker := b\<rparr>)" "quiet s (s\<lparr>rng := r\<rparr>)" "quiet s (s\<lparr>policy := p\<rparr>)"
  using quiet_update [of s "policy s" "rng s" "sched_checker s"] quiet_update [of s "policy s" "rng s" b]
    quiet_update [of s "policy s" r "sched_checker s"] quiet_update [of s p "rng s" "sched_checker s"]
  by (cases s, simp)+

lemma quiet_trans: "quiet s t \<Longrightarrow> quiet t u \<Longrightarrow> quiet s u"
  unfolding quiet_def by (elim exE) (simp, blast)

lemma quiet_fields:
  assumes "quiet s s'"
  shows "threads s' = threads s" "os_threads s' = os_threads s" "next_address s' = next_address s"
    "round_schedule s' = round_schedule s" "new_task_id s' = new_task_id s" "removed_tasks s' = removed_tasks s"
    "thread_tasks s' = thread_tasks s" "GetNextTaskInThread i s' = GetNextTaskInThread i s"
  using assms
  by (auto simp: quiet_def thread_tasks_def GetNextTaskInThread_def task_over_def [abs_def] IsTaskRemoved_def)

lemma quiet_same: "quiet s s' \<Longrightarrow> same_cells s s'"
  by (simp add: same_cells_def quiet_fields)

text \<open>A test of a thread asks the verifier and changes nothing else.\<close>

definition asks :: "(nat \<Rightarrow> ('b, 'a, 'v, 'm, 'r, 'p) strategy \<Rightarrow> (bool \<times> ('b, 'a, 'v, 'm, 'r, 'p) strategy) res) \<Rightarrow> bool" where
  "asks el \<longleftrightarrow> (\<forall>i s ok s'. el i s = Ret (ok, s') \<longrightarrow> quiet s s')"

lemma asksD: "asks el \<Longrightarrow> el i s = Ret (ok, s') \<Longrightarrow> quiet s s'"
  by (auto simp: asks_def)

lemma VerifyExistingTask_quiet: "VerifyExistingTask E c thread s = Ret (ok, s') \<Longrightarrow> quiet s s'"
  by (auto dest!: VerifyExistingTask_checker simp: quietI)

lemma asks_eligible: "asks (eligible E)"
  unfolding asks_def eligible_def Let_def
  by (auto simp: andThen_eq_Ret quietI(1) split: if_splits dest: VerifyExistingTask_quiet)

lemma asks_in_turn: "asks (eligible_in_turn E)"
  unfolding asks_def eligible_in_turn_def Let_def
  by (auto simp: andThen_eq_Ret quietI(1) split: if_splits dest: VerifyExistingTask_quiet)

lemma asks_replay: "asks (eligible_to_replay E)"
  unfolding asks_def eligible_to_replay_def Let_def
  by (auto simp: quietI(1) split: if_splits dest: VerifyExistingTask_quiet)

section \<open>Picking a thread\<close>

text \<open>A picked thread is one of the threads and has passed the test.\<close>

definition passes ::
    "(nat \<Rightarrow> ('b, 'a, 'v, 'm, 'r, 'p) strategy \<Rightarrow> (bool \<times> ('b, 'a, 'v, 'm, 'r, 'p) strategy) res)
      \<Rightarrow> nat \<Rightarrow> ('b, 'a, 'v, 'm, 'r, 'p) strategy \<Rightarrow> bool" where
  "passes el i s \<longleftrightarrow> i < length (threads s) \<and> (\<exists>u u'. quiet s u \<and> el i u = Ret (True, u'))"

definition picks ::
    "(nat \<Rightarrow> ('b, 'a, 'v, 'm, 'r, 'p) strategy \<Rightarrow> (bool \<times> ('b, 'a, 'v, 'm, 'r, 'p) strategy) res)
      \<Rightarrow> ('b, 'a, 'v, 'm, 'r, 'p) strategy \<Rightarrow> nat option \<Rightarrow> ('b, 'a, 'v, 'm, 'r, 'p) strategy \<Rightarrow> bool" where
  "picks el s picked s' \<longleftrightarrow> quiet s s' \<and> (\<forall>i. picked = Some i \<longrightarrow> passes el i s)"

lemma passes_quiet: "quiet s t \<Longrightarrow> passes el i t \<Longrightarrow> passes el i s"
  using quiet_trans [of s t] by (auto simp: passes_def quiet_fields)

lemma eligible_weights_quiet: "asks el \<Longrightarrow> eligible_weights el ws is s = Ret (xs, s') \<Longrightarrow> quiet s s'"
proof (induction "is" arbitrary: s xs)
  case (Cons i "is")
  then obtain ok t where t: "el i s = Ret (ok, t)" by (auto simp: andThen_eq_Ret)
  have "quiet s t" by (rule asksD [OF Cons.prems(1) t])
  moreover have "quiet t s'"
    using Cons.IH [OF Cons.prems(1), of t] Cons.prems(2) t by (auto simp: andThen_eq_Ret split: if_splits)
  ultimately show ?case by (rule quiet_trans)
qed (simp add: quietI)

lemma eligible_number_picks:
  assumes "asks el"
  shows "set is \<subseteq> {..<length (threads s)} \<Longrightarrow> eligible_number el n is s = Ret (picked, s') \<Longrightarrow> picks el s picked s'"
proof (induction "is" arbitrary: n s)
  case (Cons i "is")
  then obtain ok t where t: "el i s = Ret (ok, t)" by (auto simp: andThen_eq_Ret)
  have q: "quiet s t" by (rule asksD [OF assms t])
  have "picks el s picked s'" if "eligible_number el m is t = Ret (picked, s')" for m
    using Cons.IH [OF _ that] Cons.prems(1) q quiet_trans [OF q] passes_quiet [OF q] by (simp add: picks_def quiet_fields)
  moreover have "passes el i s" if ok using that t Cons.prems(1) quietI(1) by (auto simp: passes_def)
  ultimately show ?case using Cons.prems(2) t q by (auto simp: picks_def split: if_splits)
qed (simp add: picks_def quietI)

lemma weighted_pick_picks:
  assumes "asks el" "weighted_pick E el s = Ret (picked, s')"
  shows "picks el s picked s'"
proof -
  obtain ws t where t: "eligible_weights el (policy s) [0..<length (threads s)] s = Ret (ws, t)"
    using assms(2) by (auto simp: weighted_pick_def andThen_eq_Ret Let_def)
  have q: "quiet s t" by (rule eligible_weights_quiet [OF assms(1) t])
  show ?thesis
  proof (cases "ws = []")
    case True
    then show ?thesis using assms(2) t q by (auto simp: weighted_pick_def picks_def)
  next
    case False
    obtain n r where r: "random_discrete E ws (rng t) = (n, r)" by fastforce
    let ?t = "t\<lparr>rng := r\<rparr>"
    have e: "eligible_number el n [0..<length (threads s)] ?t = Ret (picked, s')"
      using assms(2) t False r by (simp add: weighted_pick_def)
    have q': "quiet s ?t" by (rule quiet_trans [OF q quietI(3)])
    have "picks el ?t picked s'"
      by (rule eligible_number_picks [OF assms(1) _ e]) (auto simp: quiet_fields [OF q])
    then show ?thesis using quiet_trans [OF q'] passes_quiet [OF q'] by (simp add: picks_def)
  qed
qed

lemma in_turn_picks:
  assumes "asks el"
  shows "threads s \<noteq> [] \<or> n = 0 \<Longrightarrow> in_turn el n s = Ret (picked, s') \<Longrightarrow> picks el s picked s'"
proof (induction n arbitrary: s)
  case (Suc n)
  let ?i = "unat (policy s) mod length (threads s)" and ?s = "s\<lparr>policy := policy s + 1\<rparr>"
  obtain ok t where t: "el ?i ?s = Ret (ok, t)" using Suc.prems(2) by (auto simp: andThen_eq_Ret Let_def)
  have q0: "quiet s ?s" by (rule quietI)
  have q: "quiet s t" by (rule quiet_trans [OF q0 asksD [OF assms t]])
  have "passes el ?i s" if ok
    using that t Suc.prems(1) q0 by (auto simp: passes_def)
  moreover have "picks el s picked s'" if "in_turn el n t = Ret (picked, s')"
    using Suc.IH [OF _ that] Suc.prems(1) quiet_trans [OF q] passes_quiet [OF q] by (simp add: picks_def quiet_fields [OF q])
  ultimately show ?case using Suc.prems(2) t q by (auto simp: picks_def Let_def split: if_splits)
qed (simp add: picks_def quietI)

text \<open>The probabilistic strategy: a priority that is not zero is one of a thread that has passed the test.\<close>

definition pct_found ::
    "(nat \<Rightarrow> ('b, 'a, 'v, 'm, 'r, 'r pct) strategy \<Rightarrow> (bool \<times> ('b, 'a, 'v, 'm, 'r, 'r pct) strategy) res)
      \<Rightarrow> (nat \<Rightarrow> ('b, 'a, 'v, 'm, 'r, 'r pct) strategy \<Rightarrow> (bool \<times> ('b, 'a, 'v, 'm, 'r, 'r pct) strategy) res)
      \<Rightarrow> int \<times> nat \<Rightarrow> ('b, 'a, 'v, 'm, 'r, 'r pct) strategy \<Rightarrow> bool" where
  "pct_found el fair_el best s \<longleftrightarrow> fst best = 0 \<or> passes el (snd best) s \<or> passes fair_el (snd best) s"

lemma pct_found_quiet: "quiet s t \<Longrightarrow> pct_found el fair_el best t \<Longrightarrow> pct_found el fair_el best s"
  by (auto simp: pct_found_def dest: passes_quiet)

lemma quiet_sym: "quiet s t \<Longrightarrow> quiet t s"
  using quiet_update [of t "policy s" "rng s" "sched_checker s"] by (cases s) (auto simp: quiet_def)

lemma pct_upd_quiet: "quiet s (pct_upd f s)"
  by (simp add: pct_upd_def quietI)

lemma pct_upd2_quiet: "quiet s (pct_upd f (if c then pct_upd g s else s))"
  by (simp add: pct_upd_quiet quiet_trans [OF pct_upd_quiet pct_upd_quiet])

lemma highest_priority_found:
  assumes "asks el"
  shows "set is \<subseteq> {..<length (threads s)} \<Longrightarrow> pct_found el fair_el best s \<Longrightarrow>
    highest_priority el is best s = Ret (best', s') \<Longrightarrow> quiet s s' \<and> pct_found el fair_el best' s"
proof (induction "is" arbitrary: best s)
  case (Cons i "is")
  then obtain ok t where t: "el i s = Ret (ok, t)" by (auto simp: andThen_eq_Ret)
  have q: "quiet s t" by (rule asksD [OF assms t])
  have rest: "quiet s s' \<and> pct_found el fair_el best' s"
    if "highest_priority el is b t = Ret (best', s')" "pct_found el fair_el b s" for b
    using Cons.IH [OF _ _ that(1)] Cons.prems(1) pct_found_quiet [OF quiet_sym [OF q] that(2)]
      quiet_trans [OF q] pct_found_quiet [OF q] by (simp add: quiet_fields [OF q])
  have "pct_found el fair_el (p, i) s" if ok for p
    using that t Cons.prems(1) quietI(1) by (auto simp: pct_found_def passes_def)
  then show ?case
    using Cons.prems(2,3) t rest by (auto split: if_splits)
qed (simp add: quietI)

lemma fair_turn_found:
  assumes "asks fair_el"
  shows "pct_found el fair_el best s \<Longrightarrow> threads s \<noteq> [] \<or> n = 0 \<Longrightarrow>
    fair_turn fair_el n best s = Ret (best', s') \<Longrightarrow> quiet s s' \<and> pct_found el fair_el best' s"
proof (induction n arbitrary: s)
  case (Suc n)
  define u where "u = pct_upd (\<lambda>p. p\<lparr>last_chosen := last_chosen p + 1\<rparr>) s"
  let ?i = "last_chosen (policy u) mod length (threads u)"
  have q0: "quiet s u" by (simp add: u_def pct_upd_quiet)
  obtain ok t where t: "fair_el ?i u = Ret (ok, t)" using Suc.prems(3) by (auto simp: andThen_eq_Ret Let_def u_def)
  have q: "quiet s t" by (rule quiet_trans [OF q0 asksD [OF assms t]])
  have "pct_found el fair_el (p, ?i) s" if ok for p
    using that t Suc.prems(2) q0 by (auto simp: pct_found_def passes_def quiet_fields [OF q0])
  moreover have "quiet s s' \<and> pct_found el fair_el best' s" if "fair_turn fair_el n best t = Ret (best', s')"
    using Suc.IH [OF _ _ that] pct_found_quiet [OF quiet_sym [OF q] Suc.prems(1)] Suc.prems(2) quiet_trans [OF q] pct_found_quiet [OF q]
    by (simp add: quiet_fields [OF q])
  ultimately show ?case
    using Suc.prems(3) t q unfolding fair_turn.simps Let_def u_def [symmetric] by (auto split: if_splits)
qed (simp add: quietI)

lemma AvoidLivelock_found:
  assumes "asks fair_el" "pct_found el fair_el best s" "AvoidLivelock fair_el best s = Ret (best', s')"
  shows "quiet s s' \<and> pct_found el fair_el best' s"
proof -
  let ?fair = "if 0 < fair_stage (policy s) then
      andThen (fair_turn fair_el (length (threads s)) best s) (\<lambda>((prior, index), s).
        Ret ((prior, index), if fair_start (policy s) = index then pct_upd (\<lambda>p. p\<lparr>fair_stage := fair_stage p - 1\<rparr>) s else s))
      else Ret (best, s)"
  obtain b t where t: "?fair = Ret (b, t)" "b = best'"
    and s': "quiet t s'"
    using assms(3) by (auto simp: AvoidLivelock_def andThen_eq_Ret Let_def pct_upd2_quiet)
  have "quiet s t \<and> pct_found el fair_el b s"
  proof (cases "0 < fair_stage (policy s)")
    case True
    then obtain u where u: "fair_turn fair_el (length (threads s)) best s = Ret (b, u)" "quiet u t"
      using t(1) by (auto simp: andThen_eq_Ret pct_upd_quiet quietI(1))
    have "quiet s u \<and> pct_found el fair_el b s" by (rule fair_turn_found [OF assms(1,2) _ u(1)]) auto
    then show ?thesis using quiet_trans u(2) by blast
  next
    case False
    then show ?thesis using t(1) assms(2) by (simp add: quietI)
  qed
  then show ?thesis using s' t(2) quiet_trans by blast
qed

lemma pct_choose_picks:
  assumes "asks el" "asks fair_el" "pct_choose el fair_el s = Ret (picked, s')"
  shows "quiet s s' \<and> (\<forall>i. picked = Some i \<longrightarrow> passes el i s \<or> passes fair_el i s)"
proof -
  obtain best t prior index u where t: "highest_priority el [0..<length (threads s)] (0, 0) s = Ret (best, t)"
      "AvoidLivelock fair_el best t = Ret ((prior, index), u)"
    and r: "(if prior = 0 then Ret (None, u)
      else Ret (Some index, pct_upd (\<lambda>p. (change_priority index p)\<lparr>last_chosen := index\<rparr>) u)) = Ret (picked, s')"
    using assms(3) by (auto simp: pct_choose_def andThen_eq_Ret)
  have 1: "quiet s t \<and> pct_found el fair_el best s"
    by (rule highest_priority_found [OF assms(1) _ _ t(1)]) (auto simp: pct_found_def)
  then have "pct_found el fair_el best t" using pct_found_quiet [OF quiet_sym] by blast
  note 2 = AvoidLivelock_found [OF assms(2) this t(2)]
  have f: "pct_found el fair_el (prior, index) s" using 1 2 pct_found_quiet by blast
  have "quiet s u" using 1 2 quiet_trans by blast
  then show ?thesis using r f quiet_trans [OF _ pct_upd_quiet] by (auto simp: pct_found_def split: if_splits)
qed

section \<open>The next task\<close>

lemma next_ok_quiet: "quiet s t \<Longrightarrow> next_ok t r s' \<Longrightarrow> next_ok s r s'"
  using quiet_fields [of s t] quiet_same [of s t] same_cells_trans [of s t s']
  by (auto simp: next_ok_def adds_cell_def same_cells_thread same_cells_shape same_cells_all split: next_result.splits if_splits)

lemma choose_constructor_quiet: "choose_constructor E thread ctx bs s = Ret (chosen, s') \<Longrightarrow> quiet s s'"
proof (induction bs arbitrary: s)
  case (Cons b bs)
  then obtain ok t where t: "VerifyMethodStart E (builder_name b) thread ctx s = Ret (ok, t)" by (auto simp: andThen_eq_Ret)
  have q: "quiet s t" using VerifyMethodStart_checker [OF t] by (auto simp: quietI)
  then show ?case using Cons t quiet_trans [OF q] by (auto split: if_splits)
qed (simp add: quietI)

lemma shape_ok_threads:
  "shape_ok s \<longleftrightarrow>
     distinct (map task_id (concat (threads s))) \<and> (\<forall>c\<in>set (concat (threads s)). task_id c < new_task_id s) \<and>
     length (round_schedule s) = length (threads s)"
proof -
  have e: "concat (thread_tasks s) = map (\<lambda>c. (task_slot c, task_id c)) (concat (threads s))"
    by (simp add: thread_tasks_def map_concat)
  show ?thesis unfolding shape_ok_def e by (simp add: comp_def thread_tasks_def del: set_concat)
qed

lemma append_task_adds:
  assumes "append_task b thread s = (c, s')" "thread < length (threads s)"
  shows "next_ok s (NextTask (task_slot c) True thread) s'"
proof -
  have c: "task_slot c = next_address s" "task_get c = next_address s" "task_id c = new_task_id s"
    and s': "next_address s' = Suc (next_address s)" "new_task_id s' = new_task_id s + 1"
      "threads s' = (threads s)[thread := threads s ! thread @ [c]]" "os_threads s' = os_threads s"
      "round_schedule s' = round_schedule s"
    using assms(1) by (auto simp: append_task_def Build_def New_def SetDual_def split: prod.splits)
  have m: "mset (concat (threads s')) = add_mset c (mset (concat (threads s)))"
    unfolding s'(3) by (rule mset_concat_append [OF assms(2)])
  have set: "set (concat (threads s')) = insert c (set (concat (threads s)))"
    using arg_cong [OF m, of set_mset] by simp
  have "shape_ok s'" if "shape_ok s"
  proof -
    have "distinct (map task_id (c # concat (threads s)))" using that c(3) unfolding shape_ok_threads by (auto simp del: set_concat)
    then have "distinct (map task_id (concat (threads s')))" unfolding distinct_mset_map [OF m] .
    moreover have "\<forall>x\<in>set (concat (threads s')). task_id x < new_task_id s'"
      unfolding set s'(2) using that c(3) unfolding shape_ok_threads by (auto simp del: set_concat)
    ultimately show ?thesis using that unfolding shape_ok_threads s'(5) by (simp add: s'(3))
  qed
  moreover have "thread_cells s' = insert (task_slot c) (thread_cells s)"
    unfolding thread_cells_def set by simp
  moreover have "adds_cell s (task_slot c) s'"
    using c s' m by (auto simp: adds_cell_def all_tasks_def)
  ultimately show ?thesis by (simp add: next_ok_def)
qed

lemma next_ok_after: "next_ok s (NextTask slot new thread) t \<Longrightarrow> quiet t u \<Longrightarrow> next_ok s (NextTask slot new thread) u"
  using quiet_fields [of t u] quiet_same [of t u] same_cells_trans [of s t u]
  by (auto simp: next_ok_def adds_cell_def same_cells_thread same_cells_shape same_cells_all split: if_splits)

lemma start_new_task_ok:
  assumes "start_new_task E thread s = Ret (r, s')" "thread < length (threads s)"
  shows "next_ok s r s'"
proof -
  let ?s = "shuffle_constructors E s"
  have shuffled: "same_cells s ?s" by (auto simp: shuffle_constructors_def same_cells_def split: prod.splits)
  obtain ctx chosen t where t: "choose_constructor E thread ctx (constructors ?s) ?s = Ret (chosen, t)"
    and r: "(case chosen of None \<Rightarrow> Ret (NextFailure DEADLOCK, t)
      | Some b \<Rightarrow> (case append_task b thread t of (c, s) \<Rightarrow>
          Ret (NextTask (task_slot c) True thread, OnVerifierTaskStart E c thread s))) = Ret (r, s')"
    using assms(1) by (auto simp: start_new_task_def Let_def andThen_eq_Ret)
  have st: "same_cells s t"
    by (rule same_cells_trans [OF shuffled quiet_same [OF choose_constructor_quiet [OF t]]])
  show ?thesis
  proof (cases chosen)
    case None
    then show ?thesis using r st by (auto simp: next_ok_def)
  next
    case (Some b)
    obtain c u where u: "append_task b thread t = (c, u)" by fastforce
    have "next_ok t (NextTask (task_slot c) True thread) u"
      by (rule append_task_adds [OF u]) (use assms(2) st in \<open>simp add: same_cells_def\<close>)
    then have "next_ok t (NextTask (task_slot c) True thread) (OnVerifierTaskStart E c thread u)"
      by (rule next_ok_after) (simp add: OnVerifierTaskStart_def quietI)
    then have "next_ok t r s'" using r Some u by simp
    then show ?thesis using r Some u same_cells_thread [OF st] same_cells_shape [OF st] same_cells_all [OF st] st
      by (auto simp: next_ok_def adds_cell_def same_cells_def)
  qed
qed

lemma NextVerifiedFor_ok: "NextVerifiedFor E picked s = Ret (r, s') \<Longrightarrow> next_ok s r s'"
proof (cases picked)
  case (Some thread)
  assume r: "NextVerifiedFor E picked s = Ret (r, s')"
  show ?thesis
  proof (cases "thread_free (threads s ! thread)")
    case True
    then show ?thesis using r Some start_new_task_ok [of E thread s r s'] by (simp add: NextVerifiedFor_def split: if_splits)
  next
    case False
    then have "last (threads s ! thread) \<in> set (threads s ! thread)" by (simp add: thread_free_def)
    moreover have "thread < length (threads s)" "r = NextTask (task_slot (last (threads s ! thread))) False thread" "s' = s"
      using r Some False by (auto simp: NextVerifiedFor_def split: if_splits)
    ultimately show ?thesis using nth_mem [of thread "threads s"] unfolding next_ok_def thread_cells_def by force
  qed
qed (auto simp: NextVerifiedFor_def next_ok_def)

section \<open>The simulated system and new rounds\<close>

lemma UpdateOSState_simulated:
  assumes "UpdateOSState E thread s = Ret (created, s')" "fiber_keeps_task E"
  shows "simulated s created s'"
proof (cases "thread_info (machine s)")
  case None
  then show ?thesis using assms(1) by (simp add: UpdateOSState_def simulated_def)
next
  case (Some info)
  show ?thesis
  proof (cases info)
    case (JoinThreadInfo joined retval)
    then show ?thesis using assms(1) Some by (auto simp: UpdateOSState_def simulated_def same_cells_def)
  next
    case (CreatedThreadInfo fn name)
    let ?slot = "next_address s"
    obtain c m where c: "Resume (run_fiber E) (length (os_threads s)) (New ?slot ?slot fn name (- 1)) (machine s) = Ret (c, m)"
      and s': "s' = s\<lparr>os_threads := os_threads s @ [[c]], next_address := Suc ?slot, machine := m\<lparr>thread_info := None\<rparr>\<rparr>"
      "created = [(?slot, current_max_thread_id m)]"
      using assms(1) Some CreatedThreadInfo by (auto simp: UpdateOSState_def andThen_eq_Ret Let_def)
    have "same_task (New ?slot ?slot fn name (- 1)) c"
      using c assms(2) by (auto simp: Resume_def cpp_assert_def andThen_eq_Ret fiber_keeps_task_def split: if_splits) (metis fst_conv)
    then have "task_slot c = ?slot" "task_get c = ?slot" by (simp_all add: same_task_def New_def)
    then have "adds_cell s ?slot s'" by (auto simp: adds_cell_def s' all_tasks_def)
    then show ?thesis using s' by (auto simp: simulated_def thread_cells_def shape_ok_def thread_tasks_def)
  qed
qed

lemma reset_fields [simp]:
  "os_threads (reset_checker E s) = os_threads s" "os_threads (start_checker E n s) = os_threads s" "os_threads (TerminateRunningTasks s) = os_threads s"
  "os_threads (SetAllowNewTasks v s) = os_threads s" "os_threads (ResetTargetState E s) = os_threads s" "os_threads (ResetOSState E s) = os_threads s"
  "os_threads (ResetWmmGraph n s) = os_threads s"
  "next_address (reset_checker E s) = next_address s" "next_address (start_checker E n s) = next_address s" "next_address (TerminateRunningTasks s) = next_address s"
  "next_address (SetAllowNewTasks v s) = next_address s" "next_address (ResetTargetState E s) = next_address s" "next_address (ResetOSState E s) = next_address s"
  "next_address (ResetWmmGraph n s) = next_address s"
  "round_schedule (reset_checker E s) = round_schedule s" "round_schedule (start_checker E n s) = round_schedule s" "round_schedule (TerminateRunningTasks s) = round_schedule s"
  "round_schedule (SetAllowNewTasks v s) = round_schedule s" "round_schedule (ResetTargetState E s) = round_schedule s" "round_schedule (ResetOSState E s) = round_schedule s"
  "round_schedule (ResetWmmGraph n s) = round_schedule s"
  "new_task_id (reset_checker E s) = new_task_id s" "new_task_id (start_checker E n s) = new_task_id s" "new_task_id (TerminateRunningTasks s) = new_task_id s"
  "new_task_id (SetAllowNewTasks v s) = new_task_id s" "new_task_id (ResetTargetState E s) = new_task_id s" "new_task_id (ResetOSState E s) = new_task_id s"
  "new_task_id (ResetWmmGraph n s) = new_task_id s"
  "threads_count (reset_checker E s) = threads_count s" "threads_count (start_checker E n s) = threads_count s" "threads_count (TerminateRunningTasks s) = threads_count s"
  "threads_count (SetAllowNewTasks v s) = threads_count s" "threads_count (ResetTargetState E s) = threads_count s" "threads_count (ResetOSState E s) = threads_count s"
  "threads_count (ResetWmmGraph n s) = threads_count s"
  "removed_tasks (reset_checker E s) = removed_tasks s" "removed_tasks (start_checker E n s) = removed_tasks s" "removed_tasks (TerminateRunningTasks s) = removed_tasks s"
  "removed_tasks (SetAllowNewTasks v s) = removed_tasks s" "removed_tasks (ResetTargetState E s) = removed_tasks s" "removed_tasks (ResetOSState E s) = removed_tasks s"
  "removed_tasks (ResetWmmGraph n s) = removed_tasks s"
  "threads (reset_checker E s) = threads s" "threads (start_checker E n s) = threads s" "threads (SetAllowNewTasks v s) = threads s"
  "threads (ResetTargetState E s) = threads s" "threads (ResetOSState E s) = threads s" "threads (ResetWmmGraph n s) = threads s"
  by (simp_all add: reset_checker_def start_checker_def TerminateRunningTasks_def SetAllowNewTasks_def ResetTargetState_def
      ResetOSState_def ResetWmmGraph_def)

lemma StartNextRound_started:
  fixes s :: "('b, 'a, 'v, 'm, 'r, 'p) strategy"
  assumes "StartNextRound E s = Ret s'"
  shows "round_started s s'"
proof -
  define u where "u = reset_checker E (TerminateRunningTasks ((SetAllowNewTasks True s)\<lparr>new_task_id := 0\<rparr>))"
  define t where "t = ResetTargetState E (ResetOSState E (ResetWmmGraph (length (threads u)) u))"
  define ts :: "('a, 'v, 'm) sched_task list list"
    where "ts = (if length (threads t) \<noteq> threads_count t then replicate (threads_count t) [] else map (\<lambda>_. []) (threads t))"
  have s': "s' = start_checker E (threads_count t)
      (t\<lparr>threads := ts, round_schedule := resize_schedule (threads_count t) (round_schedule t)\<rparr>)"
    using assms unfolding StartNextRound_def Let_def u_def [symmetric] t_def [symmetric] ts_def [symmetric]
    by (auto simp: andThen_eq_Ret)
  have "length ts = threads_count t" "concat ts = []" by (auto simp: ts_def)
  moreover have "os_threads t = os_threads s" "next_address t = next_address s" by (simp_all add: t_def u_def)
  ultimately show ?thesis by (simp add: round_started_def s' resize_schedule_def)
qed

section \<open>Restarting a round\<close>

text \<open>A restart keeps cells and identifiers, and new coroutines have new numbers.\<close>

lemma restart_tasks_keep:
  "restart_tasks removed addr cs = Ret (cs', addr') \<Longrightarrow>
    map (\<lambda>c. (task_slot c, task_id c)) cs' = map (\<lambda>c. (task_slot c, task_id c)) cs \<and> addr \<le> addr'"
proof (induction cs arbitrary: addr cs')
  case (Cons c cs)
  then show ?case
    by (auto simp: andThen_eq_Ret Restart_def New_def SetDual_def cpp_assert_def split: if_splits dest: Suc_leD)
qed simp

lemma fresh_interval:
  fixes A B C :: "nat set"
  shows "A \<subseteq> B \<union> {Suc n..<m} \<Longrightarrow> B \<subseteq> {..<n} \<Longrightarrow> n \<notin> A"
    and "A \<subseteq> B \<union> {n..<m} \<Longrightarrow> C \<subseteq> {..<n} \<Longrightarrow> B \<inter> C = {} \<Longrightarrow> A \<inter> C = {}"
    and "A \<subseteq> B \<union> {n..<m} \<Longrightarrow> B \<subseteq> {..<n} \<Longrightarrow> n \<le> m \<Longrightarrow> A \<subseteq> {..<m}"
  by (auto, fastforce+)

lemma restart_tasks_fresh:
  "restart_tasks removed addr cs = Ret (cs', addr') \<Longrightarrow> distinct (map task_get cs) \<Longrightarrow>
    set (map task_get cs) \<subseteq> {..<addr} \<Longrightarrow>
    distinct (map task_get cs') \<and> set (map task_get cs') \<subseteq> set (map task_get cs) \<union> {addr..<addr'}"
proof (induction cs arbitrary: addr cs')
  case (Cons c cs)
  show ?case
  proof (cases "task_id c \<in> removed")
    case True
    then obtain ds where d: "restart_tasks removed addr cs = Ret (ds, addr')" "cs' = c # ds"
      using Cons.prems(1) by (auto simp: andThen_eq_Ret)
    show ?thesis using Cons.IH [OF d(1)] Cons.prems(2,3) d(2) by auto
  next
    case False
    then obtain d ds where d: "restart_tasks removed (Suc addr) cs = Ret (ds, addr')" "cs' = d # ds" "task_get d = addr"
      using Cons.prems(1) by (auto simp: andThen_eq_Ret Restart_def New_def SetDual_def cpp_assert_def split: if_splits)
    have "addr < addr'" using restart_tasks_keep [OF d(1)] by simp
    moreover have "distinct (map task_get ds) \<and> set (map task_get ds) \<subseteq> set (map task_get cs) \<union> {Suc addr..<addr'}"
      by (rule Cons.IH [OF d(1)]) (use Cons.prems(2,3) in auto)
    moreover have "addr \<notin> set (map task_get ds)"
      by (rule fresh_interval(1) [of _ "set (map task_get cs)" addr addr']) (use calculation Cons.prems(3) in simp_all)
    ultimately show ?thesis using d(2,3) by auto
  qed
qed simp

lemma andThen_assoc: "andThen (andThen m f) g = andThen m (\<lambda>x. andThen (f x) g)"
  by (cases m) auto

lemma restart_tasks_append:
  "restart_tasks removed addr (xs @ ys) =
     andThen (restart_tasks removed addr xs) (\<lambda>(xs, addr). andThen (restart_tasks removed addr ys) (\<lambda>(ys, addr). Ret (xs @ ys, addr)))"
proof (induction xs arbitrary: addr)
  case Nil
  show ?case by (cases "restart_tasks removed addr ys") auto
next
  case (Cons c xs)
  then show ?case by (auto simp: andThen_assoc case_prod_beta)
qed

lemma restart_threads_tasks:
  "restart_threads removed addr ts = Ret (ts', addr') \<Longrightarrow>
    restart_tasks removed addr (concat ts) = Ret (concat ts', addr') \<and>
    map (map (\<lambda>c. (task_slot c, task_id c))) ts' = map (map (\<lambda>c. (task_slot c, task_id c))) ts"
proof (induction ts arbitrary: addr ts')
  case (Cons t ts)
  then obtain u a us where u: "restart_tasks removed addr t = Ret (u, a)" "restart_threads removed a ts = Ret (us, addr')" "ts' = u # us"
    by (auto simp: andThen_eq_Ret)
  show ?case using Cons.IH [OF u(2)] u restart_tasks_keep [OF u(1)] by (simp add: restart_tasks_append)
qed simp

lemma restart_round_ok:
  assumes "restart_round s = Ret s'" "cells_ok s"
  shows "cells_ok s'" "thread_tasks s' = thread_tasks s" "round_schedule s' = round_schedule s" "new_task_id s' = new_task_id s"
proof -
  obtain ts a where r: "restart_threads (removed_tasks s) (next_address s) (threads s) = Ret (ts, a)"
    and s': "s' = s\<lparr>threads := ts, next_address := a\<rparr>"
    using assms(1) by (auto simp: restart_round_def andThen_eq_Ret)
  note k = restart_threads_tasks [OF r]
  show t: "thread_tasks s' = thread_tasks s" "round_schedule s' = round_schedule s" "new_task_id s' = new_task_id s"
    using k by (simp_all add: s' thread_tasks_def)
  have c: "concat (threads s') = concat ts" "concat (os_threads s') = concat (os_threads s)" by (simp_all add: s')
  have ok: "distinct (map task_get (concat (threads s)))" "set (map task_get (concat (threads s))) \<subseteq> {..<next_address s}"
    "distinct (map task_get (concat (os_threads s)))" "set (map task_get (concat (os_threads s))) \<subseteq> {..<next_address s}"
    "set (map task_get (concat (threads s))) \<inter> set (map task_get (concat (os_threads s))) = {}"
    using assms(2) unfolding cells_ok_def all_tasks_def concat_append map_append distinct_append set_append by blast+
  note fresh = restart_tasks_fresh [OF conjunct1 [OF k] ok(1,2)]
  have le: "next_address s \<le> a" using restart_tasks_keep [OF conjunct1 [OF k]] by simp
  have slots: "map task_slot (all_tasks s') = map task_slot (all_tasks s)"
  proof -
    have "map fst (map (\<lambda>c. (task_slot c, task_id c)) (concat ts)) = map fst (map (\<lambda>c. (task_slot c, task_id c)) (concat (threads s)))"
      using restart_tasks_keep [OF conjunct1 [OF k]] by simp
    then have "map task_slot (concat ts) = map task_slot (concat (threads s))" by (simp only: map_map comp_def fst_conv)
    then show ?thesis by (simp only: all_tasks_def concat_append map_append c)
  qed
  have "set (map task_get (concat ts)) \<inter> set (map task_get (concat (os_threads s))) = {}"
    by (rule fresh_interval(2) [OF conjunct2 [OF fresh] ok(4,5)])
  then have "distinct (map task_get (all_tasks s'))"
    unfolding all_tasks_def concat_append map_append distinct_append c using fresh ok(3) by blast
  moreover have "set (map task_get (all_tasks s')) \<subseteq> {..<a}"
    unfolding all_tasks_def concat_append map_append set_append c
    using fresh_interval(3) [OF conjunct2 [OF fresh] ok(2) le] ok(4) le by (simp only: Un_subset_iff simp_thms lessThan_subset_iff order_trans)
  moreover have "set (map task_slot (all_tasks s')) \<subseteq> {..<a}" "distinct (map task_slot (all_tasks s'))"
    unfolding slots using assms(2) le by (auto simp: cells_ok_def)
  moreover have "next_address s' = a" by (simp add: s')
  ultimately show "cells_ok s'" by (simp only: cells_ok_def simp_thms)
qed

lemma terminate_same: "same_task c (terminate_task c)"
  by (simp add: same_task_def terminate_task_def DiscardRoundResults_def Terminate_def DestroyContext_def clearWakeupCondition_def)

lemma TerminateRunningTasks_cells:
  "cells_ok (TerminateRunningTasks s) = cells_ok s" "thread_tasks (TerminateRunningTasks s) = thread_tasks s"
proof -
  have t: "task_slot (terminate_task c) = task_slot c" "task_get (terminate_task c) = task_get c" "task_id (terminate_task c) = task_id c" for c :: "('b, 'c, 'd) sched_task"
    using terminate_same [of c] by (simp_all add: same_task_def)
  show "thread_tasks (TerminateRunningTasks s) = thread_tasks s"
    by (simp add: thread_tasks_def TerminateRunningTasks_def comp_def t)
  show "cells_ok (TerminateRunningTasks s) = cells_ok s"
    by (simp add: cells_ok_def all_tasks_def TerminateRunningTasks_def map_concat comp_def t image_Un image_UN image_image)
qed

lemma same_parts_ok:
  assumes "threads s' = threads s" "os_threads s' = os_threads s" "next_address s' = next_address s"
  shows "cells_ok s' = cells_ok s" "thread_tasks s' = thread_tasks s"
  using assms by (simp_all add: cells_ok_def all_tasks_def thread_tasks_def)

text \<open>A restart keeps what the tasks call.\<close>

lemma restart_tasks_calls:
  "restart_tasks removed addr cs = Ret (cs', addr') \<Longrightarrow>
    map (\<lambda>c. (task_id c, task_name c, task_args c)) cs' = map (\<lambda>c. (task_id c, task_name c, task_args c)) cs"
proof (induction cs arbitrary: addr cs')
  case (Cons c cs)
  then show ?case
    by (auto simp: andThen_eq_Ret Restart_def New_def SetDual_def cpp_assert_def split: if_splits)
qed simp

lemma restart_round_calls:
  fixes s :: "('b, 'a, 'v, 'm, 'r, 'p) strategy"
  assumes "restart_round s = Ret s'"
  shows "round_calls s' = round_calls s"
proof -
  have "restart_threads removed addr ts = Ret (ts', addr') \<Longrightarrow>
      map (map (\<lambda>c. (task_id c, task_name c, task_args c))) ts' = map (map (\<lambda>c. (task_id c, task_name c, task_args c))) ts"
    for removed addr addr' and ts ts' :: "('a, 'v, 'm) sched_task list list"
    by (induction ts arbitrary: addr ts') (auto simp: andThen_eq_Ret dest: restart_tasks_calls)
  then show ?thesis using assms by (auto simp: restart_round_def andThen_eq_Ret round_calls_def)
qed

lemma TerminateRunningTasks_calls: "round_calls (TerminateRunningTasks s) = round_calls s"
  by (simp add: round_calls_def TerminateRunningTasks_def comp_def terminate_task_def DiscardRoundResults_def Terminate_def
      DestroyContext_def clearWakeupCondition_def)

lemma ResetCurrentRound_ok:
  assumes "ResetCurrentRound E s = Ret s'" "cells_ok s" "shape_ok s"
  shows "cells_ok s' \<and> shape_ok s' \<and> sched_ok s' \<and> round_calls s' = round_calls s"
proof -
  define u where "u = reset_checker E (TerminateRunningTasks ((SetAllowNewTasks True s)
    \<lparr>round_schedule := map (\<lambda>_. - 1) (round_schedule (SetAllowNewTasks True s))\<rparr>))"
  define t where "t = ResetTargetState E (ResetOSState E (ResetWmmGraph (length (threads u)) u))"
  define v where "v = start_checker E (threads_count t) t"
  have r: "restart_round v = Ret s'"
    using assms(1) unfolding ResetCurrentRound_def Let_def u_def [symmetric] t_def [symmetric] v_def [symmetric] .
  let ?w = "(SetAllowNewTasks True s)\<lparr>round_schedule := map (\<lambda>_. - 1) (round_schedule (SetAllowNewTasks True s))\<rparr>"
  have "cells_ok v = cells_ok (TerminateRunningTasks ?w)" "thread_tasks v = thread_tasks (TerminateRunningTasks ?w)"
    by (rule same_parts_ok; simp add: v_def t_def u_def)+
  then have "cells_ok v = cells_ok ?w" "thread_tasks v = thread_tasks ?w" by (simp_all only: TerminateRunningTasks_cells)
  moreover have "cells_ok ?w = cells_ok s" "thread_tasks ?w = thread_tasks s" by (rule same_parts_ok; simp)+
  ultimately have v: "cells_ok v" "thread_tasks v = thread_tasks s" using assms(2) by simp_all
  have rs: "round_schedule v = map (\<lambda>_. - 1) (round_schedule s)" "new_task_id v = new_task_id s"
    by (simp_all add: v_def t_def u_def)
  have "threads v = threads (TerminateRunningTasks ?w)" "threads ?w = threads s" "os_threads v = os_threads s"
    "os_threads ?w = os_threads s" by (simp_all add: v_def t_def u_def)
  then have "round_calls v = round_calls s"
    using TerminateRunningTasks_calls [of ?w] by (simp add: round_calls_def)
  then have calls: "round_calls s' = round_calls s" using restart_round_calls [OF r] by simp
  note k = restart_round_ok [OF r v(1)]
  show ?thesis using k v(2) rs assms(3) calls by (simp add: shape_ok_def sched_ok_def)
qed

section \<open>Rounds of the user\<close>

lemma distinct_map_subset:
  assumes "mset ys \<subseteq># mset xs" "distinct (map f xs)"
  shows "distinct (map f ys)"
proof -
  obtain zs where "mset xs = mset (ys @ zs)" using assms(1) by (metis mset_append mset_subset_eq_exists_conv ex_mset)
  then have "mset (map f xs) = mset (map f (ys @ zs))" by simp
  then have "distinct (map f (ys @ zs))" using assms(2) mset_eq_imp_distinct_iff by blast
  then show ?thesis by simp
qed

lemma dropped_tasks_ok:
  assumes ok: "cells_ok s" "shape_ok s" and sub: "mset (concat (threads s')) \<subseteq># mset (concat (threads s))"
    and eq: "os_threads s' = os_threads s" "next_address s' = next_address s" "new_task_id s' = new_task_id s"
      "length (round_schedule s') = length (threads s')"
  shows "cells_ok s' \<and> shape_ok s'"
proof -
  have "mset (all_tasks s') \<subseteq># mset (all_tasks s)" using sub eq(1) by (simp add: all_tasks_def)
  note all = distinct_map_subset [OF this] set_mset_mono [OF this]
  have "set (all_tasks s') \<subseteq> set (all_tasks s)" using all(2) by simp
  then have "cells_ok s'" using all(1) ok(1) unfolding cells_ok_def eq by (simp only: set_map) blast
  moreover have "set (concat (threads s')) \<subseteq> set (concat (threads s))" using set_mset_mono [OF sub] by simp
  then have "shape_ok s'" using distinct_map_subset [OF sub] ok(2) eq(4) unfolding shape_ok_threads eq(3) by blast
  ultimately show ?thesis by blast
qed

lemma append_task_ok:
  assumes "append_task b thread s = (c, s')" "thread < length (threads s)" "cells_ok s" "shape_ok s"
  shows "cells_ok s'" "shape_ok s'" "length (threads s') = length (threads s)"
  using append_task_adds [OF assms(1,2)] adds_cell_spec(1) [OF _ assms(3)] assms(1,4)
  by (auto simp: next_ok_def append_task_def split: prod.splits)

lemma append_all_ok:
  "thread < length (threads s) \<Longrightarrow> cells_ok s \<Longrightarrow> shape_ok s \<Longrightarrow>
    cells_ok (append_all bs thread s) \<and> shape_ok (append_all bs thread s) \<and>
    length (threads (append_all bs thread s)) = length (threads s)"
proof (induction bs arbitrary: s)
  case (Cons b bs)
  obtain c t where t: "append_task b thread s = (c, t)" by fastforce
  show ?case using Cons.IH [of t] append_task_ok [OF t Cons.prems] Cons.prems(1) t by simp
qed simp

lemma cleared_thread: "mset (concat (xs[i := []])) \<subseteq># mset (concat xs)"
proof (cases "i < length xs")
  case True
  then show ?thesis
    by (subst (2) id_take_nth_drop [OF True]) (simp add: upd_conv_take_nth_drop)
qed (simp add: list_update_beyond)

lemma custom_threads_ok:
  "i + length rounds \<le> length (threads s) \<Longrightarrow> cells_ok s \<Longrightarrow> shape_ok s \<Longrightarrow>
    cells_ok (custom_threads i rounds s) \<and> shape_ok (custom_threads i rounds s)"
proof (induction rounds arbitrary: i s)
  case (Cons bs rounds)
  let ?s = "s\<lparr>threads := (threads s)[i := []]\<rparr>"
  have "cells_ok ?s \<and> shape_ok ?s"
    by (rule dropped_tasks_ok [OF Cons.prems(2,3)]) (use Cons.prems(3) cleared_thread in \<open>simp_all add: shape_ok_threads\<close>)
  then have "cells_ok (append_all bs i ?s) \<and> shape_ok (append_all bs i ?s) \<and>
      length (threads (append_all bs i ?s)) = length (threads ?s)"
    using Cons.prems(1) by (intro append_all_ok) simp_all
  then show ?case using Cons.IH [of "Suc i" "append_all bs i ?s"] Cons.prems(1) by simp
qed simp

lemma SetCustomRound_ok:
  assumes "SetCustomRound E rounds s = Ret s'" "cells_ok s" "shape_ok s"
  shows "cells_ok s' \<and> shape_ok s'"
proof -
  let ?n = "length rounds"
  define t where "t = s\<lparr>threads := take ?n (threads s) @ replicate (?n - length (threads s)) [],
    round_schedule := resize_schedule ?n (round_schedule s)\<rparr>"
  define u where "u = ResetTargetState E (ResetWmmGraph ?n (reset_checker E t))"
  have s': "s' = start_checker E ?n (custom_threads 0 rounds u)"
    using assms(1) unfolding SetCustomRound_def Let_def t_def [symmetric] u_def [symmetric] by (auto simp: andThen_eq_Ret)
  have "concat (threads s) = concat (take ?n (threads s)) @ concat (drop ?n (threads s))"
    by (simp flip: concat_append)
  then have "mset (concat (threads t)) \<subseteq># mset (concat (threads s))" by (simp add: t_def)
  moreover have "length (round_schedule t) = length (threads t)" by (simp add: t_def resize_schedule_def min_def)
  ultimately have "cells_ok u \<and> shape_ok u"
    by (intro dropped_tasks_ok [OF assms(2,3)]) (simp_all add: u_def t_def)
  moreover have "?n \<le> length (threads u)" by (simp add: u_def t_def)
  ultimately have "cells_ok (custom_threads 0 rounds u) \<and> shape_ok (custom_threads 0 rounds u)"
    using custom_threads_ok [of 0 rounds u] by simp
  moreover have "same_cells (custom_threads 0 rounds u) s'" by (simp add: s' same_cells_def)
  ultimately show ?thesis by (simp add: same_cells_ok same_cells_shape)
qed

section \<open>The next task of a round that is replayed\<close>

lemma next_index_spec:
  assumes "- 1 \<le> i" "i \<le> int (length t)"
  shows "max 0 i \<le> next_index over t i" "next_index over t i \<le> int (length t)"
    "\<forall>j. max 0 i \<le> j \<and> j < next_index over t i \<longrightarrow> over (t ! nat j)"
    "next_index over t i < int (length t) \<longrightarrow> \<not> over (t ! nat (next_index over t i))"
  using assms
proof (induction over t i rule: next_index.induct)
  case (1 over t i)
  let ?c = "i < int (length t) \<and> (i = - 1 \<or> over (t ! nat i))"
  have step: "next_index over t i = (if ?c then next_index over t (i + 1) else i)" by (rule next_index.simps)
  {
    case 1
    then show ?case using "1.IH"(1) step by (cases ?c) auto
  next
    case 2
    then show ?case using "1.IH"(2) step by (cases ?c) auto
  next
    case 3
    show ?case
    proof (cases ?c)
      case True
      then have rest: "\<forall>j. max 0 (i + 1) \<le> j \<and> j < next_index over t i \<longrightarrow> over (t ! nat j)"
        using "1.IH"(3) step 3 by simp
      have "over (t ! nat j)" if j: "max 0 i \<le> j" "j < next_index over t i" for j
        using rest that True by (cases "j = i") auto
      then show ?thesis by blast
    qed (use step in auto)
  next
    case 4
    then show ?case using "1.IH"(4) step by (cases ?c) auto
  }
qed

lemma GetNextTaskInThread_bounds:
  assumes "sched_ok s" "i < length (threads s)"
  shows "0 \<le> GetNextTaskInThread i s" "GetNextTaskInThread i s \<le> int (length (threads s ! i))"
  using assms next_index_spec(1,2) [of "round_schedule s ! i" "threads s ! i" "task_over s"]
  by (auto simp: sched_ok_def GetNextTaskInThread_def thread_tasks_def)

lemma passes_replay:
  assumes "passes (eligible_to_replay E) i s"
  shows "i < length (threads s)" "GetNextTaskInThread i s \<noteq> int (length (threads s ! i))"
  using assms by (auto simp: passes_def eligible_to_replay_def Let_def quiet_fields split: if_splits)

lemma schedule_thread_scheduled:
  assumes "sched_ok s" "passes (eligible_to_replay E) i s" "schedule_thread i s = (r, s')"
  shows "scheduled s r s'"
proof -
  note p = passes_replay [OF assms(2)]
  define k where "k = GetNextTaskInThread i s"
  have k: "0 \<le> k" "k < int (length (threads s ! i))"
    using GetNextTaskInThread_bounds [OF assms(1) p(1)] p(2) by (simp_all add: k_def)
  have r: "r = NextTask (task_slot (threads s ! i ! nat k)) (round_schedule s ! i \<noteq> k) i"
    and s': "s' = s\<lparr>round_schedule := (round_schedule s)[i := k]\<rparr>"
    using assms(3) by (simp_all add: schedule_thread_def Let_def k_def)
  have "threads s ! i ! nat k \<in> set (threads s ! i)" using k by (intro nth_mem) simp
  then have "task_slot (threads s ! i ! nat k) \<in> thread_cells s"
    using nth_mem [OF p(1)] by (auto simp: thread_cells_def)
  moreover have "same_cells s s'" by (simp add: s' same_cells_def)
  moreover have "sched_ok s'"
    using assms(1) k p(1) by (auto simp: sched_ok_def s' thread_tasks_def nth_list_update)
  ultimately show ?thesis by (simp add: scheduled_def r)
qed

lemma replay_scheduled:
  assumes ok: "sched_ok s" and q: "quiet s t" and p: "\<forall>i. picked = Some i \<longrightarrow> passes (eligible_to_replay E) i s"
    and r: "(case picked of None \<Rightarrow> Ret (NextFailure DEADLOCK, t) | Some thread \<Rightarrow> Ret (schedule_thread thread t)) = Ret (r, s')"
  shows "scheduled s r s'"
proof -
  have t: "sched_ok t" "same_cells s t" using ok q by (simp_all add: sched_ok_def quiet_fields quiet_same)
  have "scheduled t r s'"
  proof (cases picked)
    case None
    then show ?thesis using r t(1) by (auto simp: scheduled_def)
  next
    case (Some i)
    then have "passes (eligible_to_replay E) i t" using p passes_quiet [OF quiet_sym [OF q]] by simp
    then show ?thesis using schedule_thread_scheduled [OF t(1)] r Some by simp
  qed
  then show ?thesis
    using same_cells_trans [OF t(2)] same_cells_thread [OF t(2)] by (simp add: scheduled_def split: next_result.splits)
qed

section \<open>The strategies meet the contract\<close>

lemma picked_next_ok:
  assumes "andThen pick (\<lambda>(picked, s). NextVerifiedFor E picked s) = Ret (r, s')"
    and "\<And>picked t. pick = Ret (picked, t) \<Longrightarrow> quiet s t"
  shows "next_ok s r s'"
proof -
  obtain picked t where t: "pick = Ret (picked, t)" "NextVerifiedFor E picked t = Ret (r, s')"
    using assms(1) by (auto simp: andThen_eq_Ret)
  show ?thesis by (rule next_ok_quiet [OF assms(2) [OF t(1)] NextVerifiedFor_ok [OF t(2)]])
qed

interpretation random_rounds: round_strategy "RandomStrategy E" E
proof (standard, goal_cases)
  case (1 s r s')
  then have "andThen (weighted_pick E (eligible E) s) (\<lambda>(picked, s). NextVerifiedFor E picked s) = Ret (r, s')"
    by (simp add: RandomStrategy_def random_Pick_def)
  then show ?case
    by (rule picked_next_ok) (drule weighted_pick_picks [OF asks_eligible], simp add: picks_def)
next
  case (2 s s')
  then show ?case by (simp add: RandomStrategy_def StartNextRound_started)
next
  case (3 thread s created s')
  then show ?case by (simp add: RandomStrategy_def UpdateOSState_simulated)
next
  case (4 s s')
  then show ?case using ResetCurrentRound_ok by (simp add: RandomStrategy_def)
next
  case (5 rounds s s')
  then obtain t where t: "SetCustomRound E rounds s = Ret t" "quiet t s'"
    by (auto simp: RandomStrategy_def random_SetCustomRound_def andThen_eq_Ret Let_def quietI(4))
  then show ?case
    using SetCustomRound_ok [OF t(1) 5(2,3)] quiet_same [OF t(2)] by (simp add: same_cells_ok same_cells_shape)
next
  case (6 s r s')
  then obtain picked t where p: "weighted_pick E (eligible_to_replay E) s = Ret (picked, t)"
    "(case picked of None \<Rightarrow> Ret (NextFailure DEADLOCK, t) | Some thread \<Rightarrow> Ret (schedule_thread thread t)) = Ret (r, s')"
    by (auto simp: RandomStrategy_def pick_NextSchedule_def random_PickSchedule_def andThen_eq_Ret)
  have "picks (eligible_to_replay E) s picked t" by (rule weighted_pick_picks [OF asks_replay p(1)])
  then show ?case using replay_scheduled [OF 6(2) _ _ p(2)] unfolding picks_def by blast
qed

interpretation round_robin_rounds: round_strategy "RoundRobinStrategy E" E
proof (standard, goal_cases)
  case (1 s r s')
  then have "andThen (rr_Pick E s) (\<lambda>(picked, s). NextVerifiedFor E picked s) = Ret (r, s')"
    by (simp add: RoundRobinStrategy_def)
  then show ?case
    by (rule picked_next_ok) (unfold rr_Pick_def, drule in_turn_picks [OF asks_in_turn, rotated], auto simp: picks_def)
next
  case (2 s s')
  then show ?case by (simp add: RoundRobinStrategy_def StartNextRound_started)
next
  case (3 thread s created s')
  then show ?case by (simp add: RoundRobinStrategy_def UpdateOSState_simulated)
next
  case (4 s s')
  then show ?case using ResetCurrentRound_ok by (simp add: RoundRobinStrategy_def)
next
  case (5 rounds s s')
  then show ?case using SetCustomRound_ok by (simp add: RoundRobinStrategy_def)
next
  case (6 s r s')
  then obtain picked t where p: "in_turn (eligible_to_replay E) (length (threads s)) s = Ret (picked, t)"
    "(case picked of None \<Rightarrow> Ret (NextFailure DEADLOCK, t) | Some thread \<Rightarrow> Ret (schedule_thread thread t)) = Ret (r, s')"
    by (auto simp: RoundRobinStrategy_def pick_NextSchedule_def rr_PickSchedule_def andThen_eq_Ret)
  have "picks (eligible_to_replay E) s picked t" by (rule in_turn_picks [OF asks_replay _ p(1)]) auto
  then show ?case using replay_scheduled [OF 6(2) _ _ p(2)] unfolding picks_def by blast
qed

lemma PrepareForDepth_quiet: "PrepareForDepth E depth k s = Ret s' \<Longrightarrow> quiet s s'"
  by (auto simp: PrepareForDepth_def Let_def quietI split: prod.splits if_splits)

lemma UpdateStatistics_quiet: "UpdateStatistics E s = Ret s' \<Longrightarrow> quiet s s'"
  using quiet_trans [OF quietI(4) PrepareForDepth_quiet] by (simp add: UpdateStatistics_def Let_def)

lemma simulated_quiet: "simulated s created t \<Longrightarrow> quiet t s' \<Longrightarrow> simulated s created s'"
  using quiet_fields [of t s'] quiet_same [of t s'] same_cells_trans [of s t s']
  by (auto simp: simulated_def adds_cell_def same_cells_thread same_cells_shape same_cells_all)

interpretation pct_rounds: round_strategy "PctStrategy E" E
proof (standard, goal_cases)
  case (1 s r s')
  then have "andThen (pct_NextThreadId E s) (\<lambda>(picked, s). NextVerifiedFor E picked s) = Ret (r, s')"
    by (simp add: PctStrategy_def)
  then show ?case
    by (rule picked_next_ok) (unfold pct_NextThreadId_def, drule pct_choose_picks [OF asks_in_turn asks_eligible], simp)
next
  case (2 s s')
  then obtain t u where t: "StartNextRound E s = Ret t" "UpdateStatistics E t = Ret u" "s' = start_checker E (threads_count u) u"
    by (auto simp: PctStrategy_def andThen_eq_Ret)
  then show ?case
    using StartNextRound_started [OF t(1)] quiet_fields [OF UpdateStatistics_quiet [OF t(2)]] by (simp add: round_started_def)
next
  case (3 thread s created s')
  then obtain t where t: "UpdateOSState E thread s = Ret (created, t)" "quiet t s'"
    by (auto simp: PctStrategy_def pct_UpdateSimulatorState_def andThen_eq_Ret Let_def quietI(1)
        split: if_splits dest: PrepareForDepth_quiet)
  then show ?case using simulated_quiet UpdateOSState_simulated [OF t(1) 3(2)] by blast
next
  case (4 s s')
  then obtain t where t: "ResetCurrentRound E s = Ret t" "UpdateStatistics E t = Ret s'"
    by (auto simp: PctStrategy_def andThen_eq_Ret)
  note q = UpdateStatistics_quiet [OF t(2)]
  show ?case
    using ResetCurrentRound_ok [OF t(1) 4(2,3)] same_cells_ok [OF quiet_same [OF q]] same_cells_shape [OF quiet_same [OF q]]
      sched_ok_tasks [OF quiet_fields(7,4) [OF q]] same_cells_calls [OF quiet_same [OF q]] by simp
next
  case (5 rounds s s')
  then obtain t where t: "SetCustomRound E rounds s = Ret t" "UpdateStatistics E t = Ret s'"
    by (auto simp: PctStrategy_def andThen_eq_Ret)
  then show ?case
    using SetCustomRound_ok [OF t(1) 5(2,3)] quiet_same [OF UpdateStatistics_quiet [OF t(2)]]
    by (simp add: same_cells_ok same_cells_shape)
next
  case (6 s r s')
  then obtain picked t where p: "pct_choose (eligible_to_replay E) (eligible_to_replay E) s = Ret (picked, t)"
    "(case picked of None \<Rightarrow> Ret (NextFailure DEADLOCK, t) | Some thread \<Rightarrow> Ret (schedule_thread thread t)) = Ret (r, s')"
    by (auto simp: PctStrategy_def pct_NextSchedule_def andThen_eq_Ret)
  then show ?case using pct_choose_picks [OF asks_replay asks_replay p(1)] replay_scheduled [OF 6(2)] by blast
qed

end
