(* ===== verification/Dual_Scheduler.thy ===== *)
theory Dual_Scheduler
imports Scheduler_Rounds Lincheck_Dual
begin

text \<open>
  The scheduler of dual histories (src/runtime/include/scheduler.h: \<open>DualStrategyScheduler\<close>): the events a dual task
  emits are drained after every step, and a deadlock can be rolled back by replacing a blocked operation.
\<close>

section \<open>Dual histories that refer to tasks\<close>

datatype dual_seq_event =
    SeqOrdInvoke nat nat
  | SeqOrdResponse nat value_wrapper nat
  | SeqRequestInvoke nat nat
  | SeqRequestResponse nat nat
  | SeqFollowUpInvoke nat nat
  | SeqFollowUpResponse nat value_wrapper nat

fun dual_event_of :: "('b, 'a, 'v, 'm, 'r, 'p) strategy \<Rightarrow> dual_seq_event \<Rightarrow> 'a dual_event res" where
  "dual_event_of s (SeqOrdInvoke slot t) = andThen (task_at slot s) (\<lambda>c. Ret (OrdInvoke (task.truncate c) (int t)))"
| "dual_event_of s (SeqOrdResponse slot v t) = andThen (task_at slot s) (\<lambda>c. Ret (OrdResponse (task.truncate c) v (int t)))"
| "dual_event_of s (SeqRequestInvoke slot t) = andThen (task_at slot s) (\<lambda>c. Ret (RequestInvoke (task.truncate c) (int t)))"
| "dual_event_of s (SeqRequestResponse slot t) = andThen (task_at slot s) (\<lambda>c. Ret (RequestResponse (task.truncate c) (int t)))"
| "dual_event_of s (SeqFollowUpInvoke slot t) = andThen (task_at slot s) (\<lambda>c. Ret (FollowUpInvoke (task.truncate c) (int t)))"
| "dual_event_of s (SeqFollowUpResponse slot v t) =
     andThen (task_at slot s) (\<lambda>c. Ret (FollowUpResponse (task.truncate c) v (int t)))"

fun dual_history_of :: "('b, 'a, 'v, 'm, 'r, 'p) strategy \<Rightarrow> dual_seq_event list \<Rightarrow> 'a dual_event list res" where
  "dual_history_of s [] = Ret []"
| "dual_history_of s (e # es) = andThen (dual_event_of s e) (\<lambda>e. andThen (dual_history_of s es) (\<lambda>es. Ret (e # es)))"

record 'a dual_config =
  dual_cfg_check :: "'a dual_event list \<Rightarrow> bool res"
  dual_max_tasks :: nat
  dual_exploration_runs :: nat
  dual_deadlock_policy :: DeadlockPolicy

definition dual_check_seq :: "'a dual_config \<Rightarrow> dual_seq_event list \<Rightarrow> ('b, 'a, 'v, 'm, 'r, 'p) strategy \<Rightarrow> bool res" where
  "dual_check_seq cfg seq s = andThen (dual_history_of s seq) (dual_cfg_check cfg)"

definition AppendDualStartEvent ::
    "nat \<Rightarrow> bool \<Rightarrow> nat \<Rightarrow> ('a, 'v, 'm) sched_task \<Rightarrow> dual_seq_event list \<Rightarrow> dual_seq_event list" where
  "AppendDualStartEvent slot new thread c seq =
     (if \<not> new then seq
      else if is_dual_task c then seq @ [SeqRequestInvoke slot thread] else seq @ [SeqOrdInvoke slot thread])"

record DrainedDualEventRecord =
  rec_slot :: nat
  rec_thread :: nat
  rec_event :: DualEvent

text \<open>The events of the dual tasks of a thread, in the order of the tasks; the tasks have none afterwards.\<close>

fun CollectDrainedDualEvents ::
    "nat \<Rightarrow> ('a, 'v, 'm) sched_task list \<Rightarrow> DrainedDualEventRecord list \<times> ('a, 'v, 'm) sched_task list" where
  "CollectDrainedDualEvents thread [] = ([], [])"
| "CollectDrainedDualEvents thread (c # cs) =
     (case CollectDrainedDualEvents thread cs of (rest, cs) \<Rightarrow>
      if \<not> is_dual_task c \<or> \<not> HasDualEvents c then (rest, c # cs)
      else case DrainDualEvents c of (events, c) \<Rightarrow>
        (map (\<lambda>e. \<lparr>rec_slot = task_slot c, rec_thread = thread, rec_event = e\<rparr>) events @ rest, c # cs))"

fun drain_threads ::
    "nat \<Rightarrow> ('a, 'v, 'm) sched_task list list \<Rightarrow> DrainedDualEventRecord list \<times> ('a, 'v, 'm) sched_task list list" where
  "drain_threads i [] = ([], [])"
| "drain_threads i (t # ts) =
     (case CollectDrainedDualEvents i t of (drained, t) \<Rightarrow>
      (case drain_threads (Suc i) ts of (rest, ts) \<Rightarrow> (drained @ rest, t # ts)))"

fun drained_event :: "DrainedDualEventRecord \<Rightarrow> dual_seq_event" where
  "drained_event r =
     (case de_kind (rec_event r) of
        RequestResponseKind \<Rightarrow> SeqRequestResponse (rec_slot r) (rec_thread r)
      | FollowUpInvokeKind \<Rightarrow> SeqFollowUpInvoke (rec_slot r) (rec_thread r)
      | FollowUpResponseKind \<Rightarrow> SeqFollowUpResponse (rec_slot r) (de_result (rec_event r)) (rec_thread r))"

definition AppendCollectedDrainedDualEvents ::
    "DrainedDualEventRecord list \<Rightarrow> dual_seq_event list \<Rightarrow> dual_seq_event list" where
  "AppendCollectedDrainedDualEvents drained seq =
     (if drained = [] then seq else seq @ map drained_event (sort_key (\<lambda>r. de_seqno (rec_event r)) drained))"

definition AppendDrainedDualEvents ::
    "dual_seq_event list \<Rightarrow> ('b, 'a, 'v, 'm, 'r, 'p) strategy \<Rightarrow> dual_seq_event list \<times> ('b, 'a, 'v, 'm, 'r, 'p) strategy" where
  "AppendDrainedDualEvents seq s =
     (case drain_threads 0 (threads s) of (drained, ts) \<Rightarrow>
      (AppendCollectedDrainedDualEvents drained seq, s\<lparr>threads := ts\<rparr>))"

fun dual_StartTaskId :: "'a dual_event \<Rightarrow> int option" where
  "dual_StartTaskId (RequestInvoke t _) = Some (task_id t)"
| "dual_StartTaskId (OrdInvoke t _) = Some (task_id t)"
| "dual_StartTaskId _ = None"

fun finishes :: "'a dual_event \<Rightarrow> 'a dual_event \<Rightarrow> bool" where
  "finishes (OrdResponse t _ _) (OrdInvoke u _) = (task_id t = task_id u)"
| "finishes (FollowUpResponse t _ _) (RequestInvoke u _) = (task_id t = task_id u)"
| "finishes _ _ = False"

definition dual_HasPendingVisibleOp :: "'a dual_event list \<Rightarrow> bool" where
  "dual_HasPendingVisibleOp h \<longleftrightarrow>
     list_ex (\<lambda>e. dual_StartTaskId e \<noteq> None \<and> \<not> list_ex (\<lambda>e'. finishes e' e) h) h"

definition dual_reportable :: "'a dual_event list \<Rightarrow> bool" where
  "dual_reportable h \<longleftrightarrow> list_ex (\<lambda>e. dual_StartTaskId e \<noteq> None) h \<and> dual_HasPendingVisibleOp h"

section \<open>Steps and verdicts\<close>

text \<open>A step of a task, the events drained after it, and the response of an ordinary task that has returned.\<close>

definition dual_step ::
    "('b, 'a, 'v, 'm, 'r) environment \<Rightarrow> bool \<Rightarrow> nat \<Rightarrow> nat \<Rightarrow> dual_seq_event list \<Rightarrow> ('b, 'a, 'v, 'm, 'r, 'p) strategy
      \<Rightarrow> (bool \<times> dual_seq_event list \<times> ('b, 'a, 'v, 'm, 'r, 'p) strategy) res" where
  "dual_step E forced slot thread seq s =
     andThen (if forced then Ret (map_task slot Terminate s) else resume_task E slot thread s) (\<lambda>s.
     case AppendDrainedDualEvents seq s of (seq, s) \<Rightarrow>
     andThen (task_at slot s) (\<lambda>c.
     if \<not> task_returned c then Ret (False, seq, s)
     else
       andThen (OnVerifierTaskFinish E c thread s) (\<lambda>s.
       if forced \<or> is_dual_task c then Ret (True, seq, s)
       else andThen (GetRetVal (task.truncate c)) (\<lambda>v. Ret (True, seq @ [SeqOrdResponse slot v thread], s)))))"

definition dual_verdict ::
    "'a dual_config \<Rightarrow> bool \<Rightarrow> nat list \<Rightarrow> dual_seq_event list \<Rightarrow> ('b, 'a, 'v, 'm, 'r, 'p) strategy
      \<Rightarrow> dual_seq_event NonLinearizableHistory option res" where
  "dual_verdict cfg deadlock full seq s =
     (if deadlock \<and> dual_deadlock_policy cfg = Fail then
        andThen (dual_history_of s seq) (\<lambda>h.
        Ret (if dual_reportable h then Some \<lparr>nl_full = full, nl_seq = seq, nl_reason = DEADLOCK_FOUND\<rparr> else None))
      else
        andThen (dual_check_seq cfg seq s) (\<lambda>ok.
        Ret (if ok then None else Some \<lparr>nl_full = full, nl_seq = seq, nl_reason = NON_LINEARIZABLE_HISTORY\<rparr>)))"

section \<open>Exploring a round\<close>

fun dual_explore_loop ::
    "('b, 'a, 'v, 'm, 'r, 'p) strategy_ops \<Rightarrow> ('b, 'a, 'v, 'm, 'r) environment \<Rightarrow> nat \<Rightarrow> nat \<Rightarrow> int set \<Rightarrow>
      dual_seq_event list \<Rightarrow> nat list \<Rightarrow> ('b, 'a, 'v, 'm, 'r, 'p) strategy
      \<Rightarrow> (bool \<times> dual_seq_event list \<times> nat list \<times> ('b, 'a, 'v, 'm, 'r, 'p) strategy) res" where
  "dual_explore_loop Q E fuel 0 started seq full s = Ret (False, seq, full, s)"
| "dual_explore_loop Q E 0 (Suc to_run) started seq full s = OutOfFuel"
| "dual_explore_loop Q E (Suc fuel) (Suc to_run) started seq full s =
     andThen (op_NextSchedule Q s) (\<lambda>(t, s).
     case t of
       NextFailure f \<Rightarrow> if f = DEADLOCK then Ret (True, seq, full, s) else Exn BadVariantAccess
     | NextTask slot _ thread \<Rightarrow>
         andThen (task_at slot s) (\<lambda>c.
         let first = task_id c \<notin> started in
         andThen
           (if first then VerifyTaskStart E c thread (BuildReplayStartContext s started) s
            else if \<not> task_returned c then VerifyExistingTask E c thread s else Ret (True, s)) (\<lambda>(ok, s).
         if \<not> ok then Ret (True, seq, full, s)
         else
           let s = (if first then OnVerifierTaskStart E c thread s else s);
               started = (if first then insert (task_id c) started else started);
               seq = AppendDualStartEvent slot first thread c seq in
           andThen (dual_step E False slot thread seq s) (\<lambda>(returned, seq, s).
           dual_explore_loop Q E fuel (if returned then to_run else Suc to_run) started seq (full @ [slot]) s))))"

fun dual_ExploreRound ::
    "('b, 'a, 'v, 'm, 'r, 'p) strategy_ops \<Rightarrow> ('b, 'a, 'v, 'm, 'r) environment \<Rightarrow> 'a dual_config \<Rightarrow> nat \<Rightarrow> nat
      \<Rightarrow> ('b, 'a, 'v, 'm, 'r, 'p) strategy
      \<Rightarrow> (dual_seq_event NonLinearizableHistory option \<times> ('b, 'a, 'v, 'm, 'r, 'p) strategy) res" where
  "dual_ExploreRound Q E cfg fuel 0 s = Ret (None, s)"
| "dual_ExploreRound Q E cfg fuel (Suc runs) s =
     andThen (op_ResetExplorationState Q s) (\<lambda>s.
     andThen (dual_explore_loop Q E fuel (GetValidTasksCount s) {} [] [] s) (\<lambda>(deadlock, seq, full, s).
     andThen (dual_verdict cfg deadlock full seq s) (\<lambda>bad.
     case bad of None \<Rightarrow> dual_ExploreRound Q E cfg fuel runs s | Some b \<Rightarrow> Ret (Some b, s))))"

section \<open>Rolling a deadlock back\<close>

record RollbackCandidate =
  cand_task_id :: int
  cand_thread :: nat
  cand_progress :: "string list"

fun find_candidate ::
    "('b, 'a, 'v, 'm, 'r) environment \<Rightarrow> ('b, 'a, 'v, 'm, 'r, 'p) strategy \<Rightarrow> int set \<Rightarrow> nat list \<Rightarrow> RollbackCandidate option res" where
  "find_candidate E s seen [] = Ret None"
| "find_candidate E s seen (slot # slots) =
     andThen (task_at slot s) (\<lambda>c.
     let ident = task_id c in
     if ident \<in> seen then find_candidate E s seen slots
     else if IsTaskRemoved ident s then find_candidate E s (insert ident seen) slots
     else case strategy_GetTask ident s of
       None \<Rightarrow> find_candidate E s (insert ident seen) slots
     | Some (stored, thread) \<Rightarrow>
         andThen (task_at stored s) (\<lambda>c.
         let progress = filter (\<lambda>name. HasTaskBuilder name s) (verifier_progress E (task_name c)) in
         if task_returned c \<or> \<not> task_blocked c s \<or> progress = [] then find_candidate E s (insert ident seen) slots
         else Ret (Some \<lparr>cand_task_id = ident, cand_thread = thread, cand_progress = progress\<rparr>)))"

definition FindRollbackCandidate ::
    "('b, 'a, 'v, 'm, 'r) environment \<Rightarrow> ('b, 'a, 'v, 'm, 'r, 'p) strategy \<Rightarrow> nat list \<Rightarrow> RollbackCandidate option res" where
  "FindRollbackCandidate E s full = find_candidate E s {} (rev full)"

text \<open>One pass over the progress methods: the blocked task is removed and the method appended to its thread.\<close>

fun rollback_methods ::
    "('b, 'a, 'v, 'm, 'r, 'p) strategy_ops \<Rightarrow> ('b, 'a, 'v, 'm, 'r) environment \<Rightarrow> 'a dual_config \<Rightarrow> nat \<Rightarrow> int \<Rightarrow> nat
      \<Rightarrow> string list \<Rightarrow> ('b, 'a, 'v, 'm, 'r, 'p) strategy
      \<Rightarrow> (dual_seq_event NonLinearizableHistory option \<times> ('b, 'a, 'v, 'm, 'r, 'p) strategy) res" where
  "rollback_methods Q E cfg fuel ident thread [] s = Ret (None, s)"
| "rollback_methods Q E cfg fuel ident thread (name # names) s =
     (case AppendTaskForReplay name thread (SetTaskRemoved ident True s) of (appended, s) \<Rightarrow>
      case appended of
        None \<Rightarrow> rollback_methods Q E cfg fuel ident thread names (SetTaskRemoved ident False s)
      | Some new_id \<Rightarrow>
          andThen (dual_ExploreRound Q E cfg fuel 1 s) (\<lambda>(alt, s).
          case alt of
            Some b \<Rightarrow> Ret (Some b, s)
          | None \<Rightarrow>
              andThen (op_ResetExplorationState Q s) (\<lambda>s.
              andThen (RemoveLastTaskForReplay thread new_id s) (\<lambda>(_, s).
              rollback_methods Q E cfg fuel ident thread names (SetTaskRemoved ident False s)))))"

fun rollback_attempts ::
    "('b, 'a, 'v, 'm, 'r, 'p) strategy_ops \<Rightarrow> ('b, 'a, 'v, 'm, 'r) environment \<Rightarrow> 'a dual_config \<Rightarrow> nat \<Rightarrow> RollbackCandidate \<Rightarrow> nat
      \<Rightarrow> ('b, 'a, 'v, 'm, 'r, 'p) strategy
      \<Rightarrow> (dual_seq_event NonLinearizableHistory option \<times> ('b, 'a, 'v, 'm, 'r, 'p) strategy) res" where
  "rollback_attempts Q E cfg fuel cand 0 s = Ret (None, s)"
| "rollback_attempts Q E cfg fuel cand (Suc n) s =
     andThen (rollback_methods Q E cfg fuel (cand_task_id cand) (cand_thread cand) (cand_progress cand) s) (\<lambda>(alt, s).
     case alt of Some b \<Rightarrow> Ret (Some b, s) | None \<Rightarrow> rollback_attempts Q E cfg fuel cand n s)"

definition TryRollbackDeadlock ::
    "('b, 'a, 'v, 'm, 'r, 'p) strategy_ops \<Rightarrow> ('b, 'a, 'v, 'm, 'r) environment \<Rightarrow> 'a dual_config \<Rightarrow> nat \<Rightarrow> nat list
      \<Rightarrow> ('b, 'a, 'v, 'm, 'r, 'p) strategy
      \<Rightarrow> (dual_seq_event NonLinearizableHistory option \<times> ('b, 'a, 'v, 'm, 'r, 'p) strategy) res" where
  "TryRollbackDeadlock Q E cfg fuel full s =
     andThen (FindRollbackCandidate E s full) (\<lambda>candidate.
     case candidate of
       None \<Rightarrow> Ret (None, s)
     | Some cand \<Rightarrow> rollback_attempts Q E cfg fuel cand (max 1 (dual_exploration_runs cfg)) s)"

definition HandleDeadlock ::
    "('b, 'a, 'v, 'm, 'r, 'p) strategy_ops \<Rightarrow> ('b, 'a, 'v, 'm, 'r) environment \<Rightarrow> 'a dual_config \<Rightarrow> nat \<Rightarrow> nat list
      \<Rightarrow> dual_seq_event list \<Rightarrow> ('b, 'a, 'v, 'm, 'r, 'p) strategy
      \<Rightarrow> (dual_seq_event NonLinearizableHistory option \<times> ('b, 'a, 'v, 'm, 'r, 'p) strategy) res" where
  "HandleDeadlock Q E cfg fuel full seq s =
     andThen (dual_verdict cfg True full seq s) (\<lambda>bad.
     if bad \<noteq> None \<or> dual_deadlock_policy cfg \<in> {Fail, CheckHistory} then Ret (bad, s)
     else
       andThen (if dual_deadlock_policy cfg = Rollback then TryRollbackDeadlock Q E cfg fuel full s else Ret (None, s)) (\<lambda>(alt, s).
       case alt of
         Some b \<Rightarrow> Ret (Some b, s)
       | None \<Rightarrow> dual_ExploreRound Q E cfg fuel (dual_exploration_runs cfg) s))"

section \<open>Generating a round\<close>

text \<open>Unlike the ordinary scheduler, this one does not expect that the interleavings are exhausted.\<close>

fun dual_run_loop ::
    "('b, 'a, 'v, 'm, 'r, 'p) strategy_ops \<Rightarrow> ('b, 'a, 'v, 'm, 'r) environment \<Rightarrow> 'a dual_config \<Rightarrow> nat \<Rightarrow> nat \<Rightarrow>
      dual_seq_event list \<Rightarrow> nat list \<Rightarrow> ('b, 'a, 'v, 'm, 'r, 'p) strategy
      \<Rightarrow> (bool \<times> dual_seq_event list \<times> nat list \<times> ('b, 'a, 'v, 'm, 'r, 'p) strategy) res" where
  "dual_run_loop Q E cfg 0 started seq full s = OutOfFuel"
| "dual_run_loop Q E cfg (Suc fuel) started seq full s =
     (let s = (if dual_max_tasks cfg \<le> started then SetAllowNewTasks False s else s);
          (unfinished, runnable) = GetUnfinishedAndRunnable s None in
      if dual_max_tasks cfg \<le> started \<and> \<not> unfinished then Ret (False, seq, full, s)
      else if dual_max_tasks cfg \<le> started \<and> \<not> runnable then Ret (True, seq, full, s)
      else
        andThen (op_Next Q s) (\<lambda>(t, s).
        case t of
          NextFailure DEADLOCK \<Rightarrow> Ret (True, seq, full, s)
        | NextFailure NEED_REPLAY \<Rightarrow>
            andThen (op_StartNextRound Q s) (\<lambda>s. dual_run_loop Q E cfg fuel started [] [] s)
        | NextFailure EXHAUSTED_INTERLEAVINGS \<Rightarrow> Exn BadVariantAccess
        | NextTask slot is_new thread \<Rightarrow>
            andThen (task_at slot s) (\<lambda>c.
            andThen (dual_step E False slot thread (AppendDualStartEvent slot is_new thread c seq) s) (\<lambda>(_, seq, s).
            dual_run_loop Q E cfg fuel (if is_new then Suc started else started) seq (full @ [slot]) s))))"

definition dual_RunRound ::
    "('b, 'a, 'v, 'm, 'r, 'p) strategy_ops \<Rightarrow> ('b, 'a, 'v, 'm, 'r) environment \<Rightarrow> 'a dual_config \<Rightarrow> nat
      \<Rightarrow> ('b, 'a, 'v, 'm, 'r, 'p) strategy
      \<Rightarrow> (dual_seq_event NonLinearizableHistory option \<times> ('b, 'a, 'v, 'm, 'r, 'p) strategy) res" where
  "dual_RunRound Q E cfg fuel s =
     andThen (dual_run_loop Q E cfg fuel 0 [] [] (SetAllowNewTasks True s)) (\<lambda>(deadlock, seq, full, s).
     if deadlock then HandleDeadlock Q E cfg fuel full seq s
     else andThen (dual_verdict cfg False full seq s) (\<lambda>bad. Ret (bad, s)))"

section \<open>Replaying an order of steps\<close>

fun dual_replay_loop ::
    "('b, 'a, 'v, 'm, 'r) environment \<Rightarrow> ReplayMode \<Rightarrow> int list \<Rightarrow> int set \<Rightarrow> nat set \<Rightarrow> dual_seq_event list \<Rightarrow> nat list
      \<Rightarrow> ('b, 'a, 'v, 'm, 'r, 'p) strategy \<Rightarrow> (dual_seq_event list \<times> nat list \<times> ('b, 'a, 'v, 'm, 'r, 'p) strategy) res" where
  "dual_replay_loop E mode [] started cutoff seq full s = Ret (seq, full, s)"
| "dual_replay_loop E mode (ident # rest) started cutoff seq full s =
     (case strategy_GetTask ident s of
        None \<Rightarrow> Exn (RuntimeError ''Invalid task id'')
      | Some (slot, thread) \<Rightarrow>
          if thread \<in> cutoff then dual_replay_loop E mode rest started cutoff seq full s
          else
            andThen (task_at slot s) (\<lambda>c.
            let first = ident \<notin> started in
            andThen
              (if first then VerifyTaskStart E c thread (BuildReplayStartContext s started) s
               else if \<not> task_returned c then VerifyExistingTask E c thread s else Ret (True, s)) (\<lambda>(ok, s).
            if \<not> ok then dual_replay_loop E mode rest started (insert thread cutoff) seq full s
            else
              let s = (if first then OnVerifierTaskStart E c thread s else s);
                  started = (if first then insert ident started else started);
                  s = map_task slot clearWakeupCondition s;
                  seq = AppendDualStartEvent slot first thread c seq;
                  full = full @ [slot] in
              if task_returned c then dual_replay_loop E mode rest started cutoff seq full s
              else
                andThen (dual_step E (mode = CompleteOnLast \<and> ident \<notin> set rest) slot thread seq s) (\<lambda>(_, seq, s).
                dual_replay_loop E mode rest started cutoff seq full s))))"

definition dual_ReplayRound ::
    "('b, 'a, 'v, 'm, 'r, 'p) strategy_ops \<Rightarrow> ('b, 'a, 'v, 'm, 'r) environment \<Rightarrow> 'a dual_config \<Rightarrow> ReplayMode \<Rightarrow> int list
      \<Rightarrow> ('b, 'a, 'v, 'm, 'r, 'p) strategy
      \<Rightarrow> (dual_seq_event NonLinearizableHistory option \<times> ('b, 'a, 'v, 'm, 'r, 'p) strategy) res" where
  "dual_ReplayRound Q E cfg mode order s =
     andThen (op_ResetCurrentRound Q s) (\<lambda>s.
     andThen (dual_replay_loop E mode order {} {} [] [] s) (\<lambda>(seq, full, s).
     andThen (dual_check_seq cfg seq s) (\<lambda>ok.
     if \<not> ok then Ret (Some \<lparr>nl_full = full, nl_seq = seq, nl_reason = NON_LINEARIZABLE_HISTORY\<rparr>, s)
     else
       let (unfinished, runnable) = GetUnfinishedAndRunnable s (Some (set order)) in
       if mode = NoForceComplete \<and> unfinished \<and> \<not> runnable \<and> dual_deadlock_policy cfg = Fail then
         andThen (dual_history_of s seq) (\<lambda>h.
         Ret (if dual_reportable h then Some \<lparr>nl_full = full, nl_seq = seq, nl_reason = DEADLOCK_FOUND\<rparr> else None, s))
       else Ret (None, s))))"

text \<open>\<open>Run\<close> of the dual scheduler up to the point where a history has been found.\<close>

fun dual_find_round ::
    "('b, 'a, 'v, 'm, 'r, 'p) strategy_ops \<Rightarrow> ('b, 'a, 'v, 'm, 'r) environment \<Rightarrow> 'a dual_config \<Rightarrow> nat \<Rightarrow> nat
      \<Rightarrow> ('b, 'a, 'v, 'm, 'r, 'p) strategy
      \<Rightarrow> (dual_seq_event NonLinearizableHistory option \<times> ('b, 'a, 'v, 'm, 'r, 'p) strategy) res" where
  "dual_find_round Q E cfg fuel 0 s = Ret (None, s)"
| "dual_find_round Q E cfg fuel (Suc n) s =
     andThen (dual_RunRound Q E cfg fuel s) (\<lambda>(bad, s).
     case bad of
       Some b \<Rightarrow> Ret (Some b, s)
     | None \<Rightarrow> andThen (op_StartNextRound Q s) (\<lambda>s. dual_find_round Q E cfg fuel n s))"

end
