(* ===== verification/Minimization.thy ===== *)
theory Minimization
imports Dual_Scheduler
begin

text \<open>
  The minimization of a reported history (src/runtime/include/minimization.h): operations are removed one by one and
  then in pairs as long as the round still fails, by replaying the same interleaving or by exploring others.
\<close>

section \<open>What the minimizers use of a scheduler\<close>

text \<open>
  The templates are instantiated for ordinary and for dual histories: the identifier of the operation an event starts,
  whether a history has a pending operation, and the scheduler's \<open>ReplayRound\<close> and \<open>ExploreRound\<close>.
\<close>

record ('ev, 'h, 'st) min_ops =
  min_history :: "'st \<Rightarrow> 'ev list \<Rightarrow> 'h list res"
  min_StartTaskId :: "'h \<Rightarrow> int option"
  min_HasPendingVisibleOp :: "'h list \<Rightarrow> bool"
  min_ReplayRound :: "ReplayMode \<Rightarrow> int list \<Rightarrow> 'st \<Rightarrow> ('ev NonLinearizableHistory option \<times> 'st) res"
  min_ExploreRound :: "nat \<Rightarrow> 'st \<Rightarrow> ('ev NonLinearizableHistory option \<times> 'st) res"
  min_ResetCurrentRound :: "'st \<Rightarrow> 'st res"
  min_task_id :: "nat \<Rightarrow> 'st \<Rightarrow> int res"
  min_IsTaskRemoved :: "int \<Rightarrow> 'st \<Rightarrow> bool"
  min_SetTaskRemoved :: "int \<Rightarrow> bool \<Rightarrow> 'st \<Rightarrow> 'st"

fun StartTaskId :: "'a history_event \<Rightarrow> int option" where
  "StartTaskId (Invoke t _) = Some (task_id t)"
| "StartTaskId (Response _ _ _) = None"

definition strategy_task_id :: "nat \<Rightarrow> ('b, 'a, 'v, 'm, 'r, 'p) strategy \<Rightarrow> int res" where
  "strategy_task_id slot s = andThen (task_at slot s) (\<lambda>c. Ret (task_id c))"

definition ordinary_min ::
    "('b, 'a, 'v, 'm, 'r, 'p) strategy_ops \<Rightarrow> ('b, 'a, 'v, 'm, 'r) environment \<Rightarrow> 'a scheduler_config \<Rightarrow> nat
      \<Rightarrow> (seq_event, 'a history_event, ('b, 'a, 'v, 'm, 'r, 'p) strategy) min_ops" where
  "ordinary_min Q E cfg fuel =
     \<lparr>min_history = history_of, min_StartTaskId = StartTaskId, min_HasPendingVisibleOp = HasPendingVisibleOp,
      min_ReplayRound = ReplayRound Q E cfg, min_ExploreRound = ExploreRound Q E cfg fuel,
      min_ResetCurrentRound = op_ResetCurrentRound Q, min_task_id = strategy_task_id, min_IsTaskRemoved = IsTaskRemoved,
      min_SetTaskRemoved = SetTaskRemoved\<rparr>"

definition dual_min ::
    "('b, 'a, 'v, 'm, 'r, 'p) strategy_ops \<Rightarrow> ('b, 'a, 'v, 'm, 'r) environment \<Rightarrow> 'a dual_config \<Rightarrow> nat
      \<Rightarrow> (dual_seq_event, 'a dual_event, ('b, 'a, 'v, 'm, 'r, 'p) strategy) min_ops" where
  "dual_min Q E cfg fuel =
     \<lparr>min_history = dual_history_of, min_StartTaskId = dual_StartTaskId, min_HasPendingVisibleOp = dual_HasPendingVisibleOp,
      min_ReplayRound = dual_ReplayRound Q E cfg, min_ExploreRound = dual_ExploreRound Q E cfg fuel,
      min_ResetCurrentRound = op_ResetCurrentRound Q, min_task_id = strategy_task_id, min_IsTaskRemoved = IsTaskRemoved,
      min_SetTaskRemoved = SetTaskRemoved\<rparr>"

section \<open>The base of the minimizers\<close>

fun GetTasksOrdering :: "('ev, 'h, 'st) min_ops \<Rightarrow> nat list \<Rightarrow> int set \<Rightarrow> 'st \<Rightarrow> int list res" where
  "GetTasksOrdering M [] exclude s = Ret []"
| "GetTasksOrdering M (slot # slots) exclude s =
     andThen (min_task_id M slot s) (\<lambda>ident.
     andThen (GetTasksOrdering M slots exclude s) (\<lambda>ids. Ret (if ident \<in> exclude then ids else ident # ids)))"

definition min_HasAnyStartedOp :: "('ev, 'h, 'st) min_ops \<Rightarrow> 'h list \<Rightarrow> bool" where
  "min_HasAnyStartedOp M h \<longleftrightarrow> list_ex (\<lambda>e. min_StartTaskId M e \<noteq> None) h"

definition IsMeaningfulBadResult :: "('ev, 'h, 'st) min_ops \<Rightarrow> 'ev NonLinearizableHistory \<Rightarrow> 'st \<Rightarrow> bool res" where
  "IsMeaningfulBadResult M bad s =
     andThen (min_history M s (nl_seq bad)) (\<lambda>h.
     Ret (min_HasAnyStartedOp M h \<and> (nl_reason bad = DEADLOCK_FOUND \<longrightarrow> min_HasPendingVisibleOp M h)))"

section \<open>Greedy minimization\<close>

text \<open>\<open>OnTasksRemoved\<close> of the two minimizers.\<close>

definition same_interleaving ::
    "('ev, 'h, 'st) min_ops \<Rightarrow> 'ev NonLinearizableHistory \<Rightarrow> int list \<Rightarrow> 'st \<Rightarrow> ('ev NonLinearizableHistory option \<times> 'st) res" where
  "same_interleaving M nl ids s =
     andThen (GetTasksOrdering M (nl_full nl) (set ids) s) (\<lambda>order.
     min_ReplayRound M (if nl_reason nl = DEADLOCK_FOUND then NoForceComplete else CompleteOnLast) order s)"

definition strategy_exploration ::
    "('ev, 'h, 'st) min_ops \<Rightarrow> nat \<Rightarrow> 'ev NonLinearizableHistory \<Rightarrow> int list \<Rightarrow> 'st \<Rightarrow> ('ev NonLinearizableHistory option \<times> 'st) res" where
  "strategy_exploration M runs nl ids s =
     andThen (min_ExploreRound M runs (fold (\<lambda>i. min_SetTaskRemoved M i True) ids s)) (\<lambda>(new, s).
     Ret (new, if new = None then fold (\<lambda>i. min_SetTaskRemoved M i False) ids s else s))"

text \<open>The operations the history starts, each once, in order.\<close>

definition op_ids :: "('ev, 'h, 'st) min_ops \<Rightarrow> 'h list \<Rightarrow> int list" where
  "op_ids M h = rev (fold (\<lambda>e ids. case min_StartTaskId M e of None \<Rightarrow> ids | Some i \<Rightarrow> if i \<in> set ids then ids else i # ids) h [])"

text \<open>One attempt: the tasks are removed, and the new history replaces the old one when it is meaningful.\<close>

definition try_remove ::
    "('ev, 'h, 'st) min_ops \<Rightarrow> ('ev NonLinearizableHistory \<Rightarrow> int list \<Rightarrow> 'st \<Rightarrow> ('ev NonLinearizableHistory option \<times> 'st) res)
      \<Rightarrow> int list \<Rightarrow> 'ev NonLinearizableHistory \<Rightarrow> 'st \<Rightarrow> (bool \<times> 'ev NonLinearizableHistory \<times> 'st) res" where
  "try_remove M OnTasksRemoved ids nl s =
     andThen (OnTasksRemoved nl ids s) (\<lambda>(new, s).
     case new of
       None \<Rightarrow> Ret (False, nl, s)
     | Some bad \<Rightarrow>
         andThen (IsMeaningfulBadResult M bad s) (\<lambda>ok.
         Ret (if ok then (True, bad, fold (\<lambda>i. min_SetTaskRemoved M i True) ids s) else (False, nl, s))))"

fun remove_single ::
    "('ev, 'h, 'st) min_ops \<Rightarrow> ('ev NonLinearizableHistory \<Rightarrow> int list \<Rightarrow> 'st \<Rightarrow> ('ev NonLinearizableHistory option \<times> 'st) res)
      \<Rightarrow> int list \<Rightarrow> 'ev NonLinearizableHistory \<Rightarrow> 'st \<Rightarrow> ('ev NonLinearizableHistory \<times> 'st) res" where
  "remove_single M R [] nl s = Ret (nl, s)"
| "remove_single M R (i # ids) nl s =
     (if min_IsTaskRemoved M i s then remove_single M R ids nl s
      else andThen (try_remove M R [i] nl s) (\<lambda>(_, nl, s). remove_single M R ids nl s))"

fun remove_with ::
    "('ev, 'h, 'st) min_ops \<Rightarrow> ('ev NonLinearizableHistory \<Rightarrow> int list \<Rightarrow> 'st \<Rightarrow> ('ev NonLinearizableHistory option \<times> 'st) res)
      \<Rightarrow> int \<Rightarrow> int list \<Rightarrow> 'ev NonLinearizableHistory \<Rightarrow> 'st \<Rightarrow> ('ev NonLinearizableHistory \<times> 'st) res" where
  "remove_with M R i [] nl s = Ret (nl, s)"
| "remove_with M R i (j # ids) nl s =
     (if min_IsTaskRemoved M j s then remove_with M R i ids nl s
      else andThen (try_remove M R [i, j] nl s) (\<lambda>(removed, nl, s).
        if removed then Ret (nl, s) else remove_with M R i ids nl s))"

fun remove_pairs ::
    "('ev, 'h, 'st) min_ops \<Rightarrow> ('ev NonLinearizableHistory \<Rightarrow> int list \<Rightarrow> 'st \<Rightarrow> ('ev NonLinearizableHistory option \<times> 'st) res)
      \<Rightarrow> int list \<Rightarrow> 'ev NonLinearizableHistory \<Rightarrow> 'st \<Rightarrow> ('ev NonLinearizableHistory \<times> 'st) res" where
  "remove_pairs M R [] nl s = Ret (nl, s)"
| "remove_pairs M R (i # ids) nl s =
     (if min_IsTaskRemoved M i s then remove_pairs M R ids nl s
      else andThen (remove_with M R i ids nl s) (\<lambda>(nl, s). remove_pairs M R ids nl s))"

definition Minimize ::
    "('ev, 'h, 'st) min_ops \<Rightarrow> ('ev NonLinearizableHistory \<Rightarrow> int list \<Rightarrow> 'st \<Rightarrow> ('ev NonLinearizableHistory option \<times> 'st) res)
      \<Rightarrow> 'ev NonLinearizableHistory \<Rightarrow> 'st \<Rightarrow> ('ev NonLinearizableHistory \<times> 'st) res" where
  "Minimize M R nl s =
     andThen (min_history M s (nl_seq nl)) (\<lambda>h.
     let ids = op_ids M h in
     andThen (remove_single M R ids nl s) (\<lambda>(nl, s).
     andThen (remove_pairs M R ids nl s) (\<lambda>(nl, s).
     if nl_reason nl = DEADLOCK_FOUND then andThen (min_ResetCurrentRound M s) (\<lambda>s. Ret (nl, s))
     else
       andThen (GetTasksOrdering M (nl_full nl) {} s) (\<lambda>order.
       andThen (min_ReplayRound M CompleteOnLast order s) (\<lambda>(_, s). Ret (nl, s))))))"

end
