(* ===== verification/Replay_Reports.thy ===== *)
theory Replay_Reports
imports Strategy_Contracts Minimization
begin

text \<open>
  What is reported of an order of steps that is replayed, and what the minimizers make of a reported history: every
  history they replace it with has been reported by the scheduler for the same operations, and so is one that fails.
\<close>

section \<open>Replaying an order of steps\<close>

lemma get_task_loop_task:
  "get_task_loop ident n ts = Some (slot, thread) \<Longrightarrow> \<exists>c\<in>set (concat ts). task_slot c = slot \<and> task_id c = ident"
proof (induction ts arbitrary: n)
  case (Cons t ts)
  show ?case
  proof (cases "find (\<lambda>c. task_id c = ident) t")
    case None
    then show ?thesis using Cons.IH [of "Suc n"] Cons.prems by auto
  next
    case (Some c)
    then show ?thesis using Cons.prems by (auto dest: find_Some_mem)
  qed
qed simp

lemma explore_inv_map:
  assumes "explore_inv started seq s" "\<And>c. same_task c (f c)" "\<And>c. task_returned c \<Longrightarrow> task_returned (f c)"
  shows "explore_inv started seq (map_task slot f s)"
  using assms hist_inv_map [of seq s slot f] map_task_cells [of s slot f]
  by (simp add: explore_inv_def shape_ok_def sched_ok_def)

lemma same_Terminate: "same_task c (Terminate c)" "task_returned (Terminate c)"
  by (simp_all add: same_task_def Terminate_def DestroyContext_def clearWakeupCondition_def)

text \<open>The rest of a step that the verifier has allowed.\<close>

definition replay_allowed ::
    "('b, 'a, 'v, 'm, 'r) environment \<Rightarrow> ReplayMode \<Rightarrow> int \<Rightarrow> int list \<Rightarrow> nat set \<Rightarrow> nat \<Rightarrow> nat \<Rightarrow> ('a, 'v, 'm) sched_task
      \<Rightarrow> int set \<Rightarrow> seq_event list \<Rightarrow> nat list \<Rightarrow> ('b, 'a, 'v, 'm, 'r, 'p) strategy
      \<Rightarrow> (seq_event list \<times> nat list \<times> ('b, 'a, 'v, 'm, 'r, 'p) strategy) res" where
  "replay_allowed E mode ident rest cutoff slot thread c started seq full s =
     (if task_returned c then replay_loop E mode rest started cutoff seq full s
      else if mode = CompleteOnLast \<and> ident \<notin> set rest then
        andThen (task_at slot (map_task slot Terminate s)) (\<lambda>c.
        andThen (OnVerifierTaskFinish E c thread (map_task slot Terminate s)) (\<lambda>s. replay_loop E mode rest started cutoff seq full s))
      else
        andThen (resume_task E slot thread s) (\<lambda>s.
        andThen (finish_task E slot thread s) (\<lambda>(responses, s).
        replay_loop E mode rest started cutoff (seq @ responses) full s)))"

context round_strategy
begin

lemma replay_allowed_inv:
  assumes f: "fiber_keeps_task E" and inv: "explore_inv started seq s" and slot: "slot \<in> invoked seq"
    and IH: "\<And>started cutoff seq full s. explore_inv started seq s \<Longrightarrow>
      replay_loop E mode rest started cutoff seq full s = Ret (seq', full', s') \<Longrightarrow>
      hist_inv seq' s' \<and> shape_ok s' \<and> (fiber_keeps_call E \<longrightarrow> round_calls s' = round_calls s)"
    and r: "replay_allowed E mode ident rest cutoff slot thread c started seq full s = Ret (seq', full', s')"
  shows "hist_inv seq' s' \<and> shape_ok s' \<and> (fiber_keeps_call E \<longrightarrow> round_calls s' = round_calls s)"
proof -
  consider "task_returned c" | "\<not> task_returned c" "mode = CompleteOnLast \<and> ident \<notin> set rest"
    | "\<not> task_returned c" "\<not> (mode = CompleteOnLast \<and> ident \<notin> set rest)" by blast
  then show ?thesis
  proof cases
    case 1
    then show ?thesis using IH [OF inv] r by (simp add: replay_allowed_def)
  next
    case 2
    then obtain b where "replay_loop E mode rest started cutoff seq full ((map_task slot Terminate s)\<lparr>sched_checker := b\<rparr>) =
        Ret (seq', full', s')"
      using r by (auto simp: replay_allowed_def OnVerifierTaskFinish_def andThen_eq_Ret)
    moreover have "explore_inv started seq (map_task slot Terminate s)"
      by (rule explore_inv_map [OF inv]) (simp_all add: same_Terminate)
    moreover have "round_calls (map_task slot Terminate s) = round_calls s"
      by (rule map_task_calls) (simp add: Terminate_def DestroyContext_def clearWakeupCondition_def)
    ultimately show ?thesis using IH [OF explore_inv_checker] by fastforce
  next
    case 3
    then obtain s1 es s2 where step: "resume_task E slot thread s = Ret s1" "finish_task E slot thread s1 = Ret (es, s2)"
      and rest: "replay_loop E mode rest started cutoff (seq @ es) full s2 = Ret (seq', full', s')"
      using r by (auto simp: replay_allowed_def andThen_eq_Ret)
    note step = explore_step [OF inv f slot step]
    show ?thesis using IH [OF step(1) rest] step(2) by simp
  qed
qed

lemma replay_loop_inv:
  assumes f: "fiber_keeps_task E"
  shows "explore_inv started seq s \<Longrightarrow> replay_loop E mode order started cutoff seq full s = Ret (seq', full', s') \<Longrightarrow>
    hist_inv seq' s' \<and> shape_ok s' \<and> (fiber_keeps_call E \<longrightarrow> round_calls s' = round_calls s)"
proof (induction order arbitrary: started cutoff seq full s)
  case Nil
  then show ?case by (auto simp: explore_inv_def)
next
  case (Cons ident rest)
  obtain slot thread where g: "strategy_GetTask ident s = Some (slot, thread)"
    using Cons.prems(2) by (auto split: option.splits)
  show ?case
  proof (cases "thread \<in> cutoff")
    case True
    then show ?thesis using Cons.IH [OF Cons.prems(1)] Cons.prems(2) g by simp
  next
    case False
    obtain c where c: "task_at slot s = Ret c" using Cons.prems(2) g False by (auto simp: andThen_eq_Ret)
    have ok: "cells_ok s" using Cons.prems(1) by (simp add: explore_inv_def hist_inv_def)
    obtain d where d: "d \<in> set (concat (threads s))" "task_slot d = slot" "task_id d = ident"
      using get_task_loop_task g unfolding strategy_GetTask_def by blast
    have "d \<in> set (all_tasks s)" using d(1) by (auto simp: all_tasks_def)
    then have id: "task_id c = ident" using c d by (simp add: task_at_Ret [OF ok, THEN iffD2])
    have cell: "slot \<in> thread_cells s" using d by (auto simp: thread_cells_def)
    let ?verify = "if ident \<notin> started then VerifyTaskStart E c thread (BuildReplayStartContext s started) s
       else if \<not> task_returned c then VerifyExistingTask E c thread s else Ret (True, s)"
    obtain allowed v where v: "?verify = Ret (allowed, v)"
      using Cons.prems(2) g False c by (auto simp: andThen_eq_Ret Let_def)
    have "\<exists>b. v = s\<lparr>sched_checker := b\<rparr>"
      using v VerifyMethodStart_checker VerifyExistingTask_checker
      by (auto simp: VerifyTaskStart_def split: if_splits intro: exI [of _ "sched_checker s"])
    then obtain b where b: "v = s\<lparr>sched_checker := b\<rparr>" by blast
    show ?thesis
    proof (cases allowed)
      case True
      define w where "w = map_task slot clearWakeupCondition (if ident \<notin> started then OnVerifierTaskStart E c thread v else v)"
      let ?started = "insert ident started"
      let ?seq = "if ident \<notin> started then seq @ [SeqInvoke slot thread] else seq"
      have "\<exists>b'. (if ident \<notin> started then OnVerifierTaskStart E c thread v else v) = s\<lparr>sched_checker := b'\<rparr>"
        using b by (auto simp: OnVerifierTaskStart_def)
      then obtain b' where b': "w = map_task slot clearWakeupCondition (s\<lparr>sched_checker := b'\<rparr>)" by (auto simp: w_def)
      note i = explore_started [OF Cons.prems(1) cell c, unfolded id]
      have inv: "explore_inv ?started ?seq w"
        unfolding b' by (rule explore_inv_map [OF explore_inv_checker [OF i(1)]]) simp_all
      have started: "(if ident \<notin> started then insert ident started else started) = ?started" by auto
      have "replay_allowed E mode ident rest cutoff slot thread c ?started ?seq (full @ [slot]) w = Ret (seq', full', s')"
        using Cons.prems(2) g False c v True unfolding w_def replay_allowed_def by (simp add: Let_def started cong: if_cong)
      then have r: "hist_inv seq' s' \<and> shape_ok s' \<and> (fiber_keeps_call E \<longrightarrow> round_calls s' = round_calls w)"
        by (rule replay_allowed_inv [OF f inv i(2), rotated]) (rule Cons.IH)
      have "round_calls w = round_calls (s\<lparr>sched_checker := b'\<rparr>)"
        unfolding b' by (rule map_task_calls) (simp add: clearWakeupCondition_def)
      then show ?thesis using r by simp
    next
      case not_allowed: False
      have "explore_inv started seq v" unfolding b by (rule explore_inv_checker [OF Cons.prems(1)])
      moreover have "round_calls v = round_calls s" by (simp add: b)
      ultimately show ?thesis using Cons.IH [of started seq v] Cons.prems(2) g False c v not_allowed by (simp add: Let_def)
    qed
  qed
qed

lemma replay_round_spec:
  assumes f: "fiber_keeps_task E" and s: "cells_ok s" "shape_ok s"
    and r: "ReplayRound Q E cfg mode order s = Ret (bad, s')"
  shows "outcome_ok cfg bad s' \<and> (fiber_keeps_call E \<longrightarrow> round_calls s' = round_calls s)"
proof -
  obtain t seq full u v where t: "op_ResetCurrentRound Q s = Ret t" "replay_loop E mode order {} {} [] [] t = Ret (seq, full, u)"
      "check_seq cfg seq u = Ret v"
    using r by (auto simp: ReplayRound_def andThen_eq_Ret)
  note reset = reset_round [OF t(1) s]
  have "explore_inv {} [] t" using reset by (simp add: explore_inv_def hist_inv_def)
  from replay_loop_inv [OF f this t(2)] have inv: "hist_inv seq u" "shape_ok u"
    and calls: "fiber_keeps_call E \<longrightarrow> round_calls u = round_calls s" using reset by simp_all
  have ok: "cells_ok u" using inv(1) by (simp add: hist_inv_def)
  obtain unfinished runnable where g: "GetUnfinishedAndRunnable u (Some (set order)) = (unfinished, runnable)" by fastforce
  define d where "d = (v \<and> mode = NoForceComplete \<and> unfinished \<and> \<not> runnable \<and> deadlock_policy cfg = Fail)"
  have "s' = u" and "verdict cfg d full seq u = Ret bad"
    using r t g by (auto simp: ReplayRound_def verdict_def d_def andThen_eq_Ret split: if_splits)
  then show ?thesis
    using verdict_reportable [OF inv(1)] ok inv(2) calls by (auto simp: outcome_ok_def split: option.splits)
qed

end

section \<open>The rounds of a minimizer\<close>

text \<open>
  The states that a minimizer takes the strategy through from \<open>s\<close>, and the histories the scheduler reports on the way,
  each with the state in which it is reported.
\<close>

inductive rounds_from ::
    "('b, 'a, 'v, 'm, 'r, 'p) strategy_ops \<Rightarrow> ('b, 'a, 'v, 'm, 'r) environment \<Rightarrow> 'a scheduler_config \<Rightarrow> nat
      \<Rightarrow> ('b, 'a, 'v, 'm, 'r, 'p) strategy \<Rightarrow> ('b, 'a, 'v, 'm, 'r, 'p) strategy \<Rightarrow> bool"
  for Q E cfg fuel s where
  here: "rounds_from Q E cfg fuel s s"
| marked: "rounds_from Q E cfg fuel s t \<Longrightarrow> rounds_from Q E cfg fuel s (SetTaskRemoved i v t)"
| replayed: "rounds_from Q E cfg fuel s t \<Longrightarrow> ReplayRound Q E cfg mode order t = Ret (bad, u) \<Longrightarrow> rounds_from Q E cfg fuel s u"
| explored: "rounds_from Q E cfg fuel s t \<Longrightarrow> ExploreRound Q E cfg fuel runs t = Ret (bad, u) \<Longrightarrow> rounds_from Q E cfg fuel s u"
| restarted: "rounds_from Q E cfg fuel s t \<Longrightarrow> op_ResetCurrentRound Q t = Ret u \<Longrightarrow> rounds_from Q E cfg fuel s u"

inductive reported_from ::
    "('b, 'a, 'v, 'm, 'r, 'p) strategy_ops \<Rightarrow> ('b, 'a, 'v, 'm, 'r) environment \<Rightarrow> 'a scheduler_config \<Rightarrow> nat
      \<Rightarrow> ('b, 'a, 'v, 'm, 'r, 'p) strategy \<Rightarrow> seq_event NonLinearizableHistory \<Rightarrow> ('b, 'a, 'v, 'm, 'r, 'p) strategy \<Rightarrow> bool"
  for Q E cfg fuel s where
  by_replay: "rounds_from Q E cfg fuel s t \<Longrightarrow> ReplayRound Q E cfg mode order t = Ret (Some bad, u) \<Longrightarrow>
    reported_from Q E cfg fuel s bad u"
| by_exploration: "rounds_from Q E cfg fuel s t \<Longrightarrow> ExploreRound Q E cfg fuel runs t = Ret (Some bad, u) \<Longrightarrow>
    reported_from Q E cfg fuel s bad u"

lemma reported_from_rounds: "reported_from Q E cfg fuel s bad t \<Longrightarrow> rounds_from Q E cfg fuel s t"
  by (induction rule: reported_from.induct) (blast intro: rounds_from.replayed rounds_from.explored)+

lemma meaningful_started:
  assumes "IsMeaningfulBadResult (ordinary_min Q E cfg fuel) bad t = Ret True" "history_of t (nl_seq bad) = Ret h"
  shows "HasAnyStartedOp h"
proof -
  have "StartTaskId e \<noteq> None \<longleftrightarrow> is_invoke_event e" for e :: "'a history_event" by (cases e) simp_all
  then show ?thesis
    using assms by (simp add: IsMeaningfulBadResult_def ordinary_min_def min_HasAnyStartedOp_def HasAnyStartedOp_def)
qed

lemma same_removed: "same_cells s (SetTaskRemoved i v s)"
  by (simp add: SetTaskRemoved_def same_cells_def)

lemma rounds_fold:
  "rounds_from Q E cfg fuel s t \<Longrightarrow> rounds_from Q E cfg fuel s (fold (\<lambda>i. SetTaskRemoved i v) ids t)"
  by (induction ids arbitrary: t) (auto intro: rounds_from.marked)

context round_strategy
begin

lemma rounds_from_ok:
  assumes f: "fiber_keeps_task E" and s: "cells_ok s" "shape_ok s" and r: "rounds_from Q E cfg fuel s t"
  shows "cells_ok t \<and> shape_ok t \<and> (fiber_keeps_call E \<longrightarrow> round_calls t = round_calls s)"
  using r
proof (induction rule: rounds_from.induct)
  case here
  then show ?case using s by simp
next
  case (marked t i v)
  then show ?case using same_removed [of t i v] by (simp add: same_cells_ok same_cells_shape same_cells_calls)
next
  case (replayed t mode order bad u)
  then show ?case using replay_round_spec [OF f, of t cfg mode order bad u] by (auto simp: outcome_ok_def)
next
  case (explored t runs bad u)
  then show ?case using explore_round_spec [OF f, of t cfg fuel runs bad u] by (auto simp: outcome_ok_def)
next
  case (restarted t u)
  then show ?case using reset_round [of t u] by simp
qed

lemma reported_from_ok:
  assumes f: "fiber_keeps_task E" and s: "cells_ok s" "shape_ok s" and r: "reported_from Q E cfg fuel s bad t"
  shows "reportable cfg bad t \<and> (fiber_keeps_call E \<longrightarrow> round_calls t = round_calls s)"
  using r
proof cases
  case (by_replay u mode order)
  then show ?thesis
    using rounds_from_ok [OF f s, of cfg fuel u] replay_round_spec [OF f, of u cfg mode order "Some bad" t] by (auto simp: outcome_ok_def)
next
  case (by_exploration u runs)
  then show ?thesis
    using rounds_from_ok [OF f s, of cfg fuel u] explore_round_spec [OF f, of u cfg fuel runs "Some bad" t] by (auto simp: outcome_ok_def)
qed

end

section \<open>Minimization\<close>

text \<open>
  A minimizer keeps the history it is given or replaces it with one that the scheduler has reported on the way and
  that is meaningful.
\<close>

definition still_reported ::
    "('b, 'a, 'v, 'm, 'r, 'p) strategy_ops \<Rightarrow> ('b, 'a, 'v, 'm, 'r) environment \<Rightarrow> 'a scheduler_config \<Rightarrow> nat
      \<Rightarrow> ('b, 'a, 'v, 'm, 'r, 'p) strategy \<Rightarrow> seq_event NonLinearizableHistory \<Rightarrow> seq_event NonLinearizableHistory
      \<Rightarrow> ('b, 'a, 'v, 'm, 'r, 'p) strategy \<Rightarrow> bool" where
  "still_reported Q E cfg fuel s\<^sub>0 nl nl' s \<longleftrightarrow>
     rounds_from Q E cfg fuel s\<^sub>0 s \<and>
     (nl' = nl \<or> (\<exists>t. reported_from Q E cfg fuel s\<^sub>0 nl' t \<and> IsMeaningfulBadResult (ordinary_min Q E cfg fuel) nl' t = Ret True))"

definition asks_scheduler ::
    "('b, 'a, 'v, 'm, 'r, 'p) strategy_ops \<Rightarrow> ('b, 'a, 'v, 'm, 'r) environment \<Rightarrow> 'a scheduler_config \<Rightarrow> nat
      \<Rightarrow> (seq_event NonLinearizableHistory \<Rightarrow> int list \<Rightarrow> ('b, 'a, 'v, 'm, 'r, 'p) strategy
        \<Rightarrow> (seq_event NonLinearizableHistory option \<times> ('b, 'a, 'v, 'm, 'r, 'p) strategy) res) \<Rightarrow> bool" where
  "asks_scheduler Q E cfg fuel R \<longleftrightarrow>
     (\<forall>s\<^sub>0 nl ids s new s'. rounds_from Q E cfg fuel s\<^sub>0 s \<longrightarrow> R nl ids s = Ret (new, s') \<longrightarrow>
        rounds_from Q E cfg fuel s\<^sub>0 s' \<and> (\<forall>bad. new = Some bad \<longrightarrow> reported_from Q E cfg fuel s\<^sub>0 bad s'))"

lemma asks_schedulerD:
  assumes "asks_scheduler Q E cfg fuel R" "rounds_from Q E cfg fuel s\<^sub>0 s" "R nl ids s = Ret (new, s')"
  shows "rounds_from Q E cfg fuel s\<^sub>0 s'" "new = Some bad \<Longrightarrow> reported_from Q E cfg fuel s\<^sub>0 bad s'"
  using assms by (auto simp: asks_scheduler_def)

lemma ordinary_min_fields:
  "min_SetTaskRemoved (ordinary_min Q E cfg fuel) = SetTaskRemoved"
  "min_ReplayRound (ordinary_min Q E cfg fuel) = ReplayRound Q E cfg"
  "min_ResetCurrentRound (ordinary_min Q E cfg fuel) = op_ResetCurrentRound Q"
  by (simp_all add: ordinary_min_def)

lemma try_remove_ok:
  assumes R: "asks_scheduler Q E cfg fuel R" and ok: "still_reported Q E cfg fuel s\<^sub>0 nl\<^sub>0 nl s"
    and r: "try_remove (ordinary_min Q E cfg fuel) R ids nl s = Ret (removed, nl', s')"
  shows "still_reported Q E cfg fuel s\<^sub>0 nl\<^sub>0 nl' s'"
proof -
  obtain new t where t: "R nl ids s = Ret (new, t)" using r by (auto simp: try_remove_def andThen_eq_Ret)
  have "rounds_from Q E cfg fuel s\<^sub>0 s" using ok by (simp add: still_reported_def)
  note o = asks_schedulerD [OF R this t]
  show ?thesis
  proof (cases new)
    case None
    then show ?thesis using r t o(1) ok by (auto simp: try_remove_def still_reported_def)
  next
    case (Some bad)
    then obtain good where g: "IsMeaningfulBadResult (ordinary_min Q E cfg fuel) bad t = Ret good"
      and eq: "(removed, nl', s') = (if good then (True, bad, fold (\<lambda>i. SetTaskRemoved i True) ids t) else (False, nl, t))"
      using r t unfolding try_remove_def ordinary_min_fields by (auto simp: andThen_eq_Ret)
    show ?thesis
    proof (cases good)
      case True
      then show ?thesis using eq g o(2) [OF Some] rounds_fold [OF o(1)] by (auto simp: still_reported_def)
    next
      case False
      then show ?thesis using eq o(1) ok by (auto simp: still_reported_def)
    qed
  qed
qed

lemma remove_single_ok:
  assumes R: "asks_scheduler Q E cfg fuel R"
  shows "still_reported Q E cfg fuel s\<^sub>0 nl\<^sub>0 nl s \<Longrightarrow> remove_single (ordinary_min Q E cfg fuel) R ids nl s = Ret (nl', s') \<Longrightarrow> still_reported Q E cfg fuel s\<^sub>0 nl\<^sub>0 nl' s'"
proof (induction ids arbitrary: nl s)
  case (Cons i ids)
  show ?case
  proof (cases "min_IsTaskRemoved (ordinary_min Q E cfg fuel) i s")
    case True
    then show ?thesis using Cons.IH [OF Cons.prems(1)] Cons.prems(2) by simp
  next
    case False
    then obtain x nl1 t where "try_remove (ordinary_min Q E cfg fuel) R [i] nl s = Ret (x, nl1, t)"
      "remove_single (ordinary_min Q E cfg fuel) R ids nl1 t = Ret (nl', s')"
      using Cons.prems(2) by (auto simp: andThen_eq_Ret)
    then show ?thesis using Cons.IH try_remove_ok [OF R Cons.prems(1)] by blast
  qed
qed simp

lemma remove_with_ok:
  assumes R: "asks_scheduler Q E cfg fuel R"
  shows "still_reported Q E cfg fuel s\<^sub>0 nl\<^sub>0 nl s \<Longrightarrow> remove_with (ordinary_min Q E cfg fuel) R i ids nl s = Ret (nl', s') \<Longrightarrow> still_reported Q E cfg fuel s\<^sub>0 nl\<^sub>0 nl' s'"
proof (induction ids arbitrary: nl s)
  case (Cons j ids)
  show ?case
  proof (cases "min_IsTaskRemoved (ordinary_min Q E cfg fuel) j s")
    case True
    then show ?thesis using Cons.IH [OF Cons.prems(1)] Cons.prems(2) by simp
  next
    case False
    then obtain removed nl1 t where t: "try_remove (ordinary_min Q E cfg fuel) R [i, j] nl s = Ret (removed, nl1, t)"
      and rest: "(if removed then Ret (nl1, t) else remove_with (ordinary_min Q E cfg fuel) R i ids nl1 t) = Ret (nl', s')"
      using Cons.prems(2) by (auto simp: andThen_eq_Ret)
    note ok = try_remove_ok [OF R Cons.prems(1) t]
    show ?thesis using Cons.IH [OF ok] rest ok by (auto split: if_splits)
  qed
qed simp

lemma remove_pairs_ok:
  assumes R: "asks_scheduler Q E cfg fuel R"
  shows "still_reported Q E cfg fuel s\<^sub>0 nl\<^sub>0 nl s \<Longrightarrow> remove_pairs (ordinary_min Q E cfg fuel) R ids nl s = Ret (nl', s') \<Longrightarrow> still_reported Q E cfg fuel s\<^sub>0 nl\<^sub>0 nl' s'"
proof (induction ids arbitrary: nl s)
  case (Cons i ids)
  show ?case
  proof (cases "min_IsTaskRemoved (ordinary_min Q E cfg fuel) i s")
    case True
    then show ?thesis using Cons.IH [OF Cons.prems(1)] Cons.prems(2) by simp
  next
    case False
    then obtain nl1 t where "remove_with (ordinary_min Q E cfg fuel) R i ids nl s = Ret (nl1, t)"
      "remove_pairs (ordinary_min Q E cfg fuel) R ids nl1 t = Ret (nl', s')"
      using Cons.prems(2) by (auto simp: andThen_eq_Ret)
    then show ?thesis using Cons.IH remove_with_ok [OF R Cons.prems(1)] by blast
  qed
qed simp

lemma Minimize_reported:
  assumes R: "asks_scheduler Q E cfg fuel R" and r: "Minimize (ordinary_min Q E cfg fuel) R nl s = Ret (nl', s')"
  shows "still_reported Q E cfg fuel s nl nl' s'"
proof -
  let ?M = "ordinary_min Q E cfg fuel"
  have "still_reported Q E cfg fuel s nl nl s" by (simp add: still_reported_def rounds_from.here)
  moreover obtain ids nl1 t u where "remove_single ?M R ids nl s = Ret (nl1, t)" "remove_pairs ?M R ids nl1 t = Ret (nl', u)"
    and last: "op_ResetCurrentRound Q u = Ret s' \<or> (\<exists>order b. ReplayRound Q E cfg CompleteOnLast order u = Ret (b, s'))"
    using r unfolding Minimize_def ordinary_min_fields Let_def
    by (auto simp: andThen_eq_Ret split: if_splits) blast
  ultimately have "still_reported Q E cfg fuel s nl nl' u" using remove_single_ok [OF R] remove_pairs_ok [OF R] by blast
  moreover from this have "rounds_from Q E cfg fuel s s'"
    using last by (auto simp: still_reported_def intro: rounds_from.restarted rounds_from.replayed)
  ultimately show ?thesis by (simp add: still_reported_def)
qed

lemma same_interleaving_asks: "asks_scheduler Q E cfg fuel (same_interleaving (ordinary_min Q E cfg fuel))"
  by (auto simp: asks_scheduler_def same_interleaving_def ordinary_min_def andThen_eq_Ret
      intro: rounds_from.replayed reported_from.by_replay)

lemma strategy_exploration_asks: "asks_scheduler Q E cfg fuel (strategy_exploration (ordinary_min Q E cfg fuel) runs)"
  unfolding asks_scheduler_def
proof (intro allI impI)
  fix s\<^sub>0 nl ids s new s'
  assume s: "rounds_from Q E cfg fuel s\<^sub>0 s" and r: "strategy_exploration (ordinary_min Q E cfg fuel) runs nl ids s = Ret (new, s')"
  then obtain t where t: "ExploreRound Q E cfg fuel runs (fold (\<lambda>i. SetTaskRemoved i True) ids s) = Ret (new, t)"
    and s': "s' = (if new = None then fold (\<lambda>i. SetTaskRemoved i False) ids t else t)"
    by (auto simp: strategy_exploration_def ordinary_min_def andThen_eq_Ret)
  note m = rounds_fold [OF s, of True ids]
  show "rounds_from Q E cfg fuel s\<^sub>0 s' \<and> (\<forall>bad. new = Some bad \<longrightarrow> reported_from Q E cfg fuel s\<^sub>0 bad s')"
    using rounds_fold [OF rounds_from.explored [OF m t], of False ids] rounds_from.explored [OF m t] t
    by (auto simp: s' intro: reported_from.by_exploration [OF m])
qed

end
