(* ===== verification/Scheduler_Verdicts.thy ===== *)
theory Scheduler_Verdicts
imports Replay_Reports Lincheck_Recursive
begin

text \<open>
  The scheduler and the checker together: what the strategy scheduler reports of a tested program is a violation of
  its specification, and minimization does not lose it. The examples run the whole scheduler on a register whose read
  returns a value that was never written.
\<close>

section \<open>A strategy that has just been built\<close>

lemma new_strategy_ok:
  "cells_ok (BaseStrategyWithThreads E n ctors b m r p)" "shape_ok (BaseStrategyWithThreads E n ctors b m r p)"
  "thread_cells (BaseStrategyWithThreads E n ctors b m r p) = {}"
proof -
  let ?s = "BaseStrategyWithThreads E n ctors b m r p"
  have t: "concat (threads ?s) = []" "os_threads ?s = []" "round_schedule ?s = replicate n (- 1)" "threads ?s = replicate n []"
    by (simp_all add: BaseStrategyWithThreads_def)
  show "thread_cells ?s = {}" unfolding thread_cells_def t(1) by simp
  show "cells_ok ?s" unfolding cells_ok_def all_tasks_def concat_append t(1,2) by simp
  show "shape_ok ?s" unfolding shape_ok_threads t(1) by (simp add: t(3,4))
qed

section \<open>A broken register\<close>

definition broken_env :: "(unit, unit, 8 word, unit, unit) environment" where
  "broken_env =
     \<lparr>verifier = \<lparr>base_OnRoundStart = \<lambda>_ b. b, base_OnTaskStarted = \<lambda>_ _ _ b. b, base_VerifyStart = \<lambda>_ _ _ b. (True, b),
        base_Verify = \<lambda>_ _ _ b. Ret (True, b), base_VerifyExisting = \<lambda>_ _ b. Ret (True, b), base_OnFinished = \<lambda>_ _ b. Ret b,
        base_Reset = id\<rparr>,
      verifier_progress = \<lambda>_. [], one_task_per_thread = False, target_factory = id, release_system = id,
      run_fiber = \<lambda>_ c m. (c\<lparr>task_returned := True, task_ret := wrap (AnyInt 1)\<rparr>, m),
      random_permutation = \<lambda>n r. ([0..<n], r), random_discrete = \<lambda>_ r. (0, r), random_uniform = \<lambda>a _ r. (a, r)\<rparr>"

definition broken_machine :: "(unit, 8 word, unit) machine" where
  "broken_machine =
     \<lparr>blocked_queues = Map.empty, graph_enabled = False, execution_graph = ExecutionGraph, thread_info = None,
      current_max_thread_id = 0, failure = \<lparr>test_failed = False, test_failure_message = ''''\<rparr>, memory = ()\<rparr>"

definition read_builder :: "(unit, 8 word, unit) TaskBuilder" where
  "read_builder = \<lparr>builder_name = ''Read'', builder_gen = \<lambda>_ m. ((), m), builder_dual = False\<rparr>"

definition read_checker :: "(unit, unit) checker" where
  "read_checker =
     \<lparr>specification_methods = [''Read'' \<mapsto> \<lambda>st _. Ret (wrap (AnyInt 0), st)], first_state = (), state_traits = None\<rparr>"

definition read_config :: "unit scheduler_config" where
  "read_config =
     \<lparr>cfg_check = RecursiveCheck read_checker, max_tasks = 2, max_rounds = 1, exploration_runs = 1, deadlock_policy = Fail\<rparr>"

abbreviation broken_start :: "(unit, unit, 8 word, unit, unit, int list) strategy" where
  "broken_start \<equiv> BaseStrategyWithThreads broken_env 2 [read_builder] () broken_machine () [1, 1]"

definition broken_task :: "nat \<Rightarrow> unit task" where
  "broken_task i =
     \<lparr>task_slot = i, task_get = i, task_id = int i, task_name = ''Read'', task_args = (), task_returned = True,
      task_ret = wrap (AnyInt 1)\<rparr>"

text \<open>Two reads, on the threads \<open>k\<close> and \<open>n\<close>.\<close>

definition turn_history :: "int \<Rightarrow> int \<Rightarrow> unit history_event list" where
  "turn_history k n =
     [Invoke (broken_task 0) k, Response (broken_task 0) (wrap (AnyInt 1)) k,
      Invoke (broken_task 1) n, Response (broken_task 1) (wrap (AnyInt 1)) n]"

lemma broken_fiber: "fiber_keeps_task broken_env"
  by (simp add: fiber_keeps_task_def same_task_def broken_env_def)

lemma broken_call: "fiber_keeps_call broken_env"
  by (simp add: fiber_keeps_call_def broken_env_def)

lemma broken_run_case:
  "case find_round (RandomStrategy broken_env) broken_env read_config 5 [] 1 broken_start of
     Ret (Some bad, s) \<Rightarrow> nl_reason bad = NON_LINEARIZABLE_HISTORY \<and> history_of s (nl_seq bad) = Ret (turn_history 0 0)
   | _ \<Rightarrow> False"
  by code_simp

lemma case_Ret_Some: "(case r of Ret (Some x, y) \<Rightarrow> P x y | _ \<Rightarrow> False) \<longleftrightarrow> (\<exists>x y. r = Ret (Some x, y) \<and> P x y)"
  by (auto split: res.splits prod.splits option.splits)

lemma case_Ret_pair: "(case r of Ret (x, y) \<Rightarrow> P x y | _ \<Rightarrow> False) \<longleftrightarrow> (\<exists>x y. r = Ret (x, y) \<and> P x y)"
  by (auto split: res.splits prod.splits)

lemma broken_run:
  obtains bad s where "find_round (RandomStrategy broken_env) broken_env read_config 5 [] 1 broken_start = Ret (Some bad, s)"
    "nl_reason bad = NON_LINEARIZABLE_HISTORY" "history_of s (nl_seq bad) = Ret (turn_history 0 0)"
  using broken_run_case unfolding case_Ret_Some by blast

lemma read_total:
  "methods_total (\<lambda>_. True) (response_result task_get (turn_history k n)) (specification_methods read_checker) (turn_history k n)"
proof -
  have v: "response_result task_get (turn_history k n) 0 = Some (wrap (AnyInt 1))"
    "response_result task_get (turn_history k n) 2 = Some (wrap (AnyInt 1))" "vw_eq (wrap (AnyInt 0)) (wrap (AnyInt 1)) = Ret False"
    by (simp_all add: turn_history_def broken_task_def response_result_def response_of_def Let_def, code_simp)
  have "methods_total (\<lambda>_. True) f (specification_methods read_checker) (turn_history k n)"
    if "f 0 = Some (wrap (AnyInt 1))" "f 2 = Some (wrap (AnyInt 1))" for f
    using that v(3)
    by (auto simp: methods_total_def turn_history_def broken_task_def read_checker_def apply_op_def All_less_Suc numeral_eq_Suc)
  then show ?thesis using v(1,2) by blast
qed

section \<open>What the scheduler reports\<close>

text \<open>What the recursive checker makes of a reported history, whatever the strategy.\<close>

lemma reportable_violation:
  assumes bad: "reportable cfg bad s" and check: "cfg_check cfg = RecursiveCheck c" and init: "I (first_state c)"
    and traits: "\<forall>hash eq. state_traits c = Some (hash, eq) \<longrightarrow> equality_respected I (specification_methods c) eq"
    and total: "\<forall>h. history_of s (nl_seq bad) = Ret h \<longrightarrow>
      methods_total I (response_result task_get h) (specification_methods c) h"
  shows "\<exists>h. history_of s (nl_seq bad) = Ret h \<and> well_formed task_get h \<and>
    (nl_reason bad = NON_LINEARIZABLE_HISTORY \<and>
       \<not> linearizable task_get (response_result task_get h) (specification_methods c) (first_state c) h \<or>
     nl_reason bad = DEADLOCK_FOUND \<and> deadlock_policy cfg = Fail \<and> HasPendingVisibleOp h)"
proof -
  from bad obtain h where h: "history_of s (nl_seq bad) = Ret h" "well_formed task_get h"
    and reason: "case nl_reason bad of NON_LINEARIZABLE_HISTORY \<Rightarrow> cfg_check cfg h = Ret False
      | DEADLOCK_FOUND \<Rightarrow> deadlock_policy cfg = Fail \<and> HasPendingVisibleOp h | ASSERT_FAILURE \<Rightarrow> False"
    by (auto simp: reportable_def)
  have u: "usable task_get (response_result task_get) (c, I, h)"
    using h total traits by (simp add: usable_def)
  have "RecursiveCheck c h =
      Ret (linearizable task_get (response_result task_get h) (specification_methods c) (first_state c) h)"
    using recursive.search_decides_linearizable [OF u init] RecursiveCheck_search [OF u] by simp
  then show ?thesis using h reason check by (cases "nl_reason bad") auto
qed

text \<open>
  C4. Whatever the tested program does in a fiber, whatever the verifier and the random numbers are: a history that the
  strategy scheduler reports, of a round of the user or of a generated one, run under the random strategy, is well
  formed and is not linearizable with respect to the specification, or the policy makes a deadlock a failure and the
  history has an operation that has not finished.
\<close>

theorem scheduler_reports_only_violations:
  assumes fiber: "fiber_keeps_task E"
    and check: "cfg_check cfg = RecursiveCheck c" and init: "I (first_state c)"
    and traits: "\<forall>hash eq. state_traits c = Some (hash, eq) \<longrightarrow> equality_respected I (specification_methods c) eq"
    and run: "find_round (RandomStrategy E) E cfg fuel rounds k (BaseStrategyWithThreads E n ctors b m r weights) = Ret (Some bad, s)"
    and total: "\<forall>h. history_of s (nl_seq bad) = Ret h \<longrightarrow>
      methods_total I (response_result task_get h) (specification_methods c) h"
  shows "\<exists>h. history_of s (nl_seq bad) = Ret h \<and> well_formed task_get h \<and>
    (nl_reason bad = NON_LINEARIZABLE_HISTORY \<and>
       \<not> linearizable task_get (response_result task_get h) (specification_methods c) (first_state c) h \<or>
     nl_reason bad = DEADLOCK_FOUND \<and> deadlock_policy cfg = Fail \<and> HasPendingVisibleOp h)"
proof -
  have "outcome_ok cfg (Some bad) s" by (rule random_rounds.find_round_ok [OF fiber new_strategy_ok run])
  then have "reportable cfg bad s" by (simp add: outcome_ok_def)
  then show ?thesis by (rule reportable_violation [OF _ check init traits total])
qed

theorem scheduler_reports_only_violations_witness:
  "\<exists>bad s h. find_round (RandomStrategy broken_env) broken_env read_config 5 [] 1 broken_start = Ret (Some bad, s) \<and>
     history_of s (nl_seq bad) = Ret h \<and> length h = 4 \<and>
     \<not> linearizable task_get (response_result task_get h) (specification_methods read_checker) () h"
proof -
  obtain bad s where r: "find_round (RandomStrategy broken_env) broken_env read_config 5 [] 1 broken_start = Ret (Some bad, s)"
    "nl_reason bad = NON_LINEARIZABLE_HISTORY" "history_of s (nl_seq bad) = Ret (turn_history 0 0)"
    by (rule broken_run)
  have "\<exists>h. history_of s (nl_seq bad) = Ret h \<and> well_formed task_get h \<and>
    (nl_reason bad = NON_LINEARIZABLE_HISTORY \<and>
       \<not> linearizable task_get (response_result task_get h) (specification_methods read_checker) (first_state read_checker) h \<or>
     nl_reason bad = DEADLOCK_FOUND \<and> deadlock_policy read_config = Fail \<and> HasPendingVisibleOp h)"
    by (rule scheduler_reports_only_violations [OF broken_fiber _ _ _ r(1), where I = "\<lambda>_. True" and c = read_checker])
      (use r(3) read_total in \<open>simp_all add: read_config_def read_checker_def\<close>)
  then show ?thesis using r by (auto simp: read_checker_def turn_history_def)
qed

text \<open>
  C6. Whatever the tested program and the verifier do, a history that the strategy scheduler reports under the round
  robin strategy is well formed and is not linearizable, or the policy makes a deadlock a failure and the history has an
  operation that has not finished.
\<close>

theorem round_robin_reports_only_violations:
  assumes fiber: "fiber_keeps_task E"
    and check: "cfg_check cfg = RecursiveCheck c" and init: "I (first_state c)"
    and traits: "\<forall>hash eq. state_traits c = Some (hash, eq) \<longrightarrow> equality_respected I (specification_methods c) eq"
    and run: "find_round (RoundRobinStrategy E) E cfg fuel rounds k (BaseStrategyWithThreads E n ctors b m r counter) = Ret (Some bad, s)"
    and total: "\<forall>h. history_of s (nl_seq bad) = Ret h \<longrightarrow>
      methods_total I (response_result task_get h) (specification_methods c) h"
  shows "\<exists>h. history_of s (nl_seq bad) = Ret h \<and> well_formed task_get h \<and>
    (nl_reason bad = NON_LINEARIZABLE_HISTORY \<and>
       \<not> linearizable task_get (response_result task_get h) (specification_methods c) (first_state c) h \<or>
     nl_reason bad = DEADLOCK_FOUND \<and> deadlock_policy cfg = Fail \<and> HasPendingVisibleOp h)"
proof -
  have "outcome_ok cfg (Some bad) s" by (rule round_robin_rounds.find_round_ok [OF fiber new_strategy_ok run])
  then have "reportable cfg bad s" by (simp add: outcome_ok_def)
  then show ?thesis by (rule reportable_violation [OF _ check init traits total])
qed

theorem round_robin_reports_only_violations_witness:
  "\<exists>bad s h. find_round (RoundRobinStrategy broken_env) broken_env read_config 5 [] 1
       (BaseStrategyWithThreads broken_env 2 [read_builder] () broken_machine () 0) = Ret (Some bad, s) \<and>
     history_of s (nl_seq bad) = Ret h \<and> length h = 4 \<and>
     \<not> linearizable task_get (response_result task_get h) (specification_methods read_checker) () h"
proof -
  have "case find_round (RoundRobinStrategy broken_env) broken_env read_config 5 [] 1
      (BaseStrategyWithThreads broken_env 2 [read_builder] () broken_machine () 0) of
     Ret (Some bad, s) \<Rightarrow> nl_reason bad = NON_LINEARIZABLE_HISTORY \<and> history_of s (nl_seq bad) = Ret (turn_history 0 1)
   | _ \<Rightarrow> False"
    by code_simp
  then obtain bad s where r: "find_round (RoundRobinStrategy broken_env) broken_env read_config 5 [] 1
      (BaseStrategyWithThreads broken_env 2 [read_builder] () broken_machine () 0) = Ret (Some bad, s)"
    "nl_reason bad = NON_LINEARIZABLE_HISTORY" "history_of s (nl_seq bad) = Ret (turn_history 0 1)"
    unfolding case_Ret_Some by blast
  have "\<exists>h. history_of s (nl_seq bad) = Ret h \<and> well_formed task_get h \<and>
    (nl_reason bad = NON_LINEARIZABLE_HISTORY \<and>
       \<not> linearizable task_get (response_result task_get h) (specification_methods read_checker) (first_state read_checker) h \<or>
     nl_reason bad = DEADLOCK_FOUND \<and> deadlock_policy read_config = Fail \<and> HasPendingVisibleOp h)"
    by (rule round_robin_reports_only_violations [OF broken_fiber _ _ _ r(1), where I = "\<lambda>_. True" and c = read_checker])
      (use r(3) read_total in \<open>simp_all add: read_config_def read_checker_def\<close>)
  then show ?thesis using r by (auto simp: read_checker_def turn_history_def)
qed

text \<open>
  C7. Whatever the tested program, the verifier and the random numbers do, a history that the strategy scheduler
  reports under the probabilistic strategy, from the state its constructor leaves, is well formed and is not
  linearizable, or the policy makes a deadlock a failure and the history has an operation that has not finished.
\<close>

theorem pct_reports_only_violations:
  assumes fiber: "fiber_keeps_task E"
    and check: "cfg_check cfg = RecursiveCheck c" and init: "I (first_state c)"
    and traits: "\<forall>hash eq. state_traits c = Some (hash, eq) \<longrightarrow> equality_respected I (specification_methods c) eq"
    and new: "new_PctStrategy E n ctors b m r r' = Ret s\<^sub>0"
    and run: "find_round (PctStrategy E) E cfg fuel rounds k s\<^sub>0 = Ret (Some bad, s)"
    and total: "\<forall>h. history_of s (nl_seq bad) = Ret h \<longrightarrow>
      methods_total I (response_result task_get h) (specification_methods c) h"
  shows "\<exists>h. history_of s (nl_seq bad) = Ret h \<and> well_formed task_get h \<and>
    (nl_reason bad = NON_LINEARIZABLE_HISTORY \<and>
       \<not> linearizable task_get (response_result task_get h) (specification_methods c) (first_state c) h \<or>
     nl_reason bad = DEADLOCK_FOUND \<and> deadlock_policy cfg = Fail \<and> HasPendingVisibleOp h)"
proof -
  have q: "same_cells (BaseStrategyWithThreads E n ctors b m r (new_pct r')) s\<^sub>0"
    by (rule quiet_same [OF PrepareForDepth_quiet]) (use new in \<open>simp add: new_PctStrategy_def\<close>)
  have "outcome_ok cfg (Some bad) s"
    by (rule pct_rounds.find_round_ok [OF fiber _ _ _ run])
      (simp_all only: same_cells_ok [OF q] same_cells_shape [OF q] same_cells_thread [OF q] new_strategy_ok)
  then have "reportable cfg bad s" by (simp add: outcome_ok_def)
  then show ?thesis by (rule reportable_violation [OF _ check init traits total])
qed

theorem pct_reports_only_violations_witness:
  "\<exists>s\<^sub>0 bad s h. new_PctStrategy broken_env 2 [read_builder] () broken_machine () () = Ret s\<^sub>0 \<and>
     find_round (PctStrategy broken_env) broken_env read_config 5 [] 1 s\<^sub>0 = Ret (Some bad, s) \<and>
     history_of s (nl_seq bad) = Ret h \<and> length h = 4 \<and>
     \<not> linearizable task_get (response_result task_get h) (specification_methods read_checker) () h"
proof -
  have "case new_PctStrategy broken_env 2 [read_builder] () broken_machine () () of
     Ret s\<^sub>0 \<Rightarrow> (case find_round (PctStrategy broken_env) broken_env read_config 5 [] 1 s\<^sub>0 of
         Ret (Some bad, s) \<Rightarrow> nl_reason bad = NON_LINEARIZABLE_HISTORY \<and> history_of s (nl_seq bad) = Ret (turn_history 1 1)
       | _ \<Rightarrow> False)
   | _ \<Rightarrow> False"
    by code_simp
  then obtain s\<^sub>0 bad s where r: "new_PctStrategy broken_env 2 [read_builder] () broken_machine () () = Ret s\<^sub>0"
    "find_round (PctStrategy broken_env) broken_env read_config 5 [] 1 s\<^sub>0 = Ret (Some bad, s)"
    "nl_reason bad = NON_LINEARIZABLE_HISTORY" "history_of s (nl_seq bad) = Ret (turn_history 1 1)"
    by (cases "new_PctStrategy broken_env 2 [read_builder] () broken_machine () ()") (auto simp: case_Ret_Some)
  have "\<exists>h. history_of s (nl_seq bad) = Ret h \<and> well_formed task_get h \<and>
    (nl_reason bad = NON_LINEARIZABLE_HISTORY \<and>
       \<not> linearizable task_get (response_result task_get h) (specification_methods read_checker) (first_state read_checker) h \<or>
     nl_reason bad = DEADLOCK_FOUND \<and> deadlock_policy read_config = Fail \<and> HasPendingVisibleOp h)"
    by (rule pct_reports_only_violations [OF broken_fiber _ _ _ r(1,2), where I = "\<lambda>_. True" and c = read_checker])
      (use r(4) read_total in \<open>simp_all add: read_config_def read_checker_def\<close>)
  then show ?thesis using r by (auto simp: read_checker_def turn_history_def)
qed

section \<open>What is left after minimization\<close>

lemma history_of_calls:
  assumes "history_of s seq = Ret h" "cells_ok s" "e \<in> set h"
  shows "(task_id (GetTask e), task_name (GetTask e), task_args (GetTask e)) \<in> set (concat (round_calls s))"
proof -
  obtain x where x: "event_of s x = Ret e" using history_of_nth [OF assms(1)] assms(3) by (metis in_set_conv_nth)
  obtain c where c: "task_at (event_slot x) s = Ret c" "GetTask e = task.truncate c"
    using x by (cases x) (auto simp: andThen_eq_Ret)
  then have "c \<in> set (all_tasks s)" using assms(2) by (simp add: task_at_Ret)
  then show ?thesis using c(2) by (auto simp: round_calls_def all_tasks_def task.truncate_def)
qed

text \<open>
  C5. Minimizing a history that the scheduler has reported in the state \<open>s\<close>, by replaying the same interleaving or by
  exploring others with the random strategy, ends with this history or with one that the scheduler itself has reported
  on the way, in a replay or an exploration it came to from \<open>s\<close> by replays, explorations and by marking tasks as
  removed (\<open>reported_from\<close>). In the state \<open>t\<close> where it was reported the threads have the operations they have in \<open>s\<close>,
  so that its events are calls of the round that failed, with their names and arguments; the history is well formed,
  and the checker rejects it, or a deadlock is a failure and it has an operation that has not finished; and a history
  that replaced the first one starts an operation. The strategy is left in a state with these operations as well.
\<close>

theorem minimization_keeps_failure:
  fixes s s' :: "('b, 'a, 'v, 'm, 'r, int list) strategy"
  assumes fiber: "fiber_keeps_task E" "fiber_keeps_call E"
    and run: "find_round (RandomStrategy E) E cfg fuel rounds k (BaseStrategyWithThreads E n ctors b m r weights) = Ret (Some bad, s)"
    and R: "R = same_interleaving (ordinary_min (RandomStrategy E) E cfg fuel) \<or>
      R = strategy_exploration (ordinary_min (RandomStrategy E) E cfg fuel) runs"
    and minimized: "Minimize (ordinary_min (RandomStrategy E) E cfg fuel) R bad s = Ret (bad', s')"
  shows "\<exists>t h. (bad' = bad \<and> t = s \<or> reported_from (RandomStrategy E) E cfg fuel s bad' t \<and> HasAnyStartedOp h) \<and>
    history_of t (nl_seq bad') = Ret h \<and> well_formed task_slot h \<and> well_formed task_get h \<and>
    round_calls t = round_calls s \<and>
    (\<forall>e\<in>set h. (task_id (GetTask e), task_name (GetTask e), task_args (GetTask e)) \<in> set (concat (round_calls s))) \<and>
    (nl_reason bad' = NON_LINEARIZABLE_HISTORY \<and> cfg_check cfg h = Ret False \<or>
     nl_reason bad' = DEADLOCK_FOUND \<and> deadlock_policy cfg = Fail \<and> HasPendingVisibleOp h) \<and>
    rounds_from (RandomStrategy E) E cfg fuel s s' \<and> round_calls s' = round_calls s"
proof -
  let ?Q = "RandomStrategy E"
  have ok: "outcome_ok cfg (Some bad) s" by (rule random_rounds.find_round_ok [OF fiber(1) new_strategy_ok run])
  then have s: "cells_ok s" "shape_ok s" "reportable cfg bad s" by (simp_all add: outcome_ok_def)
  have "asks_scheduler ?Q E cfg fuel R" using R same_interleaving_asks strategy_exploration_asks by blast
  from Minimize_reported [OF this minimized] have last: "rounds_from ?Q E cfg fuel s s'"
    and bad': "bad' = bad \<or> (\<exists>t. reported_from ?Q E cfg fuel s bad' t \<and> IsMeaningfulBadResult (ordinary_min ?Q E cfg fuel) bad' t = Ret True)"
    by (simp_all add: still_reported_def)
  have s': "round_calls s' = round_calls s" using random_rounds.rounds_from_ok [OF fiber(1) s(1,2) last] fiber(2) by simp
  obtain t where t: "bad' = bad \<and> t = s \<or> reported_from ?Q E cfg fuel s bad' t \<and> IsMeaningfulBadResult (ordinary_min ?Q E cfg fuel) bad' t = Ret True"
    using bad' by blast
  have rep: "reportable cfg bad' t \<and> round_calls t = round_calls s \<and> cells_ok t"
    using t s random_rounds.reported_from_ok [OF fiber(1) s(1,2)] random_rounds.rounds_from_ok [OF fiber(1) s(1,2)] fiber(2)
      reported_from_rounds by blast
  then obtain h where h: "history_of t (nl_seq bad') = Ret h" "well_formed task_slot h" "well_formed task_get h"
    "nl_reason bad' = NON_LINEARIZABLE_HISTORY \<and> cfg_check cfg h = Ret False \<or>
     nl_reason bad' = DEADLOCK_FOUND \<and> deadlock_policy cfg = Fail \<and> HasPendingVisibleOp h"
    unfolding reportable_def by (cases "nl_reason bad'") auto
  have "HasAnyStartedOp h" if "IsMeaningfulBadResult (ordinary_min ?Q E cfg fuel) bad' t = Ret True"
    by (rule meaningful_started [OF that h(1)])
  moreover have "\<forall>e\<in>set h. (task_id (GetTask e), task_name (GetTask e), task_args (GetTask e)) \<in> set (concat (round_calls s))"
    using history_of_calls [OF h(1)] rep by auto
  ultimately show ?thesis using t rep h last s' by blast
qed

theorem minimization_keeps_failure_witness:
  "\<exists>bad s bad' s' t h. find_round (RandomStrategy broken_env) broken_env read_config 5 [] 1 broken_start = Ret (Some bad, s) \<and>
     Minimize (ordinary_min (RandomStrategy broken_env) broken_env read_config 5)
       (strategy_exploration (ordinary_min (RandomStrategy broken_env) broken_env read_config 5) 1) bad s = Ret (bad', s') \<and>
     length (nl_seq bad) = 4 \<and> length (nl_seq bad') = 2 \<and>
     reported_from (RandomStrategy broken_env) broken_env read_config 5 s bad' t \<and>
     history_of t (nl_seq bad') = Ret h \<and> well_formed task_get h \<and> round_calls t = round_calls s \<and> round_calls s' = round_calls s"
proof -
  have "case find_round (RandomStrategy broken_env) broken_env read_config 5 [] 1 broken_start of
     Ret (Some bad, s) \<Rightarrow>
       (case Minimize (ordinary_min (RandomStrategy broken_env) broken_env read_config 5)
           (strategy_exploration (ordinary_min (RandomStrategy broken_env) broken_env read_config 5) 1) bad s of
          Ret (bad', s') \<Rightarrow> length (nl_seq bad) = 4 \<and> length (nl_seq bad') = 2 | _ \<Rightarrow> False)
     | _ \<Rightarrow> False"
    by code_simp
  then obtain bad s bad' s' where r: "find_round (RandomStrategy broken_env) broken_env read_config 5 [] 1 broken_start = Ret (Some bad, s)"
    and m: "Minimize (ordinary_min (RandomStrategy broken_env) broken_env read_config 5)
       (strategy_exploration (ordinary_min (RandomStrategy broken_env) broken_env read_config 5) 1) bad s = Ret (bad', s')"
    and l: "length (nl_seq bad) = 4" "length (nl_seq bad') = 2"
    unfolding case_Ret_Some case_Ret_pair by blast
  have "bad' \<noteq> bad" using l by auto
  then show ?thesis
    using minimization_keeps_failure [OF broken_fiber broken_call r disjI2 [OF refl] m] r m l by blast
qed

section \<open>How the next task and the next thread are found\<close>

text \<open>
  C38. The search for the next task of a thread ends, from any entry of the schedule that points into the thread: it
  returns the first position, from there on, of a task that has neither returned nor been removed, or the length of the
  thread when there is none.
\<close>

theorem next_task_in_thread:
  assumes "- 1 \<le> round_schedule s ! i" "round_schedule s ! i \<le> int (length (threads s ! i))"
  shows "let k = GetNextTaskInThread i s; t = threads s ! i; over = (\<lambda>c. task_returned c \<or> IsTaskRemoved (task_id c) s) in
    max 0 (round_schedule s ! i) \<le> k \<and> k \<le> int (length t) \<and>
    (\<forall>j. max 0 (round_schedule s ! i) \<le> j \<and> j < k \<longrightarrow> over (t ! nat j)) \<and> (k < int (length t) \<longrightarrow> \<not> over (t ! nat k))"
  using next_index_spec [OF assms, of "task_over s"] by (simp add: GetNextTaskInThread_def task_over_def)

theorem next_task_in_thread_witness:
  "GetNextTaskInThread 0 (broken_start\<lparr>threads :=
     [[Terminate (New 0 0 () ''Read'' 0), New 1 1 () ''Read'' 1]]\<rparr>) = 1"
  (is "GetNextTaskInThread 0 ?s = 1")
proof -
  have s: "round_schedule ?s ! 0 = - 1" "length (threads ?s ! 0) = 2" by code_simp+
  have t: "task_returned (threads ?s ! 0 ! 0)" "\<not> task_returned (threads ?s ! 0 ! 1)" "\<not> IsTaskRemoved 1 ?s" "task_id (threads ?s ! 0 ! 1) = 1"
    by code_simp+
  define k where "k = GetNextTaskInThread 0 ?s"
  have "- 1 \<le> round_schedule ?s ! 0" "round_schedule ?s ! 0 \<le> int (length (threads ?s ! 0))" unfolding s by simp_all
  from next_task_in_thread [OF this, folded k_def] have k: "0 \<le> k" "k \<le> 2"
    "\<forall>j. 0 \<le> j \<and> j < k \<longrightarrow> task_returned (threads ?s ! 0 ! nat j) \<or> IsTaskRemoved (task_id (threads ?s ! 0 ! nat j)) ?s"
    "k < 2 \<longrightarrow> \<not> task_returned (threads ?s ! 0 ! nat k)"
    unfolding Let_def s by (simp_all only: of_nat_numeral) (auto)
  have "k \<noteq> 0" using k(4) t(1) by auto
  moreover have "k \<noteq> 2" using k(3) [rule_format, of 1] t(2-4) by auto
  ultimately have "k = 1" using k(1,2) by simp
  then show ?thesis by (simp only: k_def)
qed

lemma eligible_in_turn_checker: "eligible_in_turn E i s = Ret (ok, s') \<Longrightarrow> \<exists>b. s' = s\<lparr>sched_checker := b\<rparr>"
  unfolding eligible_in_turn_def Let_def
  by (auto simp: andThen_eq_Ret split: if_splits dest: VerifyExistingTask_checker intro: exI [of _ "sched_checker s"])

lemma in_turn_find:
  assumes "threads s \<noteq> []"
    and "\<forall>i<length (threads s). \<forall>b p. \<exists>u. eligible_in_turn E i (s\<lparr>sched_checker := b, policy := p\<rparr>) = Ret (ok i, u)"
  shows "\<exists>s'. in_turn (eligible_in_turn E) n (s\<lparr>sched_checker := b, policy := p\<rparr>) =
    Ret (find ok (map (\<lambda>k. unat (p + of_nat k) mod length (threads s)) [0..<n]), s')"
proof (induction n arbitrary: b p)
  case (Suc n)
  let ?i = "unat p mod length (threads s)"
  have "?i < length (threads s)" using assms(1) by simp
  then obtain u where u: "eligible_in_turn E ?i (s\<lparr>sched_checker := b, policy := p + 1\<rparr>) = Ret (ok ?i, u)"
    using assms(2) by blast
  then obtain b' where "u = (s\<lparr>sched_checker := b, policy := p + 1\<rparr>)\<lparr>sched_checker := b'\<rparr>"
    using eligible_in_turn_checker by blast
  then have b': "u = s\<lparr>sched_checker := b', policy := p + 1\<rparr>" by simp
  obtain s' where "in_turn (eligible_in_turn E) n (s\<lparr>sched_checker := b', policy := p + 1\<rparr>) =
      Ret (find ok (map (\<lambda>k. unat (p + 1 + of_nat k) mod length (threads s)) [0..<n]), s')"
    using Suc.IH by blast
  moreover have "map (\<lambda>k. unat (p + of_nat k) mod length (threads s)) [0..<Suc n] =
      ?i # map (\<lambda>k. unat (p + 1 + of_nat k) mod length (threads s)) [0..<n]"
    by (simp add: upt_conv_Cons map_Suc_upt [symmetric] comp_def add.assoc del: upt_Suc)
  ultimately show ?case using u by (simp add: Let_def b' del: upt_Suc)
qed simp

lemma find_None_set: "find P xs = None \<longleftrightarrow> (\<forall>x\<in>set xs. \<not> P x)"
  by (auto simp: find_None_iff)

text \<open>
  C39. The round robin strategy, while its 64-bit counter does not wrap and the verifier's answers do not change during
  the choice, picks the first eligible thread in cyclic order from the counter, and none exactly when no thread is
  eligible.
\<close>

theorem round_robin_picks_next:
  assumes "threads s \<noteq> []" "unat (policy s) + length (threads s) \<le> 2 ^ 64"
    and "\<forall>i<length (threads s). \<forall>b p. \<exists>u. eligible_in_turn E i (s\<lparr>sched_checker := b, policy := p\<rparr>) = Ret (ok i, u)"
  shows "\<exists>picked s'. rr_Pick E s = Ret (picked, s') \<and>
    picked = find ok (rotate (unat (policy s)) [0..<length (threads s)]) \<and>
    (picked = None \<longleftrightarrow> (\<forall>i<length (threads s). \<not> ok i))"
proof -
  let ?n = "length (threads s)"
  have "unat (policy s + of_nat k) = unat (policy s) + k" if "k < ?n" for k
  proof -
    have "unat (policy s) + k < 2 ^ 64" using that assms(2) by simp
    then show ?thesis by (simp add: unat_word_ariths unat_of_nat)
  qed
  then have "map (\<lambda>k. unat (policy s + of_nat k) mod ?n) [0..<?n] = rotate (unat (policy s)) [0..<?n]"
    using assms(1) by (intro nth_equalityI) (simp_all add: nth_rotate)
  then obtain s' where "rr_Pick E s = Ret (find ok (rotate (unat (policy s)) [0..<?n]), s')"
    using in_turn_find [OF assms(1,3), of ?n "policy s" "sched_checker s"] by (auto simp: rr_Pick_def)
  then show ?thesis by (auto simp: find_None_set)
qed

theorem round_robin_picks_next_witness:
  "\<exists>s'. rr_Pick broken_env (BaseStrategyWithThreads broken_env 3 [read_builder] () broken_machine () (5 :: 64 word)) = Ret (Some 2, s')"
  (is "\<exists>s'. rr_Pick broken_env ?s = Ret (Some 2, s')")
proof -
  have t: "threads ?s = [[], [], []]" "policy ?s = 5"
    by (simp_all add: BaseStrategyWithThreads_def start_checker_def ResetTargetState_def ResetWmmGraph_def broken_machine_def numeral_eq_Suc)
  have "\<exists>u. eligible_in_turn broken_env i (?s\<lparr>sched_checker := b, policy := p\<rparr>) = Ret (True, u)" if "i < 3" for i b p
    using that by (auto simp: eligible_in_turn_def BaseStrategyWithThreads_def thread_free_def CanThreadContinue_def
        NewTaskAreEnabled_def broken_env_def start_checker_def ResetTargetState_def ResetWmmGraph_def broken_machine_def)
  then have "\<forall>i<length (threads ?s). \<forall>b p. \<exists>u. eligible_in_turn broken_env i (?s\<lparr>sched_checker := b, policy := p\<rparr>) = Ret ((\<lambda>_. True) i, u)"
    by (simp add: t)
  from round_robin_picks_next [OF _ _ this] obtain s' where
    "rr_Pick broken_env ?s = Ret (find (\<lambda>_. True) (rotate (unat (policy ?s)) [0..<length (threads ?s)]), s')"
    by (auto simp: t)
  moreover have "find (\<lambda>_. True) (rotate (unat (policy ?s)) [0..<length (threads ?s)]) = Some 2"
    unfolding t by code_simp
  ultimately have "rr_Pick broken_env ?s = Ret (Some 2, s')" by (simp only:)
  then show ?thesis by blast
qed

section \<open>Cleaning up after a rollback\<close>

lemma restart_tasks_last:
  "restart_tasks removed addr cs = Ret (cs', addr') \<Longrightarrow> cs \<noteq> [] \<Longrightarrow> task_id (last cs) \<notin> removed \<Longrightarrow>
    cs' \<noteq> [] \<and> \<not> task_returned (last cs') \<and> task_id (last cs') = task_id (last cs)"
proof (induction cs arbitrary: addr cs')
  case (Cons c cs)
  show ?case
  proof (cases "cs = []")
    case True
    then show ?thesis using Cons.prems
      by (auto simp: andThen_eq_Ret Restart_def New_def SetDual_def cpp_assert_def split: if_splits)
  next
    case False
    then obtain d ds a where d: "restart_tasks removed a cs = Ret (ds, addr')" "cs' = d # ds"
      using Cons.prems(1) by (auto simp: andThen_eq_Ret split: if_splits)
    then show ?thesis using Cons.IH [OF d(1) False] Cons.prems(3) False by simp
  qed
qed simp

lemma restart_threads_nth:
  "restart_threads removed addr ts = Ret (ts', addr') \<Longrightarrow> i < length ts \<Longrightarrow>
    i < length ts' \<and> (\<exists>a a'. restart_tasks removed a (ts ! i) = Ret (ts' ! i, a'))"
proof (induction ts arbitrary: addr ts' i)
  case (Cons t ts)
  then obtain u a us where u: "restart_tasks removed addr t = Ret (u, a)" "restart_threads removed a ts = Ret (us, addr')" "ts' = u # us"
    by (auto simp: andThen_eq_Ret)
  show ?case
  proof (cases i)
    case 0
    then show ?thesis using u by auto
  next
    case (Suc j)
    then show ?thesis using Cons.IH [OF u(2), of j] Cons.prems(2) u(3) by simp
  qed
qed simp

text \<open>
  C40. When the rollback of a deadlock gives up an attempt, the state is reset, which restarts every task that is not
  removed, and then the task that was appended is taken out again: its coroutine has not returned, so the assertion of
  its destructor fails.
\<close>

theorem rollback_cleanup_aborts:
  assumes thread: "thread < length (threads s)" "threads s ! thread \<noteq> []"
    and appended: "task_id (last (threads s ! thread)) = ident" "ident \<notin> removed_tasks s"
    and reset: "ResetExplorationState E s = Ret t"
  shows "RemoveLastTaskForReplay thread ident t = Exn AssertionFailure"
proof -
  define u where "u = ResetOSState E (TerminateRunningTasks s)"
  define v where "v = SetAllowNewTasks True (u\<lparr>round_schedule := map (\<lambda>_. - 1) (round_schedule u)\<rparr>)"
  define w where "w = ResetTargetState E (ResetWmmGraph (length (threads (reset_checker E v))) (reset_checker E v))"
  have r: "restart_round (start_checker E (threads_count w) w) = Ret t"
    using reset unfolding ResetExplorationState_def Let_def u_def v_def w_def by simp
  have tw: "threads w = map (map terminate_task) (threads s)" "removed_tasks w = removed_tasks s"
    by (simp_all add: w_def v_def u_def) (simp add: TerminateRunningTasks_def)
  obtain ts a where ts: "restart_threads (removed_tasks s) (next_address w) (map (map terminate_task) (threads s)) = Ret (ts, a)"
    "threads t = ts"
    using r by (auto simp: restart_round_def andThen_eq_Ret tw)
  obtain b b' where n: "thread < length ts"
    "restart_tasks (removed_tasks s) b (map terminate_task (threads s ! thread)) = Ret (ts ! thread, b')"
    using restart_threads_nth [OF ts(1), of thread] thread(1) by auto
  have "task_id (last (map terminate_task (threads s ! thread))) = ident"
    using terminate_same [of "last (threads s ! thread)"] thread(2) appended(1) by (simp add: last_map same_task_def)
  then have "ts ! thread \<noteq> [] \<and> \<not> task_returned (last (ts ! thread)) \<and> task_id (last (ts ! thread)) = ident"
    using restart_tasks_last [OF n(2)] thread(2) appended(2) by simp
  then show ?thesis using n(1) ts(2) by (simp add: RemoveLastTaskForReplay_def destroy_coro_def cpp_assert_def)
qed

theorem rollback_cleanup_aborts_witness:
  "\<exists>s t. AppendTaskForReplay ''Read'' 1 broken_start = (Some 0, s) \<and> ResetExplorationState broken_env s = Ret t \<and>
     RemoveLastTaskForReplay 1 0 t = Exn AssertionFailure"
proof -
  define s where "s = snd (AppendTaskForReplay ''Read'' 1 broken_start)"
  have a: "fst (AppendTaskForReplay ''Read'' 1 broken_start) = Some 0" by code_simp
  have "case ResetExplorationState broken_env s of Ret _ \<Rightarrow> True | _ \<Rightarrow> False" unfolding s_def by code_simp
  then obtain t where t: "ResetExplorationState broken_env s = Ret t" by (auto split: res.splits)
  have c: "length (threads s) = 2" "length (threads s ! 1) = 1" "task_id (last (threads s ! 1)) = 0" "0 \<notin> removed_tasks s"
    unfolding s_def by code_simp+
  have "RemoveLastTaskForReplay 1 0 t = Exn AssertionFailure"
    by (rule rollback_cleanup_aborts [OF _ _ c(3,4) t]) (use c(1,2) in auto)
  moreover have "AppendTaskForReplay ''Read'' 1 broken_start = (Some 0, s)" using a by (simp add: s_def prod_eq_iff)
  ultimately show ?thesis using t by blast
qed

section \<open>Other observations\<close>

text \<open>A generated round keeps no full history: the report of the broken register has four events and no step.\<close>

lemma reported_full_history_empty:
  "case find_round (RandomStrategy broken_env) broken_env read_config 5 [] 1 broken_start of
     Ret (Some bad, s) \<Rightarrow> length (nl_seq bad) = 4 \<and> nl_full bad = []
   | _ \<Rightarrow> False"
  by code_simp

text \<open>The first round of the user under the probabilistic strategy: its length statistics are zero.\<close>

lemma pct_first_custom_round_undefined:
  assumes "SetCustomRound E rounds s = Ret t" "k_statistics (policy t) = []" "current_schedule_length (policy t) = 0"
  shows "op_SetCustomRound (PctStrategy E) rounds s = Exn Undefined"
  using assms by (simp add: PctStrategy_def UpdateStatistics_def PrepareForDepth_def Let_def split: prod.splits)

end
