(* ===== verification/Spec2Isabelle.thy ===== *)
theory Spec2Isabelle
  imports Sequential_Specs Lincheck_Dual Libcoro_Specs Dual_Stack_Split Task_Verifiers Stable_Vector Latomic Lock_Safety Scheduler_Verdicts
begin

text \<open>
  LTest, a framework that runs concurrent data structures under a controlled scheduler and checks
  the recorded histories against executable specifications. This development models its runtime: the
  linearizability checkers, the specifications they run, the strategies and verifiers that choose what
  runs next, the schedulers, the minimization of what they report, the weak memory model, and the locks
  that a tested program is given. The theories follow the source files under src/.

  \<^bold>\<open>Parts and how they interact.\<close> A scheduler (runtime/include/scheduler.h) asks a strategy for the next task
  and resumes its coroutine until it yields. The strategy picks a thread; a verifier (strategy_verifier.h)
  tells it which method may start, from the workload policy of the specification (workload_policy.h) and a
  base verifier of the target. The tested program may block on the locks of blocking_primitives.h and
  access atomics through the execution graph of wmm. The round yields a history of invocations and
  responses (lincheck.h), or of requests and follow-ups for operations that suspend (lincheck_dual.h). A
  checker looks for an order of the operations that respects real time and that the specification
  (verifying/specs) explains. A history that fails is minimized (minimization.h) and reported.

  \<^bold>\<open>Theories.\<close>
  \<^item> \<open>LTest_Prelude\<close>: the outcome of a call (a value, an error, an exhausted bound) and shared lemmas;
    \<open>Event_Matching\<close>: pairing of invocations and responses by key, shared by all histories.
  \<^item> \<open>Value_Wrapper\<close> (value_wrapper.h): wrapped values; \<open>vw_eq\<close> is \<open>operator==\<close> and may raise.
  \<^item> \<open>Linearization_Search\<close> (linearization_search.h): the backtracking search \<open>search_step\<close> with its
    failure cache over an abstract adapter. The locale \<open>search_adapter\<close> states what it needs of one and
    proves that the search returns and decides whether a linearization exists.
  \<^item> \<open>History\<close> (lincheck.h, lin_check.cpp): events, \<open>get_inv_res_mapping\<close>, what a linearizable history
    is, and the locale \<open>history_checker\<close>, a sublocale of the former for checkers over histories.
  \<^item> \<open>Lincheck_Recursive\<close>, \<open>Lincheck_Wgl\<close>, \<open>Lincheck_Dual\<close>: the three checkers, each an interpretation of
    these locales. The loop of the iterative checker is a \<open>partial_function\<close> and is proved to end.
  \<^item> \<open>Sequential_Specs\<close>, \<open>Dual_Stack_Split\<close>: the sequential specifications, interpretations of the
    locale \<open>sequential_spec\<close>; \<open>Dual_Specs\<close>, \<open>Folly_Specs\<close>, \<open>Libcoro_Specs\<close>: the dual specifications,
    interpretations of the locale \<open>dual_spec\<close>, which carry an invariant of every reachable state.
  \<^item> \<open>Workload_Policy\<close>, \<open>Strategy_Verifier\<close>: the policy records and \<open>ReservePolicyVerifier\<close>;
    \<open>Task_Verifiers\<close>: the verifiers of the targets, with the locale \<open>status_verifier\<close> for those that
    keep a status per thread.
  \<^item> \<open>Stable_Vector\<close> (stable_vector.h): the block vector that holds tasks, a refinement of lists.
  \<^item> \<open>Wmm_Event\<close>, \<open>Wmm_Graph\<close> (wmm/): events, clocks, the execution graph and its rules;
    \<open>Wmm_Consistency\<close>, \<open>Wmm_Edges\<close>, \<open>Wmm_Rules\<close>, \<open>Wmm_Coherence\<close>, \<open>Wmm_Invariant\<close>, \<open>Wmm_Operations\<close>,
    \<open>Wmm_Trial\<close>, \<open>Wmm_Execution\<close>: the acyclicity test, what every rule adds, and the invariant;
    \<open>Wmm_Safety\<close>: the properties; \<open>Latomic\<close> (latomic.h): the atomics on top of the graph.
  \<^item> \<open>Coro_Runtime\<close> (lib.h, lib.cpp, block_manager.h): coroutines and the queues of blocked ones;
    \<open>Blocking_Primitives\<close>: the locks; \<open>Lock_Protocol\<close>: their users as an inductive step relation, and the
    locale \<open>blocking_lock\<close>, which \<open>Lock_Safety\<close> interprets for the three locks.
  \<^item> \<open>Strategy_State\<close>, \<open>Strategy_Rounds\<close> (scheduler.h, os_simulator.cpp): the state and operations of
    \<open>BaseStrategyWithThreads\<close>; \<open>Strategies\<close>, \<open>Tla_Strategy\<close>: the four strategies as records of operations.
  \<^item> \<open>Scheduler_Rounds\<close>, \<open>Dual_Scheduler\<close>: the two schedulers; \<open>Minimization\<close>: the greedy minimizers.
  \<^item> \<open>Scheduler_Safety\<close>, \<open>Round_Reports\<close>: the invariant of a recorded history, and the locale
    \<open>round_strategy\<close> of what a scheduler needs of a strategy; \<open>Strategy_Contracts\<close> interprets it for the
    random, the round robin and the probabilistic strategy; \<open>Replay_Reports\<close>, \<open>Scheduler_Verdicts\<close>: replay,
    minimization, and the properties that join scheduler and checker.

  \<^bold>\<open>How state and operations correspond.\<close> A class is a record, a method a function from the state to
  the result and the new state; names are those of the source, with a prefix where several classes
  share one. A failed assertion, a bad cast and an unknown method are values of \<open>ltest_error\<close>.
  A \<open>size_t\<close> is a 64-bit word and wraps; an \<open>int\<close> is a 32-bit word where the code computes with it and an
  integer where it is only an identifier or a stored value. Hash sets are sets, hash maps are
  mappings, deques and vectors are lists. \<open>std::hash\<close> is a parameter where it is called.

  \<^bold>\<open>What is shown.\<close> Each checker decides (dual) linearizability for specifications whose methods
  return on an invariant of their states and respect the equality of the cache; the checkers agree;
  the cache never changes an answer; malformed histories and unknown methods raise the errors of the
  code. The specifications keep their invariants in every reachable state. The verifiers keep the
  prefix budget, reserve threads for progress, and make every thread follow the protocol of its lock.
  Every execution graph is coherent with an acyclic modification order. The locks exclude each other and
  lose no wake-up. What the ordinary scheduler reports is not linearizable or, where the policy says so,
  stuck with an unfinished operation, under the random, the round robin and the probabilistic strategy, and
  what minimization leaves has been reported for the same operations.
  Some lemmas record behaviour that differs from what comments and documents promise.

  \<^bold>\<open>Bounds.\<close> The search carries fuel, one unit per nested call; the length of the history plus one is
  enough because every nested call linearizes a further event, which is part of the proof. The loops of the
  schedulers carry fuel, one unit per step; the tested program decides how many steps a round takes, so
  no bound holds for all of them, and the properties speak about rounds that are over.

  \<^bold>\<open>Not modelled.\<close> What a coroutine executes between two yields, the verifier of the target and the random
  numbers of the standard library are parameters. The smart minimizer (a genetic search on floating point
  numbers), fibers, system call interception, compiler passes, command line and printing are left out.
  The tickets of the split stack, the components of vector clocks and the counters of the probabilistic
  strategy are unbounded numbers. The dual scheduler and the enumerating strategy are modelled; that what
  they report is a violation is not shown. Signed overflow of operation identifiers in hash functions and the conversion of values to
  strings are left out.
\<close>

section \<open>Example histories\<close>

text \<open>Concrete histories at which the properties below are instantiated.\<close>

definition example_task :: "nat \<Rightarrow> string \<Rightarrow> 'a \<Rightarrow> value_wrapper \<Rightarrow> 'a task" where
  "example_task n name args ret =
     \<lparr>task_slot = n, task_get = n, task_id = int n, task_name = name, task_args = args,
      task_returned = True, task_ret = ret\<rparr>"

definition channel_history :: "int \<Rightarrow> spec_args history_event list" where
  "channel_history v =
     (let send = example_task 0 ''Send'' [ArgInt 7] void_v;
          recv = example_task 1 ''Recv'' [] (wrap (AnyInt v)) in
      [Invoke recv 0, Invoke send 1, Response send void_v 1, Response recv (wrap (AnyInt v)) 0])"

definition channel_checker :: "(int list, spec_args) checker" where
  "channel_checker =
     \<lparr>specification_methods = channel_methods, first_state = [],
      state_traits = Some (BufferedChannelHash, BufferedChannelEquals)\<rparr>"

definition channel_traits :: "int list wgl_traits" where
  "channel_traits =
     \<lparr>vector_hash = (\<lambda>bs. of_nat (length (filter id bs))), object_hash = BufferedChannelHash,
      object_equal = BufferedChannelEquals\<rparr>"

abbreviation channel_results :: "string \<Rightarrow> any_type" where
  "channel_results \<equiv> \<lambda>n. if n = ''Recv'' then TInt else TVoid"

lemmas history_eval = example_task_def Let_def well_matched_def distinct_keys_def All_less_Suc Ex_less_Suc
  numeral_eq_Suc response_of_def inv_key_def rsp_key_def

lemma channel_conforms:
  "conforms task_get (response_result task_get (channel_history v)) channel_methods (int_args [''Send''])
     channel_results (channel_history v)"
  by (simp add: conforms_def channel_history_def channel_methods_def response_result_def history_eval)

lemma channel_conforms_slot:
  "conforms task_slot (task_result task_slot (channel_history v)) channel_methods (int_args [''Send''])
     channel_results (channel_history v)"
  by (simp add: conforms_def channel_history_def channel_methods_def task_result_def history_eval)

lemma channel_usable: "usable task_get (response_result task_get) (channel_checker, \<lambda>_. True, channel_history v)"
  by (rule channel.spec_usable [where val = "response_result task_get", OF _ _ channel_conforms])
    (simp_all add: channel_checker_def)

lemma channel_ready: "wgl_ready channel_traits channel_checker (\<lambda>_. True) (channel_history v)"
proof -
  have "usable task_slot (task_result task_slot) (channel_checker, \<lambda>_. True, channel_history v)"
    by (rule channel.spec_usable [where val = "task_result task_slot", OF _ _ channel_conforms_slot])
      (simp_all add: channel_checker_def)
  moreover have "task_returned (GetTask (channel_history v ! i))" if "i < 4" for i
    using that by (auto simp: channel_history_def history_eval less_Suc_eq)
  moreover have "completed_at task_slot (channel_history v) i \<noteq> None \<Longrightarrow> i < 4" for i
    by (auto simp: response_of_def channel_history_def Let_def split: if_splits)
  ultimately show ?thesis
    by (auto simp: wgl_ready_def channel_checker_def channel_traits_def)
qed

section \<open>The checkers decide linearizability\<close>

text \<open>
  C1. The recursive checker returns on every well-formed history of a usable specification, and its
  answer is whether the history is linearizable: whether its completed operations and some of its
  pending ones can be ordered consistently with real time so that the specification returns the
  recorded values.
\<close>

theorem recursive_check_correct:
  assumes "usable task_get (response_result task_get) (c, I, h)" "I (first_state c)"
  shows "RecursiveCheck c h =
    Ret (linearizable task_get (response_result task_get h) (specification_methods c) (first_state c) h)"
  using recursive.search_decides_linearizable [OF assms] RecursiveCheck_search [OF assms(1)] by simp

theorem recursive_check_correct_witness:
  "RecursiveCheck channel_checker (channel_history 7) = Ret True \<and>
   RecursiveCheck channel_checker (channel_history 8) = Ret False \<and>
   linearizable task_get (response_result task_get (channel_history 7)) channel_methods [] (channel_history 7)"
proof -
  have "RecursiveCheck channel_checker (channel_history 7) = Ret True"
    "RecursiveCheck channel_checker (channel_history 8) = Ret False"
    by code_simp+
  then show ?thesis
    using recursive_check_correct [OF channel_usable, of 7] by (simp add: channel_checker_def)
qed

text \<open>
  C2. The iterative checker with its explicit stacks terminates, never reads outside the history, and
  answers whether the history is linearizable for the values the tasks returned.
\<close>

theorem wgl_check_correct:
  assumes "wgl_ready T c I h" "I (first_state c)"
  shows "WglCheck T c h =
    Some (Ret (linearizable task_slot (task_result task_slot h) (specification_methods c) (first_state c) h))"
  using assms by (rule wgl_check_decides)

theorem wgl_check_correct_witness:
  "WglCheck channel_traits channel_checker (channel_history 7) = Some (Ret True) \<and>
   WglCheck channel_traits channel_checker (channel_history 8) = Some (Ret False) \<and>
   linearizable task_slot (task_result task_slot (channel_history 7)) channel_methods [] (channel_history 7)"
proof -
  have "WglCheck channel_traits channel_checker (channel_history 7) = Some (Ret True)"
    "WglCheck channel_traits channel_checker (channel_history 8) = Some (Ret False)"
    by code_simp+
  then show ?thesis
    using wgl_check_correct [OF channel_ready, of 7] by (simp add: channel_checker_def)
qed

section \<open>The dual checker\<close>

definition async_checker :: "(coro_async_stack, spec_args) dual_checker" where
  "async_checker =
     \<lparr>dual_methods = async_stack_methods, init_state = CoroAsyncStack,
      dual_traits = Some (CoroAsyncStackHash, CoroAsyncStackEquals)\<rparr>"

definition async_history :: "int \<Rightarrow> spec_args dual_event list" where
  "async_history v =
     (let pop = example_task 0 ''pop'' [] (wrap (AnyInt v)); push = example_task 1 ''push'' [ArgInt 7] void_v in
      [RequestInvoke pop 0, RequestResponse pop 0, OrdInvoke push 1, OrdResponse push void_v 1,
       FollowUpInvoke pop 0, FollowUpResponse pop (wrap (AnyInt v)) 0])"

lemma async_conforms:
  "dual_conforms async_stack_methods (int_args [''push'']) (\<lambda>n. if n = ''pop'' then TInt else TVoid) (async_history v)"
  by (simp add: dual_conforms_def async_history_def async_stack_methods_def dual_result_def GetNameOfEvent_def
      GetArgsOfEvent_def history_eval)

lemma async_usable: "dual_usable (async_checker, async_stack_inv, async_history v)"
  by (rule async_stack_spec.spec_usable [OF _ _ async_conforms])
    (simp_all add: async_checker_def CoroAsyncStackEquals_eq)

text \<open>
  C3. The dual checker returns on every well-formed history of requests, follow-ups and ordinary calls
  of a usable dual specification, and answers whether the history is dual linearizable: whether its
  completed phases and some of the pending ones can be ordered consistently with real time so that
  requests take effect, follow-ups are ready and every recorded value is the specification's.
\<close>

theorem dual_check_correct:
  assumes "dual_usable (c, I, h)" "I (init_state c)"
  shows "DualCheck c h = Ret (dual_linearizable (dual_methods c) (init_state c) h)"
  using assms by (rule DualCheck_decides)

theorem dual_check_correct_witness:
  "DualCheck async_checker (async_history 7) = Ret True \<and> DualCheck async_checker (async_history 8) = Ret False \<and>
   dual_linearizable async_stack_methods CoroAsyncStack (async_history 7)"
proof -
  have "DualCheck async_checker (async_history 7) = Ret True" "DualCheck async_checker (async_history 8) = Ret False"
    by code_simp+
  then show ?thesis
    using dual_check_correct [OF async_usable, of 7] by (simp add: async_checker_def async_stack_inv_def CoroAsyncStack_def)
qed







definition ready_history :: "spec_args dual_event list" where
  "ready_history =
     (let push = example_task 0 ''push'' [ArgInt 7] void_v; pop = example_task 1 ''pop'' [] void_v in
      [OrdInvoke push 0, OrdResponse push void_v 0, RequestInvoke pop 1, RequestResponse pop 1])"

text \<open>
  A completed request whose follow-up is ready but was never observed is accepted: after a completed
  push, a pop whose request is answered and that never resumes does not make the dual checker reject,
  although its follow-up returns the pushed value in the only state the history can end in.
\<close>

lemma ready_followup_accepted:
  "DualCheck async_checker ready_history = Ret True \<and>
   fst (async_FollowUpPop 1 (async_RequestPop 1 (snd (async_Push 7 CoroAsyncStack)))) = Some (wrap (AnyInt 7))"
proof
  show "DualCheck async_checker ready_history = Ret True" by code_simp
qed (simp add: async_FollowUpPop_def async_RequestPop_def async_Push_def CoroAsyncStack_def value_followup_def)

section \<open>The checkers compared\<close>

lemma completed_at_cong:
  assumes "\<forall>e\<in>set h. f (GetTask e) = g (GetTask e)"
  shows "completed_at f h = completed_at g h"
proof -
  have "inv_key f (h ! i) = inv_key g (h ! i)" "rsp_key f (h ! i) = rsp_key g (h ! i)" if "i < length h" for i
    using assms that by (simp_all add: inv_key_def rsp_key_def)
  then show ?thesis
    by (auto simp: fun_eq_iff response_of_def intro!: find_cong)
qed

text \<open>
  C11. The recursive and the iterative checker agree on every history in which a task has one address
  throughout and each response event records the value its task returned.
\<close>

theorem checkers_agree:
  assumes "usable task_get (response_result task_get) (c, I, h)" "wgl_ready T c I h" "I (first_state c)"
    "\<forall>e\<in>set h. task_slot (GetTask e) = task_get (GetTask e)"
    "\<forall>i r. completed_at task_get h i = Some r \<longrightarrow> response_value (h ! r) = Some (task_ret (GetTask (h ! i)))"
  shows "WglCheck T c h = Some (RecursiveCheck c h)"
proof -
  have at: "completed_at task_slot h = completed_at task_get h"
    by (rule completed_at_cong [OF assms(4)])
  have val: "task_result task_slot h = response_result task_get h"
    using assms(5) by (auto simp: fun_eq_iff task_result_def response_result_def at split: option.splits)
  show ?thesis
    unfolding wgl_check_decides [OF assms(2,3)] RecursiveCheck_search [OF assms(1)]
      recursive.search_decides_linearizable [OF assms(1,3)]
    by (simp add: linearizable_def linearizes_def at val)
qed

lemma channel_completed:
  assumes "completed_at task_get (channel_history v) i = Some r"
  shows "i = 0 \<and> r = 3 \<or> i = 1 \<and> r = 2"
proof -
  have wf: "well_formed task_get (channel_history v)"
    using channel_conforms [of v] by (simp add: conforms_def)
  obtain k where k: "i < r" "r < 4" "inv_key task_get (channel_history v ! i) = Some k"
    "rsp_key task_get (channel_history v ! r) = Some k"
    using response_of_eq_Some [OF wf, of i r] assms by (auto simp: channel_history_def Let_def)
  then consider "i = 0" "r = 1" | "i = 0" "r = 2" | "i = 0" "r = 3" | "i = 1" "r = 2" | "i = 1" "r = 3" | "i = 2" "r = 3"
    by linarith
  then show ?thesis
    using k(3,4) by cases (simp_all add: channel_history_def example_task_def Let_def)
qed

lemma channel_values:
  "completed_at task_get (channel_history v) i = Some r \<Longrightarrow>
   response_value (channel_history v ! r) = Some (task_ret (GetTask (channel_history v ! i)))"
  using channel_completed [of v i r] by (auto simp: channel_history_def example_task_def Let_def)

theorem checkers_agree_witness:
  "WglCheck channel_traits channel_checker (channel_history 7) = Some (RecursiveCheck channel_checker (channel_history 7))"
proof (rule checkers_agree [OF channel_usable channel_ready])
  show "\<forall>e\<in>set (channel_history 7). task_slot (GetTask e) = task_get (GetTask e)"
    by (simp add: channel_history_def example_task_def Let_def)
qed (simp_all add: channel_values)

text \<open>
  C12. The hash and equality of the state only speed up the recursive checker: it gives the same answer
  as without them, whatever the hash function is, provided the methods respect the equality.
\<close>

theorem state_cache_irrelevant:
  assumes "usable task_get (response_result task_get) (c, I, h)" "I (first_state c)"
  shows "RecursiveCheck c h = RecursiveCheck (c\<lparr>state_traits := None\<rparr>) h"
proof -
  have "usable task_get (response_result task_get) (c\<lparr>state_traits := None\<rparr>, I, h)"
    using assms(1) by (simp add: usable_def)
  from recursive.search_decides_linearizable [OF this] RecursiveCheck_search [OF this]
    recursive.search_decides_linearizable [OF assms] RecursiveCheck_search [OF assms(1)]
  show ?thesis using assms(2) by simp
qed

theorem state_cache_irrelevant_witness:
  "RecursiveCheck channel_checker (channel_history 8) = RecursiveCheck (channel_checker\<lparr>state_traits := None\<rparr>) (channel_history 8)"
  by (rule state_cache_irrelevant [OF channel_usable]) simp

section \<open>Matching events and errors\<close>

text \<open>
  C15. The map from invocations to responses is exact on a well-formed history: an invocation is mapped to
  an index if and only if the event there is a later response of the same task.
\<close>

theorem inv_res_mapping_exact:
  assumes "well_formed task_slot h"
  shows "\<exists>m. get_inv_res_mapping h = Ret m \<and>
    (\<forall>i r. m i = Some r \<longleftrightarrow> (\<exists>k. i < r \<and> r < length h \<and> inv_key task_slot (h ! i) = Some k \<and> rsp_key task_slot (h ! r) = Some k))"
  using get_inv_res_mapping_correct [OF assms] response_of_eq_Some [OF assms] by simp

theorem inv_res_mapping_exact_witness:
  "\<exists>m. get_inv_res_mapping (channel_history 7) = Ret m \<and> m 0 = Some 3 \<and> m 1 = Some 2"
proof -
  have "well_formed task_slot (channel_history 7)"
    using channel_conforms_slot [of 7] by (simp add: conforms_def)
  from inv_res_mapping_exact [OF this] show ?thesis
    by (auto simp: channel_history_def example_task_def Let_def)
qed

text \<open>
  C37. A response that no invocation of its task precedes fails the assertion of \<open>get_inv_res_mapping\<close>.
\<close>

theorem unmatched_response_asserts:
  assumes "j < length h" "rsp_key task_slot (h ! j) = Some k" "\<forall>l<j. inv_key task_slot (h ! l) \<noteq> Some k"
  shows "get_inv_res_mapping h = Exn AssertionFailure"
  using inv_res_loop_unmatched [of 0 h Map.empty Map.empty k j] assms by (auto simp: get_inv_res_mapping_def)

theorem unmatched_response_asserts_witness:
  "get_inv_res_mapping [Response (example_task 0 ''Send'' () void_v) void_v 0] = Exn AssertionFailure"
  by (rule unmatched_response_asserts [of 0 _ 0]) (simp_all add: example_task_def)

text \<open>
  C16. A history that invokes a method the specification does not have makes the recursive checker raise
  the error that names such a method, before any search.
\<close>

theorem unknown_method_raises:
  assumes "well_formed task_get h" "i < length h" "is_invoke_event (h ! i)"
    "specification_methods c (task_name (GetTask (h ! i))) = None"
  shows "\<exists>j<length h. is_invoke_event (h ! j) \<and> specification_methods c (task_name (GetTask (h ! j))) = None \<and>
    RecursiveCheck c h = Exn (NoMethod (task_name (GetTask (h ! j))))"
proof -
  let ?evs = "BuildRecursiveHistoryEventInfo h"
  have "?evs ! i \<in> set ?evs" "is_invoke (?evs ! i)" "specification_methods c (ev_name (?evs ! i)) = None"
    using assms by (simp_all add: event_info_fields)
  then obtain ev where ev: "ev \<in> set ?evs" "is_invoke ev" "specification_methods c (ev_name ev) = None"
    "resolve_methods (specification_methods c) ?evs = Exn (NoMethod (ev_name ev))"
    using resolve_methods_missing by blast
  then obtain j where "j < length h" "ev = ?evs ! j"
    using assms(1) by (auto simp: in_set_conv_nth)
  then show ?thesis
    using ev assms(1) by (auto simp: event_info_fields RecursiveCheck_def)
qed

theorem unknown_method_raises_witness:
  "RecursiveCheck channel_checker [Invoke (example_task 0 ''Close'' [] void_v) 0] = Exn (NoMethod ''Close'')"
  using unknown_method_raises [of "[Invoke (example_task 0 ''Close'' [] void_v) 0]" 0 channel_checker]
  by (simp add: channel_checker_def channel_methods_def well_matched_def distinct_keys_def example_task_def)

text \<open>
  C17. The table of the dual checker links every invocation of a phase to the response of the same phase
  of the same task, and to no other event.
\<close>

theorem dual_table_exact:
  assumes "dual_well_formed h" "i < length h"
  shows "dual_response_index (BuildDualHistoryEventInfo h ! i) = Some r \<longleftrightarrow>
    (\<exists>k. i < r \<and> r < length h \<and> dual_inv_key (h ! i) = Some k \<and> dual_rsp_key (h ! r) = Some k)"
  unfolding dual_info_fields(8) [OF assms] by (rule response_of_eq_Some [OF assms(1)])

theorem dual_table_exact_witness:
  "dual_response_index (BuildDualHistoryEventInfo (async_history 7) ! 0) = Some 1"
proof -
  have "dual_well_formed (async_history 7)"
    using async_conforms [of 7] by (simp add: dual_conforms_def)
  from dual_table_exact [OF this, of 0 1] show ?thesis
    by (simp add: async_history_def example_task_def Let_def)
qed

end
